(* ===== verification/Prelude.thy ===== *)
theory Prelude
  imports Main "HOL-Library.Word"
begin

text \<open>
  What every component shares: the Rust integer types at their widths, results that can also
  be a panic, big-endian encodings, byte readers and writers, cursors, UTF-8 strings, and the
  codec interface.

  \<^item> A Rust \<open>Result<T, E>\<close> of a function that can also panic is \<open>('a, 'e) outcome\<close>;
    \<open>and_then\<close> is the \<open>?\<close> operator.
  \<^item> A Rust \<open>String\<close> is its UTF-8 bytes, as an Isabelle \<^typ>\<open>string\<close> (a \<^typ>\<open>char\<close> is a byte);
    \<open>valid_str\<close> says the bytes are well-formed UTF-8, which the type guarantees in Rust.
  \<^item> An \<open>AsyncRead\<close> that is awaited to completion is the bytes it will still deliver and how it
    ends (end of file, or an I/O error).
\<close>

section \<open>Automation collections\<close>

named_theorems outcome_simps \<open>inversion of sequenced outcomes\<close>
named_theorems codec_simps \<open>evaluation of readers on written prefixes\<close>

section \<open>Integers and outcomes\<close>

type_synonym u8 = "8 word"
type_synonym u16 = "16 word"
type_synonym u32 = "32 word"
type_synonym u64 = "64 word"
type_synonym u128 = "128 word"
type_synonym bytes = "u8 list"

datatype ('a, 'e) outcome = Ok 'a | Err 'e | Panic

primrec and_then :: "('a, 'e) outcome \<Rightarrow> ('a \<Rightarrow> ('b, 'e) outcome) \<Rightarrow> ('b, 'e) outcome" where
  "and_then (Ok x) f = f x"
| "and_then (Err e) f = Err e"
| "and_then Panic f = Panic"

primrec map_err :: "('e \<Rightarrow> 'f) \<Rightarrow> ('a, 'e) outcome \<Rightarrow> ('a, 'f) outcome" where
  "map_err g (Ok x) = Ok x"
| "map_err g (Err e) = Err (g e)"
| "map_err g Panic = Panic"

definition rust_assert :: "bool \<Rightarrow> (unit, 'e) outcome" where
  "rust_assert b = (if b then Ok () else Panic)"

lemma and_then_Ok_iff [outcome_simps]:
  "and_then m f = Ok y \<longleftrightarrow> (\<exists>x. m = Ok x \<and> f x = Ok y)"
  by (cases m) auto

lemma and_then_Err_iff [outcome_simps]:
  "and_then m f = Err e \<longleftrightarrow> m = Err e \<or> (\<exists>x. m = Ok x \<and> f x = Err e)"
  by (cases m) auto

lemma and_then_Panic_iff [outcome_simps]:
  "and_then m f = Panic \<longleftrightarrow> m = Panic \<or> (\<exists>x. m = Ok x \<and> f x = Panic)"
  by (cases m) auto

lemma map_err_Ok_iff [outcome_simps]: "map_err g m = Ok y \<longleftrightarrow> m = Ok y"
  by (cases m) auto

lemma map_err_Err_iff [outcome_simps]: "map_err g m = Err y \<longleftrightarrow> (\<exists>e. m = Err e \<and> y = g e)"
  by (cases m) auto

lemma map_err_Panic_iff [outcome_simps]: "map_err g m = Panic \<longleftrightarrow> m = Panic"
  by (cases m) auto

lemma and_then_OkE:
  assumes "and_then m f = Ok y"
  obtains x where "m = Ok x" "f x = Ok y"
  using assms by (auto simp: and_then_Ok_iff)

lemma and_then_assoc: "and_then (and_then m f) g = and_then m (\<lambda>x. and_then (f x) g)"
  by (cases m) auto

lemma rust_assert_iff [outcome_simps, simp]:
  "rust_assert b = Ok u \<longleftrightarrow> b" "rust_assert b = Panic \<longleftrightarrow> \<not> b" "rust_assert b \<noteq> Err e"
  by (auto simp: rust_assert_def)

lemma rust_assert_True [simp]: "rust_assert True = Ok ()"
  by (simp add: rust_assert_def)

section \<open>Lists of a known length\<close>

lemma length_1E: "length xs = Suc 0 \<Longrightarrow> (\<And>a. xs = [a] \<Longrightarrow> P) \<Longrightarrow> P"
  by (auto simp: length_Suc_conv)

lemma length_2E: "length xs = 2 \<Longrightarrow> (\<And>a b. xs = [a, b] \<Longrightarrow> P) \<Longrightarrow> P"
  by (auto simp: numeral_eq_Suc length_Suc_conv)

lemma length_3E: "length xs = 3 \<Longrightarrow> (\<And>a b c. xs = [a, b, c] \<Longrightarrow> P) \<Longrightarrow> P"
  by (auto simp: numeral_eq_Suc length_Suc_conv)

lemma length_4E: "length xs = 4 \<Longrightarrow> (\<And>a b c d. xs = [a, b, c, d] \<Longrightarrow> P) \<Longrightarrow> P"
  by (auto simp: numeral_eq_Suc length_Suc_conv)

lemma length_6E: "length xs = 6 \<Longrightarrow> (\<And>a b c d e f. xs = [a, b, c, d, e, f] \<Longrightarrow> P) \<Longrightarrow> P"
  by (auto simp: numeral_eq_Suc length_Suc_conv)

lemma length_8E:
  "length xs = 8 \<Longrightarrow> (\<And>a b c d e f g h. xs = [a, b, c, d, e, f, g, h] \<Longrightarrow> P) \<Longrightarrow> P"
  by (auto simp: numeral_eq_Suc length_Suc_conv)

section \<open>Big-endian bytes\<close>

text \<open>\<open>put_u16\<close>, \<open>put_u64\<close>, \<open>octets\<close>: the \<open>n\<close> low bytes of a word, most significant first.\<close>

primrec to_be :: "nat \<Rightarrow> 'a::len word \<Rightarrow> bytes" where
  "to_be 0 w = []"
| "to_be (Suc n) w = ucast (drop_bit (8 * n) w) # to_be n w"

primrec be_nat :: "bytes \<Rightarrow> nat" where
  "be_nat [] = 0"
| "be_nat (b # bs) = unat b * 256 ^ length bs + be_nat bs"

text \<open>\<open>get_u16\<close>, \<open>from_be_bytes\<close>: bytes read as one big-endian number.\<close>

definition from_be :: "bytes \<Rightarrow> 'a::len word" where
  "from_be bs = word_of_nat (be_nat bs)"

lemma length_to_be [simp]: "length (to_be n w) = n"
  by (induction n) auto

lemma be_nat_less: "be_nat bs < 256 ^ length bs"
proof (induction bs)
  case Nil
  then show ?case by simp
next
  case (Cons b bs)
  have "unat b < 256" using unsigned_less [of b] by simp
  then have "(unat b + 1) * 256 ^ length bs \<le> 256 * 256 ^ length bs"
    by (intro mult_le_mono1) simp
  then have "unat b * 256 ^ length bs + 256 ^ length bs \<le> 256 ^ length (b # bs)"
    by (simp del: One_nat_def add: distrib_right)
  with Cons show ?case unfolding be_nat.simps by linarith
qed

lemma unat_byte_of: "unat (ucast (drop_bit (8 * n) w) :: u8) = unat w div 256 ^ n mod 256"
proof -
  have "unat (ucast (drop_bit (8 * n) w) :: u8) = unat (drop_bit (8 * n) w) mod 256"
    by (simp add: unsigned_ucast_eq take_bit_eq_mod)
  also have "unat (drop_bit (8 * n) w) = unat w div 2 ^ (8 * n)"
    by (simp only: unat_drop_bit_eq) (simp add: drop_bit_eq_div)
  finally show ?thesis by (simp add: power_mult)
qed

lemma be_nat_to_be: "be_nat (to_be n w) = unat w mod 256 ^ n"
proof (induction n)
  case 0
  then show ?case by simp
next
  case (Suc n)
  have "unat w mod 256 ^ Suc n = 256 ^ n * (unat w div 256 ^ n mod 256) + unat w mod 256 ^ n"
    unfolding power_Suc2 mod_mult2_eq ..
  with Suc show ?case by (simp only: to_be.simps be_nat.simps length_to_be unat_byte_of) (simp add: mult.commute)
qed

lemma from_be_to_be [simp]:
  assumes "LENGTH('a) \<le> 8 * n"
  shows "from_be (to_be n (w :: 'a::len word)) = w"
proof -
  have "unat w < 2 ^ LENGTH('a)" by (rule unsigned_less)
  also have "(2::nat) ^ LENGTH('a) \<le> 2 ^ (8 * n)" using assms by (intro power_increasing) auto
  finally have "unat w < 256 ^ n" by (simp add: power_mult)
  then show ?thesis by (simp add: from_be_def be_nat_to_be)
qed

lemma be_nat_inj: "length bs = length cs \<Longrightarrow> be_nat bs = be_nat cs \<Longrightarrow> bs = cs"
proof (induction bs cs rule: list_induct2)
  case Nil
  then show ?case by simp
next
  case (Cons b bs c cs)
  let ?B = "256 ^ length cs :: nat"
  have lt: "be_nat bs < ?B" "be_nat cs < ?B" using be_nat_less Cons.hyps by metis+
  have eq: "unat b * ?B + be_nat bs = unat c * ?B + be_nat cs" using Cons by simp
  have "(unat b * ?B + be_nat bs) div ?B = (unat c * ?B + be_nat cs) div ?B" using eq by simp
  then have "unat b = unat c" using lt by simp
  moreover from this eq have "be_nat bs = be_nat cs" by simp
  ultimately show ?case using Cons.IH by (simp add: word_unat_eq_iff)
qed

lemma to_be_from_be [simp]:
  assumes "length bs = n" and "8 * n \<le> LENGTH('a::len)"
  shows "to_be n (from_be bs :: 'a word) = bs"
proof (rule be_nat_inj)
  have "be_nat bs < 2 ^ (8 * n)" using be_nat_less [of bs] assms by (simp add: power_mult)
  also have "(2::nat) ^ (8 * n) \<le> 2 ^ LENGTH('a)" using assms by (intro power_increasing) auto
  finally have "unat (from_be bs :: 'a word) = be_nat bs"
    by (simp add: from_be_def unat_of_nat take_bit_nat_eq_self)
  then show "be_nat (to_be n (from_be bs :: 'a word)) = be_nat bs"
    using be_nat_less [of bs] assms by (simp add: be_nat_to_be)
qed (use assms in simp)

lemma to_be_inject:
  assumes "LENGTH('a) \<le> 8 * n"
  shows "to_be n (v :: 'a::len word) = to_be n w \<longleftrightarrow> v = w"
  using from_be_to_be [OF assms] by metis

lemma from_be_to_be_2: "from_be [to_be 2 w ! 0, to_be 2 w ! 1] = (w :: u16)"
proof (rule length_2E [OF length_to_be [of 2 w]])
  fix a b
  assume "to_be 2 w = [a, b]"
  then show ?thesis using from_be_to_be [of 2 w] by simp
qed

lemma unat_of_nat_byte: "n < 256 \<Longrightarrow> unat (of_nat n :: u8) = n"
  by (simp add: unat_of_nat take_bit_nat_eq_self)

section \<open>Strings\<close>

text \<open>\<open>str::as_bytes\<close> and \<open>String::from_utf8\<close>, with the standard library's UTF-8 validation.\<close>

definition as_bytes :: "string \<Rightarrow> bytes" where
  "as_bytes s = map of_char s"

definition of_bytes :: "bytes \<Rightarrow> string" where
  "of_bytes bs = map (\<lambda>b. char_of (unat b)) bs"

definition utf8_cont :: "u8 \<Rightarrow> bool" where
  "utf8_cont b \<longleftrightarrow> 0x80 \<le> b \<and> b \<le> 0xBF"

fun utf8_valid :: "bytes \<Rightarrow> bool" where
  "utf8_valid [] = True"
| "utf8_valid (b # bs) =
     (if b < 0x80 then utf8_valid bs
      else if 0xC2 \<le> b \<and> b \<le> 0xDF then
        (case bs of c1 # r \<Rightarrow> utf8_cont c1 \<and> utf8_valid r | _ \<Rightarrow> False)
      else if 0xE0 \<le> b \<and> b \<le> 0xEF then
        (case bs of c1 # c2 # r \<Rightarrow>
           utf8_cont c1 \<and> (b = 0xE0 \<longrightarrow> 0xA0 \<le> c1) \<and> (b = 0xED \<longrightarrow> c1 \<le> 0x9F) \<and>
           utf8_cont c2 \<and> utf8_valid r | _ \<Rightarrow> False)
      else if 0xF0 \<le> b \<and> b \<le> 0xF4 then
        (case bs of c1 # c2 # c3 # r \<Rightarrow>
           utf8_cont c1 \<and> (b = 0xF0 \<longrightarrow> 0x90 \<le> c1) \<and> (b = 0xF4 \<longrightarrow> c1 \<le> 0x8F) \<and>
           utf8_cont c2 \<and> utf8_cont c3 \<and> utf8_valid r | _ \<Rightarrow> False)
      else False)"

definition valid_str :: "string \<Rightarrow> bool" where
  "valid_str s \<longleftrightarrow> utf8_valid (as_bytes s)"

definition from_utf8 :: "bytes \<Rightarrow> string option" where
  "from_utf8 bs = (if utf8_valid bs then Some (of_bytes bs) else None)"

lemma of_char_byte: "unat (of_char c :: u8) = of_char c"
proof -
  have "(of_char c :: nat) < 256" by (cases c) (simp add: of_char_def)
  moreover have "(of_char c :: u8) = of_nat (of_char c)" by (cases c) (simp add: of_char_def)
  ultimately show ?thesis by (simp add: unat_of_nat_byte)
qed

lemma of_bytes_as_bytes [simp]: "of_bytes (as_bytes s) = s"
  by (simp add: of_bytes_def as_bytes_def of_char_byte map_idI)

lemma as_bytes_of_bytes [simp]: "as_bytes (of_bytes bs) = bs"
proof -
  have "of_char (char_of (unat b) :: char) = b" for b :: u8
  proof (rule word_unat_eq_iff [THEN iffD2])
    have "unat b < 256" using unsigned_less [of b] by simp
    then show "unat (of_char (char_of (unat b) :: char) :: u8) = unat b"
      by (simp add: of_char_byte)
  qed
  then show ?thesis by (simp add: of_bytes_def as_bytes_def map_idI)
qed

lemma as_bytes_simps [simp]:
  "as_bytes [] = []" "as_bytes (c # s) = of_char c # as_bytes s"
  "as_bytes (s @ t) = as_bytes s @ as_bytes t" "length (as_bytes s) = length s"
  by (simp_all add: as_bytes_def)

lemma as_bytes_inject [simp]: "as_bytes s = as_bytes t \<longleftrightarrow> s = t"
  by (metis of_bytes_as_bytes)

lemma length_of_bytes [simp]: "length (of_bytes bs) = length bs"
  by (simp add: of_bytes_def)

lemma from_utf8_as_bytes [codec_simps]: "valid_str s \<Longrightarrow> from_utf8 (as_bytes s) = Some s"
  by (simp add: from_utf8_def valid_str_def)

lemma from_utf8_Some:
  "from_utf8 bs = Some s \<longleftrightarrow> valid_str s \<and> bs = as_bytes s"
  by (auto simp: from_utf8_def valid_str_def)

text \<open>ASCII text is valid UTF-8.\<close>

lemma utf8_valid_ascii: "\<forall>b \<in> set bs. b < 0x80 \<Longrightarrow> utf8_valid bs"
  by (induction bs) auto

section \<open>Readers, writers and cursors\<close>

datatype io_kind = UnexpectedEof | ConnectionRefused | WriteZero | TimedOut | OtherError | IoKind nat

text \<open>How a byte source ends once its bytes are consumed.\<close>

datatype rd_end = Eof | Fail io_kind

type_synonym reader = "bytes \<times> rd_end"

text \<open>\<open>AsyncReadExt::read_exact\<close> on a buffer of \<open>n\<close> bytes.\<close>

definition read_exact :: "nat \<Rightarrow> reader \<Rightarrow> (bytes \<times> reader, io_kind) outcome" where
  "read_exact n r =
     (if n \<le> length (fst r) then Ok (take n (fst r), (drop n (fst r), snd r))
      else Err (case snd r of Eof \<Rightarrow> UnexpectedEof | Fail k \<Rightarrow> k))"

text \<open>
  \<open>AsyncBufReadExt::read_until\<close>: the bytes up to and including the delimiter, or all bytes when
  the source ends first.
\<close>

fun split_until :: "u8 \<Rightarrow> bytes \<Rightarrow> bytes \<times> bytes option" where
  "split_until d [] = ([], None)"
| "split_until d (b # bs) =
     (if b = d then ([b], Some bs) else (let (p, q) = split_until d bs in (b # p, q)))"

definition read_until :: "u8 \<Rightarrow> reader \<Rightarrow> (bytes \<times> reader, io_kind) outcome" where
  "read_until d r = (case split_until d (fst r) of
     (p, Some q) \<Rightarrow> Ok (p, (q, snd r))
   | (p, None) \<Rightarrow> (case snd r of Eof \<Rightarrow> Ok (p, ([], Eof)) | Fail k \<Rightarrow> Err k))"

text \<open>\<open>AsyncWriteExt::write_all\<close>: a sink that accepts all bytes, or fails after some of them.\<close>

record writer =
  wr_out :: bytes
  wr_fail :: "(nat \<times> io_kind) option"

definition write_all :: "bytes \<Rightarrow> writer \<Rightarrow> (writer, io_kind) outcome" where
  "write_all bs w = (case wr_fail w of
     None \<Rightarrow> Ok (w\<lparr>wr_out := wr_out w @ bs\<rparr>)
   | Some (k, e) \<Rightarrow>
       if length bs \<le> k then Ok (w\<lparr>wr_out := wr_out w @ bs, wr_fail := Some (k - length bs, e)\<rparr>)
       else Err e)"

text \<open>\<open>io::Cursor\<close> with the \<open>Buf\<close> accessors, which panic when too few bytes remain.\<close>

type_synonym cursor = "bytes \<times> nat"

text \<open>The bytes not yet read (\<open>chunk\<close>), and \<open>Buf::advance\<close> without its bound check.\<close>

definition cur_rest :: "cursor \<Rightarrow> bytes" where
  "cur_rest c = drop (snd c) (fst c)"

definition cur_adv :: "nat \<Rightarrow> cursor \<Rightarrow> cursor" where
  "cur_adv n c = (fst c, snd c + n)"

definition cur_remaining :: "cursor \<Rightarrow> nat" where
  "cur_remaining c = length (fst c) - snd c"

definition cur_get :: "nat \<Rightarrow> cursor \<Rightarrow> (bytes \<times> cursor, 'e) outcome" where
  "cur_get n c =
     (if n \<le> cur_remaining c then Ok (take n (cur_rest c), cur_adv n c) else Panic)"

lemma cur_remaining_rest [simp]: "cur_remaining c = length (cur_rest c)"
  by (simp add: cur_remaining_def cur_rest_def)

lemma cur_rest_adv [simp]: "cur_rest (cur_adv n c) = drop n (cur_rest c)"
  by (simp add: cur_rest_def cur_adv_def add.commute)

lemma cur_adv_adv [simp]: "cur_adv n (cur_adv m c) = cur_adv (m + n) c"
  by (simp add: cur_adv_def)

lemma cur_adv_proj [simp]: "fst (cur_adv n c) = fst c" "snd (cur_adv n c) = snd c + n"
  by (simp_all add: cur_adv_def)

lemma cur_get_Ok_iff [outcome_simps]:
  "cur_get n c = Ok (p, c') \<longleftrightarrow>
     n \<le> length (cur_rest c) \<and> p = take n (cur_rest c) \<and> c' = cur_adv n c"
  by (auto simp: cur_get_def)

lemma cur_get_Panic_iff [outcome_simps]: "cur_get n c = Panic \<longleftrightarrow> length (cur_rest c) < n"
  by (auto simp: cur_get_def)

lemma cur_get_not_Err [outcome_simps, simp]: "cur_get n c \<noteq> Err e"
  by (simp add: cur_get_def)

lemma read_exact_append [codec_simps, simp]:
  "length p = n \<Longrightarrow> read_exact n (p @ q, e) = Ok (p, (q, e))"
  by (simp add: read_exact_def)

lemma read_exact_Cons [codec_simps, simp]:
  "read_exact (Suc 0) (b # q, e) = Ok ([b], (q, e))"
  by (simp add: read_exact_def)

lemma read_exact_Ok_iff:
  "read_exact n r = Ok (p, r') \<longleftrightarrow>
     length p = n \<and> fst r = p @ fst r' \<and> snd r' = snd r"
  by (cases r; cases r') (auto simp: read_exact_def)

lemma read_exact_not_Panic [simp]: "read_exact n r \<noteq> Panic"
  by (simp add: read_exact_def)

lemma split_until_append:
  "d \<notin> set p \<Longrightarrow> split_until d (p @ d # q) = (p @ [d], Some q)"
  by (induction p) auto

lemma read_until_append [codec_simps]:
  "d \<notin> set p \<Longrightarrow> read_until d (p @ d # q, e) = Ok (p @ [d], (q, e))"
  by (simp add: read_until_def split_until_append)

section \<open>Self-delimiting codecs\<close>

text \<open>
  The contract between a message's writer and its reader: on every well-formed message the
  writer produces bytes, and the reader, given these bytes followed by anything, returns the
  message and leaves exactly what followed.
\<close>

text \<open>Reading \<open>n\<close> messages in a row, and writing a list of them.\<close>

fun read_many :: "(reader \<Rightarrow> ('a \<times> reader, 'e) outcome) \<Rightarrow> nat \<Rightarrow> reader \<Rightarrow> ('a list \<times> reader, 'e) outcome" where
  "read_many rd 0 r = Ok ([], r)"
| "read_many rd (Suc n) r =
     and_then (rd r) (\<lambda>(x, r). and_then (read_many rd n r) (\<lambda>(xs, r). Ok (x # xs, r)))"

fun write_many :: "('a \<Rightarrow> (bytes, 'f) outcome) \<Rightarrow> 'a list \<Rightarrow> (bytes, 'f) outcome" where
  "write_many wr [] = Ok []"
| "write_many wr (x # xs) =
     and_then (wr x) (\<lambda>b. and_then (write_many wr xs) (\<lambda>bs. Ok (b @ bs)))"

locale codec =
  fixes wr :: "'a \<Rightarrow> (bytes, 'f) outcome"
    and rd :: "reader \<Rightarrow> ('a \<times> reader, 'e) outcome"
    and wf :: "'a \<Rightarrow> bool"
  assumes wr_total: "wf x \<Longrightarrow> \<exists>bs. wr x = Ok bs"
    and rd_wr: "wf x \<Longrightarrow> wr x = Ok bs \<Longrightarrow> rd (bs @ rest, e) = Ok (x, (rest, e))"
begin

lemma prefix_free:
  assumes "wf x" "wf y" "wr x = Ok bs" "wr y = Ok cs" "bs @ r = cs @ s"
  shows "x = y \<and> r = s"
  using rd_wr [OF assms(1,3), of r Eof] rd_wr [OF assms(2,4), of s Eof] assms(5) by simp

lemma wr_inject: "wf x \<Longrightarrow> wf y \<Longrightarrow> wr x = Ok bs \<Longrightarrow> wr y = Ok bs \<Longrightarrow> x = y"
  using prefix_free [of x y bs bs "[]" "[]"] by simp

lemma many_total: "\<forall>x \<in> set xs. wf x \<Longrightarrow> \<exists>bs. write_many wr xs = Ok bs"
  by (induction xs) (auto dest!: wr_total)

lemma read_many_write_many:
  "\<forall>x \<in> set xs. wf x \<Longrightarrow> write_many wr xs = Ok bs \<Longrightarrow>
   read_many rd (length xs) (bs @ rest, e) = Ok (xs, (rest, e))"
proof (induction xs arbitrary: bs)
  case Nil
  then show ?case by simp
next
  case (Cons x xs)
  from Cons.prems(2) obtain b bs' where
    b: "wr x = Ok b" and bs': "write_many wr xs = Ok bs'" and bs: "bs = b @ bs'"
    by (auto simp: outcome_simps)
  have "rd (b @ (bs' @ rest), e) = Ok (x, (bs' @ rest, e))"
    using Cons.prems(1) b by (intro rd_wr) auto
  moreover have "read_many rd (length xs) (bs' @ rest, e) = Ok (xs, (rest, e))"
    using Cons.prems(1) bs' by (intro Cons.IH) auto
  ultimately show ?case by (simp add: bs)
qed

end

end
