(* ===== verification/Net_Addr.thy ===== *)
theory Net_Addr
  imports Prelude "HOL-Library.Product_Lexorder" "HOL-Library.List_Lexorder" "HOL-Library.Char_ord"
begin

text \<open>
  The socket addresses of the Rust standard library, as far as the code uses them: an IPv4
  address is a 32-bit word and an IPv6 address a 128-bit word, both in the order of
  \<open>Ipv4Addr::from(u32)\<close> and \<open>Ipv6Addr::from(u128)\<close>; a \<open>SocketAddrV6\<close> also carries a flow label
  and a scope id, which no wire format of the repository transmits.
\<close>

type_synonym ipv4_addr = u32
type_synonym ipv6_addr = u128

datatype ip_addr = IpV4 ipv4_addr | IpV6 ipv6_addr

datatype socket_addr =
    SockV4 ipv4_addr u16
  | SockV6 ipv6_addr u16 u32 u32 \<comment> \<open>address, port, flowinfo, scope id\<close>

fun sock_ip :: "socket_addr \<Rightarrow> ip_addr" where
  "sock_ip (SockV4 a p) = IpV4 a"
| "sock_ip (SockV6 a p f s) = IpV6 a"

fun sock_port :: "socket_addr \<Rightarrow> u16" where
  "sock_port (SockV4 a p) = p"
| "sock_port (SockV6 a p f s) = p"

text \<open>\<open>Ipv4Addr::octets\<close>, \<open>Ipv4Addr::new\<close>, \<open>Ipv6Addr::segments\<close>, \<open>Ipv6Addr::new\<close>.\<close>

definition ipv4_octets :: "ipv4_addr \<Rightarrow> bytes" where
  "ipv4_octets a = to_be 4 a"

definition ipv4_new :: "u8 \<Rightarrow> u8 \<Rightarrow> u8 \<Rightarrow> u8 \<Rightarrow> ipv4_addr" where
  "ipv4_new a b c d = from_be [a, b, c, d]"

definition ipv6_segments :: "ipv6_addr \<Rightarrow> u16 list" where
  "ipv6_segments a = map (\<lambda>i. from_be (take 2 (drop (2 * i) (to_be 16 a)))) [0..<8]"

definition ipv6_new :: "u16 list \<Rightarrow> ipv6_addr" where
  "ipv6_new segs = from_be (concat (map (to_be 2) segs))"

text \<open>\<open>Ipv4Addr::to_ipv6_mapped\<close> (\<open>::ffff:a.b.c.d\<close>) and \<open>Ipv6Addr::to_ipv4_mapped\<close>.\<close>

definition to_ipv6_mapped :: "ipv4_addr \<Rightarrow> ipv6_addr" where
  "to_ipv6_mapped a = from_be (replicate 10 0 @ [0xFF, 0xFF] @ to_be 4 a)"

definition to_ipv4_mapped :: "ipv6_addr \<Rightarrow> ipv4_addr option" where
  "to_ipv4_mapped a =
     (let o16 = to_be 16 a in
      if take 12 o16 = replicate 10 0 @ [0xFF, 0xFF] then Some (from_be (drop 12 o16)) else None)"

lemma length_ipv4_octets [simp]: "length (ipv4_octets a) = 4"
  by (simp add: ipv4_octets_def)

lemma length_ipv6_segments [simp]: "length (ipv6_segments a) = 8"
  by (simp add: ipv6_segments_def)

lemma from_be_octets [simp]: "from_be (ipv4_octets a) = a"
  by (simp add: ipv4_octets_def)

text \<open>Splitting an even byte string into big-endian pairs and writing the pairs back.\<close>

lemma pairs_roundtrip:
  "length bs = 2 * n \<Longrightarrow>
   concat (map (to_be 2 \<circ> (\<lambda>i. from_be (take 2 (drop (2 * i) bs)) :: u16)) [0..<n]) = bs"
proof (induction n arbitrary: bs)
  case 0
  then show ?case by simp
next
  case (Suc n)
  let ?f = "\<lambda>bs i. to_be 2 (from_be (take 2 (drop (2 * i) bs)) :: u16)"
  have "concat (map (?f bs) [0..<Suc n]) = concat (map (?f bs) [0..<n]) @ ?f bs n"
    by simp
  also have "map (?f bs) [0..<n] = map (?f (take (2 * n) bs)) [0..<n]"
  proof (rule map_cong)
    fix i assume "i \<in> set [0..<n]"
    then have "take 2 (drop (2 * i) (take (2 * n) bs)) = take 2 (drop (2 * i) bs)"
      by (simp add: take_drop min_def)
    then show "?f bs i = ?f (take (2 * n) bs) i" by simp
  qed simp
  also have "concat (map (?f (take (2 * n) bs)) [0..<n]) = take (2 * n) bs"
    using Suc.IH [of "take (2 * n) bs"] Suc.prems by (simp add: comp_def)
  also have "?f bs n = drop (2 * n) bs" using Suc.prems by simp
  finally show ?case by (simp add: comp_def)
qed

lemma concat_segments: "concat (map (to_be 2) (ipv6_segments a)) = to_be 16 a"
  using pairs_roundtrip [of "to_be 16 a" 8] by (simp add: ipv6_segments_def)

lemma ipv6_new_segments [simp]: "ipv6_new (ipv6_segments a) = a"
  by (simp add: ipv6_new_def concat_segments)

text \<open>Reading nine raw pairs as \<open>[u16; 9]\<close> and converting each is reading the bytes in order.\<close>

lemma ipv6_new_pairs:
  assumes "length bs = 16"
  shows "ipv6_new (map (\<lambda>i. from_be (take 2 (drop (2 * i) bs))) [0..<8]) = from_be bs"
  using pairs_roundtrip [of bs 8] assms by (simp add: ipv6_new_def)

lemma ipv4_mapped_roundtrip [simp]: "to_ipv4_mapped (to_ipv6_mapped a) = Some a"
proof -
  have "to_be 16 (to_ipv6_mapped a) = (replicate 10 0 @ [0xFF, 0xFF]) @ to_be 4 a"
    unfolding to_ipv6_mapped_def by (subst to_be_from_be) simp_all
  then show ?thesis
    by (simp only: to_ipv4_mapped_def Let_def) (simp del: append_assoc)
qed

lemma to_ipv4_mapped_Some: "to_ipv4_mapped b = Some a \<longleftrightarrow> b = to_ipv6_mapped a"
proof
  assume "to_ipv4_mapped b = Some a"
  then have pre: "take 12 (to_be 16 b) = replicate 10 0 @ [0xFF, 0xFF]"
    and suf: "a = from_be (drop 12 (to_be 16 b))"
    by (auto simp: to_ipv4_mapped_def Let_def split: if_splits)
  have "to_be 16 b = take 12 (to_be 16 b) @ drop 12 (to_be 16 b)"
    by (simp only: append_take_drop_id)
  also have "\<dots> = replicate 10 0 @ [0xFF, 0xFF] @ to_be 4 a"
    by (simp only: pre suf append_assoc) simp
  finally have "from_be (to_be 16 b) = to_ipv6_mapped a"
    by (simp only: to_ipv6_mapped_def)
  then show "b = to_ipv6_mapped a" by simp
qed simp

end
