(* ===== verification/Socks5.thy ===== *)
theory Socks5
  imports Net_Addr
begin

text \<open>
  The SOCKS5 wire protocol of \<open>crates/shadowsocks/src/relay/socks5.rs\<close>: commands, replies and
  errors, the address codec used by every relay, and the packets of the handshake. Each
  \<open>_write_to_buf\<close> returns the bytes it appends, a panic where the code asserts; each
  \<open>_read_from\<close> is the awaited reader, and \<open>read_cursor\<close> the reader of datagrams, whose
  \<open>Buf\<close> accessors panic when the buffer is exhausted.
\<close>

section \<open>Constants, commands and replies\<close>

definition SOCKS5_VERSION :: u8 where "SOCKS5_VERSION = 0x05"

datatype command = TcpConnect | TcpBind | UdpAssociate

fun command_as_u8 :: "command \<Rightarrow> u8" where
  "command_as_u8 TcpConnect = 0x01"
| "command_as_u8 TcpBind = 0x02"
| "command_as_u8 UdpAssociate = 0x03"

definition command_from_u8 :: "u8 \<Rightarrow> command option" where
  "command_from_u8 code =
     (if code = 0x01 then Some TcpConnect
      else if code = 0x02 then Some TcpBind
      else if code = 0x03 then Some UdpAssociate
      else None)"

datatype reply =
    Succeeded | GeneralFailure | ConnectionNotAllowed | NetworkUnreachable | HostUnreachable
  | ReplyConnectionRefused | TtlExpired | CommandNotSupported | ReplyAddressTypeNotSupported
  | OtherReply u8

fun reply_as_u8 :: "reply \<Rightarrow> u8" where
  "reply_as_u8 Succeeded = 0x00"
| "reply_as_u8 GeneralFailure = 0x01"
| "reply_as_u8 ConnectionNotAllowed = 0x02"
| "reply_as_u8 NetworkUnreachable = 0x03"
| "reply_as_u8 HostUnreachable = 0x04"
| "reply_as_u8 ReplyConnectionRefused = 0x05"
| "reply_as_u8 TtlExpired = 0x06"
| "reply_as_u8 CommandNotSupported = 0x07"
| "reply_as_u8 ReplyAddressTypeNotSupported = 0x08"
| "reply_as_u8 (OtherReply c) = c"

definition reply_from_u8 :: "u8 \<Rightarrow> reply" where
  "reply_from_u8 code =
     (if code = 0x00 then Succeeded
      else if code = 0x01 then GeneralFailure
      else if code = 0x02 then ConnectionNotAllowed
      else if code = 0x03 then NetworkUnreachable
      else if code = 0x04 then HostUnreachable
      else if code = 0x05 then ReplyConnectionRefused
      else if code = 0x06 then TtlExpired
      else if code = 0x07 then CommandNotSupported
      else if code = 0x08 then ReplyAddressTypeNotSupported
      else OtherReply code)"

lemma command_roundtrip [simp]: "command_from_u8 (command_as_u8 c) = Some c"
  by (cases c) (auto simp: command_from_u8_def)

lemma command_from_u8_Some: "command_from_u8 b = Some c \<longleftrightarrow> b = command_as_u8 c"
  by (cases c) (auto simp: command_from_u8_def)

lemma reply_code_roundtrip [simp]: "reply_as_u8 (reply_from_u8 b) = b"
  by (simp add: reply_from_u8_def)

text \<open>A reply is canonical when it does not hide a named code in \<open>OtherReply\<close>.\<close>

fun reply_canonical :: "reply \<Rightarrow> bool" where
  "reply_canonical (OtherReply c) = (8 < c)"
| "reply_canonical _ = True"

lemma reply_roundtrip: "reply_from_u8 (reply_as_u8 r) = r \<longleftrightarrow> reply_canonical r"
proof (cases r)
  case (OtherReply c)
  have "c \<le> 8 \<longleftrightarrow> c \<in> {0, 1, 2, 3, 4, 5, 6, 7, 8}"
  proof
    assume "c \<le> 8"
    then have "unat c \<le> 8" by (simp add: word_le_nat_alt)
    then have "unat c \<in> {0, 1, 2, 3, 4, 5, 6, 7, 8}" by auto
    then have "(of_nat (unat c) :: u8) \<in> of_nat ` {0, 1, 2, 3, 4, 5, 6, 7, 8}" by (rule imageI)
    then show "c \<in> {0, 1, 2, 3, 4, 5, 6, 7, 8}" by simp
  qed auto
  then show ?thesis by (auto simp: OtherReply reply_from_u8_def not_less)
qed (simp_all add: reply_from_u8_def)

section \<open>Errors\<close>

datatype error =
    IoError io_kind
  | AddressTypeNotSupported u8
  | AddressDomainInvalidEncoding
  | UnsupportedSocksVersion u8
  | UnsupportedCommand u8
  | UnsupportedPasswdAuthVersion u8
  | PasswdAuthInvalidRequest
  | ReplyError reply

fun error_into_io :: "error \<Rightarrow> io_kind" where
  "error_into_io (IoError k) = k"
| "error_into_io _ = OtherError"

fun as_reply :: "error \<Rightarrow> reply" where
  "as_reply (IoError k) = (if k = ConnectionRefused then ReplyConnectionRefused else GeneralFailure)"
| "as_reply (AddressTypeNotSupported _) = ReplyAddressTypeNotSupported"
| "as_reply AddressDomainInvalidEncoding = GeneralFailure"
| "as_reply (UnsupportedSocksVersion _) = GeneralFailure"
| "as_reply (UnsupportedCommand _) = CommandNotSupported"
| "as_reply (UnsupportedPasswdAuthVersion _) = GeneralFailure"
| "as_reply PasswdAuthInvalidRequest = GeneralFailure"
| "as_reply (ReplyError r) = r"

text \<open>\<open>read_exact(..).await?\<close> inside a function that returns the SOCKS error.\<close>

definition read_exact5 :: "nat \<Rightarrow> reader \<Rightarrow> (bytes \<times> reader, error) outcome" where
  "read_exact5 n r = map_err IoError (read_exact n r)"

lemma read_exact5_append [codec_simps, simp]:
  "length p = n \<Longrightarrow> read_exact5 n (p @ q, e) = Ok (p, (q, e))"
  by (simp add: read_exact5_def)

lemma read_exact5_Cons [codec_simps, simp]:
  "read_exact5 (Suc 0) (b # q, e) = Ok ([b], (q, e))"
  by (simp add: read_exact5_def)

lemma read_exact5_Ok_iff [outcome_simps]:
  "read_exact5 n r = Ok (p, r') \<longleftrightarrow> length p = n \<and> fst r = p @ fst r' \<and> snd r' = snd r"
  by (simp add: read_exact5_def outcome_simps read_exact_Ok_iff)

section \<open>Addresses\<close>

datatype address =
    SocketAddress socket_addr
  | DomainNameAddress string u16

fun address_port :: "address \<Rightarrow> u16" where
  "address_port (SocketAddress a) = sock_port a"
| "address_port (DomainNameAddress _ p) = p"

definition address_read_cursor :: "cursor \<Rightarrow> (address \<times> cursor, error) outcome" where
  "address_read_cursor cur =
     (if cur_remaining cur < 2 then Err (IoError OtherError)
      else and_then (cur_get 1 cur) (\<lambda>(atyp, cur).
        if atyp ! 0 = 0x01 then
          (if cur_remaining cur < 4 + 2 then Err (IoError OtherError)
           else and_then (cur_get 4 cur) (\<lambda>(addr, cur).
                and_then (cur_get 2 cur) (\<lambda>(port, cur).
                Ok (SocketAddress (SockV4 (from_be addr) (from_be port)), cur))))
        else if atyp ! 0 = 0x04 then
          (if cur_remaining cur < 16 + 2 then Err (IoError OtherError)
           else and_then (cur_get 16 cur) (\<lambda>(addr, cur).
                and_then (cur_get 2 cur) (\<lambda>(port, cur).
                Ok (SocketAddress (SockV6 (from_be addr) (from_be port) 0 0), cur))))
        else if atyp ! 0 = 0x03 then
          and_then (cur_get 1 cur) (\<lambda>(len, cur).
            let domain_len = unat (len ! 0) in
            if cur_remaining cur < domain_len then Err AddressDomainInvalidEncoding
            else and_then (cur_get domain_len cur) (\<lambda>(buf, cur).
                 and_then (cur_get 2 cur) (\<lambda>(port, cur).
                 (case from_utf8 buf of
                    None \<Rightarrow> Err AddressDomainInvalidEncoding
                  | Some addr \<Rightarrow> Ok (DomainNameAddress addr (from_be port), cur)))))
        else Err (AddressTypeNotSupported (atyp ! 0))))"

definition address_read_from :: "reader \<Rightarrow> (address \<times> reader, error) outcome" where
  "address_read_from stream =
     and_then (read_exact5 1 stream) (\<lambda>(addr_type_buf, stream).
       let addr_type = addr_type_buf ! 0 in
       if addr_type = 0x01 then
         and_then (read_exact5 6 stream) (\<lambda>(buf, stream).
           Ok (SocketAddress (SockV4 (ipv4_new (buf ! 0) (buf ! 1) (buf ! 2) (buf ! 3))
                                     (from_be [buf ! 4, buf ! 5])), stream))
       else if addr_type = 0x04 then
         and_then (read_exact5 18 stream) (\<lambda>(bytes_buf, stream).
           let buf = map (\<lambda>i. from_be (take 2 (drop (2 * i) bytes_buf)) :: u16) [0..<9] in
           Ok (SocketAddress (SockV6 (ipv6_new (take 8 buf)) (buf ! 8) 0 0), stream))
       else if addr_type = 0x03 then
         and_then (read_exact5 1 stream) (\<lambda>(length_buf, stream).
           let length = unat (length_buf ! 0); buf_length = length + 2 in
           and_then (read_exact5 buf_length stream) (\<lambda>(raw_addr, stream).
             let raw_port = drop length raw_addr; port = from_be [raw_port ! 0, raw_port ! 1] in
             (case from_utf8 (take length raw_addr) of
                Some addr \<Rightarrow> Ok (DomainNameAddress addr port, stream)
              | None \<Rightarrow> Err AddressDomainInvalidEncoding)))
       else Err (AddressTypeNotSupported addr_type))"

definition write_ipv4_address :: "ipv4_addr \<Rightarrow> u16 \<Rightarrow> bytes" where
  "write_ipv4_address ip port = [0x01] @ ipv4_octets ip @ to_be 2 port"

definition write_ipv6_address :: "ipv6_addr \<Rightarrow> u16 \<Rightarrow> bytes" where
  "write_ipv6_address ip port = [0x04] @ concat (map (to_be 2) (ipv6_segments ip)) @ to_be 2 port"

definition write_domain_name_address :: "string \<Rightarrow> u16 \<Rightarrow> (bytes, 'e) outcome" where
  "write_domain_name_address dnaddr port =
     and_then (rust_assert (length dnaddr \<le> 255)) (\<lambda>_.
     and_then (rust_assert (length dnaddr \<le> 255)) (\<lambda>_.
     Ok ([0x03] @ [of_nat (length dnaddr)] @ as_bytes dnaddr @ to_be 2 port)))"

fun write_socket_address :: "socket_addr \<Rightarrow> bytes" where
  "write_socket_address (SockV4 ip port) = write_ipv4_address ip port"
| "write_socket_address (SockV6 ip port _ _) = write_ipv6_address ip port"

fun address_write_to_buf :: "address \<Rightarrow> (bytes, 'e) outcome" where
  "address_write_to_buf (SocketAddress addr) = Ok (write_socket_address addr)"
| "address_write_to_buf (DomainNameAddress dnaddr port) = write_domain_name_address dnaddr port"

fun address_serialized_len :: "address \<Rightarrow> nat" where
  "address_serialized_len (SocketAddress (SockV4 _ _)) = 1 + 4 + 2"
| "address_serialized_len (SocketAddress (SockV6 _ _ _ _)) = 1 + 8 * 2 + 2"
| "address_serialized_len (DomainNameAddress dmname _) = 1 + 1 + length dmname + 2"

definition address_max_serialized_len :: nat where
  "address_max_serialized_len = 1 + 1 + 255 + 2"

definition address_write_to :: "address \<Rightarrow> writer \<Rightarrow> (writer, io_kind) outcome" where
  "address_write_to a w = and_then (address_write_to_buf a) (\<lambda>buf. write_all buf w)"

text \<open>
  The addresses that a wire format can carry: a domain name of at most 255 bytes, and no flow
  label or scope id, which are not transmitted.
\<close>

fun wf_address :: "address \<Rightarrow> bool" where
  "wf_address (SocketAddress (SockV4 _ _)) = True"
| "wf_address (SocketAddress (SockV6 _ _ f s)) = (f = 0 \<and> s = 0)"
| "wf_address (DomainNameAddress d _) = (valid_str d \<and> length d \<le> 255)"

lemmas address_write_simps =
  write_ipv4_address_def write_ipv6_address_def write_domain_name_address_def concat_segments

lemma address_write_length:
  "address_write_to_buf a = Ok bs \<Longrightarrow> length bs = address_serialized_len a"
  by (cases a rule: address_serialized_len.cases)
     (auto simp: address_write_simps outcome_simps)

lemma address_write_total: "wf_address a \<Longrightarrow> \<exists>bs. address_write_to_buf a = Ok bs"
  by (cases a rule: wf_address.cases) (auto simp: address_write_simps)

lemma address_write_Panic: "address_write_to_buf a = Panic \<longleftrightarrow> (\<exists>d p. a = DomainNameAddress d p \<and> 255 < length d)"
  by (cases a) (auto simp: address_write_simps outcome_simps)

section \<open>The address codec\<close>

lemma address_read_from_write:
  assumes "wf_address a" "address_write_to_buf a = Ok bs"
  shows "address_read_from (bs @ rest, e) = Ok (a, (rest, e))"
proof (cases a rule: wf_address.cases)
  case (1 ip port)
  have [simp]: "ipv4_octets ip @ to_be 2 port @ rest = (ipv4_octets ip @ to_be 2 port) @ rest" by simp
  obtain o0 o1 o2 o3 where o: "ipv4_octets ip = [o0, o1, o2, o3]"
    by (rule length_4E [OF length_ipv4_octets])
  obtain p0 p1 where p: "to_be 2 port = [p0, p1]"
    by (rule length_2E [OF length_to_be])
  have "ipv4_new o0 o1 o2 o3 = ip" using from_be_octets [of ip] by (simp add: o ipv4_new_def)
  moreover have "from_be [p0, p1] = port" using from_be_to_be [of 2 port] by (simp add: p)
  moreover have "read_exact5 6 (o0 # o1 # o2 # o3 # p0 # p1 # rest, e) = Ok ([o0,o1,o2,o3,p0,p1], (rest, e))"
    using read_exact5_append [of "[o0,o1,o2,o3,p0,p1]" 6 rest e] by simp
  ultimately show ?thesis using assms 1 
    by (auto simp: address_write_simps address_read_from_def o p Let_def)
next
  case (2 ip port f s)
  let ?b = "to_be 16 ip @ to_be 2 port"
  let ?buf = "map (\<lambda>i. from_be (take 2 (drop (2 * i) ?b)) :: u16) [0..<9]"
  have "take 8 ?buf = ipv6_segments ip"
    by (simp add: take_map ipv6_segments_def del: upt_rec_numeral)
  moreover have "?buf ! 8 = port" by simp
  moreover have "read_exact5 18 (?b @ rest, e) = Ok (?b, (rest, e))"
    by (rule read_exact5_append) simp
  ultimately show ?thesis using assms 2
    by (auto simp: address_write_simps address_read_from_def Let_def simp del: append_assoc)
next
  case (3 d port)
  then have len: "length d \<le> 255" and v: "valid_str d"
    and bs: "bs = 0x03 # of_nat (length d) # as_bytes d @ to_be 2 port"
    using assms by (auto simp: address_write_simps)
  then have n: "unat (of_nat (length d) :: u8) = length d" by (simp add: unat_of_nat_byte)
  have "read_exact5 (length d + 2) ((as_bytes d @ to_be 2 port) @ rest, e)
      = Ok (as_bytes d @ to_be 2 port, (rest, e))"
    by (rule read_exact5_append) simp
  moreover have "from_be [to_be 2 port ! 0, to_be 2 port ! 1] = port"
    by (rule from_be_to_be_2)
  ultimately show ?thesis using 3 v
    by (simp add: bs address_read_from_def Let_def n from_utf8_as_bytes)
qed

lemma to_be_2_nth:
  assumes "length p = n + 2"
  shows "to_be 2 (from_be [p ! n, p ! Suc n] :: u16) = drop n p"
proof -
  have "drop n p = [p ! n, p ! Suc n]"
    using assms by (simp add: Cons_nth_drop_Suc [symmetric])
  then show ?thesis by simp
qed

lemma ipv4_octets_new: "length p = 6 \<Longrightarrow> ipv4_octets (ipv4_new (p ! 0) (p ! 1) (p ! 2) (p ! 3)) = take 4 p"
  by (erule length_6E) (simp add: ipv4_octets_def ipv4_new_def)

lemma read_from_v6_fields:
  assumes "length p = 18"
  defines "buf \<equiv> map (\<lambda>i. from_be (take 2 (drop (2 * i) p)) :: u16) [0..<9]"
  shows "write_ipv6_address (ipv6_new (take 8 buf)) (buf ! 8) = 0x04 # p"
proof -
  have "take 8 buf = map (\<lambda>i. from_be (take 2 (drop (2 * i) (take 16 p)))) [0..<8]"
    unfolding buf_def take_map by (rule map_cong) (auto simp: take_drop min_def)
  then have "to_be 16 (ipv6_new (take 8 buf)) = take 16 p"
    using assms by (simp add: ipv6_new_pairs)
  moreover have "to_be 2 (buf ! 8) = drop 16 p" using assms by (simp add: buf_def)
  ultimately show ?thesis by (simp add: write_ipv6_address_def concat_segments)
qed

lemma address_read_from_canonical:
  assumes "address_read_from r = Ok (a, r')"
  shows "wf_address a \<and> (\<exists>bs. address_write_to_buf a = Ok bs \<and> fst r = bs @ fst r' \<and> snd r' = snd r)"
proof -
  from assms obtain t r1 where 1: "length t = Suc 0" "fst r = t @ fst r1" "snd r1 = snd r"
    by (auto simp: address_read_from_def outcome_simps)
  from 1(1) obtain ty where t: "t = [ty]" by (rule length_1E)
  have r: "r = (ty # fst r1, snd r1)" using 1 t by (cases r) simp
  show ?thesis
  proof (cases "ty = 1 \<or> ty = 4")
    case True
    then obtain p where p: "fst r1 = p @ fst r'" "snd r' = snd r1"
      and a: "(ty = 1 \<and> length p = 6 \<and>
           a = SocketAddress (SockV4 (ipv4_new (p ! 0) (p ! 1) (p ! 2) (p ! 3)) (from_be [p ! 4, p ! 5])))
        \<or> (ty = 4 \<and> length p = 18 \<and>
           a = (let buf = map (\<lambda>i. from_be (take 2 (drop (2 * i) p)) :: u16) [0..<9]
                in SocketAddress (SockV6 (ipv6_new (take 8 buf)) (buf ! 8) 0 0)))"
      using assms by (auto simp: r address_read_from_def Let_def outcome_simps)
    from a show ?thesis
      using p to_be_2_nth [of p 4] ipv4_octets_new [of p] read_from_v6_fields [of p]
      by (auto simp: r write_ipv4_address_def Let_def)
  next
    case False
    then obtain l p s where ty: "ty = 3" and p: "length p = unat l + 2"
      "fst r1 = l # p @ fst r'" "snd r' = snd r1"
      and s: "from_utf8 (take (unat l) p) = Some s"
      and a: "a = DomainNameAddress s (from_be [p ! unat l, p ! Suc (unat l)])"
      using assms
      by (auto simp: r address_read_from_def Let_def outcome_simps split: if_splits option.splits
               elim!: length_1E)
    from s have v: "valid_str s" "take (unat l) p = as_bytes s" by (auto simp: from_utf8_Some)
    then have len: "length s = unat l" using p by (metis as_bytes_simps(4) length_take add_leD1 le_add1 min.absorb2)
    have "unat l < 256" using unsigned_less [of l] by simp
    then have "length s \<le> 255" "of_nat (length s) = l" using len by auto
    moreover have "as_bytes s @ to_be 2 (from_be [p ! unat l, p ! Suc (unat l)] :: u16) = p"
      using to_be_2_nth [of p "unat l"] p v by (metis append_take_drop_id)
    ultimately show ?thesis using v p ty
      by (simp add: a r write_domain_name_address_def)
  qed
qed

lemma address_read_from_Ok_iff:
  "address_read_from r = Ok (a, r') \<longleftrightarrow>
     wf_address a \<and> (\<exists>bs. address_write_to_buf a = Ok bs \<and> r = (bs @ fst r', snd r'))"
proof
  assume "address_read_from r = Ok (a, r')"
  from address_read_from_canonical [OF this] show
    "wf_address a \<and> (\<exists>bs. address_write_to_buf a = Ok bs \<and> r = (bs @ fst r', snd r'))"
    by (cases r) auto
next
  assume "wf_address a \<and> (\<exists>bs. address_write_to_buf a = Ok bs \<and> r = (bs @ fst r', snd r'))"
  then show "address_read_from r = Ok (a, r')"
    using address_read_from_write [of a _ "fst r'" "snd r'"] by auto
qed

lemma cur_get_rest: "cur_rest c = p @ q \<Longrightarrow> length p = n \<Longrightarrow> cur_get n c = Ok (p, cur_adv n c)"
  by (simp add: cur_get_def)

lemma take_take_drop: "take n t @ take m (drop n t) @ drop (n + m) t = t"
  by (metis append_take_drop_id drop_drop add.commute)

lemma address_read_cursor_write:
  assumes "wf_address a" "address_write_to_buf a = Ok bs" "cur_rest c = bs @ rest"
  shows "address_read_cursor c = Ok (a, cur_adv (length bs) c)"
proof (cases a rule: wf_address.cases)
  case (1 ip port)
  then have "cur_rest c = [0x01] @ ipv4_octets ip @ to_be 2 port @ rest" and "length bs = 7"
    using assms by (auto simp: address_write_simps)
  then show ?thesis using 1
    by (simp add: address_read_cursor_def cur_get_def)
next
  case (2 ip port f s)
  then have "cur_rest c = [0x04] @ to_be 16 ip @ to_be 2 port @ rest" and "length bs = 19"
    and "f = 0" "s = 0"
    using assms by (auto simp: address_write_simps)
  then show ?thesis using 2
    by (simp add: address_read_cursor_def cur_get_def)
next
  case (3 d port)
  then have "cur_rest c = [0x03] @ [of_nat (length d)] @ as_bytes d @ to_be 2 port @ rest"
    and "length bs = Suc (Suc (length d + 2))" and "valid_str d"
    and "unat (of_nat (length d) :: u8) = length d"
    using assms by (auto simp: address_write_simps unat_of_nat_byte)
  then show ?thesis using 3
    by (simp add: address_read_cursor_def cur_get_def Let_def from_utf8_as_bytes)
qed

lemma address_read_cursor_canonical:
  assumes "address_read_cursor c = Ok (a, c')"
  shows "wf_address a \<and> (\<exists>bs. address_write_to_buf a = Ok bs \<and>
           cur_rest c = bs @ cur_rest c' \<and> c' = cur_adv (length bs) c)"
proof -
  from assms have "2 \<le> length (cur_rest c)"
    by (auto simp: address_read_cursor_def split: if_splits)
  then obtain ty t where r: "cur_rest c = ty # t" and t: "1 \<le> length t"
    by (cases "cur_rest c") auto
  show ?thesis
  proof (cases "ty = 1 \<or> ty = 4")
    case True
    then show ?thesis using assms take_take_drop [of 4 t 2] take_take_drop [of 16 t 2]
      by (auto simp: address_read_cursor_def outcome_simps r write_ipv4_address_def write_ipv6_address_def
          ipv4_octets_def concat_segments min_def split: if_splits)
  next
    case False
    from t obtain b q where tq: "t = b # q" by (cases t) auto
    from False have "ty = 3" using assms
      by (auto simp: address_read_cursor_def outcome_simps r split: if_splits)
    then obtain s where len: "unat b + 2 \<le> length q" and s: "from_utf8 (take (unat b) q) = Some s"
      and a: "a = DomainNameAddress s (from_be (take 2 (drop (unat b) q)))"
      and c': "c' = cur_adv (Suc (Suc (Suc (Suc (unat b))))) c"
      using assms
      by (auto simp: address_read_cursor_def outcome_simps r tq Let_def add_ac split: if_splits option.splits)
    from s have v: "valid_str s" "take (unat b) q = as_bytes s" by (auto simp: from_utf8_Some)
    then have l: "length s = unat b" using len by (metis as_bytes_simps(4) length_take add_leD1 min.absorb2)
    have "unat b < 256" using unsigned_less [of b] by simp
    then have "length s \<le> 255" "of_nat (length s) = b" using l by auto
    moreover have "as_bytes s @ take 2 (drop (unat b) q) @ drop (unat b + 2) q = q"
      using take_take_drop [of "unat b" q 2] v by simp
    ultimately show ?thesis using v len l \<open>ty = 3\<close>
      by (simp add: a c' r tq write_domain_name_address_def)
  qed
qed

lemma address_read_cursor_Panic:
  "address_read_cursor c = Panic \<longleftrightarrow>
     (\<exists>l q. cur_rest c = 0x03 # l # q \<and> unat l \<le> length q \<and> length q < unat l + 2)"
proof (cases "cur_rest c")
  case (Cons ty t)
  then show ?thesis
    by (cases t) (auto simp: address_read_cursor_def outcome_simps Let_def split: if_splits option.splits)
qed (simp add: address_read_cursor_def)

lemma address_decoders_same:
  "(\<exists>c'. address_read_cursor c = Ok (a, c') \<and> cur_rest c' = q) \<longleftrightarrow>
   address_read_from (cur_rest c, e) = Ok (a, (q, e))"
proof
  assume "\<exists>c'. address_read_cursor c = Ok (a, c') \<and> cur_rest c' = q"
  then obtain c' bs where "wf_address a" "address_write_to_buf a = Ok bs"
    and "cur_rest c = bs @ cur_rest c'" "cur_rest c' = q"
    using address_read_cursor_canonical by blast
  then show "address_read_from (cur_rest c, e) = Ok (a, (q, e))"
    using address_read_from_write by simp
next
  assume "address_read_from (cur_rest c, e) = Ok (a, (q, e))"
  then obtain bs where "wf_address a" "address_write_to_buf a = Ok bs" "cur_rest c = bs @ q"
    using address_read_from_canonical [of "(cur_rest c, e)" a "(q, e)"] by auto
  then have "address_read_cursor c = Ok (a, cur_adv (length bs) c)"
    and "cur_rest (cur_adv (length bs) c) = q"
    using address_read_cursor_write [of a bs c q] by simp_all
  then show "\<exists>c'. address_read_cursor c = Ok (a, c') \<and> cur_rest c' = q" by blast
qed

section \<open>Request and response headers\<close>

record tcp_request_header =
  req_command :: command
  req_address :: address

definition tcp_request_read_from :: "reader \<Rightarrow> (tcp_request_header \<times> reader, error) outcome" where
  "tcp_request_read_from r =
     and_then (read_exact5 3 r) (\<lambda>(buf, r).
       let ver = buf ! 0 in
       if ver \<noteq> SOCKS5_VERSION then Err (UnsupportedSocksVersion ver)
       else let cmd = buf ! 1 in
         (case command_from_u8 cmd of
            None \<Rightarrow> Err (UnsupportedCommand cmd)
          | Some c \<Rightarrow> and_then (address_read_from r) (\<lambda>(a, r).
              Ok (\<lparr>req_command = c, req_address = a\<rparr>, r))))"

definition tcp_request_write_to_buf :: "tcp_request_header \<Rightarrow> (bytes, 'e) outcome" where
  "tcp_request_write_to_buf h =
     and_then (address_write_to_buf (req_address h)) (\<lambda>bs.
       Ok ([SOCKS5_VERSION, command_as_u8 (req_command h), 0x00] @ bs))"

definition tcp_request_write_to :: "tcp_request_header \<Rightarrow> writer \<Rightarrow> (writer, io_kind) outcome" where
  "tcp_request_write_to h w = and_then (tcp_request_write_to_buf h) (\<lambda>buf. write_all buf w)"

definition tcp_request_serialized_len :: "tcp_request_header \<Rightarrow> nat" where
  "tcp_request_serialized_len h = address_serialized_len (req_address h) + 3"

record tcp_response_header =
  resp_reply :: reply
  resp_address :: address

definition tcp_response_read_from :: "reader \<Rightarrow> (tcp_response_header \<times> reader, error) outcome" where
  "tcp_response_read_from r =
     and_then (read_exact5 3 r) (\<lambda>(buf, r).
       let ver = buf ! 0; reply_code = buf ! 1 in
       if ver \<noteq> SOCKS5_VERSION then Err (UnsupportedSocksVersion ver)
       else and_then (address_read_from r) (\<lambda>(a, r).
              Ok (\<lparr>resp_reply = reply_from_u8 reply_code, resp_address = a\<rparr>, r)))"

definition tcp_response_write_to_buf :: "tcp_response_header \<Rightarrow> (bytes, 'e) outcome" where
  "tcp_response_write_to_buf h =
     and_then (address_write_to_buf (resp_address h)) (\<lambda>bs.
       Ok ([SOCKS5_VERSION, reply_as_u8 (resp_reply h), 0x00] @ bs))"

definition tcp_response_write_to :: "tcp_response_header \<Rightarrow> writer \<Rightarrow> (writer, io_kind) outcome" where
  "tcp_response_write_to h w = and_then (tcp_response_write_to_buf h) (\<lambda>buf. write_all buf w)"

definition tcp_response_serialized_len :: "tcp_response_header \<Rightarrow> nat" where
  "tcp_response_serialized_len h = address_serialized_len (resp_address h) + 3"

section \<open>The method negotiation\<close>

record handshake_request =
  methods :: bytes

definition handshake_request_read_from :: "reader \<Rightarrow> (handshake_request \<times> reader, error) outcome" where
  "handshake_request_read_from r =
     and_then (read_exact5 2 r) (\<lambda>(buf, r).
       let ver = buf ! 0; nmet = buf ! 1 in
       if ver \<noteq> SOCKS5_VERSION then Err (UnsupportedSocksVersion ver)
       else and_then (read_exact5 (unat nmet) r) (\<lambda>(ms, r). Ok (\<lparr>methods = ms\<rparr>, r)))"

definition handshake_request_write_to_buf :: "handshake_request \<Rightarrow> (bytes, 'e) outcome" where
  "handshake_request_write_to_buf h =
     Ok ([SOCKS5_VERSION, of_nat (length (methods h))] @ methods h)"

definition handshake_request_write_to :: "handshake_request \<Rightarrow> writer \<Rightarrow> (writer, io_kind) outcome" where
  "handshake_request_write_to h w = and_then (handshake_request_write_to_buf h) (\<lambda>buf. write_all buf w)"

definition handshake_request_serialized_len :: "handshake_request \<Rightarrow> nat" where
  "handshake_request_serialized_len h = 2 + length (methods h)"

record handshake_response =
  chosen_method :: u8

definition handshake_response_read_from :: "reader \<Rightarrow> (handshake_response \<times> reader, error) outcome" where
  "handshake_response_read_from r =
     and_then (read_exact5 2 r) (\<lambda>(buf, r).
       let ver = buf ! 0; met = buf ! 1 in
       if ver \<noteq> SOCKS5_VERSION then Err (UnsupportedSocksVersion ver)
       else Ok (\<lparr>chosen_method = met\<rparr>, r))"

definition handshake_response_write_to_buf :: "handshake_response \<Rightarrow> (bytes, 'e) outcome" where
  "handshake_response_write_to_buf h = Ok [SOCKS5_VERSION, chosen_method h]"

definition handshake_response_write_to :: "handshake_response \<Rightarrow> writer \<Rightarrow> (writer, io_kind) outcome" where
  "handshake_response_write_to h w = and_then (handshake_response_write_to_buf h) (\<lambda>buf. write_all buf w)"

section \<open>UDP associate header\<close>

record udp_associate_header =
  frag :: u8
  udp_address :: address

definition udp_associate_read_from :: "reader \<Rightarrow> (udp_associate_header \<times> reader, error) outcome" where
  "udp_associate_read_from r =
     and_then (read_exact5 3 r) (\<lambda>(buf, r).
       let f = buf ! 2 in
       and_then (address_read_from r) (\<lambda>(a, r). Ok (\<lparr>frag = f, udp_address = a\<rparr>, r)))"

definition udp_associate_write_to_buf :: "udp_associate_header \<Rightarrow> (bytes, 'e) outcome" where
  "udp_associate_write_to_buf h =
     and_then (address_write_to_buf (udp_address h)) (\<lambda>bs. Ok ([0x00, 0x00, frag h] @ bs))"

definition udp_associate_write_to :: "udp_associate_header \<Rightarrow> writer \<Rightarrow> (writer, io_kind) outcome" where
  "udp_associate_write_to h w = and_then (udp_associate_write_to_buf h) (\<lambda>buf. write_all buf w)"

definition udp_associate_serialized_len :: "udp_associate_header \<Rightarrow> nat" where
  "udp_associate_serialized_len h = 3 + address_serialized_len (udp_address h)"

section \<open>User name and password authentication\<close>

record passwd_auth_request =
  uname :: bytes
  passwd :: bytes

definition passwd_auth_request_new :: "bytes \<Rightarrow> bytes \<Rightarrow> (passwd_auth_request, 'e) outcome" where
  "passwd_auth_request_new u p =
     and_then (rust_assert (u \<noteq> [] \<and> length u \<le> 255 \<and> p \<noteq> [] \<and> length p \<le> 255)) (\<lambda>_.
       Ok \<lparr>uname = u, passwd = p\<rparr>)"

definition passwd_auth_request_read_from :: "reader \<Rightarrow> (passwd_auth_request \<times> reader, error) outcome" where
  "passwd_auth_request_read_from r =
     and_then (read_exact5 1 r) (\<lambda>(ver_buf, r).
       if ver_buf ! 0 \<noteq> 0x01 then Err (UnsupportedPasswdAuthVersion (ver_buf ! 0))
       else and_then (read_exact5 1 r) (\<lambda>(ulen_buf, r).
         let ulen = unat (ulen_buf ! 0) in
         if ulen = 0 then Err PasswdAuthInvalidRequest
         else and_then (read_exact5 ulen r) (\<lambda>(u, r).
           and_then (read_exact5 1 r) (\<lambda>(plen_buf, r).
             let plen = unat (plen_buf ! 0) in
             if plen = 0 then Err PasswdAuthInvalidRequest
             else and_then (read_exact5 plen r) (\<lambda>(p, r).
               Ok (\<lparr>uname = u, passwd = p\<rparr>, r))))))"

definition passwd_auth_request_write_to_buf :: "passwd_auth_request \<Rightarrow> (bytes, 'e) outcome" where
  "passwd_auth_request_write_to_buf h =
     Ok ([0x01] @ [of_nat (length (uname h))] @ uname h @ [of_nat (length (passwd h))] @ passwd h)"

definition passwd_auth_request_write_to :: "passwd_auth_request \<Rightarrow> writer \<Rightarrow> (writer, io_kind) outcome" where
  "passwd_auth_request_write_to h w =
     and_then (passwd_auth_request_write_to_buf h) (\<lambda>buf. write_all buf w)"

definition passwd_auth_request_serialized_len :: "passwd_auth_request \<Rightarrow> nat" where
  "passwd_auth_request_serialized_len h = 1 + 1 + length (uname h) + 1 + length (passwd h)"

record passwd_auth_response =
  status :: u8

text \<open>
  The result of \<open>read_exact\<close> is dropped (\<open>let _ = r.read_exact(&mut buf).await;\<close>), so the
  zeroed two-byte buffer is examined with whatever prefix a short read stored in it.
\<close>

definition passwd_auth_response_read_from :: "reader \<Rightarrow> (passwd_auth_response \<times> reader, error) outcome" where
  "passwd_auth_response_read_from r =
     (let got = take 2 (fst r); buf = got @ replicate (2 - length got) 0; r' = (drop 2 (fst r), snd r) in
      if buf ! 0 \<noteq> 0x01 then Err (UnsupportedPasswdAuthVersion (buf ! 0))
      else Ok (\<lparr>status = buf ! 1\<rparr>, r'))"

definition passwd_auth_response_write_to_buf :: "passwd_auth_response \<Rightarrow> (bytes, 'e) outcome" where
  "passwd_auth_response_write_to_buf h = Ok ([0x01] @ [status h])"

definition passwd_auth_response_write_to :: "passwd_auth_response \<Rightarrow> writer \<Rightarrow> (writer, io_kind) outcome" where
  "passwd_auth_response_write_to h w =
     and_then (passwd_auth_response_write_to_buf h) (\<lambda>buf. write_all buf w)"

section \<open>The packets are codecs\<close>

definition wf_passwd_auth_request :: "passwd_auth_request \<Rightarrow> bool" where
  "wf_passwd_auth_request h \<longleftrightarrow>
     uname h \<noteq> [] \<and> length (uname h) \<le> 255 \<and> passwd h \<noteq> [] \<and> length (passwd h) \<le> 255"

lemma read_exact5_3 [codec_simps, simp]: "read_exact5 3 (a # b # c # q, e) = Ok ([a, b, c], (q, e))"
  using read_exact5_append [of "[a, b, c]" 3 q e] by simp

lemma read_exact5_2 [codec_simps, simp]: "read_exact5 2 (a # b # q, e) = Ok ([a, b], (q, e))"
  using read_exact5_append [of "[a, b]" 2 q e] by simp

interpretation addr: codec "address_write_to_buf :: address \<Rightarrow> (bytes, unit) outcome" address_read_from wf_address
  by unfold_locales (auto intro: address_read_from_write address_write_total)

interpretation treq: codec "tcp_request_write_to_buf :: _ \<Rightarrow> (bytes, unit) outcome" tcp_request_read_from
  "\<lambda>h. wf_address (req_address h)"
  by unfold_locales
     (use addr.wr_total in \<open>force simp: tcp_request_write_to_buf_def outcome_simps\<close>,
      auto simp: tcp_request_write_to_buf_def tcp_request_read_from_def Let_def addr.rd_wr elim!: and_then_OkE)

interpretation tresp: codec "tcp_response_write_to_buf :: _ \<Rightarrow> (bytes, unit) outcome" tcp_response_read_from
  "\<lambda>h. wf_address (resp_address h) \<and> reply_canonical (resp_reply h)"
  by unfold_locales
     (use addr.wr_total in \<open>force simp: tcp_response_write_to_buf_def outcome_simps\<close>,
      auto simp: tcp_response_write_to_buf_def tcp_response_read_from_def Let_def addr.rd_wr
        reply_roundtrip [THEN iffD2] elim!: and_then_OkE)

interpretation hreq: codec "handshake_request_write_to_buf :: _ \<Rightarrow> (bytes, unit) outcome" handshake_request_read_from
  "\<lambda>h. length (methods h) \<le> 255"
  by unfold_locales
     (auto simp: handshake_request_write_to_buf_def handshake_request_read_from_def unat_of_nat_byte)

interpretation hresp: codec "handshake_response_write_to_buf :: _ \<Rightarrow> (bytes, unit) outcome" handshake_response_read_from
  "\<lambda>h. True"
  by unfold_locales
     (auto simp: handshake_response_write_to_buf_def handshake_response_read_from_def)

interpretation udph: codec "udp_associate_write_to_buf :: _ \<Rightarrow> (bytes, unit) outcome" udp_associate_read_from
  "\<lambda>h. wf_address (udp_address h)"
  by unfold_locales
     (use addr.wr_total in \<open>force simp: udp_associate_write_to_buf_def outcome_simps\<close>,
      auto simp: udp_associate_write_to_buf_def udp_associate_read_from_def Let_def addr.rd_wr elim!: and_then_OkE)

interpretation preq: codec "passwd_auth_request_write_to_buf :: _ \<Rightarrow> (bytes, unit) outcome" passwd_auth_request_read_from
  wf_passwd_auth_request
  by unfold_locales
     (auto simp: passwd_auth_request_write_to_buf_def passwd_auth_request_read_from_def
        wf_passwd_auth_request_def unat_of_nat_byte Let_def)

interpretation presp: codec "passwd_auth_response_write_to_buf :: _ \<Rightarrow> (bytes, unit) outcome" passwd_auth_response_read_from
  "\<lambda>h. True"
  by unfold_locales
     (auto simp: passwd_auth_response_write_to_buf_def passwd_auth_response_read_from_def Let_def)

section \<open>The derived order of addresses\<close>

text \<open>
  \<open>#[derive(PartialOrd, Ord)]\<close>: variants in declaration order, then the fields in order; the
  derived order of \<open>SocketAddr\<close> is the same, and strings compare by their bytes.
\<close>

fun address_key :: "address \<Rightarrow> nat \<times> nat \<times> string \<times> u16 \<times> u32 \<times> u32" where
  "address_key (SocketAddress (SockV4 ip port)) = (0, unat ip, [], port, 0, 0)"
| "address_key (SocketAddress (SockV6 ip port flow scope)) = (1, unat ip, [], port, flow, scope)"
| "address_key (DomainNameAddress d port) = (2, 0, d, port, 0, 0)"

lemma address_key_inject: "address_key a = address_key b \<longleftrightarrow> a = b"
by (cases a rule: address_key.cases; cases b rule: address_key.cases) (simp_all add: word_unat_eq_iff)

instantiation address :: linorder
begin

definition less_eq_address :: "address \<Rightarrow> address \<Rightarrow> bool" where
  "less_eq_address a b \<longleftrightarrow> address_key a \<le> address_key b"

definition less_address :: "address \<Rightarrow> address \<Rightarrow> bool" where
  "less_address a b \<longleftrightarrow> address_key a < address_key b"

instance
proof
  fix x y z :: address
  show "x < y \<longleftrightarrow> x \<le> y \<and> \<not> y \<le> x"
    by (simp only: less_eq_address_def less_address_def less_le_not_le)
  show "x \<le> x" by (simp add: less_eq_address_def)
  show "x \<le> y \<Longrightarrow> y \<le> z \<Longrightarrow> x \<le> z"
    unfolding less_eq_address_def by (rule order.trans)
  show "x \<le> y \<Longrightarrow> y \<le> x \<Longrightarrow> x = y"
    unfolding less_eq_address_def by (metis antisym address_key_inject)
  show "x \<le> y \<or> y \<le> x" unfolding less_eq_address_def by (rule linear)
qed

end

lemma socket_before_domain: "SocketAddress s < DomainNameAddress d p"
  by (cases s) (auto simp: less_address_def)

section \<open>Properties\<close>

text \<open>C21: \<open>Address::read_from\<close> accepts exactly the encodings that \<open>Address::write_to_buf\<close>
  produces for an address the format can carry, whatever follows in the stream, and consumes
  exactly these bytes.\<close>

theorem address_decodes_exactly:
  "address_read_from r = Ok (a, r') \<longleftrightarrow>
     wf_address a \<and> (\<exists>bs. address_write_to_buf a = Ok bs \<and> r = (bs @ fst r', snd r'))"
  by (rule address_read_from_Ok_iff)

text \<open>C28: The datagram decoder \<open>Address::read_cursor\<close> returns an address exactly when the stream
  decoder does on the remaining bytes, the same address, and leaves the same bytes.\<close>

theorem address_decoders_agree:
  "(\<exists>c'. address_read_cursor c = Ok (a, c') \<and> cur_rest c' = q) \<longleftrightarrow>
   address_read_from (cur_rest c, e) = Ok (a, (q, e))"
  by (rule address_decoders_same)

text \<open>C31: \<open>Address::read_cursor\<close> panics exactly on a domain address whose name is complete but
  whose port is cut off: the length check omits the two port bytes.\<close>

theorem address_read_cursor_panics_iff:
  "address_read_cursor c = Panic \<longleftrightarrow>
     (\<exists>l q. cur_rest c = 0x03 # l # q \<and> unat l \<le> length q \<and> length q < unat l + 2)"
  by (rule address_read_cursor_Panic)

text \<open>C32: Writing an address panics exactly for a domain name over 255 bytes; otherwise it appends
  \<open>serialized_len\<close> bytes, at most \<open>max_serialized_len\<close>, that start with the address type.\<close>

theorem address_write_sizes:
  "(case address_write_to_buf a :: (bytes, unit) outcome of
      Ok bs \<Rightarrow> length bs = address_serialized_len a \<and>
               address_serialized_len a \<le> address_max_serialized_len \<and> hd bs \<in> {1, 3, 4}
    | Err e \<Rightarrow> False
    | Panic \<Rightarrow> (\<exists>d p. a = DomainNameAddress d p \<and> 255 < length d))"
proof (cases "address_write_to_buf a :: (bytes, unit) outcome")
  case (Ok bs)
  then show ?thesis using address_write_length [OF Ok]
    by (cases a rule: address_serialized_len.cases)
       (auto simp: address_write_simps address_max_serialized_len_def outcome_simps)
next
  case (Err e)
  then show ?thesis by (cases a) (auto simp: address_write_simps outcome_simps)
next
  case Panic
  with address_write_Panic [THEN iffD1, OF Panic] show ?thesis by simp
qed

text \<open>A TCP request is accepted exactly when it has the SOCKS5 version, a known command, any
  reserved byte, and an encoded address; the reader stops right after it.\<close>

theorem tcp_request_decodes_exactly:
  "tcp_request_read_from r = Ok (h, r') \<longleftrightarrow>
     snd r' = snd r \<and> (\<exists>rsv bs. address_write_to_buf (req_address h) = (Ok bs :: (bytes, unit) outcome) \<and> wf_address (req_address h) \<and>
       fst r = SOCKS5_VERSION # command_as_u8 (req_command h) # rsv # bs @ fst r')"
proof
  assume "tcp_request_read_from r = Ok (h, r')"
  then obtain buf r1 where len: "length buf = 3" and r1: "fst r = buf @ fst r1" "snd r1 = snd r"
    and v: "buf ! 0 = SOCKS5_VERSION" and c: "command_from_u8 (buf ! 1) = Some (req_command h)"
    and a: "address_read_from r1 = Ok (req_address h, r')"
    by (auto simp: tcp_request_read_from_def outcome_simps Let_def split: if_splits option.splits)
  from len obtain x y z where buf: "buf = [x, y, z]" by (rule length_3E)
  from address_read_from_canonical [OF a] show
    "snd r' = snd r \<and> (\<exists>rsv bs. address_write_to_buf (req_address h) = (Ok bs :: (bytes, unit) outcome) \<and> wf_address (req_address h) \<and>
       fst r = SOCKS5_VERSION # command_as_u8 (req_command h) # rsv # bs @ fst r')"
    using r1 v c by (auto simp: buf command_from_u8_Some)
next
  assume "snd r' = snd r \<and> (\<exists>rsv bs. address_write_to_buf (req_address h) = (Ok bs :: (bytes, unit) outcome) \<and> wf_address (req_address h) \<and>
       fst r = SOCKS5_VERSION # command_as_u8 (req_command h) # rsv # bs @ fst r')"
  then obtain rsv bs where bs: "address_write_to_buf (req_address h) = (Ok bs :: (bytes, unit) outcome)"
    and wf: "wf_address (req_address h)" and "r = (SOCKS5_VERSION # command_as_u8 (req_command h) # rsv # bs @ fst r', snd r')"
    by (cases r) auto
  then show "tcp_request_read_from r = Ok (h, r')"
    using address_read_from_write [OF wf bs, of "fst r'" "snd r'"]
    by (simp add: tcp_request_read_from_def Let_def)
qed

text \<open>C27: Messages on one connection do not run into each other: a client's greeting, user name and
  password, request and UDP header, written back to back, are read back in that order, and the
  bytes after them are untouched.\<close>

theorem socks5_dialogue_roundtrip:
  assumes "length (methods g) \<le> 255" "wf_passwd_auth_request p" "wf_address (req_address q)"
    and "wf_address (udp_address u)"
    and "handshake_request_write_to_buf g = (Ok bg :: (bytes, unit) outcome)"
    and "passwd_auth_request_write_to_buf p = (Ok bp :: (bytes, unit) outcome)"
    and "tcp_request_write_to_buf q = (Ok bq :: (bytes, unit) outcome)"
    and "udp_associate_write_to_buf u = (Ok bu :: (bytes, unit) outcome)"
  shows "and_then (handshake_request_read_from (bg @ bp @ bq @ bu @ rest, e)) (\<lambda>(g', r).
         and_then (passwd_auth_request_read_from r) (\<lambda>(p', r).
         and_then (tcp_request_read_from r) (\<lambda>(q', r).
         and_then (udp_associate_read_from r) (\<lambda>(u', r). Ok (g', p', q', u', r)))))
         = Ok (g, p, q, u, (rest, e))"
  using assms by (simp add: hreq.rd_wr preq.rd_wr treq.rd_wr udph.rd_wr)

theorem socks5_dialogue_roundtrip_witness:
  "and_then (handshake_request_read_from ([5, 1, 2] @ [1, 1, 97, 1, 98] @ [5, 1, 0, 3, 1, 97, 0, 80]
       @ [0, 0, 0, 1, 1, 2, 3, 4, 0, 53] @ [9], Eof)) (\<lambda>(g', r).
   and_then (passwd_auth_request_read_from r) (\<lambda>(p', r).
   and_then (tcp_request_read_from r) (\<lambda>(q', r).
   and_then (udp_associate_read_from r) (\<lambda>(u', r). Ok (g', p', q', u', r)))))
   = Ok (\<lparr>methods = [2]\<rparr>, \<lparr>uname = [97], passwd = [98]\<rparr>,
         \<lparr>req_command = TcpConnect, req_address = DomainNameAddress ''a'' 80\<rparr>,
         \<lparr>frag = 0, udp_address = SocketAddress (SockV4 0x01020304 53)\<rparr>, ([9], Eof))"
  by (rule socks5_dialogue_roundtrip)
     (code_simp, code_simp, code_simp, code_simp, code_simp, code_simp, code_simp, code_simp)

text \<open>A greeting with at most 255 methods is read back; above that the count byte is the length
  modulo 256, so the reader takes only that many methods and leaves the others in the stream.\<close>

theorem handshake_request_method_count:
  "and_then (handshake_request_write_to_buf h) (\<lambda>bs. handshake_request_read_from (bs @ rest, e)) =
     (let n = length (methods h) mod 256 in
      Ok (\<lparr>methods = take n (methods h)\<rparr>, (drop n (methods h) @ rest, e)))"
proof -
  have n: "unat (of_nat (length (methods h)) :: u8) = length (methods h) mod 256"
    by (simp add: unat_of_nat take_bit_eq_mod)
  have "length (methods h) mod 256 \<le> length (methods h)" by (rule mod_less_eq_dividend)
  then show ?thesis
    by (simp add: handshake_request_write_to_buf_def handshake_request_read_from_def Let_def n
        read_exact5_def read_exact_def)
qed

text \<open>\<open>PasswdAuthResponse::read_from\<close> drops the error of its read: a connection that ends or
  fails after the version byte reads as status 0, which is success.\<close>

theorem passwd_auth_response_short_read:
  "passwd_auth_response_read_from (bs, e) =
     (case bs of
        [] \<Rightarrow> Err (UnsupportedPasswdAuthVersion 0)
      | [v] \<Rightarrow> if v = 1 then Ok (\<lparr>status = 0\<rparr>, ([], e)) else Err (UnsupportedPasswdAuthVersion v)
      | v # s # rest \<Rightarrow> if v = 1 then Ok (\<lparr>status = s\<rparr>, (rest, e)) else Err (UnsupportedPasswdAuthVersion v))"
  by (auto simp: passwd_auth_response_read_from_def Let_def split: list.splits)

end
