(* ===== verification/Socks4.thy ===== *)
theory Socks4
  imports Socks5
begin

text \<open>
  The SOCKS4 and SOCKS4a packets of \<open>crates/shadowsocks-service/src/local/socks/socks4.rs\<close>. The
  names of the file are prefixed with \<open>s4_\<close>, since it shares them with the SOCKS5 module.
\<close>

section \<open>Constants, commands and results\<close>

definition SOCKS4_VERSION :: u8 where "SOCKS4_VERSION = 4"

datatype s4_command = S4Connect | S4Bind

fun s4_command_as_u8 :: "s4_command \<Rightarrow> u8" where
  "s4_command_as_u8 S4Connect = 1"
| "s4_command_as_u8 S4Bind = 2"

definition s4_command_from_u8 :: "u8 \<Rightarrow> s4_command option" where
  "s4_command_from_u8 code =
     (if code = 1 then Some S4Connect else if code = 2 then Some S4Bind else None)"

datatype s4_result =
    RequestGranted | RequestRejectedOrFailed | RequestRejectedCannotConnect
  | RequestRejectedDifferentUserId | OtherResult u8

fun s4_result_as_u8 :: "s4_result \<Rightarrow> u8" where
  "s4_result_as_u8 RequestGranted = 90"
| "s4_result_as_u8 RequestRejectedOrFailed = 91"
| "s4_result_as_u8 RequestRejectedCannotConnect = 92"
| "s4_result_as_u8 RequestRejectedDifferentUserId = 93"
| "s4_result_as_u8 (OtherResult c) = c"

definition s4_result_from_u8 :: "u8 \<Rightarrow> s4_result" where
  "s4_result_from_u8 code =
     (if code = 90 then RequestGranted
      else if code = 91 then RequestRejectedOrFailed
      else if code = 92 then RequestRejectedCannotConnect
      else if code = 93 then RequestRejectedDifferentUserId
      else OtherResult code)"

fun s4_result_canonical :: "s4_result \<Rightarrow> bool" where
  "s4_result_canonical (OtherResult c) = (c \<notin> {90, 91, 92, 93})"
| "s4_result_canonical _ = True"

lemma s4_command_from_u8_Some: "s4_command_from_u8 b = Some c \<longleftrightarrow> b = s4_command_as_u8 c"
  by (cases c) (auto simp: s4_command_from_u8_def)

lemma s4_result_code_roundtrip [simp]: "s4_result_as_u8 (s4_result_from_u8 b) = b"
  by (simp add: s4_result_from_u8_def)

lemma s4_result_roundtrip: "s4_result_from_u8 (s4_result_as_u8 r) = r \<longleftrightarrow> s4_result_canonical r"
  by (cases r) (auto simp: s4_result_from_u8_def)

section \<open>Errors and addresses\<close>

datatype s4_error =
    S4IoError io_kind
  | AddressHostInvalidEncoding
  | S4UnsupportedSocksVersion u8
  | S4UnsupportedCommand u8
  | S4Result s4_result

fun s4_error_into_io :: "s4_error \<Rightarrow> io_kind" where
  "s4_error_into_io (S4IoError k) = k"
| "s4_error_into_io _ = OtherError"

datatype s4_address =
    S4SocketAddress ipv4_addr u16
  | S4DomainNameAddress string u16

fun s4_into_socks5 :: "s4_address \<Rightarrow> address" where
  "s4_into_socks5 (S4SocketAddress ip port) = SocketAddress (SockV4 ip port)"
| "s4_into_socks5 (S4DomainNameAddress d p) = DomainNameAddress d p"

section \<open>Packets\<close>

record s4_handshake_request =
  s4_cd :: s4_command
  s4_dst :: s4_address
  s4_user_id :: bytes

text \<open>
  A NUL-terminated field: \<open>read_until(b'\0')\<close> followed by the check that the delimiter was seen,
  and \<open>pop\<close>; the request reader does this for the user id and for the host.
\<close>

definition read_nul_field :: "reader \<Rightarrow> (bytes \<times> reader, s4_error) outcome" where
  "read_nul_field r =
     and_then (map_err S4IoError (read_until 0 r)) (\<lambda>(f, r).
       if f = [] \<or> last f \<noteq> 0 then Err (S4IoError UnexpectedEof)
       else Ok (butlast f, r))"

definition s4_request_read_from :: "reader \<Rightarrow> (s4_handshake_request \<times> reader, s4_error) outcome" where
  "s4_request_read_from r =
     and_then (map_err S4IoError (read_exact 8 r)) (\<lambda>(buf, r).
       let vn = buf ! 0 in
       if vn \<noteq> SOCKS4_VERSION then Err (S4UnsupportedSocksVersion vn)
       else let cd = buf ! 1 in
         (case s4_command_from_u8 cd of
            None \<Rightarrow> Err (S4UnsupportedSocksVersion cd)
          | Some command \<Rightarrow>
              let port = from_be (take 2 (drop 2 buf)) in
              and_then (read_nul_field r) (\<lambda>(user_id, r).
                if buf ! 4 = 0x00 \<and> buf ! 5 = 0x00 \<and> buf ! 6 = 0x00 \<and> buf ! 7 \<noteq> 0x00 then
                  and_then (read_nul_field r) (\<lambda>(host, r).
                    (case from_utf8 host of
                       Some host \<Rightarrow>
                         Ok (\<lparr>s4_cd = command, s4_dst = S4DomainNameAddress host port, s4_user_id = user_id\<rparr>, r)
                     | None \<Rightarrow> Err AddressHostInvalidEncoding))
                else
                  let ip = ipv4_new (buf ! 4) (buf ! 5) (buf ! 6) (buf ! 7) in
                  Ok (\<lparr>s4_cd = command, s4_dst = S4SocketAddress ip port, s4_user_id = user_id\<rparr>, r))))"

text \<open>The release build: \<open>debug_assert!\<close> on the user id is compiled out.\<close>

definition s4_request_write_to_buf :: "s4_handshake_request \<Rightarrow> bytes" where
  "s4_request_write_to_buf h =
     [SOCKS4_VERSION, s4_command_as_u8 (s4_cd h)] @
     (case s4_dst h of
        S4SocketAddress ip port \<Rightarrow> to_be 2 port @ ipv4_octets ip @ s4_user_id h @ [0]
      | S4DomainNameAddress dname port \<Rightarrow>
          to_be 2 port @ [0x00, 0x00, 0x00, 0xff] @ s4_user_id h @ [0] @ as_bytes dname @ [0])"

definition s4_request_write_to :: "s4_handshake_request \<Rightarrow> writer \<Rightarrow> (writer, io_kind) outcome" where
  "s4_request_write_to h w = write_all (s4_request_write_to_buf h) w"

definition s4_request_serialized_len :: "s4_handshake_request \<Rightarrow> nat" where
  "s4_request_serialized_len h =
     (let s = 1 + 1 + 2 + 4 + length (s4_user_id h) + 1 in
      case s4_dst h of S4DomainNameAddress dname _ \<Rightarrow> s + (length dname + 1) | _ \<Rightarrow> s)"

record s4_handshake_response =
  s4_code :: s4_result

definition s4_response_read_from :: "reader \<Rightarrow> (s4_handshake_response \<times> reader, s4_error) outcome" where
  "s4_response_read_from r =
     and_then (map_err S4IoError (read_exact 8 r)) (\<lambda>(buf, r).
       let vn = buf ! 0 in
       if vn \<noteq> 0 then Err (S4UnsupportedSocksVersion vn)
       else Ok (\<lparr>s4_code = s4_result_from_u8 (buf ! 1)\<rparr>, r))"

definition s4_response_write_to_buf :: "s4_handshake_response \<Rightarrow> bytes" where
  "s4_response_write_to_buf h = [0x00, s4_result_as_u8 (s4_code h), 0x00, 0x00, 0x00, 0x00, 0x00, 0x00]"

definition s4_response_write_to :: "s4_handshake_response \<Rightarrow> writer \<Rightarrow> (writer, io_kind) outcome" where
  "s4_response_write_to h w = write_all (s4_response_write_to_buf h) w"

definition s4_response_serialized_len :: nat where
  "s4_response_serialized_len = 1 + 1 + 2 + 4"

section \<open>Lemmas\<close>

text \<open>The address \<open>0.0.0.x\<close> with \<open>x \<noteq> 0\<close>, which the protocol reserves for SOCKS4a.\<close>

definition s4a_marker :: "ipv4_addr \<Rightarrow> bool" where
  "s4a_marker ip \<longleftrightarrow> take 3 (ipv4_octets ip) = [0, 0, 0] \<and> ipv4_octets ip ! 3 \<noteq> 0"

definition wf_s4_request :: "s4_handshake_request \<Rightarrow> bool" where
  "wf_s4_request h \<longleftrightarrow> 0 \<notin> set (s4_user_id h) \<and>
     (case s4_dst h of
        S4SocketAddress ip _ \<Rightarrow> \<not> s4a_marker ip
      | S4DomainNameAddress d _ \<Rightarrow> valid_str d \<and> 0 \<notin> set (as_bytes d))"

lemma read_nul_field_append [codec_simps]:
  "0 \<notin> set f \<Longrightarrow> read_nul_field (f @ 0 # q, e) = Ok (f, (q, e))"
  by (simp add: read_nul_field_def read_until_append)

lemma read_exact_8 [codec_simps]:
  "read_exact 8 (a # b # c # d # u # v # w # x # q, e) = Ok ([a, b, c, d, u, v, w, x], (q, e))"
  using read_exact_append [of "[a, b, c, d, u, v, w, x]" 8 q e] by simp

lemma s4_request_write_length: "length (s4_request_write_to_buf h) = s4_request_serialized_len h"
  by (cases "s4_dst h") (simp_all add: s4_request_write_to_buf_def s4_request_serialized_len_def)

lemma s4_request_read_from_write:
  assumes "wf_s4_request h"
  shows "s4_request_read_from (s4_request_write_to_buf h @ rest, e) = Ok (h, (rest, e))"
proof (cases "s4_dst h")
  case (S4SocketAddress ip port)
  obtain o0 o1 o2 o3 where o: "ipv4_octets ip = [o0, o1, o2, o3]"
    by (rule length_4E [OF length_ipv4_octets])
  obtain p0 p1 where p: "to_be 2 port = [p0, p1]" by (rule length_2E [OF length_to_be])
  have "ipv4_new o0 o1 o2 o3 = ip" using from_be_octets [of ip] by (simp add: o ipv4_new_def)
  moreover have "from_be [p0, p1] = port" using from_be_to_be [of 2 port] by (simp add: p)
  moreover have "\<not> (o0 = 0 \<and> o1 = 0 \<and> o2 = 0 \<and> o3 \<noteq> 0)"
    using assms by (simp add: wf_s4_request_def S4SocketAddress s4a_marker_def o)
  ultimately show ?thesis using assms
    by (auto simp add: s4_request_write_to_buf_def s4_request_read_from_def S4SocketAddress Let_def o p
        codec_simps wf_s4_request_def s4_command_from_u8_Some [THEN iffD2])
next
  case (S4DomainNameAddress d port)
  obtain p0 p1 where p: "to_be 2 port = [p0, p1]" by (rule length_2E [OF length_to_be])
  have "from_be [p0, p1] = port" using from_be_to_be [of 2 port] by (simp add: p)
  then show ?thesis using assms
    by (simp add: s4_request_write_to_buf_def s4_request_read_from_def S4DomainNameAddress Let_def p
        codec_simps wf_s4_request_def s4_command_from_u8_Some [THEN iffD2])
qed

interpretation s4req: codec "\<lambda>h. Ok (s4_request_write_to_buf h) :: (bytes, unit) outcome"
  s4_request_read_from wf_s4_request
  by unfold_locales (auto simp: s4_request_read_from_write)

interpretation s4resp: codec "\<lambda>h. Ok (s4_response_write_to_buf h) :: (bytes, unit) outcome"
  s4_response_read_from "\<lambda>h. s4_result_canonical (s4_code h)"
  by unfold_locales
     (auto simp: s4_response_write_to_buf_def s4_response_read_from_def codec_simps s4_result_roundtrip)

lemma split_until_Some:
  "split_until d bs = (p, Some q) \<longleftrightarrow> (\<exists>f. d \<notin> set f \<and> p = f @ [d] \<and> bs = f @ d # q)"
proof
  show "split_until d bs = (p, Some q) \<Longrightarrow> \<exists>f. d \<notin> set f \<and> p = f @ [d] \<and> bs = f @ d # q"
  proof (induction bs arbitrary: p)
    case (Cons b bs)
    show ?case
    proof (cases "b = d")
      case True
      then show ?thesis using Cons.prems by (intro exI [of _ "[]"]) auto
    next
      case False
      then obtain p' where "p = b # p'" "split_until d bs = (p', Some q)"
        using Cons.prems by (auto split: prod.splits)
      with Cons.IH obtain f where "d \<notin> set f" "p' = f @ [d]" "bs = f @ d # q" by blast
      with False \<open>p = b # p'\<close> show ?thesis by (intro exI [of _ "b # f"]) auto
    qed
  qed simp
  assume "\<exists>f. d \<notin> set f \<and> p = f @ [d] \<and> bs = f @ d # q"
  then obtain f where "d \<notin> set f" "p = f @ [d]" "bs = f @ d # q" by blast
  then show "split_until d bs = (p, Some q)" by (simp add: split_until_append)
qed

lemma split_until_None: "split_until d bs = (p, None) \<longleftrightarrow> d \<notin> set bs \<and> p = bs"
proof
  have no: "split_until d bs = (bs, None)" if "d \<notin> set bs" for bs
    using that by (induction bs) auto
  {
    assume n: "split_until d bs = (p, None)"
    have "d \<notin> set bs"
    proof
      assume "d \<in> set bs"
      then obtain f q where "bs = f @ d # q" "d \<notin> set f" by (blast dest: split_list_first)
      with n show False by (simp add: split_until_append)
    qed
    with n no show "d \<notin> set bs \<and> p = bs" by simp
  }
  show "d \<notin> set bs \<and> p = bs \<Longrightarrow> split_until d bs = (p, None)" by (simp add: no)
qed

lemma read_nul_field_Ok_iff:
  "read_nul_field r = Ok (f, r') \<longleftrightarrow> 0 \<notin> set f \<and> r = (f @ 0 # fst r', snd r')"
proof
  assume "read_nul_field r = Ok (f, r')"
  then obtain p where p: "read_until 0 r = Ok (p, r')" "p \<noteq> []" "last p = 0" "f = butlast p"
    by (auto simp: read_nul_field_def outcome_simps split: if_splits)
  obtain p' q where s: "split_until 0 (fst r) = (p', q)" by force
  show "0 \<notin> set f \<and> r = (f @ 0 # fst r', snd r')"
  proof (cases q)
    case None
    with s have "0 \<notin> set (fst r)" "p' = fst r" by (simp_all add: split_until_None)
    moreover from this have "p = fst r" using p(1) None s
      by (simp add: read_until_def split: rd_end.splits)
    ultimately have False using p(2,3) last_in_set by metis
    then show ?thesis ..
  next
    case (Some q')
    with s obtain f' where f': "0 \<notin> set f'" "fst r = f' @ 0 # q'"
      unfolding Some split_until_Some by blast
    then have "read_until 0 r = Ok (f' @ [0], (q', snd r))"
      using read_until_append [of 0 f' q' "snd r"] by (cases r) simp
    with p have "p = f' @ [0]" "r' = (q', snd r)" by simp_all
    with p(4) f' show ?thesis by (cases r) simp
  qed
qed (auto simp: read_nul_field_append)

text \<open>A SOCKS4 request with a user id without NUL, to an IPv4 address outside \<open>0.0.0.x\<close> or to a
  host name without NUL, is read back from its encoding, with nothing consumed after it, and the
  encoding has \<open>serialized_len\<close> bytes.\<close>

theorem socks4_request_roundtrip:
  assumes "wf_s4_request h"
  shows "s4_request_read_from (s4_request_write_to_buf h @ rest, e) = Ok (h, (rest, e)) \<and>
         length (s4_request_write_to_buf h) = s4_request_serialized_len h"
  using assms by (simp add: s4_request_write_length s4_request_read_from_write)

theorem socks4_request_roundtrip_witness:
  "s4_request_read_from (s4_request_write_to_buf
      \<lparr>s4_cd = S4Connect, s4_dst = S4DomainNameAddress ''host'' 80, s4_user_id = [117, 115]\<rparr> @ [7], Eof) =
     Ok (\<lparr>s4_cd = S4Connect, s4_dst = S4DomainNameAddress ''host'' 80, s4_user_id = [117, 115]\<rparr>, ([7], Eof)) \<and>
   length (s4_request_write_to_buf
      \<lparr>s4_cd = S4Connect, s4_dst = S4DomainNameAddress ''host'' 80, s4_user_id = [117, 115]\<rparr>) =
   s4_request_serialized_len
      \<lparr>s4_cd = S4Connect, s4_dst = S4DomainNameAddress ''host'' 80, s4_user_id = [117, 115]\<rparr>"
  by (rule socks4_request_roundtrip) code_simp

text \<open>C33: Every request that the SOCKS4 reader accepts is one the format can carry: the user id and
  the host contain no NUL, and an IPv4 destination is never a \<open>0.0.0.x\<close> address. What it consumed is
  the encoding of the request, except that a SOCKS4a request may carry any non-zero marker.\<close>

theorem socks4_request_canonical:
  assumes "s4_request_read_from r = Ok (h, r')"
  shows "wf_s4_request h \<and> snd r' = snd r \<and>
     (\<exists>pre x. x \<noteq> 0 \<and> fst r = pre @ fst r' \<and>
        (case s4_dst h of
           S4SocketAddress _ _ \<Rightarrow> pre = s4_request_write_to_buf h
         | S4DomainNameAddress _ _ \<Rightarrow> pre [7 := 0xff] = s4_request_write_to_buf h \<and> pre ! 7 = x))"
proof -
  from assms obtain buf r1 u r2 where len: "length buf = 8" and r1: "fst r = buf @ fst r1" "snd r1 = snd r"
    and v: "buf ! 0 = SOCKS4_VERSION" and c: "s4_command_from_u8 (buf ! 1) = Some (s4_cd h)"
    and u: "read_nul_field r1 = Ok (u, r2)" and uh: "s4_user_id h = u"
    and rest: "(buf ! 4 = 0 \<and> buf ! 5 = 0 \<and> buf ! 6 = 0 \<and> buf ! 7 \<noteq> 0 \<and>
        (\<exists>b host. read_nul_field r2 = Ok (b, r') \<and> from_utf8 b = Some host \<and>
           s4_dst h = S4DomainNameAddress host (from_be (take 2 (drop 2 buf))))) \<or>
       (\<not> (buf ! 4 = 0 \<and> buf ! 5 = 0 \<and> buf ! 6 = 0 \<and> buf ! 7 \<noteq> 0) \<and> r' = r2 \<and>
        s4_dst h = S4SocketAddress (ipv4_new (buf ! 4) (buf ! 5) (buf ! 6) (buf ! 7)) (from_be (take 2 (drop 2 buf))))"
    by (auto simp: s4_request_read_from_def outcome_simps read_exact_Ok_iff Let_def
             split: if_splits option.splits)
  from len obtain b0 b1 b2 b3 b4 b5 b6 b7 where buf: "buf = [b0, b1, b2, b3, b4, b5, b6, b7]"
    by (rule length_8E)
  from u have u: "0 \<notin> set u" "r1 = (u @ 0 # fst r2, snd r2)" by (auto simp: read_nul_field_Ok_iff)
  have oct: "ipv4_octets (ipv4_new b4 b5 b6 b7) = [b4, b5, b6, b7]"
    by (simp add: ipv4_octets_def ipv4_new_def)
  from rest show ?thesis
  proof (elim disjE conjE exE)
    fix b host
    assume m: "buf ! 4 = 0" "buf ! 5 = 0" "buf ! 6 = 0" "buf ! 7 \<noteq> 0"
      and h: "read_nul_field r2 = Ok (b, r')" "from_utf8 b = Some host"
        "s4_dst h = S4DomainNameAddress host (from_be (take 2 (drop 2 buf)))"
    from h have h': "0 \<notin> set b" "r2 = (b @ 0 # fst r', snd r')" "valid_str host" "b = as_bytes host"
      by (auto simp: read_nul_field_Ok_iff from_utf8_Some)
    let ?pre = "buf @ u @ 0 # b @ [0]"
    show ?thesis
    proof (intro conjI exI [of _ ?pre] exI [of _ b7])
      show "wf_s4_request h" using h(3) h' u(1) uh by (simp add: wf_s4_request_def)
    qed (use m h' h(3) u r1 v c uh in
          \<open>simp_all add: buf s4_request_write_to_buf_def s4_command_from_u8_Some\<close>)
  next
    assume m: "\<not> (buf ! 4 = 0 \<and> buf ! 5 = 0 \<and> buf ! 6 = 0 \<and> buf ! 7 \<noteq> 0)" and "r' = r2"
      and h: "s4_dst h = S4SocketAddress (ipv4_new (buf ! 4) (buf ! 5) (buf ! 6) (buf ! 7)) (from_be (take 2 (drop 2 buf)))"
    show ?thesis
    proof (intro conjI exI [of _ "buf @ u @ [0]"] exI [of _ 1])
      show "wf_s4_request h" using m h u(1) uh
        by (auto simp: wf_s4_request_def s4a_marker_def oct buf)
    qed (use m h u r1 v c uh \<open>r' = r2\<close> in
          \<open>simp_all add: buf s4_request_write_to_buf_def s4_command_from_u8_Some oct\<close>)
  qed
qed

theorem socks4_request_canonical_witness:
  "wf_s4_request \<lparr>s4_cd = S4Bind, s4_dst = S4DomainNameAddress ''h'' 80, s4_user_id = [117]\<rparr>"
proof -
  have "s4_request_read_from ([4, 2, 0, 80, 0, 0, 0, 9, 117, 0, 104, 0], Eof) =
      Ok (\<lparr>s4_cd = S4Bind, s4_dst = S4DomainNameAddress ''h'' 80, s4_user_id = [117]\<rparr>, ([], Eof))"
    by code_simp
  from socks4_request_canonical [OF this] show ?thesis by simp
qed

end
