(* ===== verification/Packet_Window.thy ===== *)
theory Packet_Window
  imports Prelude
begin

unbundle bit_operations_syntax

text \<open>
  The sliding window of packet ids of \<open>crates/shadowsocks-service/src/net/packet_window.rs\<close>, kept
  per UDP session by the AEAD-2022 relays against replayed packets. The code is modelled on 64-bit
  words with its ring of 128 blocks; the abstract specification is the list of accepted ids, and
  the locale \<open>replay_window\<close> is the contract between the two.
\<close>

section \<open>The filter\<close>

definition BLOCK_BIT_LOG :: nat where "BLOCK_BIT_LOG = 6"
definition BLOCK_BITS :: u64 where "BLOCK_BITS = push_bit BLOCK_BIT_LOG 1"
definition RING_BLOCKS :: u64 where "RING_BLOCKS = push_bit 7 1"
definition WINDOW_SIZE :: u64 where "WINDOW_SIZE = (RING_BLOCKS - 1) * BLOCK_BITS"
definition BLOCK_MASK :: u64 where "BLOCK_MASK = RING_BLOCKS - 1"
definition BIT_MASK :: u64 where "BIT_MASK = BLOCK_BITS - 1"

record packet_window_filter =
  last_packet_id :: u64
  packet_ring :: "u64 list"

definition packet_window_new :: packet_window_filter where
  "packet_window_new = \<lparr>last_packet_id = 0, packet_ring = replicate (unat RING_BLOCKS) 0\<rparr>"

definition packet_window_reset :: "packet_window_filter \<Rightarrow> packet_window_filter" where
  "packet_window_reset f = f\<lparr>last_packet_id := 0, packet_ring := (packet_ring f)[0 := 0]\<rparr>"

text \<open>The loop \<open>for d in 1..=diff\<close> that clears the blocks the window moves over.\<close>

definition clear_blocks :: "u64 \<Rightarrow> u64 \<Rightarrow> u64 list \<Rightarrow> u64 list" where
  "clear_blocks current diff ring =
     fold (\<lambda>d ring. let i = current + of_nat d in ring[unat (i AND BLOCK_MASK) := 0])
       [1..<Suc (unat diff)] ring"

text \<open>The tail of the function: check and set the bit of the packet.\<close>

definition check_and_set :: "u64 \<Rightarrow> packet_window_filter \<Rightarrow> bool \<times> packet_window_filter" where
  "check_and_set packet_id f =
     (let index_block = drop_bit BLOCK_BIT_LOG packet_id AND BLOCK_MASK;
          index_bit = packet_id AND BIT_MASK;
          old = packet_ring f ! unat index_block;
          new = old OR push_bit (unat index_bit) 1
      in (old \<noteq> new, f\<lparr>packet_ring := (packet_ring f)[unat index_block := new]\<rparr>))"

definition validate_packet_id ::
    "packet_window_filter \<Rightarrow> u64 \<Rightarrow> u64 \<Rightarrow> bool \<times> packet_window_filter" where
  "validate_packet_id f packet_id limit =
     (if packet_id \<ge> limit then (False, f)
      else
        let index_block = drop_bit BLOCK_BIT_LOG packet_id in
        if packet_id > last_packet_id f then
          let current = drop_bit BLOCK_BIT_LOG (last_packet_id f);
              diff = index_block - current;
              diff = (if diff > RING_BLOCKS then RING_BLOCKS else diff);
              ring = clear_blocks current diff (packet_ring f)
          in check_and_set packet_id \<lparr>last_packet_id = packet_id, packet_ring = ring\<rparr>
        else if last_packet_id f - packet_id > WINDOW_SIZE then (False, f)
        else check_and_set packet_id f)"

section \<open>The contract\<close>

text \<open>
  The specification: \<open>hs\<close> lists the ids accepted since the last reset. An id is accepted when it is
  below the limit, was not accepted before, and is at most 8128 behind every accepted id.
\<close>

definition window_accepts :: "nat list \<Rightarrow> nat \<Rightarrow> nat \<Rightarrow> bool" where
  "window_accepts hs n limit \<longleftrightarrow> n < limit \<and> n \<notin> set hs \<and> list_all (\<lambda>h. h \<le> n + 8128) hs"

fun window_spec :: "nat list \<Rightarrow> (u64 \<times> u64) list \<Rightarrow> bool list" where
  "window_spec hs [] = []"
| "window_spec hs ((n, l) # rs) =
     (let ok = window_accepts hs (unat n) (unat l)
      in ok # window_spec (if ok then unat n # hs else hs) rs)"

fun run_window :: "('f \<Rightarrow> u64 \<Rightarrow> u64 \<Rightarrow> bool \<times> 'f) \<Rightarrow> 'f \<Rightarrow> (u64 \<times> u64) list \<Rightarrow> bool list \<times> 'f" where
  "run_window v f [] = ([], f)"
| "run_window v f ((n, l) # rs) =
     (let (ok, f) = v f n l; (oks, f) = run_window v f rs in (ok # oks, f))"

text \<open>The ids of the requests that were accepted.\<close>

definition accepted :: "(u64 \<times> u64) list \<Rightarrow> bool list \<Rightarrow> u64 list" where
  "accepted rs oks = map (\<lambda>((n, l), ok). n) (filter snd (zip rs oks))"

lemma accepted_simps [simp]:
  "accepted [] oks = []" "accepted ((n, l) # rs) (ok # oks) = (if ok then [n] else []) @ accepted rs oks"
  by (simp_all add: accepted_def)

locale replay_window =
  fixes validate :: "'f \<Rightarrow> u64 \<Rightarrow> u64 \<Rightarrow> bool \<times> 'f"
    and reset :: "'f \<Rightarrow> 'f"
    and rel :: "'f \<Rightarrow> nat list \<Rightarrow> bool"
  assumes rel_validate: "rel f hs \<Longrightarrow> validate f n l = (ok, f') \<Longrightarrow>
      ok = window_accepts hs (unat n) (unat l) \<and> rel f' (if ok then unat n # hs else hs)"
    and rel_reset: "rel f hs \<Longrightarrow> rel (reset f) []"
begin

lemma run_spec:
  "rel f hs \<Longrightarrow> run_window validate f rs = (oks, f') \<Longrightarrow>
   oks = window_spec hs rs \<and> (\<exists>hs'. rel f' hs')"
proof (induction rs arbitrary: f hs oks)
  case Nil
  then show ?case by auto
next
  case (Cons r rs)
  obtain n l where r: "r = (n, l)" by (cases r)
  obtain ok f1 where v: "validate f n l = (ok, f1)" by (cases "validate f n l")
  obtain oks' where run: "run_window validate f1 rs = (oks', f')" and oks: "oks = ok # oks'"
    using Cons.prems(2) by (auto simp: r v split: prod.splits)
  from rel_validate [OF Cons.prems(1) v]
  have ok: "ok = window_accepts hs (unat n) (unat l)" and "rel f1 (if ok then unat n # hs else hs)"
    by auto
  from Cons.IH [OF this(2) run] show ?case by (simp add: r oks ok Let_def)
qed

lemma run_reset_spec:
  assumes "rel f hs"
  shows "fst (run_window validate (reset f) rs) = window_spec [] rs"
  using run_spec [OF rel_reset [OF assms], of rs] by (cases "run_window validate (reset f) rs") auto

end

text \<open>The specification never accepts an id twice, and always accepts ids above all earlier ones.\<close>

lemma window_spec_distinct:
  "distinct (accepted rs (window_spec hs rs)) \<and>
   (\<forall>n \<in> set (accepted rs (window_spec hs rs)). unat n \<notin> set hs)"
proof (induction rs arbitrary: hs)
  case Nil
  then show ?case by simp
next
  case (Cons r rs)
  obtain n l where r: "r = (n, l)" by (cases r)
  let ?ok = "window_accepts hs (unat n) (unat l)"
  show ?case
    using Cons.IH [of "if ?ok then unat n # hs else hs"]
    by (auto simp: r Let_def window_accepts_def split: if_splits)
qed

lemma window_spec_increasing:
  assumes "sorted_wrt (<) (map unat ns)" "\<forall>n \<in> set ns. n < l" "\<forall>h \<in> set hs. \<forall>n \<in> set ns. h < unat n"
  shows "window_spec hs (map (\<lambda>n. (n, l)) ns) = replicate (length ns) True"
  using assms
proof (induction ns arbitrary: hs)
  case Nil
  then show ?case by simp
next
  case (Cons n ns)
  have "window_accepts hs (unat n) (unat l)"
    using Cons.prems by (auto simp: window_accepts_def list_all_iff word_less_nat_alt)
  then show ?case using Cons.IH [of "unat n # hs"] Cons.prems by (auto simp: Let_def)
qed

section \<open>The filter implements the contract\<close>

text \<open>The constants, and the word operations as arithmetic.\<close>

lemma window_consts:
  "unat RING_BLOCKS = 128" "unat WINDOW_SIZE = 8128"
  "BLOCK_MASK = mask 7" "BIT_MASK = mask 6" "BLOCK_BIT_LOG = 6"
  by (code_simp, code_simp, code_simp, code_simp, simp add: BLOCK_BIT_LOG_def)

lemma block_of: "unat (drop_bit BLOCK_BIT_LOG (n :: u64)) = unat n div 64"
  by (simp only: window_consts unat_drop_bit_eq) (simp add: drop_bit_eq_div)

lemma slot_of: "unat (i AND BLOCK_MASK) = unat i mod 128"
  by (simp only: window_consts take_bit_eq_mask [symmetric] unsigned_take_bit_eq) (simp add: take_bit_eq_mod)

lemma bit_of: "unat (i AND BIT_MASK) = unat i mod 64"
  by (simp only: window_consts take_bit_eq_mask [symmetric] unsigned_take_bit_eq) (simp add: take_bit_eq_mod)

lemma unat_sub: "b \<le> a \<Longrightarrow> unat (a - b :: u64) = unat a - unat b"
  by (simp add: unat_sub)

lemma or_bit:
  fixes old :: u64
  assumes "k < 64"
  shows "bit (old OR 2 ^ k) j \<longleftrightarrow> bit old j \<or> j = k" and "old \<noteq> old OR 2 ^ k \<longleftrightarrow> \<not> bit old k"
proof -
  have 1: "bit (old OR 2 ^ k) j \<longleftrightarrow> bit old j \<or> j = k" for j
    using assms by (auto simp: bit_simps)
  then show "bit (old OR 2 ^ k) j \<longleftrightarrow> bit old j \<or> j = k" .
  show "old \<noteq> old OR 2 ^ k \<longleftrightarrow> \<not> bit old k"
  proof (cases "bit old k")
    case True
    have "old = old OR 2 ^ k" by (rule bit_eqI) (use 1 True in auto)
    with True show ?thesis by simp
  next
    case False
    with 1 [of k] have "old \<noteq> old OR 2 ^ k" by auto
    with False show ?thesis by simp
  qed
qed

lemma clear_blocks_nth:
  assumes "length ring = 128" "unat current + unat diff < 2 ^ 64" "s < 128"
  shows "clear_blocks current diff ring ! s =
     (if \<exists>d \<in> {1..unat diff}. (unat current + d) mod 128 = s then 0 else ring ! s)"
    and "length (clear_blocks current diff ring) = 128"
proof -
  let ?f = "\<lambda>d ring :: u64 list. let i = current + of_nat d in ring[unat (i AND BLOCK_MASK) := 0]"
  have slot: "unat ((current + of_nat d) AND BLOCK_MASK) = (unat current + d) mod 128"
    if "d \<le> unat diff" for d
  proof -
    have "d < 2 ^ 64" using that unsigned_less [of diff, where 'a = nat] by simp
    then have "unat (of_nat d :: u64) = d" by (simp add: unat_of_nat take_bit_nat_eq_self)
    then have "unat (current + of_nat d) = unat current + d"
      using that assms(2) by (subst unat_plus_simple [THEN iffD1]) (auto simp: word_le_nat_alt unat_word_ariths)
    then show ?thesis by (simp only: slot_of)
  qed
  have "length (fold ?f [1..<Suc n] ring) = 128 \<and>
     (n \<le> unat diff \<longrightarrow> fold ?f [1..<Suc n] ring ! s =
        (if \<exists>d \<in> {1..n}. (unat current + d) mod 128 = s then 0 else ring ! s))" for n
  proof (induction n)
    case 0
    then show ?case using assms by simp
  next
    case (Suc n)
    define R where "R = fold ?f [1..<Suc n] ring"
    have R: "length R = 128"
      "n \<le> unat diff \<longrightarrow> R ! s = (if \<exists>d \<in> {1..n}. (unat current + d) mod 128 = s then 0 else ring ! s)"
      using Suc [THEN conjunct1] Suc [THEN conjunct2] unfolding R_def by fast+
    have "fold ?f [1..<Suc (Suc n)] ring = R[unat ((current + of_nat (Suc n)) AND BLOCK_MASK) := 0]"
      by (simp add: R_def Let_def)
    moreover have "{1..Suc n} = insert (Suc n) {1..n}" by auto
    ultimately show ?case using R assms(3) slot [of "Suc n"]
      by (simp del: upt_Suc of_nat_Suc add: nth_list_update)
  qed
  from this [of "unat diff"] show
    "clear_blocks current diff ring ! s =
     (if \<exists>d \<in> {1..unat diff}. (unat current + d) mod 128 = s then 0 else ring ! s)"
    "length (clear_blocks current diff ring) = 128"
    by (simp_all add: clear_blocks_def)
qed

text \<open>
  The refinement relation: the last id is the greatest accepted one, and in the 128 blocks up to
  the block of the last id exactly the bits of accepted ids are set.
\<close>

definition ring_shows :: "u64 list \<Rightarrow> nat \<Rightarrow> nat list \<Rightarrow> bool" where
  "ring_shows ring m hs \<longleftrightarrow> length ring = 128 \<and>
     (\<forall>x. x div 64 \<le> m div 64 \<and> m div 64 < x div 64 + 128 \<longrightarrow>
        (bit (ring ! (x div 64 mod 128)) (x mod 64) \<longleftrightarrow> x \<in> set hs))"

definition window_rel :: "packet_window_filter \<Rightarrow> nat list \<Rightarrow> bool" where
  "window_rel f hs \<longleftrightarrow> unat (last_packet_id f) = foldr max hs 0 \<and>
     ring_shows (packet_ring f) (unat (last_packet_id f)) hs"

lemma foldr_max_ge: "h \<in> set hs \<Longrightarrow> h \<le> foldr max hs (0 :: nat)"
  by (induction hs) auto

lemma foldr_max_le_iff: "foldr max hs (0 :: nat) \<le> m \<longleftrightarrow> (\<forall>h \<in> set hs. h \<le> m)"
  by (induction hs) auto

lemma window_rel_new: "window_rel packet_window_new []"
  by (simp add: window_rel_def ring_shows_def packet_window_new_def window_consts)

lemma ring_shows_reset: "length ring = 128 \<Longrightarrow> ring_shows (ring[0 := 0]) 0 []"
  by (auto simp: ring_shows_def)

lemma window_rel_reset: "window_rel f hs \<Longrightarrow> window_rel (packet_window_reset f) []"
  by (simp add: window_rel_def packet_window_reset_def ring_shows_reset)
     (simp add: ring_shows_def)

lemma same_slot:
  assumes "a mod 128 = b mod 128" "a \<le> l" "b \<le> l" "l < a + 128" "l < b + (128 :: nat)"
  shows "a = b"
proof -
  have eq: "a = 128 * (a div 128) + a mod 128" "b = 128 * (b div 128) + b mod 128" by simp_all
  consider "a div 128 + 1 \<le> b div 128" | "b div 128 + 1 \<le> a div 128" | "a div 128 = b div 128" by linarith
  then show ?thesis using eq assms by cases linarith+
qed

text \<open>Checking and setting the bit of an id whose block is in the ring.\<close>

lemma check_and_set_rel:
  assumes "check_and_set n f = (ok, f')"
    and ring: "ring_shows (packet_ring f) (unat (last_packet_id f)) hs"
    and blk: "unat n div 64 \<le> unat (last_packet_id f) div 64"
      "unat (last_packet_id f) div 64 < unat n div 64 + 128"
  shows "ok \<longleftrightarrow> unat n \<notin> set hs" and "last_packet_id f' = last_packet_id f"
    and "ring_shows (packet_ring f') (unat (last_packet_id f)) (unat n # hs)"
proof -
  let ?s = "unat n div 64 mod 128" and ?k = "unat n mod 64" and ?r = "packet_ring f"
  have k: "?k < 64" by simp
  have len: "length ?r = 128" using ring by (simp add: ring_shows_def)
  have sn: "bit (?r ! ?s) ?k \<longleftrightarrow> unat n \<in> set hs" using ring blk by (simp add: ring_shows_def)
  have ok: "ok \<longleftrightarrow> ?r ! ?s \<noteq> ?r ! ?s OR 2 ^ ?k"
    and f': "f' = f\<lparr>packet_ring := ?r[?s := ?r ! ?s OR 2 ^ ?k]\<rparr>"
    using assms(1) by (simp_all add: check_and_set_def Let_def slot_of bit_of block_of)
  show "ok \<longleftrightarrow> unat n \<notin> set hs" unfolding ok or_bit(2) [OF k] sn ..
  show "last_packet_id f' = last_packet_id f" by (simp add: f')
  show "ring_shows (packet_ring f') (unat (last_packet_id f)) (unat n # hs)"
    unfolding ring_shows_def
  proof (intro conjI allI impI)
    show "length (packet_ring f') = 128" by (simp add: f' len)
    fix x assume x: "x div 64 \<le> unat (last_packet_id f) div 64 \<and> unat (last_packet_id f) div 64 < x div 64 + 128"
    have x_hs: "bit (?r ! (x div 64 mod 128)) (x mod 64) \<longleftrightarrow> x \<in> set hs"
      using ring x by (simp add: ring_shows_def)
    show "bit (packet_ring f' ! (x div 64 mod 128)) (x mod 64) \<longleftrightarrow> x \<in> set (unat n # hs)"
    proof (cases "x div 64 = unat n div 64")
      case True
      then have "x mod 64 = ?k \<longleftrightarrow> x = unat n" by (metis div_mult_mod_eq)
      with True x_hs show ?thesis by (auto simp: f' len or_bit(1) [OF k])
    next
      case False
      then have "x div 64 mod 128 \<noteq> ?s" using same_slot x blk by blast
      with False x_hs show ?thesis by (auto simp: f' len)
    qed
  qed
qed

text \<open>Moving the window forward.\<close>

lemma clear_blocks_rel:
  assumes ring: "ring_shows ring l hs" and l: "l = unat lst" and hs: "\<forall>h \<in> set hs. h \<le> l"
    and n: "l < unat n"
    and current: "current = drop_bit BLOCK_BIT_LOG lst"
    and diff: "diff = (let diff = drop_bit BLOCK_BIT_LOG n - current
                       in if diff > RING_BLOCKS then RING_BLOCKS else diff)"
  shows "ring_shows (clear_blocks current diff ring) (unat n) hs"
proof -
  have cur: "unat current = l div 64" by (simp add: current l block_of)
  have le: "l div 64 \<le> unat n div 64" using n by (intro div_le_mono) simp
  then have "current \<le> drop_bit BLOCK_BIT_LOG n" by (simp add: word_le_nat_alt cur block_of)
  then have "unat (drop_bit BLOCK_BIT_LOG n - current) = unat n div 64 - l div 64"
    by (simp add: unat_sub block_of cur)
  then have d: "unat diff = min 128 (unat n div 64 - l div 64)"
    unfolding diff by (simp add: Let_def word_less_nat_alt window_consts)
  have "unat n < 2 ^ 64" using unsigned_less [of n, where 'a = nat] by simp
  then have "unat current + unat diff < 2 ^ 64" using le by (simp add: cur d)
  moreover have len: "length ring = 128" using ring by (simp add: ring_shows_def)
  ultimately have clr: "s < 128 \<Longrightarrow> clear_blocks current diff ring ! s =
      (if \<exists>d \<in> {1..unat diff}. (l div 64 + d) mod 128 = s then 0 else ring ! s)"
    and len': "length (clear_blocks current diff ring) = 128" for s
    using clear_blocks_nth [of ring current diff 0] clear_blocks_nth [of ring current diff s]
    by (simp_all add: cur)
  show ?thesis unfolding ring_shows_def
  proof (intro conjI len' allI impI)
    fix x assume x: "x div 64 \<le> unat n div 64 \<and> unat n div 64 < x div 64 + 128"
    let ?s = "x div 64 mod 128"
    show "bit (clear_blocks current diff ring ! ?s) (x mod 64) \<longleftrightarrow> x \<in> set hs"
    proof (cases "x div 64 \<le> l div 64")
      case True
      have "(l div 64 + d) mod 128 \<noteq> ?s" if "d \<in> {1..unat diff}" for d
      proof
        assume eq: "(l div 64 + d) mod 128 = ?s"
        have "d \<le> unat n div 64 - l div 64" "1 \<le> d" using that d by auto
        then have "l div 64 + d \<le> unat n div 64" using le by linarith
        moreover have "unat n div 64 < l div 64 + d + 128" using x True by linarith
        ultimately have "l div 64 + d = x div 64" using same_slot [OF eq] x by blast
        with True \<open>1 \<le> d\<close> show False by simp
      qed
      with clr [of ?s] have "clear_blocks current diff ring ! ?s = ring ! ?s" by auto
      then show ?thesis using ring True x le by (simp add: ring_shows_def)
    next
      case False
      then have "x \<notin> set hs" using hs div_le_mono [of x l 64] by auto
      moreover have "\<exists>d \<in> {1..unat diff}. (l div 64 + d) mod 128 = ?s"
      proof (cases "unat n div 64 - l div 64 \<le> 128")
        case True
        have "1 \<le> x div 64 - l div 64" using False by linarith
        moreover have "x div 64 - l div 64 \<le> unat diff" using x True unfolding d by linarith
        moreover have "l div 64 + (x div 64 - l div 64) = x div 64" using False by linarith
        ultimately show ?thesis by (intro bexI [of _ "x div 64 - l div 64"]) simp_all
      next
        case far: False
        let ?d = "(x div 64 + 127 - l div 64) mod 128 + 1"
        have "?d \<in> {1..unat diff}" using far d by auto
        moreover have "(l div 64 + ?d) mod 128 = ?s"
        proof -
          have "(l div 64 + ?d) mod 128 = (l div 64 + (x div 64 + 127 - l div 64) + 1) mod 128"
            by (metis (no_types) add.assoc mod_add_left_eq mod_add_right_eq)
          also have "l div 64 + (x div 64 + 127 - l div 64) + 1 = x div 64 + 128" using False by simp
          finally show ?thesis by simp
        qed
        ultimately show ?thesis by blast
      qed
      ultimately show ?thesis using clr [of ?s] by auto
    qed
  qed
qed

text \<open>The filter refines the specification: \<open>validate_packet_id\<close> step by step.\<close>

lemma validate_packet_id_rel:
  assumes rel: "window_rel f hs" and v: "validate_packet_id f n l = (ok, f')"
  shows "ok = window_accepts hs (unat n) (unat l) \<and> window_rel f' (if ok then unat n # hs else hs)"
proof -
  let ?m = "unat (last_packet_id f)"
  have m: "?m = foldr max hs 0" and ring: "ring_shows (packet_ring f) ?m hs"
    using rel by (auto simp: window_rel_def)
  have hs: "\<forall>h \<in> set hs. h \<le> ?m" using foldr_max_ge m by metis
  have far: "list_all (\<lambda>h. h \<le> unat n + 8128) hs \<longleftrightarrow> ?m \<le> unat n + 8128"
    by (simp add: m list_all_iff foldr_max_le_iff)
  consider (limit) "l \<le> n" | (ahead) "n < l" "last_packet_id f < n"
    | (behind) "n < l" "n \<le> last_packet_id f" "WINDOW_SIZE < last_packet_id f - n"
    | (inside) "n < l" "n \<le> last_packet_id f" "last_packet_id f - n \<le> WINDOW_SIZE"
    by force
  then show ?thesis
  proof cases
    case limit
    then show ?thesis using v rel
      by (auto simp: validate_packet_id_def window_accepts_def word_le_nat_alt)
  next
    case behind
    then have "unat n + 8128 < ?m"
      by (simp add: word_less_nat_alt word_le_nat_alt unat_sub window_consts)
    then have "\<not> window_accepts hs (unat n) (unat l)" by (simp add: window_accepts_def far)
    then show ?thesis using v rel behind
      by (simp add: validate_packet_id_def Let_def not_le not_less split: if_splits)
  next
    case ahead
    let ?ring = "clear_blocks (drop_bit BLOCK_BIT_LOG (last_packet_id f))
      (let diff = drop_bit BLOCK_BIT_LOG n - drop_bit BLOCK_BIT_LOG (last_packet_id f)
       in if diff > RING_BLOCKS then RING_BLOCKS else diff) (packet_ring f)"
    have lt: "?m < unat n" using ahead by (simp add: word_less_nat_alt)
    have r: "ring_shows ?ring (unat n) hs"
      by (rule clear_blocks_rel [OF ring refl hs lt refl refl])
    let ?g = "\<lparr>last_packet_id = n, packet_ring = ?ring\<rparr>"
    have "\<not> l \<le> n" using ahead by (simp add: not_le)
    then have "validate_packet_id f n l = check_and_set n ?g"
      using ahead by (simp only: validate_packet_id_def Let_def if_False if_True)
    then have "check_and_set n ?g = (ok, f')" using v by simp
    from check_and_set_rel [OF this, of hs] r
    have "ok \<longleftrightarrow> unat n \<notin> set hs" "last_packet_id f' = n" "ring_shows (packet_ring f') (unat n) (unat n # hs)"
      by simp_all
    moreover have new: "unat n \<notin> set hs" using hs lt by auto
    moreover have "window_accepts hs (unat n) (unat l)"
      using new lt ahead by (simp add: window_accepts_def far word_less_nat_alt)
    ultimately show ?thesis using m lt by (simp add: window_rel_def max_def)
  next
    case inside
    have le: "unat n \<le> ?m" using inside by (simp add: word_le_nat_alt)
    have win: "?m \<le> unat n + 8128"
      using inside by (simp add: word_le_nat_alt unat_sub window_consts)
    have "\<not> l \<le> n" "\<not> last_packet_id f < n" "\<not> WINDOW_SIZE < last_packet_id f - n"
      using inside by (simp_all add: not_le not_less)
    then have "validate_packet_id f n l = check_and_set n f"
      by (simp only: validate_packet_id_def Let_def if_False)
    then have "check_and_set n f = (ok, f')" using v by simp
    note set = check_and_set_rel [OF this ring]
    have "unat n div 64 \<le> ?m div 64" using le by (rule div_le_mono)
    moreover have "?m div 64 \<le> (unat n + 8128) div 64" using win by (rule div_le_mono)
    then have "?m div 64 < unat n div 64 + 128" by simp
    ultimately have "ok \<longleftrightarrow> unat n \<notin> set hs" "last_packet_id f' = last_packet_id f"
      "ring_shows (packet_ring f') ?m (unat n # hs)"
      using set by blast+
    moreover have "window_accepts hs (unat n) (unat l) \<longleftrightarrow> unat n \<notin> set hs"
      using inside win by (simp add: window_accepts_def far word_less_nat_alt)
    moreover have "ring_shows (packet_ring f') ?m hs" if "unat n \<in> set hs"
    proof -
      have "set (unat n # hs) = set hs" using that by auto
      then show ?thesis
        using \<open>ring_shows (packet_ring f') ?m (unat n # hs)\<close> unfolding ring_shows_def by metis
    qed
    ultimately show ?thesis using m le by (auto simp: window_rel_def max_def)
  qed
qed

interpretation pw: replay_window validate_packet_id packet_window_reset window_rel
  by unfold_locales (rule validate_packet_id_rel, assumption+, rule window_rel_reset)

section \<open>Properties\<close>

text \<open>C9: From a new filter, \<open>validate_packet_id\<close> answers every sequence of packet ids as the
  specification does: an id is accepted exactly when it is below the limit, was not accepted
  before, and is at most 8128 behind the greatest accepted id.\<close>

theorem packet_window_refines_spec:
  "fst (run_window validate_packet_id packet_window_new rs) = window_spec [] rs"
  using pw.run_spec [OF window_rel_new, of rs]
  by (cases "run_window validate_packet_id packet_window_new rs") auto

text \<open>C19: No packet id is accepted twice, whatever the order of the packets.\<close>

theorem packet_window_no_replay:
  "distinct (accepted rs (fst (run_window validate_packet_id packet_window_new rs)))"
  using pw.run_spec [OF window_rel_new, of rs] window_spec_distinct [of rs "[]"]
  by (cases "run_window validate_packet_id packet_window_new rs") auto

text \<open>\<open>reset\<close>, which clears only the first block of the ring, is enough: after any traffic a
  reset filter answers like a new one.\<close>

theorem packet_window_reset_is_new:
  "fst (run_window validate_packet_id
      (packet_window_reset (snd (run_window validate_packet_id packet_window_new rs))) qs) =
   fst (run_window validate_packet_id packet_window_new qs)"
proof -
  obtain oks f where run: "run_window validate_packet_id packet_window_new rs = (oks, f)" by force
  from pw.run_spec [OF window_rel_new run] obtain hs where "window_rel f hs" by blast
  from pw.run_reset_spec [OF this, of qs] pw.run_reset_spec [OF window_rel_new, of qs]
  show ?thesis
    using pw.run_spec [OF window_rel_new, of qs]
    by (cases "run_window validate_packet_id packet_window_new qs") (auto simp: run)
qed

text \<open>Packets in increasing order below the limit are all accepted, whatever the gaps.\<close>

theorem packet_window_accepts_increasing:
  assumes "sorted_wrt (<) (map unat ns)" "\<forall>n \<in> set ns. n < l"
  shows "fst (run_window validate_packet_id packet_window_new (map (\<lambda>n. (n, l)) ns)) =
         replicate (length ns) True"
  using assms pw.run_spec [OF window_rel_new, of "map (\<lambda>n. (n, l)) ns"] window_spec_increasing [of ns l "[]"]
  by (cases "run_window validate_packet_id packet_window_new (map (\<lambda>n. (n, l)) ns)") auto

theorem packet_window_accepts_increasing_witness:
  "fst (run_window validate_packet_id packet_window_new (map (\<lambda>n. (n, 0x10000)) [1, 8300, 50000])) =
     replicate (length [1 :: u64, 8300, 50000]) True"
  by (rule packet_window_accepts_increasing) simp_all

end
