(* ===== verification/Replay.thy ===== *)
theory Replay
  imports Prelude
begin

text \<open>
  Replay protection of \<open>crates/shadowsocks/src\<close>: the two alternating bloom filters of
  \<open>security/replay/ppbloom.rs\<close>, the protector of \<open>security/replay/mod.rs\<close>, and the part of
  \<open>context.rs\<close> that generates and checks nonces under a \<open>ReplayAttackPolicy\<close> (\<open>config.rs\<close>).

  The bloom filter, the expiring cache and the cipher kinds are third-party crates: their
  operations are the fields of a library record, an argument of every definition that uses them.
  The Cargo features that select code are two booleans of the same record.
\<close>

section \<open>Third-party operations\<close>

datatype cipher_category = CatNone | CatStream | CatAead | CatAead2022

record cipher_kind =
  kind_category :: cipher_category
  kind_is_aead_2022 :: bool
  kind_key_len :: nat
  kind_salt_len :: nat
  kind_iv_len :: nat
  kind_tag_len :: nat

text \<open>
  \<open>Bloom::new_for_fp_rate(n, 10\<^sup>-\<^sup>e)\<close> is \<open>bloom_new n e\<close>. The cache reads the clock itself, so its
  operations take the time of the call, in seconds.
\<close>

record ('b, 's) replay_lib =
  bloom_new :: "nat \<Rightarrow> nat \<Rightarrow> 'b"
  bloom_check :: "'b \<Rightarrow> bytes \<Rightarrow> bool"
  bloom_set :: "'b \<Rightarrow> bytes \<Rightarrow> 'b"
  bloom_clear :: "'b \<Rightarrow> 'b"
  lru_with_expiry :: "nat \<Rightarrow> 's"
  lru_get :: "'s \<Rightarrow> nat \<Rightarrow> bytes \<Rightarrow> bool \<times> 's"
  lru_insert :: "'s \<Rightarrow> nat \<Rightarrow> bytes \<Rightarrow> 's"
  feat_replay_detect :: bool
  feat_aead_2022 :: bool

text \<open>A bloom filter has no false negatives, and setting an item removes none.\<close>

definition bloom_laws :: "('b, 's, 'z) replay_lib_scheme \<Rightarrow> bool" where
  "bloom_laws lib \<longleftrightarrow>
     (\<forall>b x. bloom_check lib (bloom_set lib b x) x) \<and>
     (\<forall>b x y. bloom_check lib b y \<longrightarrow> bloom_check lib (bloom_set lib b x) y)"

text \<open>
  A cache is created with an expiry duration, \<open>ttl s\<close>, that no operation changes. It keeps a key for
  that duration after it is inserted, and one that is looked up or inserted again for that duration
  after the new call, whatever else is looked up or inserted meanwhile; it holds only keys that were
  inserted. \<open>until s k\<close> is the time at which \<open>k\<close> expires, 0 when it is absent.
\<close>

definition lru_laws :: "('b, 's, 'z) replay_lib_scheme \<Rightarrow> ('s \<Rightarrow> nat) \<Rightarrow> ('s \<Rightarrow> bytes \<Rightarrow> nat) \<Rightarrow> bool" where
  "lru_laws lib ttl until \<longleftrightarrow>
     (\<forall>d. ttl (lru_with_expiry lib d) = d) \<and>
     (\<forall>s now k. ttl (lru_insert lib s now k) = ttl s) \<and>
     (\<forall>s now k. ttl (snd (lru_get lib s now k)) = ttl s) \<and>
     (\<forall>d k. until (lru_with_expiry lib d) k = 0) \<and>
     (\<forall>s now k. now + ttl s \<le> until (lru_insert lib s now k) k) \<and>
     (\<forall>s now k k'. now < until s k' \<longrightarrow> min (until s k') (now + ttl s) \<le> until (lru_insert lib s now k) k') \<and>
     (\<forall>s now k k'. k' \<noteq> k \<longrightarrow> until s k' = 0 \<longrightarrow> until (lru_insert lib s now k) k' = 0) \<and>
     (\<forall>s now k. fst (lru_get lib s now k) \<longleftrightarrow> now < until s k) \<and>
     (\<forall>s now k k'. now < until s k' \<longrightarrow> min (until s k') (now + ttl s) \<le> until (snd (lru_get lib s now k)) k') \<and>
     (\<forall>s now k k'. until s k' = 0 \<longrightarrow> until (snd (lru_get lib s now k)) k' = 0)"

section \<open>Server types and policies\<close>

datatype server_type = Local | Server

definition is_local :: "server_type \<Rightarrow> bool" where "is_local ty \<longleftrightarrow> ty = Local"
definition is_server :: "server_type \<Rightarrow> bool" where "is_server ty \<longleftrightarrow> ty = Server"

datatype replay_attack_policy = PolicyDefault | PolicyIgnore | PolicyDetect | PolicyReject

fun replay_policy_display :: "replay_attack_policy \<Rightarrow> string" where
  "replay_policy_display PolicyDefault = ''default''"
| "replay_policy_display PolicyIgnore = ''ignore''"
| "replay_policy_display PolicyDetect = ''detect''"
| "replay_policy_display PolicyReject = ''reject''"

definition replay_policy_from_str :: "string \<Rightarrow> (replay_attack_policy, unit) outcome" where
  "replay_policy_from_str s =
     (if s = ''default'' then Ok PolicyDefault
      else if s = ''ignore'' then Ok PolicyIgnore
      else if s = ''detect'' then Ok PolicyDetect
      else if s = ''reject'' then Ok PolicyReject
      else Err ())"

lemma replay_policy_roundtrip: "replay_policy_from_str (replay_policy_display p) = Ok p"
  by (cases p) (simp_all add: replay_policy_from_str_def)

section \<open>The ping-pong bloom filter\<close>

definition BF_NUM_ENTRIES_FOR_SERVER :: nat where "BF_NUM_ENTRIES_FOR_SERVER = 1000000"
definition BF_NUM_ENTRIES_FOR_CLIENT :: nat where "BF_NUM_ENTRIES_FOR_CLIENT = 10000"
definition BF_ERROR_RATE_FOR_SERVER :: nat where "BF_ERROR_RATE_FOR_SERVER = 6"
definition BF_ERROR_RATE_FOR_CLIENT :: nat where "BF_ERROR_RATE_FOR_CLIENT = 15"

record 'b ping_pong_bloom =
  blooms :: "'b list"
  bloom_count :: "nat list"
  item_count :: nat
  current :: nat

definition ppbloom_new :: "('b, 's, 'z) replay_lib_scheme \<Rightarrow> server_type \<Rightarrow> 'b ping_pong_bloom" where
  "ppbloom_new lib ty =
     (let (n, fp_p) = (if is_local ty then (BF_NUM_ENTRIES_FOR_CLIENT, BF_ERROR_RATE_FOR_CLIENT)
                       else (BF_NUM_ENTRIES_FOR_SERVER, BF_ERROR_RATE_FOR_SERVER));
          n = n div 2
      in \<lparr>blooms = [bloom_new lib n fp_p, bloom_new lib n fp_p], bloom_count = [0, 0],
          item_count = n, current = 0\<rparr>)"

definition ppbloom_check_and_set ::
    "('b, 's, 'z) replay_lib_scheme \<Rightarrow> 'b ping_pong_bloom \<Rightarrow> bytes \<Rightarrow> bool \<times> 'b ping_pong_bloom" where
  "ppbloom_check_and_set lib p buf =
     (if list_ex (\<lambda>bloom. bloom_check lib bloom buf) (blooms p) then (True, p)
      else
        let p = (if bloom_count p ! current p \<ge> item_count p then
                   let cur = (current p + 1) mod 2 in
                   p\<lparr>current := cur, bloom_count := (bloom_count p)[cur := 0],
                     blooms := (blooms p)[cur := bloom_clear lib (blooms p ! cur)]\<rparr>
                 else p)
        in (False, p\<lparr>blooms := (blooms p)[current p := bloom_set lib (blooms p ! current p) buf],
                     bloom_count := (bloom_count p)[current p := bloom_count p ! current p + 1]\<rparr>))"

section \<open>The protector\<close>

definition SERVER_STREAM_TIMESTAMP_MAX_DIFF :: nat where
  "SERVER_STREAM_TIMESTAMP_MAX_DIFF = 30"

record ('b, 's) replay_protector =
  nonce_ppbloom :: "'b ping_pong_bloom"
  nonce_set :: 's

definition replay_protector_new ::
    "('b, 's, 'z) replay_lib_scheme \<Rightarrow> server_type \<Rightarrow> ('b, 's) replay_protector" where
  "replay_protector_new lib ty =
     \<lparr>nonce_ppbloom = ppbloom_new lib ty,
      nonce_set = lru_with_expiry lib (SERVER_STREAM_TIMESTAMP_MAX_DIFF * 2)\<rparr>"

definition protector_check_nonce_and_set ::
    "('b, 's, 'z) replay_lib_scheme \<Rightarrow> ('b, 's) replay_protector \<Rightarrow> nat \<Rightarrow> cipher_kind \<Rightarrow> bytes
     \<Rightarrow> bool \<times> ('b, 's) replay_protector" where
  "protector_check_nonce_and_set lib p now method nonce =
     (if nonce = [] then (False, p)
      else if feat_aead_2022 lib \<and> kind_is_aead_2022 method then
        let (hit, set) = lru_get lib (nonce_set p) now nonce in
        if hit then (True, p\<lparr>nonce_set := set\<rparr>)
        else (False, p\<lparr>nonce_set := lru_insert lib set now nonce\<rparr>)
      else if feat_replay_detect lib then
        let (hit, ppb) = ppbloom_check_and_set lib (nonce_ppbloom p) nonce in
        (hit, p\<lparr>nonce_ppbloom := ppb\<rparr>)
      else (False, p))"

section \<open>The context\<close>

record ('b, 's) ss_context =
  replay_protector :: "('b, 's) replay_protector"
  replay_policy :: replay_attack_policy
  ipv6_first :: bool

definition context_new :: "('b, 's, 'z) replay_lib_scheme \<Rightarrow> server_type \<Rightarrow> ('b, 's) ss_context" where
  "context_new lib ty =
     \<lparr>replay_protector = replay_protector_new lib ty, replay_policy = PolicyDefault, ipv6_first = False\<rparr>"

definition context_check_nonce_and_set ::
    "('b, 's, 'z) replay_lib_scheme \<Rightarrow> ('b, 's) ss_context \<Rightarrow> nat \<Rightarrow> cipher_kind \<Rightarrow> bytes
     \<Rightarrow> bool \<times> ('b, 's) ss_context" where
  "context_check_nonce_and_set lib ctx now method nonce =
     (if replay_policy ctx = PolicyIgnore then (False, ctx)
      else let (hit, p) = protector_check_nonce_and_set lib (replay_protector ctx) now method nonce
           in (hit, ctx\<lparr>replay_protector := p\<rparr>))"

text \<open>
  \<open>generate_nonce\<close> fills a buffer of \<open>len\<close> bytes. \<open>draws\<close> are the values \<open>random_iv_or_salt\<close>
  returns, with the time of the check that follows; \<open>None\<close> is a loop that has used them all.
\<close>

fun generate_nonce ::
    "('b, 's, 'z) replay_lib_scheme \<Rightarrow> ('b, 's) ss_context \<Rightarrow> cipher_kind \<Rightarrow> nat \<Rightarrow> bool
     \<Rightarrow> (nat \<times> bytes) list \<Rightarrow> (bytes \<times> ('b, 's) ss_context) option" where
  "generate_nonce lib ctx method 0 unique draws = Some ([], ctx)"
| "generate_nonce lib ctx method (Suc n) unique [] = None"
| "generate_nonce lib ctx method (Suc n) unique ((now, nonce) # draws) =
     (if unique then
        let (hit, ctx) = context_check_nonce_and_set lib ctx now method nonce in
        if hit then generate_nonce lib ctx method (Suc n) unique draws else Some (nonce, ctx)
      else Some (nonce, ctx))"

definition check_nonce_replay ::
    "('b, 's, 'z) replay_lib_scheme \<Rightarrow> ('b, 's) ss_context \<Rightarrow> nat \<Rightarrow> cipher_kind \<Rightarrow> bytes
     \<Rightarrow> (unit, io_kind) outcome \<times> ('b, 's) ss_context" where
  "check_nonce_replay lib ctx now method nonce =
     (if nonce = [] then (Ok (), ctx)
      else
        let policy = (if feat_aead_2022 lib \<and> kind_is_aead_2022 method then PolicyReject
                      else replay_policy ctx);
            (hit, p) = protector_check_nonce_and_set lib (replay_protector ctx) now method nonce
        in case policy of
             PolicyDefault \<Rightarrow> (Ok (), ctx)
           | PolicyIgnore \<Rightarrow> (Ok (), ctx)
           | PolicyDetect \<Rightarrow> (Ok (), ctx\<lparr>replay_protector := p\<rparr>)
           | PolicyReject \<Rightarrow> (if hit then Err OtherError else Ok (), ctx\<lparr>replay_protector := p\<rparr>))"

definition set_ipv6_first :: "bool \<Rightarrow> ('b, 's) ss_context \<Rightarrow> ('b, 's) ss_context" where
  "set_ipv6_first b ctx = ctx\<lparr>ipv6_first := b\<rparr>"

definition set_replay_attack_policy ::
    "replay_attack_policy \<Rightarrow> ('b, 's) ss_context \<Rightarrow> ('b, 's) ss_context" where
  "set_replay_attack_policy policy ctx = ctx\<lparr>replay_policy := policy\<rparr>"

section \<open>What the bloom filters remember\<close>

text \<open>
  \<open>hs\<close> lists the items accepted so far, the last one first. The current filter \<open>b\<close> holds the \<open>c\<close>
  newest ones, the other filter \<open>b'\<close> the \<open>c'\<close> ones before, and when that one is not full nothing
  was ever dropped.
\<close>

definition halves ::
    "('b, 's, 'z) replay_lib_scheme \<Rightarrow> nat \<Rightarrow> 'b \<Rightarrow> nat \<Rightarrow> 'b \<Rightarrow> nat \<Rightarrow> bytes list \<Rightarrow> bool" where
  "halves lib n b c b' c' hs \<longleftrightarrow>
     0 < n \<and> c \<le> n \<and> (hs \<noteq> [] \<longrightarrow> 0 < c) \<and> (\<forall>x \<in> set (take c hs). bloom_check lib b x) \<and>
     (\<forall>x \<in> set (take c' (drop c hs)). bloom_check lib b' x) \<and> (c' = n \<or> length hs \<le> c + c')"

definition ppb_rel :: "('b, 's, 'z) replay_lib_scheme \<Rightarrow> 'b ping_pong_bloom \<Rightarrow> bytes list \<Rightarrow> bool" where
  "ppb_rel lib p hs \<longleftrightarrow>
     (\<exists>b c b' c'. halves lib (item_count p) b c b' c' hs \<and>
        (current p = 0 \<and> blooms p = [b, b'] \<and> bloom_count p = [c, c'] \<or>
         current p = 1 \<and> blooms p = [b', b] \<and> bloom_count p = [c', c]))"

lemma ppb_rel_new: "ppb_rel lib (ppbloom_new lib ty) []"
  by (simp add: ppb_rel_def halves_def ppbloom_new_def Let_def BF_NUM_ENTRIES_FOR_CLIENT_def
      BF_NUM_ENTRIES_FOR_SERVER_def)

lemma halves_add:
  assumes "bloom_laws lib" "halves lib n b c b' c' hs" "c < n"
  shows "halves lib n (bloom_set lib b x) (Suc c) b' c' (x # hs)"
  using assms by (auto simp: halves_def bloom_laws_def)

lemma halves_switch:
  assumes "bloom_laws lib" "halves lib n b c b' c' hs" "n \<le> c"
  shows "halves lib n (bloom_set lib (bloom_clear lib b') x) (Suc 0) b c (x # hs)"
proof -
  have "c = n" "0 < n" "\<forall>x \<in> set (take c hs). bloom_check lib b x"
    using assms(2,3) by (simp_all add: halves_def)
  moreover have "bloom_check lib (bloom_set lib (bloom_clear lib b') x) x"
    using assms(1) by (simp add: bloom_laws_def)
  ultimately show ?thesis by (simp add: halves_def Suc_le_eq)
qed

lemma halves_detect:
  assumes "halves lib n b c b' c' hs" "x \<in> set (take (Suc n) hs)"
  shows "bloom_check lib b x \<or> bloom_check lib b' x"
proof -
  have "hs \<noteq> []" using assms(2) by auto
  then have c: "0 < c" "c' = n \<or> length hs \<le> c + c'" using assms(1) by (simp_all add: halves_def)
  have "x \<in> set (take (c + c') hs)"
  proof (cases "c' = n")
    case True
    then have "Suc n \<le> c + c'" using c(1) by simp
    from subsetD [OF set_take_subset_set_take [OF this] assms(2)] show ?thesis .
  next
    case False
    then have "take (c + c') hs = hs" using c(2) by simp
    then show ?thesis using assms(2) by (metis in_set_takeD)
  qed
  then have "x \<in> set (take c hs) \<or> x \<in> set (take c' (drop c hs))" by (simp add: take_add)
  then show ?thesis using assms(1) unfolding halves_def by blast
qed

lemma ppb_rel_detects:
  assumes "ppb_rel lib p hs" "x \<in> set (take (Suc (item_count p)) hs)"
  shows "ppbloom_check_and_set lib p x = (True, p)"
  using assms halves_detect unfolding ppb_rel_def ppbloom_check_and_set_def by fastforce

lemma ppb_rel_step:
  assumes laws: "bloom_laws lib" and rel: "ppb_rel lib p hs"
    and step: "ppbloom_check_and_set lib p x = (hit, p')"
  shows "ppb_rel lib p' (if hit then hs else x # hs) \<and> item_count p' = item_count p"
proof (cases hit)
  case True
  then show ?thesis using step rel by (auto simp: ppbloom_check_and_set_def Let_def split: if_splits)
next
  case False
  then have miss: "\<not> list_ex (\<lambda>bloom. bloom_check lib bloom x) (blooms p)"
    using step by (auto simp: ppbloom_check_and_set_def split: if_splits)
  from rel obtain b c b' c' where h: "halves lib (item_count p) b c b' c' hs"
    and p: "current p = 0 \<and> blooms p = [b, b'] \<and> bloom_count p = [c, c'] \<or>
         current p = 1 \<and> blooms p = [b', b] \<and> bloom_count p = [c', c]"
    unfolding ppb_rel_def by blast
  note new = halves_add [OF laws h, of x] halves_switch [OF laws h, of x]
  show ?thesis
  proof (cases "c < item_count p")
    case True
    with new(1) p step miss False show ?thesis
      by (elim disjE) (auto simp: ppbloom_check_and_set_def Let_def ppb_rel_def)
  next
    case full: False
    with new(2) have "halves lib (item_count p) (bloom_set lib (bloom_clear lib b') x) (Suc 0) b c (x # hs)"
      by simp
    with full p step miss False show ?thesis
      by (elim disjE) (fastforce simp: ppbloom_check_and_set_def Let_def ppb_rel_def)+
  qed
qed

text \<open>Feeding a sequence of items; the answers, and the items that were accepted, last first.\<close>

fun ppbloom_run ::
    "('b, 's, 'z) replay_lib_scheme \<Rightarrow> 'b ping_pong_bloom \<Rightarrow> bytes list \<Rightarrow> bytes list \<Rightarrow> bytes list \<times> 'b ping_pong_bloom" where
  "ppbloom_run lib p hs [] = (hs, p)"
| "ppbloom_run lib p hs (x # xs) =
     (let (hit, p) = ppbloom_check_and_set lib p x in ppbloom_run lib p (if hit then hs else x # hs) xs)"

lemma ppbloom_run_rel:
  "bloom_laws lib \<Longrightarrow> ppb_rel lib p hs \<Longrightarrow> ppbloom_run lib p hs xs = (hs', p') \<Longrightarrow>
   ppb_rel lib p' hs' \<and> item_count p' = item_count p"
proof (induction xs arbitrary: p hs)
  case Nil
  then show ?case by simp
next
  case (Cons x xs)
  obtain hit q where step: "ppbloom_check_and_set lib p x = (hit, q)" by force
  from ppb_rel_step [OF Cons.prems(1,2) step] Cons.IH [OF Cons.prems(1)] Cons.prems(3)
  show ?case by (auto simp: step)
qed

section \<open>Checks against the expiring cache\<close>

text \<open>A sequence of protector checks, and the keys inserted by it.\<close>

fun protector_run ::
    "('b, 's, 'z) replay_lib_scheme \<Rightarrow> cipher_kind \<Rightarrow> ('b, 's) replay_protector \<Rightarrow> (nat \<times> bytes) list
     \<Rightarrow> bool list \<times> ('b, 's) replay_protector" where
  "protector_run lib method p [] = ([], p)"
| "protector_run lib method p ((now, nonce) # rs) =
     (let (hit, p) = protector_check_nonce_and_set lib p now method nonce;
          (hits, p) = protector_run lib method p rs
      in (hit # hits, p))"

lemma protector_check_2022:
  assumes "lru_laws lib ttl until" "feat_aead_2022 lib" "kind_is_aead_2022 method" "nonce \<noteq> []"
    and "protector_check_nonce_and_set lib p now method nonce = (hit, p')"
  shows "hit \<longleftrightarrow> now < until (nonce_set p) nonce"
    and "\<not> hit \<Longrightarrow> now + ttl (nonce_set p) \<le> until (nonce_set p') nonce"
    and "now < t \<Longrightarrow> t \<le> now + ttl (nonce_set p) \<Longrightarrow> t \<le> until (nonce_set p) k \<Longrightarrow> t \<le> until (nonce_set p') k"
    and "k \<noteq> nonce \<Longrightarrow> until (nonce_set p) k = 0 \<Longrightarrow> until (nonce_set p') k = 0"
    and "nonce_ppbloom p' = nonce_ppbloom p"
proof -
  obtain h s where g: "lru_get lib (nonce_set p) now nonce = (h, s)" by force
  have p': "hit = h" "p' = p\<lparr>nonce_set := if h then s else lru_insert lib s now nonce\<rparr>"
    using assms(2-5) g by (auto simp: protector_check_nonce_and_set_def split: if_splits)
  note l = assms(1) [unfolded lru_laws_def]
  have ttl: "ttl s = ttl (nonce_set p)" using l g by (metis snd_conv)
  show "hit \<longleftrightarrow> now < until (nonce_set p) nonce" using l g p'(1) by (metis fst_conv)
  show "\<not> hit \<Longrightarrow> now + ttl (nonce_set p) \<le> until (nonce_set p') nonce"
    using l p' by (simp add: ttl [symmetric])
  show "t \<le> until (nonce_set p') k"
    if t: "now < t" "t \<le> now + ttl (nonce_set p)" "t \<le> until (nonce_set p) k"
  proof -
    have "now < until (nonce_set p) k" using t by linarith
    with l g have "min (until (nonce_set p) k) (now + ttl (nonce_set p)) \<le> until s k" by (metis snd_conv)
    then have s: "t \<le> until s k" using t by linarith
    then have "now < until s k" using t(1) by linarith
    with l have "min (until s k) (now + ttl s) \<le> until (lru_insert lib s now nonce) k" by blast
    then have "t \<le> until (lru_insert lib s now nonce) k" using s t(2) ttl by linarith
    with s show ?thesis by (simp add: p'(2))
  qed
  have "until (nonce_set p) k = 0 \<Longrightarrow> until s k = 0" using l g by (metis snd_conv)
  then show "k \<noteq> nonce \<Longrightarrow> until (nonce_set p) k = 0 \<Longrightarrow> until (nonce_set p') k = 0"
    using l p' by auto
  show "nonce_ppbloom p' = nonce_ppbloom p" by (simp add: p')
qed

text \<open>No check changes the expiry of the cache.\<close>

lemma protector_check_ttl:
  assumes "lru_laws lib ttl until"
  shows "ttl (nonce_set (snd (protector_check_nonce_and_set lib p now method nonce))) = ttl (nonce_set p)"
proof -
  obtain h s where g: "lru_get lib (nonce_set p) now nonce = (h, s)" by force
  have "ttl (snd (lru_get lib (nonce_set p) now nonce)) = ttl (nonce_set p)"
    "ttl (lru_insert lib s now nonce) = ttl s"
    using assms by (simp_all add: lru_laws_def)
  then show ?thesis by (simp add: protector_check_nonce_and_set_def g split: prod.split)
qed

text \<open>A key that is present until \<open>t\<close> stays so while later checks are made.\<close>

lemma protector_run_keeps:
  assumes "lru_laws lib ttl until" "feat_aead_2022 lib" "kind_is_aead_2022 method"
  shows "\<forall>(now, nonce) \<in> set rs. now < t \<and> t \<le> now + ttl (nonce_set p) \<Longrightarrow> t \<le> until (nonce_set p) k \<Longrightarrow>
    t \<le> until (nonce_set (snd (protector_run lib method p rs))) k"
proof (induction rs arbitrary: p)
  case Nil
  then show ?case by simp
next
  case (Cons r rs)
  obtain now nonce where r: "r = (now, nonce)" by (cases r)
  obtain hit q where q: "protector_check_nonce_and_set lib p now method nonce = (hit, q)" by force
  have now: "now < t" "t \<le> now + ttl (nonce_set p)" using Cons.prems(1) r by auto
  have "t \<le> until (nonce_set q) k"
  proof (cases "nonce = []")
    case True
    then show ?thesis using q Cons.prems(2) by (simp add: protector_check_nonce_and_set_def)
  next
    case False
    from protector_check_2022(3) [OF assms False q now Cons.prems(2)] show ?thesis .
  qed
  moreover have "ttl (nonce_set q) = ttl (nonce_set p)"
    using protector_check_ttl [OF assms(1), of p now "method" nonce] q by simp
  ultimately show ?case using Cons.IH [of q] Cons.prems(1) by (auto simp: r q split: prod.splits)
qed

lemma protector_run_absent:
  assumes "lru_laws lib ttl until" "feat_aead_2022 lib" "kind_is_aead_2022 method"
  shows "\<forall>(now, nonce) \<in> set rs. nonce \<noteq> k \<Longrightarrow> until (nonce_set p) k = 0 \<Longrightarrow>
    until (nonce_set (snd (protector_run lib method p rs))) k = 0"
proof (induction rs arbitrary: p)
  case Nil
  then show ?case by simp
next
  case (Cons r rs)
  obtain now nonce where r: "r = (now, nonce)" by (cases r)
  obtain hit q where q: "protector_check_nonce_and_set lib p now method nonce = (hit, q)" by force
  have "nonce \<noteq> k" using Cons.prems(1) r by auto
  have "until (nonce_set q) k = 0"
  proof (cases "nonce = []")
    case True
    then show ?thesis using q Cons.prems(2) by (simp add: protector_check_nonce_and_set_def)
  next
    case False
    from protector_check_2022(4) [OF assms False q, of k] \<open>nonce \<noteq> k\<close> Cons.prems(2) show ?thesis by simp
  qed
  with Cons.IH [of q] Cons.prems(1) show ?case by (auto simp: r q split: prod.splits)
qed

section \<open>Sequences of context checks\<close>

fun check_run ::
    "('b, 's, 'z) replay_lib_scheme \<Rightarrow> cipher_kind \<Rightarrow> ('b, 's) ss_context \<Rightarrow> (nat \<times> bytes) list
     \<Rightarrow> ('b, 's) ss_context" where
  "check_run lib method ctx [] = ctx"
| "check_run lib method ctx ((now, nonce) # rs) =
     check_run lib method (snd (check_nonce_replay lib ctx now method nonce)) rs"

lemma check_nonce_replay_2022:
  assumes "feat_aead_2022 lib" "kind_is_aead_2022 method" "nonce \<noteq> []"
    and "protector_check_nonce_and_set lib (replay_protector ctx) now method nonce = (hit, p)"
  shows "check_nonce_replay lib ctx now method nonce =
    (if hit then Err OtherError else Ok (), ctx\<lparr>replay_protector := p\<rparr>)"
  using assms by (simp add: check_nonce_replay_def)

lemma check_run_protector:
  assumes "feat_aead_2022 lib" "kind_is_aead_2022 method"
  shows "replay_protector (check_run lib method ctx rs) = snd (protector_run lib method (replay_protector ctx) rs)"
proof (induction rs arbitrary: ctx)
  case Nil
  then show ?case by simp
next
  case (Cons r rs)
  obtain now nonce where r: "r = (now, nonce)" by (cases r)
  obtain hit p where p: "protector_check_nonce_and_set lib (replay_protector ctx) now method nonce = (hit, p)"
    by force
  have "replay_protector (snd (check_nonce_replay lib ctx now method nonce)) = p"
  proof (cases "nonce = []")
    case True
    then show ?thesis using p by (simp add: check_nonce_replay_def protector_check_nonce_and_set_def)
  next
    case False
    from check_nonce_replay_2022 [OF assms False p] show ?thesis by simp
  qed
  with Cons.IH show ?case by (simp add: r p split: prod.splits)
qed

text \<open>
  The contexts of a program: a new one, and what the calls of \<open>context.rs\<close> make of it, in any order and
  for any cipher kinds.
\<close>

inductive context_reached :: "('b, 's, 'z) replay_lib_scheme \<Rightarrow> ('b, 's) ss_context \<Rightarrow> bool" for lib where
  reached_new: "context_reached lib (context_new lib ty)"
| reached_policy: "context_reached lib ctx \<Longrightarrow> context_reached lib (set_replay_attack_policy policy ctx)"
| reached_ipv6: "context_reached lib ctx \<Longrightarrow> context_reached lib (set_ipv6_first b ctx)"
| reached_replay: "context_reached lib ctx \<Longrightarrow> context_reached lib (snd (check_nonce_replay lib ctx now method nonce))"
| reached_check: "context_reached lib ctx \<Longrightarrow>
    context_reached lib (snd (context_check_nonce_and_set lib ctx now method nonce))"

lemma context_reached_run: "context_reached lib ctx \<Longrightarrow> context_reached lib (check_run lib method ctx rs)"
  by (induction lib "method" ctx rs rule: check_run.induct) (simp_all add: reached_replay)

lemma context_reached_generate:
  "generate_nonce lib ctx method n unique draws = Some (nonce, ctx') \<Longrightarrow> context_reached lib ctx \<Longrightarrow>
   context_reached lib ctx'"
proof (induction lib ctx "method" n unique draws rule: generate_nonce.induct)
  case (3 lib ctx m n unique now d draws)
  obtain hit c where c: "context_check_nonce_and_set lib ctx now m d = (hit, c)" by force
  from reached_check [OF 3(3), of now m d] have "context_reached lib c" by (simp add: c)
  with 3(1) [OF _ c [symmetric] refl] 3(2,3) c show ?case by (auto split: if_splits)
qed auto

text \<open>Twice the greatest difference of timestamps is the expiry of its cache, 60 seconds.\<close>

lemma context_reached_ttl:
  assumes "context_reached lib ctx" "lru_laws lib ttl until"
  shows "ttl (nonce_set (replay_protector ctx)) = 60"
  using assms(1)
proof induction
  case (reached_new ty)
  have "ttl (lru_with_expiry lib 60) = 60" using assms(2) by (simp add: lru_laws_def)
  then show ?case
    by (simp add: context_new_def replay_protector_new_def SERVER_STREAM_TIMESTAMP_MAX_DIFF_def)
next
  case (reached_replay ctx now m nonce)
  then show ?case using protector_check_ttl [OF assms(2), of "replay_protector ctx" now m nonce]
    by (auto simp: check_nonce_replay_def Let_def split: prod.split replay_attack_policy.split)
next
  case (reached_check ctx now m nonce)
  then show ?case using protector_check_ttl [OF assms(2), of "replay_protector ctx" now m nonce]
    by (auto simp: context_check_nonce_and_set_def split: prod.split)
qed (simp_all add: set_replay_attack_policy_def set_ipv6_first_def)

lemma context_hit_2022:
  assumes "lru_laws lib ttl until" "feat_aead_2022 lib" "kind_is_aead_2022 method" "nonce \<noteq> []"
  shows "fst (check_nonce_replay lib ctx now method nonce) =
    (if now < until (nonce_set (replay_protector ctx)) nonce then Err OtherError else Ok ())"
proof -
  obtain hit p where p: "protector_check_nonce_and_set lib (replay_protector ctx) now method nonce = (hit, p)"
    by force
  from check_nonce_replay_2022 [OF assms(2-4) p] protector_check_2022(1) [OF assms p]
  show ?thesis by simp
qed

lemma context_accept_2022:
  assumes "lru_laws lib ttl until" "feat_aead_2022 lib" "kind_is_aead_2022 method" "nonce \<noteq> []"
    and "context_reached lib ctx" "check_nonce_replay lib ctx now method nonce = (Ok (), ctx')"
  shows "context_reached lib ctx' \<and> now + 60 \<le> until (nonce_set (replay_protector ctx')) nonce"
proof -
  obtain hit p where p: "protector_check_nonce_and_set lib (replay_protector ctx) now method nonce = (hit, p)"
    by force
  from check_nonce_replay_2022 [OF assms(2-4) p] assms(6) have "\<not> hit" "ctx' = ctx\<lparr>replay_protector := p\<rparr>"
    by (auto split: if_splits)
  with protector_check_2022(2) [OF assms(1-4) p] context_reached_ttl [OF assms(5,1)]
    reached_replay [OF assms(5), of now "method" nonce] assms(6) show ?thesis by simp
qed

text \<open>An accepted salt is refused for a minute, whatever is checked meanwhile.\<close>

lemma context_refuses_2022:
  assumes laws: "lru_laws lib ttl until" "feat_aead_2022 lib" "kind_is_aead_2022 method" "nonce \<noteq> []"
    and ctx: "context_reached lib ctx" "check_nonce_replay lib ctx t0 method nonce = (Ok (), ctx')"
    and rs: "\<forall>(t, n) \<in> set rs. t0 \<le> t \<and> t < t0 + 60" and t: "t < t0 + 60"
  shows "fst (check_nonce_replay lib (set_replay_attack_policy policy (check_run lib method ctx' rs))
           t method nonce) = Err OtherError"
proof -
  from context_accept_2022 [OF laws ctx] have ctx': "context_reached lib ctx'"
    "t0 + 60 \<le> until (nonce_set (replay_protector ctx')) nonce" by simp_all
  have "\<forall>(now, n) \<in> set rs. now < t0 + 60 \<and> t0 + 60 \<le> now + ttl (nonce_set (replay_protector ctx'))"
    using rs context_reached_ttl [OF ctx'(1) laws(1)] by auto
  from protector_run_keeps [OF laws(1-3) this ctx'(2)]
  have "t < until (nonce_set (replay_protector (check_run lib method ctx' rs))) nonce"
    using t by (simp add: check_run_protector [OF laws(2,3)])
  then show ?thesis using context_hit_2022 [OF laws] by (simp add: set_replay_attack_policy_def)
qed

section \<open>A concrete library\<close>

text \<open>Exact sets in place of bloom filters, and a cache of keys with their times, after its expiry.\<close>

type_synonym exact_cache = "nat \<times> (bytes \<times> nat) list"

definition exact_lib :: "(bytes list, exact_cache) replay_lib" where
  "exact_lib = \<lparr>bloom_new = \<lambda>n e. [], bloom_check = (\<lambda>b x. x \<in> set b), bloom_set = (\<lambda>b x. x # b),
     bloom_clear = (\<lambda>b. []), lru_with_expiry = (\<lambda>ttl. (ttl, [])),
     lru_get = (\<lambda>s now k. (list_ex (\<lambda>(k', t). k' = k \<and> now < t) (snd s), s)),
     lru_insert = (\<lambda>s now k. (fst s, (k, now + fst s) # snd s)),
     feat_replay_detect = True, feat_aead_2022 = True\<rparr>"

definition exact_until :: "exact_cache \<Rightarrow> bytes \<Rightarrow> nat" where
  "exact_until s k = foldr max (map snd (filter (\<lambda>(k', t). k' = k) (snd s))) 0"

lemma exact_bloom_laws: "bloom_laws exact_lib"
  by (simp add: bloom_laws_def exact_lib_def)

lemma less_exact_until: "now < exact_until (d, s) k \<longleftrightarrow> list_ex (\<lambda>(k', t). k' = k \<and> now < t) s"
  by (induction s) (auto simp: exact_until_def less_max_iff_disj)

lemma exact_lru_laws: "lru_laws exact_lib fst exact_until"
proof -
  have ins: "exact_until (d, (k, t) # s) k' =
      (if k' = k then max t (exact_until (d, s) k') else exact_until (d, s) k')"
    for d k t s k' by (simp add: exact_until_def)
  show ?thesis
    unfolding lru_laws_def by (auto simp: exact_lib_def ins less_exact_until [symmetric])
      (simp add: exact_until_def)
qed

definition sample_2022_kind :: cipher_kind where
  "sample_2022_kind = \<lparr>kind_category = CatAead2022, kind_is_aead_2022 = True, kind_key_len = 16,
     kind_salt_len = 16, kind_iv_len = 0, kind_tag_len = 16\<rparr>"

section \<open>Properties\<close>

text \<open>C34: With a bloom filter that has no false negatives, a nonce is detected as repeated as long
  as it is among the last \<open>item_count + 1\<close> accepted ones, whatever was checked before: 5001 nonces
  on a client and 500001 on a server.\<close>

theorem ppbloom_detects_recent:
  assumes "bloom_laws lib" "ppbloom_run lib (ppbloom_new lib ty) [] xs = (hs, p)"
    and "x \<in> set (take (if is_local ty then 5001 else 500001) hs)"
  shows "ppbloom_check_and_set lib p x = (True, p)"
proof -
  have "Suc (item_count p) = (if is_local ty then 5001 else 500001)" "ppb_rel lib p hs"
    using ppbloom_run_rel [OF assms(1) ppb_rel_new assms(2)]
    by (simp_all add: ppbloom_new_def BF_NUM_ENTRIES_FOR_CLIENT_def BF_NUM_ENTRIES_FOR_SERVER_def Let_def)
  with ppb_rel_detects assms(3) show ?thesis by metis
qed

theorem ppbloom_detects_recent_witness:
  "ppbloom_check_and_set exact_lib
     (snd (ppbloom_run exact_lib (ppbloom_new exact_lib Local) [] [[1], [2], [3]])) [1] =
   (True, snd (ppbloom_run exact_lib (ppbloom_new exact_lib Local) [] [[1], [2], [3]]))"
proof (rule ppbloom_detects_recent [OF exact_bloom_laws, where ty = Local])
  let ?r = "ppbloom_run exact_lib (ppbloom_new exact_lib Local) [] [[1], [2], [3]]"
  show "?r = ([[3], [2], [1]], snd ?r)"
    by (simp add: exact_lib_def ppbloom_new_def ppbloom_check_and_set_def is_local_def Let_def
        BF_NUM_ENTRIES_FOR_CLIENT_def)
qed (simp add: is_local_def)

text \<open>C20: Under AEAD-2022 a salt that was accepted, in whatever context the program has by then, is refused
  for the next 60 seconds, the expiry that a new protector gives its cache, whatever other salts are checked
  meanwhile and whatever the configured policy is, \<open>Ignore\<close> included.\<close>

theorem aead_2022_replay_refused:
  assumes "lru_laws lib ttl until" "feat_aead_2022 lib" "kind_is_aead_2022 method" "nonce \<noteq> []"
    and "context_reached lib ctx" "check_nonce_replay lib ctx t0 method nonce = (Ok (), ctx')"
    and "\<forall>(t, n) \<in> set rs. t0 \<le> t \<and> t < t0 + 60" and "t < t0 + 60"
  shows "fst (check_nonce_replay lib (set_replay_attack_policy policy (check_run lib method ctx' rs))
           t method nonce) = Err OtherError"
  using context_refuses_2022 [OF assms] .

theorem aead_2022_replay_refused_witness:
  "let c0 = check_run exact_lib sample_2022_kind (context_new exact_lib Server) [(90, [6])];
       c1 = snd (check_nonce_replay exact_lib c0 100 sample_2022_kind [7]) in
   fst (check_nonce_replay exact_lib
     (set_replay_attack_policy PolicyIgnore (check_run exact_lib sample_2022_kind c1 [(101, [8]), (102, [9])]))
     159 sample_2022_kind [7]) = Err OtherError"
proof -
  let ?c0 = "check_run exact_lib sample_2022_kind (context_new exact_lib Server) [(90, [6])]"
  have c: "context_reached exact_lib ?c0" by (intro context_reached_run reached_new)
  have "check_nonce_replay exact_lib ?c0 100 sample_2022_kind [7] =
      (Ok (), snd (check_nonce_replay exact_lib ?c0 100 sample_2022_kind [7]))"
    by (simp add: check_nonce_replay_def protector_check_nonce_and_set_def context_new_def
        replay_protector_new_def exact_lib_def sample_2022_kind_def)
  from aead_2022_replay_refused [OF exact_lru_laws _ _ _ c this, of "[(101, [8]), (102, [9])]" 159 PolicyIgnore]
  show ?thesis by (simp add: exact_lib_def sample_2022_kind_def Let_def del: check_run.simps)
qed

text \<open>Under AEAD-2022 a salt that was never checked before is accepted, whatever was checked and
  whatever the policy is.\<close>

theorem aead_2022_fresh_accepted:
  assumes "lru_laws lib ttl until" "feat_aead_2022 lib" "kind_is_aead_2022 method" "nonce \<noteq> []"
    and "\<forall>(t, n) \<in> set rs. n \<noteq> nonce"
  shows "fst (check_nonce_replay lib
           (check_run lib method (set_replay_attack_policy policy (context_new lib ty)) rs) t method nonce) = Ok ()"
proof -
  let ?ctx = "set_replay_attack_policy policy (context_new lib ty)"
  have "until (nonce_set (replay_protector ?ctx)) nonce = 0"
    using assms(1) by (simp add: lru_laws_def set_replay_attack_policy_def context_new_def replay_protector_new_def)
  with protector_run_absent [OF assms(1-3,5)]
  have "until (nonce_set (snd (protector_run lib method (replay_protector ?ctx) rs))) nonce = 0" .
  moreover have "replay_protector (check_run lib method ?ctx rs) =
      snd (protector_run lib method (replay_protector ?ctx) rs)"
    using check_run_protector [OF assms(2,3)] .
  ultimately show ?thesis using context_hit_2022 [OF assms(1-4)] by simp
qed

theorem aead_2022_fresh_accepted_witness:
  "fst (check_nonce_replay exact_lib
     (check_run exact_lib sample_2022_kind (set_replay_attack_policy PolicyDetect (context_new exact_lib Server))
        [(1, [8]), (2, [9])]) 3 sample_2022_kind [7]) = Ok ()"
  by (rule aead_2022_fresh_accepted [OF exact_lru_laws])
     (simp_all add: exact_lib_def sample_2022_kind_def)

text \<open>A unique salt generated under AEAD-2022 (unless the policy is \<open>Ignore\<close>) is the first draw
  that is not remembered, and it is remembered itself: the peer that reflects it within 60 seconds
  is refused.\<close>

theorem generated_salt_is_remembered:
  assumes "lru_laws lib ttl until" "feat_aead_2022 lib" "kind_is_aead_2022 method"
    and "context_reached lib ctx" "replay_policy ctx \<noteq> PolicyIgnore" "\<forall>(t, n) \<in> set draws. t0 \<le> t \<and> length n = len" "0 < len"
    and "generate_nonce lib ctx method len True draws = Some (nonce, ctx')" and "t < t0 + 60"
  shows "nonce \<in> snd ` set draws \<and> fst (check_nonce_replay lib ctx' t method nonce) = Err OtherError"
  using assms(4-8)
proof (induction draws arbitrary: ctx)
  case Nil
  then show ?case by (cases len) auto
next
  case (Cons d draws)
  obtain now n where d: "d = (now, n)" by (cases d)
  from Cons.prems obtain m where len: "len = Suc m" by (cases len) auto
  have n: "n \<noteq> []" "t0 \<le> now" using Cons.prems(3) by (auto simp: d len)
  obtain hit p where p: "protector_check_nonce_and_set lib (replay_protector ctx) now method n = (hit, p)"
    by force
  have c: "context_check_nonce_and_set lib ctx now method n = (hit, ctx\<lparr>replay_protector := p\<rparr>)"
    using Cons.prems(2) p by (simp add: context_check_nonce_and_set_def)
  have r: "context_reached lib (ctx\<lparr>replay_protector := p\<rparr>)"
    using reached_check [OF Cons.prems(1), of now "method" n] by (simp add: c)
  show ?case
  proof (cases hit)
    case True
    then show ?thesis
      using Cons.IH [of "ctx\<lparr>replay_protector := p\<rparr>"] Cons.prems r by (auto simp: d len c)
  next
    case False
    then have eq: "nonce = n" "ctx' = ctx\<lparr>replay_protector := p\<rparr>"
      using Cons.prems(5) by (auto simp: d len c)
    have "now + 60 \<le> until (nonce_set p) n"
      using protector_check_2022(2) [OF assms(1-3) n(1) p False] context_reached_ttl [OF Cons.prems(1) assms(1)] by simp
    then have "t < until (nonce_set (replay_protector ctx')) nonce" using assms(9) n eq by simp
    with context_hit_2022 [OF assms(1-3), of nonce ctx' t] n eq show ?thesis by (simp add: d)
  qed
qed

theorem generated_salt_is_remembered_witness:
  "[9] \<in> snd ` set [(100 :: nat, [7]), (100, [9 :: u8])] \<and>
   fst (check_nonce_replay exact_lib (snd (the (generate_nonce exact_lib
      (snd (check_nonce_replay exact_lib (context_new exact_lib Server) 90 sample_2022_kind [7]))
      sample_2022_kind 1 True [(100, [7]), (100, [9])]))) 159 sample_2022_kind [9]) = Err OtherError"
proof -
  let ?c = "snd (check_nonce_replay exact_lib (context_new exact_lib Server) 90 sample_2022_kind [7])"
  have g: "generate_nonce exact_lib ?c sample_2022_kind 1 True [(100, [7]), (100, [9])] =
      Some ([9], snd (the (generate_nonce exact_lib ?c sample_2022_kind 1 True [(100, [7]), (100, [9])])))"
    by (simp add: check_nonce_replay_def protector_check_nonce_and_set_def context_new_def
        replay_protector_new_def exact_lib_def sample_2022_kind_def context_check_nonce_and_set_def
        SERVER_STREAM_TIMESTAMP_MAX_DIFF_def)
  have c: "context_reached exact_lib ?c" by (intro reached_replay reached_new)
  from generated_salt_is_remembered [OF exact_lru_laws _ _ c _ _ _ g, of 100 159]
  show ?thesis by (simp add: exact_lib_def sample_2022_kind_def check_nonce_replay_def context_new_def
      protector_check_nonce_and_set_def)
qed

end
