(* ===== verification/Tcp_Protocol.thy ===== *)
theory Tcp_Protocol
  imports Socks5 Replay
begin

text \<open>
  The target header that opens every TCP tunnel: \<open>proxy_stream/protocol/{mod,v1,v2}.rs\<close>, the first
  packet assembled by \<open>proxy_stream/client.rs\<close>, and the padding of \<open>relay/mod.rs\<close>.
\<close>

section \<open>Stream and AEAD header (v1)\<close>

record stream_tcp_header =
  v1_addr :: address

definition v1_read_from :: "reader \<Rightarrow> (stream_tcp_header \<times> reader, io_kind) outcome" where
  "v1_read_from r =
     and_then (map_err error_into_io (address_read_from r)) (\<lambda>(a, r). Ok (\<lparr>v1_addr = a\<rparr>, r))"

definition v1_write_to_buf :: "stream_tcp_header \<Rightarrow> (bytes, 'e) outcome" where
  "v1_write_to_buf h = address_write_to_buf (v1_addr h)"

definition v1_serialized_len :: "stream_tcp_header \<Rightarrow> nat" where
  "v1_serialized_len h = address_serialized_len (v1_addr h)"

section \<open>AEAD-2022 header (v2)\<close>

definition MAX_PADDING_SIZE :: nat where "MAX_PADDING_SIZE = 900"

record aead2022_tcp_header =
  v2_addr :: address
  v2_padding_size :: u16

text \<open>
  The padding is skipped by reads of up to 64 bytes from \<open>reader.take(padding_size)\<close> until one
  returns 0 bytes: the limit is reached or the source ends; an I/O error is returned.
\<close>

fun skip_padding :: "nat \<Rightarrow> reader \<Rightarrow> (reader, io_kind) outcome" where
  "skip_padding n ([], e) =
     (if n = 0 then Ok ([], e) else case e of Eof \<Rightarrow> Ok ([], e) | Fail k \<Rightarrow> Err k)"
| "skip_padding n (b # bs, e) =
     (if n = 0 then Ok (b # bs, e)
      else let m = min (min 64 n) (length (b # bs)) in skip_padding (n - m) (drop m (b # bs), e))"

definition v2_read_from :: "reader \<Rightarrow> (aead2022_tcp_header \<times> reader, io_kind) outcome" where
  "v2_read_from r =
     and_then (map_err error_into_io (address_read_from r)) (\<lambda>(a, r).
     and_then (read_exact 2 r) (\<lambda>(padding_size_buffer, r).
       let padding_size = from_be padding_size_buffer in
       and_then (if padding_size > 0 then skip_padding (unat padding_size) r else Ok r) (\<lambda>r.
         Ok (\<lparr>v2_addr = a, v2_padding_size = padding_size\<rparr>, r))))"

text \<open>
  \<open>advance_mut\<close> claims \<open>padding_size\<close> bytes of the buffer without writing them: \<open>mem\<close> is what the
  allocation holds there. The address is not written.
\<close>

definition v2_write_to_buf :: "(nat \<Rightarrow> u8) \<Rightarrow> aead2022_tcp_header \<Rightarrow> (bytes, 'e) outcome" where
  "v2_write_to_buf mem h =
     and_then (rust_assert (unat (v2_padding_size h) \<le> MAX_PADDING_SIZE)) (\<lambda>_.
       Ok (to_be 2 (v2_padding_size h) @
           (if v2_padding_size h > 0 then map mem [0..<unat (v2_padding_size h)] else [])))"

definition v2_serialized_len :: "aead2022_tcp_header \<Rightarrow> nat" where
  "v2_serialized_len h = address_serialized_len (v2_addr h) + 2 + unat (v2_padding_size h)"

section \<open>The header of a method\<close>

datatype tcp_header = StreamHeader stream_tcp_header | Aead2022Header aead2022_tcp_header

definition tcp_header_read_from :: "cipher_kind \<Rightarrow> reader \<Rightarrow> (tcp_header \<times> reader, io_kind) outcome" where
  "tcp_header_read_from method r =
     (case kind_category method of
        CatAead2022 \<Rightarrow> and_then (v2_read_from r) (\<lambda>(h, r). Ok (Aead2022Header h, r))
      | _ \<Rightarrow> and_then (v1_read_from r) (\<lambda>(h, r). Ok (StreamHeader h, r)))"

fun tcp_header_write_to_buf :: "(nat \<Rightarrow> u8) \<Rightarrow> tcp_header \<Rightarrow> (bytes, 'e) outcome" where
  "tcp_header_write_to_buf mem (StreamHeader h) = v1_write_to_buf h"
| "tcp_header_write_to_buf mem (Aead2022Header h) = v2_write_to_buf mem h"

fun tcp_header_addr :: "tcp_header \<Rightarrow> address" where
  "tcp_header_addr (StreamHeader h) = v1_addr h"
| "tcp_header_addr (Aead2022Header h) = v2_addr h"

fun tcp_header_serialized_len :: "tcp_header \<Rightarrow> nat" where
  "tcp_header_serialized_len (StreamHeader h) = v1_serialized_len h"
| "tcp_header_serialized_len (Aead2022Header h) = v2_serialized_len h"

section \<open>The client's first packet\<close>

definition AEAD2022_MAX_PADDING_SIZE :: nat where "AEAD2022_MAX_PADDING_SIZE = 900"

text \<open>\<open>rnd\<close> is the number drawn from the thread's generator.\<close>

definition get_aead_2022_padding_size :: "nat \<Rightarrow> bytes \<Rightarrow> nat" where
  "get_aead_2022_padding_size rnd payload =
     (if payload = [] then rnd mod AEAD2022_MAX_PADDING_SIZE else 0)"

definition make_first_packet_buffer ::
    "nat \<Rightarrow> (nat \<Rightarrow> u8) \<Rightarrow> cipher_kind \<Rightarrow> address \<Rightarrow> bytes \<Rightarrow> (bytes, 'e) outcome" where
  "make_first_packet_buffer rnd mem method addr buf =
     (let padding_size = get_aead_2022_padding_size rnd buf in
      and_then (address_write_to_buf addr) (\<lambda>a.
        Ok (a @
            (if kind_is_aead_2022 method then
               to_be 2 (of_nat padding_size :: u16) @ (if padding_size > 0 then map mem [0..<padding_size] else [])
             else []) @ buf)))"

section \<open>Lemmas\<close>

lemma skip_padding_step:
  assumes "0 < n" "bs \<noteq> []" and m: "m = min (min 64 n) (length bs)"
  shows "skip_padding n (bs, e) = skip_padding (n - m) (drop m bs, e) \<and> 0 < m"
proof -
  obtain b bs' where bs: "bs = b # bs'" using assms(2) by (cases bs) auto
  have "0 < m" using assms(1) by (auto simp: m bs)
  moreover have "n \<noteq> 0" using assms(1) by simp
  ultimately show ?thesis unfolding bs by (simp only: skip_padding.simps(2) if_False Let_def m bs)
qed

lemma skip_padding_0 [simp]: "skip_padding 0 r = Ok r"
  by (cases r; cases "fst r") auto

lemma skip_padding_if: "(if 0 < n then skip_padding (unat n) r else Ok r) = skip_padding (unat n) r"
  by (auto simp: word_greater_zero_iff)

lemma skip_padding_append:
  "length p = n \<Longrightarrow> skip_padding n (p @ q, e) = Ok (q, e)"
proof (induction n arbitrary: p rule: less_induct)
  case (less n)
  show ?case
  proof (cases "n = 0")
    case True
    with less.prems show ?thesis by (cases q) simp_all
  next
    case False
    define m where "m = min (min 64 n) (length (p @ q))"
    have "p @ q \<noteq> []" using False less.prems by auto
    note step = skip_padding_step [OF _ this m_def, of e]
    have m: "m \<le> length p" using less.prems by (auto simp: m_def)
    then have "skip_padding n (p @ q, e) = skip_padding (n - m) (drop m p @ q, e)"
      using step False by simp
    also have "\<dots> = Ok (q, e)"
      using less.IH [of "n - m" "drop m p"] step False m less.prems by simp
    finally show ?thesis .
  qed
qed

text \<open>Sources that end inside the padding: an end of file is accepted, an error is returned.\<close>

lemma skip_padding_short:
  "length p < n \<Longrightarrow> skip_padding n (p, e) = (case e of Eof \<Rightarrow> Ok ([], Eof) | Fail k \<Rightarrow> Err k)"
proof (induction n arbitrary: p rule: less_induct)
  case (less n)
  show ?case
  proof (cases "p = []")
    case True
    with less.prems show ?thesis by (auto split: rd_end.splits)
  next
    case False
    define m where "m = min (min 64 n) (length p)"
    have n: "0 < n" using less.prems by simp
    note step = skip_padding_step [OF n False m_def, of e]
    have "length (drop m p) < n - m" using less.prems m_def by auto
    with step less.IH [of "n - m" "drop m p"] n show ?thesis by simp
  qed
qed

section \<open>Properties\<close>

text \<open>C18: For every cipher method, the header reader of the server gets the target address back from
  the first packet of the client, skips its padding, and leaves exactly the payload: for
  AEAD-2022 the padding is empty when there is a payload, and below 900 bytes otherwise.\<close>

theorem first_packet_roundtrip:
  assumes "wf_address addr" "kind_is_aead_2022 method \<longleftrightarrow> kind_category method = CatAead2022"
    and "make_first_packet_buffer rnd mem method addr payload = (Ok bs :: (bytes, unit) outcome)"
  shows "\<exists>h. tcp_header_read_from method (bs @ rest, e) = Ok (h, (payload @ rest, e)) \<and>
     tcp_header_addr h = addr \<and>
     (case h of StreamHeader _ \<Rightarrow> kind_category method \<noteq> CatAead2022
      | Aead2022Header h \<Rightarrow> kind_category method = CatAead2022 \<and>
          unat (v2_padding_size h) < 900 \<and> (payload \<noteq> [] \<longrightarrow> v2_padding_size h = 0))"
proof -
  let ?n = "get_aead_2022_padding_size rnd payload"
  obtain a where a: "address_write_to_buf addr = (Ok a :: (bytes, unit) outcome)"
    and bs: "bs = a @ (if kind_is_aead_2022 method then
               to_be 2 (of_nat ?n :: u16) @ (if ?n > 0 then map mem [0..<?n] else []) else []) @ payload"
    using assms(3) by (auto simp: make_first_packet_buffer_def Let_def elim!: and_then_OkE)
  have rd: "address_read_from (a @ t, e) = Ok (addr, (t, e))" for t
    using address_read_from_write [OF assms(1) a] .
  show ?thesis
  proof (cases "kind_category method = CatAead2022")
    case False
    then have "tcp_header_read_from method (bs @ rest, e) = Ok (StreamHeader \<lparr>v1_addr = addr\<rparr>, (payload @ rest, e))"
      using assms(2) by (auto simp: tcp_header_read_from_def v1_read_from_def bs rd split: cipher_category.splits)
    with False show ?thesis by auto
  next
    case True
    have n: "?n < 900" by (simp add: get_aead_2022_padding_size_def AEAD2022_MAX_PADDING_SIZE_def)
    then have un: "unat (of_nat ?n :: u16) = ?n" by (simp add: unat_of_nat take_bit_nat_eq_self)
    let ?pad = "map mem [0..<?n]"
    let ?h = "\<lparr>v2_addr = addr, v2_padding_size = of_nat ?n\<rparr>"
    have bs': "bs @ rest = a @ to_be 2 (of_nat ?n :: u16) @ (?pad @ payload @ rest)"
      using True assms(2) by (simp add: bs)
    have re: "read_exact 2 (to_be 2 (of_nat ?n :: u16) @ (?pad @ payload @ rest), e)
        = Ok (to_be 2 (of_nat ?n :: u16), (?pad @ payload @ rest, e))"
      by (rule read_exact_append) simp
    have sk: "skip_padding (unat (of_nat ?n :: u16)) (?pad @ payload @ rest, e) = Ok (payload @ rest, e)"
      unfolding un by (rule skip_padding_append) simp
    have "tcp_header_read_from method (bs @ rest, e) = Ok (Aead2022Header ?h, (payload @ rest, e))"
      unfolding bs' using True
      by (simp add: tcp_header_read_from_def v2_read_from_def rd re Let_def skip_padding_if sk)
    moreover have "payload \<noteq> [] \<longrightarrow> ?n = 0" by (simp add: get_aead_2022_padding_size_def)
    ultimately show ?thesis using True n by (auto simp: un)
  qed
qed

theorem first_packet_roundtrip_witness:
  "\<exists>h. tcp_header_read_from sample_2022_kind ([1, 1, 2, 3, 4, 0, 80, 0, 2, 7, 7] @ [9], Eof) = Ok (h, ([] @ [9], Eof)) \<and>
     tcp_header_addr h = SocketAddress (SockV4 0x01020304 80) \<and>
     (case h of StreamHeader _ \<Rightarrow> kind_category sample_2022_kind \<noteq> CatAead2022
      | Aead2022Header h \<Rightarrow> kind_category sample_2022_kind = CatAead2022 \<and>
          unat (v2_padding_size h) < 900 \<and> (([] :: bytes) \<noteq> [] \<longrightarrow> v2_padding_size h = 0))"
proof (rule first_packet_roundtrip)
  show "make_first_packet_buffer 902 (\<lambda>_. 7) sample_2022_kind (SocketAddress (SockV4 0x01020304 80)) [] =
      (Ok [1, 1, 2, 3, 4, 0, 80, 0, 2, 7, 7] :: (bytes, unit) outcome)"
    by code_simp
qed (simp_all add: sample_2022_kind_def)

text \<open>The AEAD-2022 header writer of the protocol module omits the address: what it writes is
  shorter than \<open>serialized_len\<close> by the length of the address, for every header it accepts.\<close>

theorem v2_write_omits_address:
  "(case v2_write_to_buf mem h :: (bytes, unit) outcome of
      Ok bs \<Rightarrow> v2_serialized_len h = length bs + address_serialized_len (v2_addr h) \<and>
               address_serialized_len (v2_addr h) \<ge> 4
    | Err e \<Rightarrow> False
    | Panic \<Rightarrow> 900 < unat (v2_padding_size h))"
proof -
  have len: "(if v2_padding_size h > 0 then map mem [0..<unat (v2_padding_size h)] else []) =
      map mem [0..<unat (v2_padding_size h)]"
    by (simp add: word_greater_zero_iff)
  have ge: "address_serialized_len a \<ge> 4" for a by (cases a rule: address_serialized_len.cases) simp_all
  show ?thesis
    by (cases "unat (v2_padding_size h) \<le> MAX_PADDING_SIZE")
       (simp_all add: v2_write_to_buf_def v2_serialized_len_def rust_assert_def len ge MAX_PADDING_SIZE_def)
qed

end
