(* ===== verification/Async_Io.thy ===== *)
theory Async_Io
  imports Prelude
begin

text \<open>
  Poll-based I/O. A future's result is pending or ready; an \<open>AsyncRead\<close> is the sequence of events it
  will deliver, with end of file after them; an \<open>AsyncWrite\<close> is the bytes it took and the sequence of
  answers it will give, taking everything after them. \<open>poll_bind\<close> is \<open>ready!(..)?\<close>, with the state
  that the poll leaves behind.
\<close>

section \<open>Polls\<close>

datatype ('a, 'e) poll = Pending | Ready "('a, 'e) outcome"

fun poll_bind :: "('a, 'e) poll \<times> 's \<Rightarrow> ('a \<Rightarrow> 's \<Rightarrow> ('b, 'e) poll \<times> 's) \<Rightarrow> ('b, 'e) poll \<times> 's" where
  "poll_bind (Pending, s) f = (Pending, s)"
| "poll_bind (Ready (Ok x), s) f = f x s"
| "poll_bind (Ready (Err e), s) f = (Ready (Err e), s)"
| "poll_bind (Ready Panic, s) f = (Ready Panic, s)"

fun poll_map_err :: "('e \<Rightarrow> 'f) \<Rightarrow> ('a, 'e) poll \<times> 's \<Rightarrow> ('a, 'f) poll \<times> 's" where
  "poll_map_err g (Pending, s) = (Pending, s)"
| "poll_map_err g (Ready r, s) = (Ready (map_err g r), s)"

section \<open>Reading\<close>

datatype rd_event = RdPending | RdData bytes | RdError io_kind

type_synonym rd_script = "rd_event list"

text \<open>\<open>poll_read\<close> into a buffer with room for \<open>k\<close> bytes; 0 bytes is end of file.\<close>

fun poll_read :: "nat \<Rightarrow> rd_script \<Rightarrow> (bytes, io_kind) poll \<times> rd_script" where
  "poll_read k [] = (Ready (Ok []), [])"
| "poll_read k (RdPending # es) = (Pending, es)"
| "poll_read k (RdError e # es) = (Ready (Err e), es)"
| "poll_read k (RdData bs # es) =
     (if length bs \<le> k then (Ready (Ok bs), es) else (Ready (Ok (take k bs)), RdData (drop k bs) # es))"

fun script_bytes :: "rd_script \<Rightarrow> bytes" where
  "script_bytes [] = []"
| "script_bytes (RdData bs # es) = bs @ script_bytes es"
| "script_bytes (_ # es) = script_bytes es"

fun script_pendings :: "rd_script \<Rightarrow> nat" where
  "script_pendings [] = 0"
| "script_pendings (RdPending # es) = Suc (script_pendings es)"
| "script_pendings (_ # es) = script_pendings es"

text \<open>A script without I/O errors, in which end of file comes only at the end.\<close>

fun clean_script :: "rd_script \<Rightarrow> bool" where
  "clean_script [] = True"
| "clean_script (RdPending # es) = clean_script es"
| "clean_script (RdData bs # es) = (bs \<noteq> [] \<and> clean_script es)"
| "clean_script (RdError _ # es) = False"

text \<open>
  The loop of \<open>poll_read_exact\<close>, which the AEAD and the stream reader share word for word: fill the
  buffer to \<open>size\<close> bytes, and report 0 when the source ends on an empty buffer.
\<close>

function fill_buffer :: "nat \<Rightarrow> bytes \<Rightarrow> rd_script \<Rightarrow> (nat, io_kind) poll \<times> bytes \<times> rd_script" where
  "fill_buffer sz buf es =
     (if length buf < sz then
        (case poll_read (sz - length buf) es of
           (Pending, es) \<Rightarrow> (Pending, buf, es)
         | (Ready (Err e), es) \<Rightarrow> (Ready (Err e), buf, es)
         | (Ready Panic, es) \<Rightarrow> (Ready Panic, buf, es)
         | (Ready (Ok d), es) \<Rightarrow>
             if d = [] then
               (if buf \<noteq> [] then (Ready (Err UnexpectedEof), buf, es) else (Ready (Ok 0), buf, es))
             else fill_buffer sz (buf @ d) es)
      else (Ready (Ok sz), buf, es))"
  by pat_completeness auto
termination
  by (relation "measure (\<lambda>(sz, buf, es). sz - length buf)") (auto simp: neq_Nil_conv)

declare fill_buffer.simps [simp del]

definition poll_read_exact :: "nat \<Rightarrow> bytes \<Rightarrow> rd_script \<Rightarrow> (nat, io_kind) poll \<times> bytes \<times> rd_script" where
  "poll_read_exact sz buf es = (if sz = 0 then (Ready Panic, buf, es) else fill_buffer sz buf es)"

text \<open>The bytes of the source after a poll, whatever its outcome.\<close>

fun poll_data :: "(bytes, 'e) poll \<Rightarrow> bytes" where
  "poll_data (Ready (Ok d)) = d"
| "poll_data _ = []"

lemma poll_read_bytes:
  "poll_read k es = (p, es') \<Longrightarrow> script_bytes es = poll_data p @ script_bytes es'"
  by (cases "(k, es)" rule: poll_read.cases) (auto split: if_splits)

lemma poll_read_pending: "poll_read k es = (Pending, es') \<Longrightarrow> es = RdPending # es'"
  by (cases "(k, es)" rule: poll_read.cases) (auto split: if_splits)

lemma poll_read_pendings:
  "poll_read k es = (Ready r, es') \<Longrightarrow> script_pendings es' = script_pendings es"
  by (cases "(k, es)" rule: poll_read.cases) (auto split: if_splits)

lemma poll_read_not_Panic: "poll_read k es \<noteq> (Ready Panic, es')"
  by (cases "(k, es)" rule: poll_read.cases) (auto split: if_splits)

lemma poll_read_clean:
  assumes "clean_script es" "poll_read k es = (p, es')" "0 < k"
  shows "clean_script es' \<and>
    (p = Pending \<or> (\<exists>d. p = Ready (Ok d) \<and> length d \<le> k \<and> (d = [] \<longrightarrow> es = [])))"
  using assms by (cases "(k, es)" rule: poll_read.cases) (auto split: if_splits)

text \<open>
  What \<open>poll_read_exact\<close> leaves: bytes are moved from the source to the buffer and never lost; on
  success the buffer is full, or empty at the end of the source.
\<close>

lemma fill_buffer_moves:
  assumes "fill_buffer sz buf es = (p, buf', es')"
  shows "(\<exists>d. buf' = buf @ d \<and> script_bytes es = d @ script_bytes es') \<and> p \<noteq> Ready Panic \<and>
     (\<forall>n. p = Ready (Ok n) \<longrightarrow> n = sz \<and> sz \<le> length buf' \<or> n = 0 \<and> buf' = []) \<and>
     (length buf \<le> sz \<longrightarrow> length buf' \<le> sz \<or> \<not> clean_script es)"
  using assms
proof (induction sz buf es rule: fill_buffer.induct)
  case (1 sz buf es)
  note unfold = fill_buffer.simps [of sz buf es]
  show ?case
  proof (cases "length buf < sz")
    case False
    then show ?thesis using 1(2) by (auto simp: unfold)
  next
    case True
    obtain q es1 where q: "poll_read (sz - length buf) es = (q, es1)" by force
    note b = poll_read_bytes [OF q]
    show ?thesis
    proof (cases "\<exists>d. q = Ready (Ok d) \<and> d \<noteq> []")
      case False
      then show ?thesis using 1(2) True q b poll_read_not_Panic
        by (auto simp: unfold split: poll.splits outcome.splits if_splits)
    next
      case more: True
      then obtain d where d: "q = Ready (Ok d)" "d \<noteq> []" by blast
      with 1(2) True q have "fill_buffer sz (buf @ d) es1 = (p, buf', es')" by (simp add: unfold)
      note IH = 1(1) [OF True q [symmetric] d(1) refl d(2) this]
      have "clean_script es \<Longrightarrow> clean_script es1 \<and> length (buf @ d) \<le> sz"
        using poll_read_clean [OF _ q] True d by auto
      then show ?thesis using IH b d by auto
    qed
  qed
qed

text \<open>On a clean source it is pending after consuming a pending event, or it reports.\<close>

lemma fill_buffer_clean:
  assumes "fill_buffer sz buf es = (p, buf', es')" "clean_script es"
  shows "clean_script es' \<and>
     (p = Pending \<and> script_pendings es' < script_pendings es \<and> length buf' < sz \<or>
      script_pendings es' = script_pendings es \<and>
      (p = Ready (Ok sz) \<and> sz \<le> length buf' \<or>
       length buf' < sz \<and> es' = [] \<and> p = (if buf' = [] then Ready (Ok 0) else Ready (Err UnexpectedEof))))"
  using assms
proof (induction sz buf es rule: fill_buffer.induct)
  case (1 sz buf es)
  note unfold = fill_buffer.simps [of sz buf es]
  show ?case
  proof (cases "length buf < sz")
    case False
    then show ?thesis using 1(2,3) by (auto simp: unfold)
  next
    case True
    obtain q es1 where q: "poll_read (sz - length buf) es = (q, es1)" by force
    have "0 < sz - length buf" using True by simp
    note c = poll_read_clean [OF 1(3) q this]
    then consider (pend) "q = Pending" | (eof) "q = Ready (Ok [])" "es = []"
      | (more) d where "q = Ready (Ok d)" "d \<noteq> []" by blast
    then show ?thesis
    proof cases
      case pend
      with 1(2) True q have "p = Pending" "buf' = buf" "es' = es1" by (simp_all add: unfold)
      moreover have "es = RdPending # es1" using poll_read_pending q pend by blast
      ultimately show ?thesis using c True by simp
    next
      case eof
      then have "es1 = []" using q by simp
      then have "fill_buffer sz buf es = (if buf = [] then Ready (Ok 0) else Ready (Err UnexpectedEof), buf, [])"
        using True q eof by (simp add: fill_buffer.simps [of sz buf "[]"])
      with 1(2) have "buf' = buf" "es' = []"
        "p = (if buf = [] then Ready (Ok 0) else Ready (Err UnexpectedEof))" by (auto split: if_splits)
      with True eof show ?thesis by simp
    next
      case (more d)
      with 1(2) True q have "fill_buffer sz (buf @ d) es1 = (p, buf', es')" by (simp add: unfold)
      from 1(1) [OF True q [symmetric] more(1) refl more(2) this] c poll_read_pendings q more
      show ?thesis by auto
    qed
  qed
qed

text \<open>Reading \<open>sz\<close> bytes that a clean source still has.\<close>

lemma poll_read_exact_clean:
  assumes e: "poll_read_exact sz buf es = (p, buf', es')" and clean: "clean_script es"
    and len: "length buf \<le> sz" "0 < sz" "length pkt = sz"
    and bytes: "buf @ script_bytes es = pkt @ rst"
  shows "clean_script es' \<and>
     (p = Pending \<and> script_pendings es' < script_pendings es \<and> length buf' \<le> sz \<and>
        buf' @ script_bytes es' = pkt @ rst \<or>
      p = Ready (Ok sz) \<and> script_pendings es' = script_pendings es \<and> buf' = pkt \<and> script_bytes es' = rst)"
proof -
  have q: "fill_buffer sz buf es = (p, buf', es')" using e len(2) by (simp add: poll_read_exact_def)
  from fill_buffer_moves [OF q] obtain d where d: "buf' = buf @ d"
    "script_bytes es = d @ script_bytes es'" and bl: "length buf' \<le> sz" using clean len by auto
  have eq: "buf' @ script_bytes es' = pkt @ rst" using d bytes by simp
  from fill_buffer_clean [OF q clean]
  consider (pend) "clean_script es'" "p = Pending" "script_pendings es' < script_pendings es"
    | (full) "clean_script es'" "p = Ready (Ok sz)" "sz \<le> length buf'" "script_pendings es' = script_pendings es"
    | (short) "length buf' < sz" "es' = []" by blast
  then show ?thesis
  proof cases
    case pend
    then show ?thesis using eq bl by simp
  next
    case full
    then have "buf' = pkt" "script_bytes es' = rst" using eq bl len(3) by (metis append_eq_append_conv le_antisym)+
    then show ?thesis using full by simp
  next
    case short
    then have "length (pkt @ rst) < sz" using eq by (metis append_Nil2 script_bytes.simps(1))
    then show ?thesis using len(3) by simp
  qed
qed

end
