(* ===== verification/Cipher.thy ===== *)
theory Cipher
  imports Replay
begin

text \<open>
  The ciphers of the crate \<open>shadowsocks-crypto\<close>, which is not in the repository: \<open>Cipher::new\<close>,
  \<open>tag_len\<close>, \<open>encrypt_packet\<close> and \<open>decrypt_packet\<close> are the fields of a record that every definition
  using them takes as an argument. Both packet operations work in place on a buffer whose last
  \<open>tag_len\<close> bytes are the tag, and return the buffer; decryption also tells whether the tag was right.
\<close>

record 'c cipher_lib =
  cipher_new :: "cipher_kind \<Rightarrow> bytes \<Rightarrow> bytes \<Rightarrow> 'c"
  cipher_tag_len :: "'c \<Rightarrow> nat"
  cipher_encrypt :: "'c \<Rightarrow> bytes \<Rightarrow> bytes \<times> 'c"
  cipher_decrypt :: "'c \<Rightarrow> bytes \<Rightarrow> bool \<times> bytes \<times> 'c"

text \<open>
  What the relay relies on. \<open>in_step c d\<close> says that the encrypting cipher \<open>c\<close> and the decrypting
  cipher \<open>d\<close> come from the same key and salt and have seen the same packets; then \<open>d\<close> accepts the
  next packet of \<open>c\<close>, recovers what precedes its tag, and both stay in step.
\<close>

definition cipher_laws :: "('c, 'z) cipher_lib_scheme \<Rightarrow> cipher_kind \<Rightarrow> ('c \<Rightarrow> 'c \<Rightarrow> bool) \<Rightarrow> bool" where
  "cipher_laws lib method in_step \<longleftrightarrow>
     (\<forall>key salt. in_step (cipher_new lib method key salt) (cipher_new lib method key salt)) \<and>
     (\<forall>c d. in_step c d \<longrightarrow> cipher_tag_len lib c = kind_tag_len method \<and> cipher_tag_len lib d = kind_tag_len method) \<and>
     (\<forall>c d buf out c'. in_step c d \<longrightarrow> kind_tag_len method \<le> length buf \<longrightarrow>
        cipher_encrypt lib c buf = (out, c') \<longrightarrow>
        length out = length buf \<and>
        (\<exists>pt d'. cipher_decrypt lib d out = (True, pt, d') \<and> length pt = length buf \<and>
           take (length buf - kind_tag_len method) pt = take (length buf - kind_tag_len method) buf \<and>
           in_step c' d'))"

lemma cipher_laws_new: "cipher_laws lib method R \<Longrightarrow> R (cipher_new lib method key salt) (cipher_new lib method key salt)"
  by (simp add: cipher_laws_def)

lemma cipher_laws_tag:
  "cipher_laws lib method R \<Longrightarrow> R c d \<Longrightarrow> cipher_tag_len lib c = kind_tag_len method"
  "cipher_laws lib method R \<Longrightarrow> R c d \<Longrightarrow> cipher_tag_len lib d = kind_tag_len method"
  by (auto simp: cipher_laws_def)

lemma cipher_laws_packet:
  assumes "cipher_laws lib method R" "R c d" "length tag = kind_tag_len method"
    and "cipher_encrypt lib c (pt @ tag) = (out, c')"
  obtains tag' d' where "length out = length pt + kind_tag_len method"
    and "cipher_decrypt lib d out = (True, pt @ tag', d')" "length tag' = kind_tag_len method" "R c' d'"
proof -
  have len: "kind_tag_len method \<le> length (pt @ tag)" using assms(3) by simp
  from assms(1) have "length out = length (pt @ tag) \<and>
        (\<exists>p d'. cipher_decrypt lib d out = (True, p, d') \<and> length p = length (pt @ tag) \<and>
           take (length (pt @ tag) - kind_tag_len method) p = take (length (pt @ tag) - kind_tag_len method) (pt @ tag) \<and>
           R c' d')"
    unfolding cipher_laws_def using assms(2,4) len by blast
  then obtain p d' where l: "length out = length (pt @ tag)"
    and d: "cipher_decrypt lib d out = (True, p, d')" "length p = length (pt @ tag)"
    and t: "take (length (pt @ tag) - kind_tag_len method) p = take (length (pt @ tag) - kind_tag_len method) (pt @ tag)"
    and r: "R c' d'"
    by blast
  have "take (length pt) p = pt" using t assms(3) by simp
  then have "p = pt @ drop (length pt) p" by (metis append_take_drop_id)
  then show ?thesis using that [of "drop (length pt) p" d'] l d r assms(3) by simp
qed

section \<open>A concrete cipher\<close>

text \<open>A packet counter in place of the tag: enough to satisfy the laws.\<close>

definition counter_lib :: "(nat \<times> nat) cipher_lib" where
  "counter_lib = \<lparr>cipher_new = \<lambda>method key salt. (kind_tag_len method, 0), cipher_tag_len = fst,
     cipher_encrypt = (\<lambda>(t, n) buf. (take (length buf - t) buf @ replicate t (of_nat n), (t, Suc n))),
     cipher_decrypt = (\<lambda>(t, n) buf. (drop (length buf - t) buf = replicate t (of_nat n), buf, (t, Suc n)))\<rparr>"

lemma counter_laws: "cipher_laws counter_lib method (\<lambda>c d. c = d \<and> fst c = kind_tag_len method)"
  by (auto simp: cipher_laws_def counter_lib_def)

definition sample_aead_kind :: cipher_kind where
  "sample_aead_kind = \<lparr>kind_category = CatAead, kind_is_aead_2022 = False, kind_key_len = 4,
     kind_salt_len = 2, kind_iv_len = 0, kind_tag_len = 1\<rparr>"

end
