(* ===== verification/Tcp_Aead.thy ===== *)
theory Tcp_Aead
  imports Async_Io Cipher
begin

text \<open>
  The AEAD tunnel of \<open>relay/tcprelay/aead.rs\<close>: \<open>DecryptedReader\<close> and \<open>EncryptedWriter\<close> as poll-based
  state machines over arbitrary sources and sinks. \<open>decrypt_step\<close> is the body of the reader's loop,
  \<open>Some\<close> result when it returns; the buffer the caller passes is its free capacity, and the bytes put
  into it are the result.
\<close>

section \<open>Errors\<close>

definition MAX_PACKET_SIZE :: nat where "MAX_PACKET_SIZE = 0x3FFF"

datatype aead_error =
    AeadIoError io_kind
  | HeaderTooShort nat nat
  | DecryptDataError
  | DecryptLengthError
  | DataTooLong nat

fun aead_error_into_io :: "aead_error \<Rightarrow> io_kind" where
  "aead_error_into_io (AeadIoError k) = k"
| "aead_error_into_io _ = OtherError"

section \<open>The reader\<close>

datatype aead_read_state = WaitSalt bytes | ReadLength | ReadData nat | BufferedData nat

record 'c aead_reader =
  ar_state :: aead_read_state
  ar_cipher :: "'c option"
  ar_buffer :: bytes
  ar_method :: cipher_kind
  ar_salt :: "bytes option"
  ar_handshaked :: bool

definition aead_reader_new :: "('c, 'z) cipher_lib_scheme \<Rightarrow> cipher_kind \<Rightarrow> bytes \<Rightarrow> 'c aead_reader" where
  "aead_reader_new lib method key =
     (if kind_salt_len method > 0 then
        \<lparr>ar_state = WaitSalt key, ar_cipher = None, ar_buffer = [], ar_method = method,
         ar_salt = None, ar_handshaked = False\<rparr>
      else
        \<lparr>ar_state = ReadLength, ar_cipher = Some (cipher_new lib method key []), ar_buffer = [],
         ar_method = method, ar_salt = None, ar_handshaked = False\<rparr>)"

text \<open>The reader with the world it runs in: the source, and the context of the replay checks.\<close>

record ('c, 'b, 's) aead_rd =
  rd_reader :: "'c aead_reader"
  rd_source :: rd_script
  rd_ctx :: "('b, 's) ss_context"

definition aead_read_exact :: "nat \<Rightarrow> ('c, 'b, 's) aead_rd \<Rightarrow> (nat, aead_error) poll \<times> ('c, 'b, 's) aead_rd" where
  "aead_read_exact sz w =
     (let (p, buf, es) = poll_read_exact sz (ar_buffer (rd_reader w)) (rd_source w)
      in poll_map_err AeadIoError (p, w\<lparr>rd_reader := (rd_reader w)\<lparr>ar_buffer := buf\<rparr>, rd_source := es\<rparr>))"

definition aead_read_salt ::
    "('c, 'z) cipher_lib_scheme \<Rightarrow> bytes \<Rightarrow> ('c, 'b, 's) aead_rd
     \<Rightarrow> (unit, aead_error) poll \<times> ('c, 'b, 's) aead_rd" where
  "aead_read_salt lib key w =
     (let salt_len = kind_salt_len (ar_method (rd_reader w)) in
      poll_bind (aead_read_exact salt_len w) (\<lambda>n w.
        if n < salt_len then (Ready (Err (AeadIoError UnexpectedEof)), w)
        else
          let r = rd_reader w; salt = take salt_len (ar_buffer r)
          in (Ready (Ok ()),
              w\<lparr>rd_reader := r\<lparr>ar_salt := Some salt, ar_cipher := Some (cipher_new lib (ar_method r) key salt)\<rparr>\<rparr>)))"

definition aead_decrypt_length ::
    "('c, 'z) cipher_lib_scheme \<Rightarrow> 'c \<Rightarrow> bytes \<Rightarrow> (nat, aead_error) outcome \<times> bytes \<times> 'c" where
  "aead_decrypt_length lib cipher m =
     (let (ok, m, cipher) = cipher_decrypt lib cipher m in
      if \<not> ok then (Err DecryptLengthError, m, cipher)
      else let plen = unat (from_be [m ! 0, m ! 1] :: u16) in
        if plen > MAX_PACKET_SIZE then (Err (DataTooLong plen), m, cipher)
        else (Ok plen, m, cipher))"

definition aead_read_length ::
    "('c, 'z) cipher_lib_scheme \<Rightarrow> ('c, 'b, 's) aead_rd
     \<Rightarrow> (nat option, aead_error) poll \<times> ('c, 'b, 's) aead_rd" where
  "aead_read_length lib w =
     (let length_len = 2 + kind_tag_len (ar_method (rd_reader w)) in
      poll_bind (aead_read_exact length_len w) (\<lambda>n w.
        if n = 0 then (Ready (Ok None), w)
        else (case ar_cipher (rd_reader w) of
          None \<Rightarrow> (Ready Panic, w)
        | Some cipher \<Rightarrow>
            let r = rd_reader w;
                (res, m, cipher) = aead_decrypt_length lib cipher (take length_len (ar_buffer r));
                w = w\<lparr>rd_reader := r\<lparr>ar_cipher := Some cipher, ar_buffer := m @ drop length_len (ar_buffer r)\<rparr>\<rparr>
            in (case res of Ok plen \<Rightarrow> (Ready (Ok (Some plen)), w)
                | Err e \<Rightarrow> (Ready (Err e), w)
                | Panic \<Rightarrow> (Ready Panic, w)))))"

definition aead_read_data ::
    "('c, 'z) cipher_lib_scheme \<Rightarrow> ('b, 's, 'y) replay_lib_scheme \<Rightarrow> nat \<Rightarrow> nat \<Rightarrow> ('c, 'b, 's) aead_rd
     \<Rightarrow> (unit, aead_error) poll \<times> ('c, 'b, 's) aead_rd" where
  "aead_read_data lib rlib now sz w =
     (let data_len = sz + kind_tag_len (ar_method (rd_reader w)) in
      poll_bind (aead_read_exact data_len w) (\<lambda>n w.
        if n = 0 then (Ready (Err (AeadIoError UnexpectedEof)), w)
        else (case ar_cipher (rd_reader w) of
          None \<Rightarrow> (Ready Panic, w)
        | Some cipher \<Rightarrow>
            let r = rd_reader w;
                (ok, m, cipher) = cipher_decrypt lib cipher (take data_len (ar_buffer r));
                r = r\<lparr>ar_cipher := Some cipher, ar_buffer := m @ drop data_len (ar_buffer r)\<rparr>
            in if \<not> ok then (Ready (Err DecryptDataError), w\<lparr>rd_reader := r\<rparr>)
               else
                 let (res, ctx) = (case ar_salt r of
                        Some salt \<Rightarrow> check_nonce_replay rlib (rd_ctx w) now (ar_method r) salt
                      | None \<Rightarrow> (Ok (), rd_ctx w));
                     w = w\<lparr>rd_reader := r\<lparr>ar_salt := None\<rparr>, rd_ctx := ctx\<rparr>
                 in (case res of
                       Err k \<Rightarrow> (Ready (Err (AeadIoError k)), w)
                     | Panic \<Rightarrow> (Ready Panic, w)
                     | Ok _ \<Rightarrow>
                         (Ready (Ok ()),
                          w\<lparr>rd_reader := (rd_reader w)\<lparr>ar_buffer := take sz (ar_buffer (rd_reader w))\<rparr>\<rparr>)))))"

text \<open>One turn of the loop: the value it returns, or \<open>None\<close> to go round again.\<close>

fun step_done :: "('a, 'e) poll \<times> 'w \<Rightarrow> ('a \<Rightarrow> 'w \<Rightarrow> ('r, 'e) poll option \<times> 'w) \<Rightarrow> ('r, 'e) poll option \<times> 'w" where
  "step_done (Ready (Ok x), w) f = f x w"
| "step_done (Ready (Err e), w) f = (Some (Ready (Err e)), w)"
| "step_done (Ready Panic, w) f = (Some (Ready Panic), w)"
| "step_done (Pending, w) f = (Some Pending, w)"

definition aead_decrypt_step ::
    "('c, 'z) cipher_lib_scheme \<Rightarrow> ('b, 's, 'y) replay_lib_scheme \<Rightarrow> nat \<Rightarrow> nat \<Rightarrow> ('c, 'b, 's) aead_rd
     \<Rightarrow> (bytes, aead_error) poll option \<times> ('c, 'b, 's) aead_rd" where
  "aead_decrypt_step lib rlib now remaining w =
     (case ar_state (rd_reader w) of
        WaitSalt key \<Rightarrow>
          step_done (aead_read_salt lib key w) (\<lambda>_ w.
            (None, w\<lparr>rd_reader := (rd_reader w)\<lparr>ar_buffer := [], ar_state := ReadLength, ar_handshaked := True\<rparr>\<rparr>))
      | ReadLength \<Rightarrow>
          step_done (aead_read_length lib w) (\<lambda>len w. (case len of
              None \<Rightarrow> (Some (Ready (Ok [])), w)
            | Some len \<Rightarrow>
                (None, w\<lparr>rd_reader := (rd_reader w)\<lparr>ar_buffer := [], ar_state := ReadData len\<rparr>\<rparr>)))
      | ReadData len \<Rightarrow>
          step_done (aead_read_data lib rlib now len w) (\<lambda>_ w.
            (None, w\<lparr>rd_reader := (rd_reader w)\<lparr>ar_state := BufferedData 0\<rparr>\<rparr>))
      | BufferedData pos \<Rightarrow>
          let r = rd_reader w in
          if pos < length (ar_buffer r) then
            let buffered = drop pos (ar_buffer r);
                consumed = min (length buffered) remaining
            in (Some (Ready (Ok (take consumed buffered))),
                w\<lparr>rd_reader := r\<lparr>ar_state := BufferedData (pos + consumed)\<rparr>\<rparr>)
          else (None, w\<lparr>rd_reader := r\<lparr>ar_buffer := [], ar_state := ReadLength\<rparr>\<rparr>))"

text \<open>Each turn that does not return consumes bytes, or moves on to a state nearer to reading.\<close>

fun state_rank :: "aead_read_state \<Rightarrow> nat" where
  "state_rank ReadLength = 0"
| "state_rank (BufferedData _) = 1"
| "state_rank (ReadData _) = 2"
| "state_rank (WaitSalt _) = 3"

definition aead_rd_size :: "('c, 'b, 's) aead_rd \<Rightarrow> nat" where
  "aead_rd_size w = 3 * (length (script_bytes (rd_source w)) + length (ar_buffer (rd_reader w)))
     + state_rank (ar_state (rd_reader w))"

lemma aead_read_exact_size:
  assumes "aead_read_exact sz w = (Ready (Ok n), w')"
  shows "\<exists>buf es. w' = w\<lparr>rd_reader := (rd_reader w)\<lparr>ar_buffer := buf\<rparr>, rd_source := es\<rparr> \<and>
     length (script_bytes es) + length buf = length (script_bytes (rd_source w)) + length (ar_buffer (rd_reader w)) \<and>
     0 < sz \<and> (n = sz \<and> sz \<le> length buf \<or> n = 0)"
proof -
  obtain p buf es where p: "poll_read_exact sz (ar_buffer (rd_reader w)) (rd_source w) = (p, buf, es)"
    by (cases "poll_read_exact sz (ar_buffer (rd_reader w)) (rd_source w)")
  have "p = Ready (Ok n)" "w' = w\<lparr>rd_reader := (rd_reader w)\<lparr>ar_buffer := buf\<rparr>, rd_source := es\<rparr>"
    using assms p by (cases p; auto simp: aead_read_exact_def outcome_simps)+
  moreover have "0 < sz" "fill_buffer sz (ar_buffer (rd_reader w)) (rd_source w) = (p, buf, es)"
    using p \<open>p = _\<close> by (auto simp: poll_read_exact_def split: if_splits)
  ultimately show ?thesis using fill_buffer_moves [of sz _ _ p buf es] by fastforce
qed

lemma poll_bind_Ok_iff [outcome_simps]:
  "poll_bind m f = (Ready (Ok y), s') \<longleftrightarrow> (\<exists>x s. m = (Ready (Ok x), s) \<and> f x s = (Ready (Ok y), s'))"
proof -
  obtain p s where m: "m = (p, s)" by force
  show ?thesis unfolding m by (cases p; (cases "case p of Ready r \<Rightarrow> r | Pending \<Rightarrow> Panic")?) auto
qed

lemma step_done_None_iff:
  "step_done m f = (None, w') \<longleftrightarrow> (\<exists>x w. m = (Ready (Ok x), w) \<and> f x w = (None, w'))"
  by (cases "(m, f)" rule: step_done.cases) auto

lemma aead_decrypt_step_decreases:
  assumes "aead_decrypt_step lib rlib now remaining w = (None, w')"
  shows "aead_rd_size w' < aead_rd_size w"
proof (cases "ar_state (rd_reader w)")
  case (WaitSalt key)
  then obtain w1 where s: "aead_read_salt lib key w = (Ready (Ok ()), w1)"
    and w': "w' = w1\<lparr>rd_reader := (rd_reader w1)\<lparr>ar_buffer := [], ar_state := ReadLength, ar_handshaked := True\<rparr>\<rparr>"
    using assms by (auto simp: aead_decrypt_step_def step_done_None_iff)
  from s obtain n w2 where e: "aead_read_exact (kind_salt_len (ar_method (rd_reader w))) w = (Ready (Ok n), w2)"
    and w1: "rd_source w1 = rd_source w2"
    by (auto simp: aead_read_salt_def outcome_simps Let_def split: if_splits)
  from aead_read_exact_size [OF e] show ?thesis
    by (auto simp: aead_rd_size_def w' w1 WaitSalt)
next
  case ReadLength
  then obtain len w1 where s: "aead_read_length lib w = (Ready (Ok (Some len)), w1)"
    and w': "w' = w1\<lparr>rd_reader := (rd_reader w1)\<lparr>ar_buffer := [], ar_state := ReadData len\<rparr>\<rparr>"
    using assms by (auto simp: aead_decrypt_step_def step_done_None_iff split: option.splits)
  from s obtain n w2 where e: "aead_read_exact (2 + kind_tag_len (ar_method (rd_reader w))) w = (Ready (Ok n), w2)"
    and n: "n \<noteq> 0" and w1: "rd_source w1 = rd_source w2"
    by (auto simp: aead_read_length_def outcome_simps Let_def split: if_splits option.splits outcome.splits prod.splits)
  from aead_read_exact_size [OF e] n show ?thesis
    by (auto simp: aead_rd_size_def w' w1 ReadLength)
next
  case (ReadData len)
  then obtain w1 where s: "aead_read_data lib rlib now len w = (Ready (Ok ()), w1)"
    and w': "w' = w1\<lparr>rd_reader := (rd_reader w1)\<lparr>ar_state := BufferedData 0\<rparr>\<rparr>"
    using assms by (auto simp: aead_decrypt_step_def step_done_None_iff)
  from s obtain n w2 where e: "aead_read_exact (len + kind_tag_len (ar_method (rd_reader w))) w = (Ready (Ok n), w2)"
    and n: "n \<noteq> 0" and w1: "rd_source w1 = rd_source w2" "length (ar_buffer (rd_reader w1)) \<le> len"
    by (auto simp: aead_read_data_def outcome_simps Let_def split: if_splits option.splits outcome.splits prod.splits)
  from aead_read_exact_size [OF e] obtain buf es where
    "w2 = w\<lparr>rd_reader := (rd_reader w)\<lparr>ar_buffer := buf\<rparr>, rd_source := es\<rparr>"
    and b: "length (script_bytes es) + length buf =
       length (script_bytes (rd_source w)) + length (ar_buffer (rd_reader w))"
      "n = len + kind_tag_len (ar_method (rd_reader w)) \<and>
       len + kind_tag_len (ar_method (rd_reader w)) \<le> length buf \<or> n = 0"
    by blast
  then have "rd_source w1 = es" using w1(1) by simp
  with w1(2) b n have "length (script_bytes (rd_source w1)) + length (ar_buffer (rd_reader w1)) \<le>
      length (script_bytes (rd_source w)) + length (ar_buffer (rd_reader w))" by simp
  then show ?thesis by (simp add: aead_rd_size_def w' ReadData)
next
  case (BufferedData pos)
  with assms show ?thesis
    by (auto simp: aead_decrypt_step_def aead_rd_size_def Let_def split: if_splits)
qed

text \<open>\<open>poll_read_decrypted\<close>: the loop returns, since every turn that goes round again gets smaller.\<close>

function aead_poll_read ::
    "('c, 'z) cipher_lib_scheme \<Rightarrow> ('b, 's, 'y) replay_lib_scheme \<Rightarrow> nat \<Rightarrow> nat \<Rightarrow> ('c, 'b, 's) aead_rd
     \<Rightarrow> (bytes, aead_error) poll \<times> ('c, 'b, 's) aead_rd" where
  "aead_poll_read lib rlib now remaining w =
     (case aead_decrypt_step lib rlib now remaining w of
        (Some res, w) \<Rightarrow> (res, w)
      | (None, w) \<Rightarrow> aead_poll_read lib rlib now remaining w)"
  by pat_completeness auto
termination
  by (relation "measure (\<lambda>(lib, rlib, now, remaining, w). aead_rd_size w)")
     (auto simp: aead_decrypt_step_decreases)

declare aead_poll_read.simps [simp del]

section \<open>The writer\<close>

text \<open>
  An \<open>AsyncWrite\<close>: the bytes it took, and what its next polls will do; once these are used up it takes
  everything it is given.
\<close>

datatype wr_event = WrPending | WrAccept nat | WrError io_kind

record sink =
  sink_bytes :: bytes
  sink_script :: "wr_event list"

definition poll_write :: "bytes \<Rightarrow> sink \<Rightarrow> (nat, io_kind) poll \<times> sink" where
  "poll_write bs s =
     (case sink_script s of
        [] \<Rightarrow> (Ready (Ok (length bs)), s\<lparr>sink_bytes := sink_bytes s @ bs\<rparr>)
      | WrPending # es \<Rightarrow> (Pending, s\<lparr>sink_script := es\<rparr>)
      | WrError e # es \<Rightarrow> (Ready (Err e), s\<lparr>sink_script := es\<rparr>)
      | WrAccept k # es \<Rightarrow> (let n = min k (length bs) in
          (Ready (Ok n), \<lparr>sink_bytes = sink_bytes s @ take n bs, sink_script = es\<rparr>)))"

text \<open>The inner loop \<open>while *pos < self.buffer.len()\<close> of both writers.\<close>

function drain_buffer :: "bytes \<Rightarrow> nat \<Rightarrow> sink \<Rightarrow> (unit, io_kind) poll \<times> nat \<times> sink" where
  "drain_buffer buf pos s =
     (if pos < length buf then
        (case poll_write (drop pos buf) s of
           (Pending, s) \<Rightarrow> (Pending, pos, s)
         | (Ready (Err e), s) \<Rightarrow> (Ready (Err e), pos, s)
         | (Ready Panic, s) \<Rightarrow> (Ready Panic, pos, s)
         | (Ready (Ok n), s) \<Rightarrow>
             if n = 0 then (Ready (Err UnexpectedEof), pos, s) else drain_buffer buf (pos + n) s)
      else (Ready (Ok ()), pos, s))"
  by pat_completeness auto
termination
  by (relation "measure (\<lambda>(buf, pos, s). length buf - pos)") auto

declare drain_buffer.simps [simp del]

datatype aead_write_state = AssemblePacket | Writing nat

record 'c aead_writer =
  aw_cipher :: 'c
  aw_buffer :: bytes
  aw_state :: aead_write_state
  aw_salt :: bytes

definition aead_writer_new :: "('c, 'z) cipher_lib_scheme \<Rightarrow> cipher_kind \<Rightarrow> bytes \<Rightarrow> bytes \<Rightarrow> 'c aead_writer" where
  "aead_writer_new lib method key nonce =
     \<lparr>aw_cipher = cipher_new lib method key nonce, aw_buffer = nonce, aw_state = AssemblePacket, aw_salt = nonce\<rparr>"

text \<open>
  Assembling a packet: the length and the data, each encrypted in place with the tag behind it.
  \<open>mem\<close> is what the buffer's spare capacity holds where the tags go before they are written.
\<close>

definition aead_seal :: "('c, 'z) cipher_lib_scheme \<Rightarrow> (nat \<Rightarrow> u8) \<Rightarrow> 'c \<Rightarrow> bytes \<Rightarrow> bytes \<times> 'c" where
  "aead_seal lib mem c buf = cipher_encrypt lib c (buf @ map mem [0..<cipher_tag_len lib c])"

definition aead_assemble ::
    "('c, 'z) cipher_lib_scheme \<Rightarrow> (nat \<Rightarrow> u8) \<Rightarrow> bytes \<Rightarrow> 'c aead_writer \<Rightarrow> 'c aead_writer" where
  "aead_assemble lib mem buf w =
     (let (len_packet, c1) = aead_seal lib mem (aw_cipher w) (to_be 2 (of_nat (length buf) :: u16));
          (data_packet, c2) = aead_seal lib mem c1 buf
      in w\<lparr>aw_cipher := c2, aw_buffer := aw_buffer w @ len_packet @ data_packet, aw_state := Writing 0\<rparr>)"

definition aead_poll_write ::
    "('c, 'z) cipher_lib_scheme \<Rightarrow> (nat \<Rightarrow> u8) \<Rightarrow> bytes \<Rightarrow> 'c aead_writer \<times> sink
     \<Rightarrow> (nat, io_kind) poll \<times> 'c aead_writer \<times> sink" where
  "aead_poll_write lib mem buf ws =
     (let buf = (if length buf > MAX_PACKET_SIZE then take MAX_PACKET_SIZE buf else buf);
          (w, s) = ws;
          w = (case aw_state w of AssemblePacket \<Rightarrow> aead_assemble lib mem buf w | Writing _ \<Rightarrow> w);
          pos = (case aw_state w of AssemblePacket \<Rightarrow> 0 | Writing pos \<Rightarrow> pos);
          (p, pos, s) = drain_buffer (aw_buffer w) pos s
      in case p of
           Ready (Ok _) \<Rightarrow>
             (Ready (Ok (length buf)), w\<lparr>aw_state := AssemblePacket, aw_buffer := []\<rparr>, s)
         | Ready (Err e) \<Rightarrow> (Ready (Err e), w\<lparr>aw_state := Writing pos\<rparr>, s)
         | Ready Panic \<Rightarrow> (Ready Panic, w\<lparr>aw_state := Writing pos\<rparr>, s)
         | Pending \<Rightarrow> (Pending, w\<lparr>aw_state := Writing pos\<rparr>, s))"

section \<open>What the writer puts on the wire\<close>

fun aead_chunks :: "('c, 'z) cipher_lib_scheme \<Rightarrow> (nat \<Rightarrow> u8) \<Rightarrow> 'c \<Rightarrow> bytes list \<Rightarrow> bytes \<times> 'c" where
  "aead_chunks lib mem c [] = ([], c)"
| "aead_chunks lib mem c (p # ps) =
     (let (a, c) = aead_seal lib mem c (to_be 2 (of_nat (length p) :: u16));
          (b, c) = aead_seal lib mem c p;
          (bs, c) = aead_chunks lib mem c ps
      in (a @ b @ bs, c))"

lemma drain_buffer_moves:
  assumes "drain_buffer buf pos s = (p, pos', s')" "pos \<le> length buf"
  shows "pos \<le> pos' \<and> pos' \<le> length buf \<and>
     sink_bytes s' @ drop pos' buf = sink_bytes s @ drop pos buf \<and>
     (p = Pending \<longrightarrow> length (sink_script s') < length (sink_script s)) \<and>
     (\<forall>u. p = Ready (Ok u) \<longrightarrow> pos' = length buf) \<and> p \<noteq> Ready Panic \<and>
     length (sink_script s') \<le> length (sink_script s)"
  using assms
proof (induction buf pos s rule: drain_buffer.induct)
  case (1 buf pos s)
  note unfold = drain_buffer.simps [of buf pos s]
  show ?case
  proof (cases "pos < length buf")
    case False
    then have "p = Ready (Ok ())" "pos' = pos" "s' = s" using 1(2) by (simp_all add: unfold)
    then show ?thesis using False 1(3) by simp
  next
    case True
    obtain q s1 where q: "poll_write (drop pos buf) s = (q, s1)" by force
    have len: "length (sink_script s1) \<le> length (sink_script s)"
      using q by (auto simp: poll_write_def Let_def split: list.splits wr_event.splits)
    consider (more) n where "q = Ready (Ok n)" "n \<noteq> 0" | (stop) "\<forall>n. q = Ready (Ok n) \<longrightarrow> n = 0" by blast
    then show ?thesis
    proof cases
      case (more n)
      then have n: "n \<le> length buf - pos" "sink_bytes s1 = sink_bytes s @ take n (drop pos buf)"
        using q by (auto simp: poll_write_def Let_def split: list.splits wr_event.splits)
      have "drain_buffer buf (pos + n) s1 = (p, pos', s')"
        using 1(2) True q more by (simp add: unfold)
      have le: "pos + n \<le> length buf" using n True by simp
      note IH = 1(1) [OF True q [symmetric] more(1) refl more(2) \<open>drain_buffer buf (pos + n) s1 = _\<close> le]
      have "pos + n \<le> pos'" "pos' \<le> length buf"
        "sink_bytes s' @ drop pos' buf = sink_bytes s @ take n (drop pos buf) @ drop (pos + n) buf"
        "\<forall>u. p = Ready (Ok u) \<longrightarrow> pos' = length buf" "p \<noteq> Ready Panic"
        using IH n(2) by simp_all
      moreover have "p = Pending \<longrightarrow> length (sink_script s') < length (sink_script s)"
        "length (sink_script s') \<le> length (sink_script s)"
        using IH len by linarith+
      moreover have "take n (drop pos buf) @ drop (pos + n) buf = drop pos buf"
        by (metis add.commute append_take_drop_id drop_drop)
      ultimately show ?thesis by simp
    next
      case stop
      then have "pos' = pos" "s' = s1" "p \<noteq> Ready Panic" "\<forall>u. p \<noteq> Ready (Ok u)" "p = Pending \<longrightarrow> q = Pending"
        using 1(2) True q
        by (auto simp: unfold poll_write_def Let_def split: poll.splits outcome.splits list.splits wr_event.splits if_splits)
      moreover have "sink_bytes s1 = sink_bytes s"
        using q stop True by (auto simp: poll_write_def Let_def split: list.splits wr_event.splits)
      moreover have "q = Pending \<longrightarrow> length (sink_script s1) < length (sink_script s)"
        using q by (auto simp: poll_write_def Let_def split: list.splits wr_event.splits)
      ultimately show ?thesis using len True by auto
    qed
  qed
qed

text \<open>What is on the wire together with what is still buffered; a poll adds the packet it assembles.\<close>

fun aead_sent :: "'c aead_writer \<times> sink \<Rightarrow> bytes" where
  "aead_sent (w, s) = sink_bytes s @
     (case aw_state w of AssemblePacket \<Rightarrow> aw_buffer w | Writing pos \<Rightarrow> drop pos (aw_buffer w))"

fun aead_writer_ok :: "'c aead_writer \<times> sink \<Rightarrow> bool" where
  "aead_writer_ok (w, s) = (case aw_state w of AssemblePacket \<Rightarrow> True | Writing pos \<Rightarrow> pos \<le> length (aw_buffer w))"

lemma aead_poll_write_sent:
  assumes poll: "aead_poll_write lib mem buf (w, s) = (p, w', s')" and ok: "aead_writer_ok (w, s)"
    and len: "length buf \<le> MAX_PACKET_SIZE"
  shows "aead_writer_ok (w', s') \<and>
    (case aw_state w of
       AssemblePacket \<Rightarrow> aw_cipher w' = snd (aead_chunks lib mem (aw_cipher w) [buf]) \<and>
         aead_sent (w', s') = aead_sent (w, s) @ fst (aead_chunks lib mem (aw_cipher w) [buf])
     | Writing _ \<Rightarrow> aw_cipher w' = aw_cipher w \<and> aead_sent (w', s') = aead_sent (w, s)) \<and>
    (case p of Pending \<Rightarrow> aw_state w' \<noteq> AssemblePacket \<and> length (sink_script s') < length (sink_script s)
     | Ready (Ok n) \<Rightarrow> n = length buf \<and> aw_state w' = AssemblePacket \<and> aw_buffer w' = []
     | Ready (Err e) \<Rightarrow> True | Ready Panic \<Rightarrow> False)"
proof -
  define w1 where "w1 = (case aw_state w of AssemblePacket \<Rightarrow> aead_assemble lib mem buf w | Writing _ \<Rightarrow> w)"
  obtain pos where pos: "aw_state w1 = Writing pos"
    by (cases "aw_state w") (auto simp: w1_def aead_assemble_def Let_def split: prod.splits)
  obtain q pos' s1 where d: "drain_buffer (aw_buffer w1) pos s = (q, pos', s1)" by (metis prod.collapse)
  have le: "pos \<le> length (aw_buffer w1)" using ok pos
    by (cases "aw_state w") (auto simp: w1_def aead_assemble_def Let_def split: prod.splits)
  have w1: "(case aw_state w of
       AssemblePacket \<Rightarrow> aw_cipher w1 = snd (aead_chunks lib mem (aw_cipher w) [buf]) \<and>
         aead_sent (w1, s) = aead_sent (w, s) @ fst (aead_chunks lib mem (aw_cipher w) [buf])
     | Writing _ \<Rightarrow> aw_cipher w1 = aw_cipher w \<and> aead_sent (w1, s) = aead_sent (w, s))"
    by (cases "aw_state w") (auto simp: w1_def aead_assemble_def Let_def split: prod.splits)
  have p: "p = (case q of Ready (Ok _) \<Rightarrow> Ready (Ok (length buf)) | Ready (Err e) \<Rightarrow> Ready (Err e)
        | Ready Panic \<Rightarrow> Ready Panic | Pending \<Rightarrow> Pending)" "s' = s1"
    "w' = (case q of Ready (Ok _) \<Rightarrow> w1\<lparr>aw_state := AssemblePacket, aw_buffer := []\<rparr> | _ \<Rightarrow> w1\<lparr>aw_state := Writing pos'\<rparr>)"
    using poll len d pos
    by (auto simp: aead_poll_write_def Let_def w1_def [symmetric] split: poll.splits outcome.splits)
  note drain = drain_buffer_moves [OF d le]
  have "aead_sent (w', s') = aead_sent (w1, s)" "aw_cipher w' = aw_cipher w1" "aead_writer_ok (w', s')"
    using drain p pos by (auto split: poll.splits outcome.splits)
  with w1 drain p show ?thesis by (auto split: aead_write_state.splits poll.splits outcome.splits)
qed

text \<open>Awaiting the writer: poll again while it is pending, which uses up an event of the sink.\<close>

function aead_write_await ::
    "('c, 'z) cipher_lib_scheme \<Rightarrow> (nat \<Rightarrow> u8) \<Rightarrow> bytes \<Rightarrow> 'c aead_writer \<times> sink
     \<Rightarrow> (nat, io_kind) outcome \<times> 'c aead_writer \<times> sink" where
  "aead_write_await lib mem buf ws =
     (case aead_poll_write lib mem buf ws of
        (Ready r, ws') \<Rightarrow> (r, ws')
      | (Pending, ws') \<Rightarrow> aead_write_await lib mem buf ws')"
  by pat_completeness auto

lemma aead_poll_write_pending:
  assumes "aead_poll_write lib mem buf (w, s) = (Pending, w', s')"
  shows "length (sink_script s') < length (sink_script s)"
proof -
  have d: "drain_buffer b pos s = (Pending, pos', s') \<Longrightarrow> length (sink_script s') < length (sink_script s)" for b pos pos'
  proof (induction b pos s rule: drain_buffer.induct)
    case (1 b pos s)
    note unfold = drain_buffer.simps [of b pos s]
    have "pos < length b" using 1(2) by (auto simp: unfold split: if_splits)
    obtain q s1 where q: "poll_write (drop pos b) s = (q, s1)" by force
    have len: "length (sink_script s1) \<le> length (sink_script s)"
      "q = Pending \<Longrightarrow> length (sink_script s1) < length (sink_script s)"
      using q by (auto simp: poll_write_def Let_def split: list.splits wr_event.splits)
    consider (more) n where "q = Ready (Ok n)" "n \<noteq> 0" | "q = Pending \<and> s' = s1"
      using 1(2) q by (auto simp: unfold split: if_splits poll.splits outcome.splits)
    then show ?case
    proof cases
      case (more n)
      then have "drain_buffer b (pos + n) s1 = (Pending, pos', s')"
        using 1(2) q \<open>pos < length b\<close> by (simp add: unfold)
      from 1(1) [OF \<open>pos < length b\<close> q [symmetric] more(1) refl more(2) this] len(1) show ?thesis by simp
    qed (use len in simp)
  qed
  show ?thesis using assms
    by (auto simp: aead_poll_write_def Let_def split: prod.splits poll.splits outcome.splits if_splits dest!: d)
qed

termination aead_write_await
proof (relation "measure (\<lambda>(lib, mem, buf, ws). length (sink_script (snd ws)))", simp)
  fix lib :: "('a, 'b) cipher_lib_scheme" and mem buf and ws and p :: "(nat, io_kind) poll" and ws'
  assume "(p, ws') = aead_poll_write lib mem buf ws" "p = Pending"
  then show "((lib, mem, buf, ws'), (lib, mem, buf, ws)) \<in>
      measure (\<lambda>(lib, mem, buf, ws). length (sink_script (snd ws)))"
    using aead_poll_write_pending [of lib mem buf "fst ws" "snd ws" "fst ws'" "snd ws'"] by simp
qed

declare aead_write_await.simps [simp del]

lemma aead_write_await_sent:
  assumes "aead_write_await lib mem buf (w, s) = (r, w', s')"
    and "aead_writer_ok (w, s)" "length buf \<le> MAX_PACKET_SIZE"
  shows "(\<forall>n. r = Ok n \<longrightarrow> n = length buf \<and> aead_writer_ok (w', s') \<and> aw_state w' = AssemblePacket \<and> aw_buffer w' = [] \<and>
     (case aw_state w of
       AssemblePacket \<Rightarrow> aw_cipher w' = snd (aead_chunks lib mem (aw_cipher w) [buf]) \<and>
         aead_sent (w', s') = aead_sent (w, s) @ fst (aead_chunks lib mem (aw_cipher w) [buf])
     | Writing _ \<Rightarrow> aw_cipher w' = aw_cipher w \<and> aead_sent (w', s') = aead_sent (w, s))) \<and> r \<noteq> Panic"
  using assms
proof (induction lib mem buf "(w, s)" arbitrary: w s rule: aead_write_await.induct)
  case (1 lib mem buf w s)
  note unfold = aead_write_await.simps [of lib mem buf "(w, s)"]
  obtain p w1 s1 where p: "aead_poll_write lib mem buf (w, s) = (p, w1, s1)" by (metis prod.collapse)
  note sent = aead_poll_write_sent [OF p 1(3,4)]
  show ?case
  proof (cases p)
    case (Ready q)
    then have "r = q" "w' = w1" "s' = s1" using 1(2) p by (simp_all add: unfold)
    with sent Ready show ?thesis by (auto split: outcome.splits)
  next
    case Pending
    then have a: "aead_write_await lib mem buf (w1, s1) = (r, w', s')" using 1(2) p by (simp add: unfold)
    from sent Pending obtain pos where w1: "aw_state w1 = Writing pos" "aead_writer_ok (w1, s1)"
      by (cases "aw_state w1") auto
    from 1(1) [OF p [symmetric] Pending a w1(2) 1(4)] sent Pending w1 show ?thesis
      by (auto split: aead_write_state.splits)
  qed
qed

text \<open>Writing several buffers one after the other, each of at most one packet.\<close>

fun aead_write_seq ::
    "('c, 'z) cipher_lib_scheme \<Rightarrow> (nat \<Rightarrow> u8) \<Rightarrow> bytes list \<Rightarrow> 'c aead_writer \<times> sink
     \<Rightarrow> (unit, io_kind) outcome \<times> 'c aead_writer \<times> sink" where
  "aead_write_seq lib mem [] ws = (Ok (), ws)"
| "aead_write_seq lib mem (b # bs) ws =
     (case aead_write_await lib mem b ws of
        (Ok n, ws') \<Rightarrow> aead_write_seq lib mem bs ws'
      | (Err e, ws') \<Rightarrow> (Err e, ws')
      | (Panic, ws') \<Rightarrow> (Panic, ws'))"

lemma aead_write_seq_sent:
  assumes "aead_write_seq lib mem bufs (w, s) = (Ok (), w', s')"
    and "aw_state w = AssemblePacket" "\<forall>b \<in> set bufs. length b \<le> MAX_PACKET_SIZE"
  shows "aw_state w' = AssemblePacket \<and> (bufs \<noteq> [] \<longrightarrow> aw_buffer w' = []) \<and>
     aead_sent (w', s') = aead_sent (w, s) @ fst (aead_chunks lib mem (aw_cipher w) bufs)"
  using assms
proof (induction bufs arbitrary: w s)
  case Nil
  then show ?case by auto
next
  case (Cons b bs)
  obtain r w1 s1 where r: "aead_write_await lib mem b (w, s) = (r, w1, s1)" by (metis prod.collapse)
  from Cons.prems(1) r obtain n where n: "r = Ok n" and rest: "aead_write_seq lib mem bs (w1, s1) = (Ok (), w', s')"
    by (auto split: outcome.splits)
  have ok: "aead_writer_ok (w, s)" "length b \<le> MAX_PACKET_SIZE" using Cons.prems(2,3) by auto
  from aead_write_await_sent [OF r ok] n Cons.prems(2)
  have w1: "aw_state w1 = AssemblePacket" "aw_buffer w1 = []"
    "aw_cipher w1 = snd (aead_chunks lib mem (aw_cipher w) [b])"
    "aead_sent (w1, s1) = aead_sent (w, s) @ fst (aead_chunks lib mem (aw_cipher w) [b])" by auto
  from Cons.IH [OF rest w1(1)] Cons.prems(3) have IH: "aw_state w' = AssemblePacket" "bs \<noteq> [] \<longrightarrow> aw_buffer w' = []"
    "aead_sent (w', s') = aead_sent (w1, s1) @ fst (aead_chunks lib mem (aw_cipher w1) bs)" by auto
  have "bs = [] \<Longrightarrow> w' = w1" using rest by simp
  with IH w1 show ?case by (auto split: prod.splits)
qed

section \<open>The reader on what a writer sent\<close>

text \<open>A read of exactly \<open>sz\<close> bytes from a clean source that still has them, or that is at its end.\<close>

lemma aead_read_exact_clean:
  assumes e: "aead_read_exact sz w = (p, w')" and clean: "clean_script (rd_source w)"
    and len: "length (ar_buffer (rd_reader w)) \<le> sz" "0 < sz" "length pkt = sz"
    and bytes: "ar_buffer (rd_reader w) @ script_bytes (rd_source w) = pkt @ rst"
  shows "\<exists>buf es. w' = w\<lparr>rd_reader := (rd_reader w)\<lparr>ar_buffer := buf\<rparr>, rd_source := es\<rparr> \<and> clean_script es \<and>
     (p = Pending \<and> script_pendings es < script_pendings (rd_source w) \<and> length buf \<le> sz \<and>
        buf @ script_bytes es = pkt @ rst \<or>
      p = Ready (Ok sz) \<and> script_pendings es = script_pendings (rd_source w) \<and> buf = pkt \<and> script_bytes es = rst)"
proof -
  obtain q buf es where q: "poll_read_exact sz (ar_buffer (rd_reader w)) (rd_source w) = (q, buf, es)"
    by (metis prod.collapse)
  from poll_read_exact_clean [OF q clean len bytes] show ?thesis
    by (intro exI [of _ buf] exI [of _ es]) (use e q in \<open>auto simp: aead_read_exact_def\<close>)
qed

lemma aead_read_exact_eof:
  assumes e: "aead_read_exact sz w = (p, w')" and clean: "clean_script (rd_source w)" and sz: "0 < sz"
    and bytes: "ar_buffer (rd_reader w) = []" "script_bytes (rd_source w) = []"
  shows "\<exists>es. w' = w\<lparr>rd_reader := (rd_reader w)\<lparr>ar_buffer := []\<rparr>, rd_source := es\<rparr> \<and> clean_script es \<and> script_bytes es = [] \<and>
     (p = Pending \<and> script_pendings es < script_pendings (rd_source w) \<or>
      p = Ready (Ok 0) \<and> script_pendings es = script_pendings (rd_source w))"
proof -
  obtain q buf es where q: "fill_buffer sz (ar_buffer (rd_reader w)) (rd_source w) = (q, buf, es)"
    by (metis prod.collapse)
  from fill_buffer_moves [OF q] bytes have b: "buf = []" "script_bytes es = []" by auto
  from fill_buffer_clean [OF q clean] b(1) sz show ?thesis using e q b
    by (auto simp: aead_read_exact_def poll_read_exact_def)
qed

text \<open>What one sealed packet looks like to a cipher in step.\<close>

lemma aead_seal_open:
  assumes "cipher_laws lib method R" "R c d" "aead_seal lib mem c pt = (out, c')"
  obtains tag d' where "length out = length pt + kind_tag_len method"
    and "cipher_decrypt lib d out = (True, pt @ tag, d')" "length tag = kind_tag_len method" "R c' d'"
proof -
  have "length (map mem [0..<cipher_tag_len lib c]) = kind_tag_len method"
    using cipher_laws_tag(1) [OF assms(1,2)] by simp
  from cipher_laws_packet [OF assms(1,2) this assms(3) [unfolded aead_seal_def]] that show ?thesis by blast
qed

text \<open>The state of a reader from which the plaintext \<open>rest\<close> is still to come.\<close>

definition aead_reading ::
    "('c, 'z) cipher_lib_scheme \<Rightarrow> ('b, 's, 'y) replay_lib_scheme \<Rightarrow> (nat \<Rightarrow> u8) \<Rightarrow> cipher_kind
     \<Rightarrow> ('c \<Rightarrow> 'c \<Rightarrow> bool) \<Rightarrow> ('c, 'b, 's) aead_rd \<Rightarrow> bytes \<Rightarrow> bool" where
  "aead_reading lib rlib mem method R w rest \<longleftrightarrow>
     (let r = rd_reader w; rst = script_bytes (rd_source w); tag = kind_tag_len method in
      clean_script (rd_source w) \<and> ar_method r = method \<and>
      \<not> kind_is_aead_2022 method \<and> replay_policy (rd_ctx w) \<noteq> PolicyReject \<and> 0 < tag \<and>
      (\<exists>ps. (\<forall>p \<in> set ps. length p \<le> MAX_PACKET_SIZE) \<and>
       (case ar_state r of
          WaitSalt key \<Rightarrow> \<exists>salt. 0 < kind_salt_len method \<and> length salt = kind_salt_len method \<and>
            length (ar_buffer r) \<le> kind_salt_len method \<and>
            ar_buffer r @ rst = salt @ fst (aead_chunks lib mem (cipher_new lib method key salt) ps) \<and>
            rest = concat ps
        | ReadLength \<Rightarrow> \<exists>c d. R c d \<and> ar_cipher r = Some d \<and> length (ar_buffer r) \<le> 2 + tag \<and>
            ar_buffer r @ rst = fst (aead_chunks lib mem c ps) \<and> rest = concat ps
        | ReadData n \<Rightarrow> \<exists>c d p out c'. R c d \<and> ar_cipher r = Some d \<and> length p = n \<and>
            length (ar_buffer r) \<le> n + tag \<and> aead_seal lib mem c p = (out, c') \<and>
            ar_buffer r @ rst = out @ fst (aead_chunks lib mem c' ps) \<and> rest = p @ concat ps
        | BufferedData pos \<Rightarrow> \<exists>c d. R c d \<and> ar_cipher r = Some d \<and> pos \<le> length (ar_buffer r) \<and>
            rst = fst (aead_chunks lib mem c ps) \<and> rest = drop pos (ar_buffer r) @ concat ps)))"

definition aead_base ::
    "('c, 'z) cipher_lib_scheme \<Rightarrow> ('b, 's, 'y) replay_lib_scheme \<Rightarrow> cipher_kind \<Rightarrow> ('c, 'b, 's) aead_rd \<Rightarrow> bytes list \<Rightarrow> bool" where
  "aead_base lib rlib method w ps \<longleftrightarrow> clean_script (rd_source w) \<and> ar_method (rd_reader w) = method \<and>
      \<not> kind_is_aead_2022 method \<and> replay_policy (rd_ctx w) \<noteq> PolicyReject \<and> 0 < kind_tag_len method \<and>
      (\<forall>p \<in> set ps. length p \<le> MAX_PACKET_SIZE)"

lemma aead_reading_ReadLengthI:
  assumes "aead_base lib rlib method w ps" "ar_state (rd_reader w) = ReadLength" "R c d"
    and "ar_cipher (rd_reader w) = Some d" "length (ar_buffer (rd_reader w)) \<le> 2 + kind_tag_len method"
    and "ar_buffer (rd_reader w) @ script_bytes (rd_source w) = fst (aead_chunks lib mem c ps)"
    and "rest = concat ps"
  shows "aead_reading lib rlib mem method R w rest"
  unfolding aead_reading_def Let_def
  by (intro conjI exI [of _ ps]) (use assms in \<open>auto simp: aead_base_def\<close>)

lemma aead_reading_ReadDataI:
  assumes "aead_base lib rlib method w (p # ps)" "ar_state (rd_reader w) = ReadData (length p)" "R c d"
    and "ar_cipher (rd_reader w) = Some d" "length (ar_buffer (rd_reader w)) \<le> length p + kind_tag_len method"
    and "aead_seal lib mem c p = (out, c')"
    and "ar_buffer (rd_reader w) @ script_bytes (rd_source w) = out @ fst (aead_chunks lib mem c' ps)"
    and "rest = p @ concat ps"
  shows "aead_reading lib rlib mem method R w rest"
  unfolding aead_reading_def Let_def
  by (intro conjI exI [of _ ps]) (use assms in \<open>auto simp: aead_base_def\<close>)

lemma aead_reading_BufferedI:
  assumes "aead_base lib rlib method w ps" "ar_state (rd_reader w) = BufferedData pos" "R c d"
    and "ar_cipher (rd_reader w) = Some d" "pos \<le> length (ar_buffer (rd_reader w))"
    and "script_bytes (rd_source w) = fst (aead_chunks lib mem c ps)"
    and "rest = drop pos (ar_buffer (rd_reader w)) @ concat ps"
  shows "aead_reading lib rlib mem method R w rest"
  unfolding aead_reading_def Let_def
  by (intro conjI exI [of _ ps]) (use assms in \<open>auto simp: aead_base_def\<close>)

lemma check_nonce_replay_lenient:
  assumes "\<not> kind_is_aead_2022 method" "replay_policy ctx \<noteq> PolicyReject"
  shows "\<exists>ctx'. check_nonce_replay rlib ctx now method salt = (Ok (), ctx') \<and> replay_policy ctx' = replay_policy ctx"
  using assms by (cases "replay_policy ctx") (auto simp: check_nonce_replay_def split: prod.splits)

lemma step_done_cases:
  assumes "step_done m f = (o', w')"
  obtains (go) x w where "m = (Ready (Ok x), w)" "f x w = (o', w')"
  | (pend) "m = (Pending, w')" "o' = Some Pending"
  | (err) e where "m = (Ready (Err e), w')" "o' = Some (Ready (Err e))"
  | (panic) "m = (Ready Panic, w')" "o' = Some (Ready Panic)"
  using assms by (cases "(m, f)" rule: step_done.cases) auto

text \<open>What a turn of the loop may do while \<open>rest\<close> is to come.\<close>

definition aead_progress ::
    "(('c, 'b, 's) aead_rd \<Rightarrow> bytes \<Rightarrow> bool) \<Rightarrow> bytes \<Rightarrow> ('c, 'b, 's) aead_rd
     \<Rightarrow> (bytes, aead_error) poll option \<times> ('c, 'b, 's) aead_rd \<Rightarrow> bool" where
  "aead_progress I rest w res \<longleftrightarrow>
     (let pend = script_pendings (rd_source w); pend' = script_pendings (rd_source (snd res)) in
      case fst res of
        None \<Rightarrow> I (snd res) rest \<and> pend' = pend
      | Some Pending \<Rightarrow> I (snd res) rest \<and> pend' < pend
      | Some (Ready (Ok d)) \<Rightarrow> (\<exists>rest'. rest = d @ rest' \<and> I (snd res) rest') \<and> pend' = pend \<and> (d = [] \<longrightarrow> rest = [])
      | Some (Ready _) \<Rightarrow> False)"

lemma aead_step_wait_salt:
  assumes laws: "cipher_laws lib method R" and inv: "aead_reading lib rlib mem method R w rest"
    and st: "ar_state (rd_reader w) = WaitSalt key"
  shows "aead_progress (aead_reading lib rlib mem method R) rest w (aead_decrypt_step lib rlib now remaining w)"
proof -
  let ?r = "rd_reader w" and ?n = "kind_salt_len method"
  from inv st obtain ps salt where base: "clean_script (rd_source w)" "ar_method ?r = method"
      "\<not> kind_is_aead_2022 method" "replay_policy (rd_ctx w) \<noteq> PolicyReject" "0 < kind_tag_len method"
    and ps: "\<forall>p \<in> set ps. length p \<le> MAX_PACKET_SIZE" "rest = concat ps"
    and salt: "0 < ?n" "length salt = ?n" "length (ar_buffer ?r) \<le> ?n"
      "ar_buffer ?r @ script_bytes (rd_source w) = salt @ fst (aead_chunks lib mem (cipher_new lib method key salt) ps)"
    by (auto simp: aead_reading_def Let_def)
  obtain p w1 where e: "aead_read_exact ?n w = (p, w1)" by force
  from aead_read_exact_clean [OF e base(1) salt(3,1,2,4)] obtain buf es where
    w1: "w1 = w\<lparr>rd_reader := ?r\<lparr>ar_buffer := buf\<rparr>, rd_source := es\<rparr>" "clean_script es" and
    c: "p = Pending \<and> script_pendings es < script_pendings (rd_source w) \<and> length buf \<le> ?n \<and>
        buf @ script_bytes es = salt @ fst (aead_chunks lib mem (cipher_new lib method key salt) ps) \<or>
      p = Ready (Ok ?n) \<and> script_pendings es = script_pendings (rd_source w) \<and> buf = salt \<and>
        script_bytes es = fst (aead_chunks lib mem (cipher_new lib method key salt) ps)" by blast
  from c show ?thesis
  proof (elim disjE conjE)
    assume "p = Pending" "script_pendings es < script_pendings (rd_source w)" "length buf \<le> ?n"
      "buf @ script_bytes es = salt @ fst (aead_chunks lib mem (cipher_new lib method key salt) ps)"
    with base ps salt w1 e st show ?thesis
      by (auto simp: aead_decrypt_step_def aead_read_salt_def Let_def aead_progress_def aead_reading_def)
  next
    assume *: "p = Ready (Ok ?n)" "script_pendings es = script_pendings (rd_source w)" "buf = salt"
        "script_bytes es = fst (aead_chunks lib mem (cipher_new lib method key salt) ps)"
    let ?w = "w1\<lparr>rd_reader := (rd_reader w1)\<lparr>ar_salt := Some salt, ar_cipher := Some (cipher_new lib method key salt)\<rparr>\<rparr>"
    let ?w' = "?w\<lparr>rd_reader := (rd_reader ?w)\<lparr>ar_buffer := [], ar_state := ReadLength, ar_handshaked := True\<rparr>\<rparr>"
    have "aead_decrypt_step lib rlib now remaining w = (None, ?w')"
      using * e st base salt w1 by (simp add: aead_decrypt_step_def aead_read_salt_def Let_def)
    moreover have "aead_reading lib rlib mem method R ?w' rest"
      by (rule aead_reading_ReadLengthI [where ps = ps and R = R, OF _ _ cipher_laws_new [OF laws]])
         (use * base ps w1 in \<open>simp_all add: aead_base_def\<close>)
    ultimately show ?thesis using * w1 by (simp add: aead_progress_def Let_def)
  qed
qed

lemma from_be_length:
  assumes "length p \<le> MAX_PACKET_SIZE"
  shows "unat (from_be [(to_be 2 (of_nat (length p) :: u16) @ tag) ! 0, (to_be 2 (of_nat (length p) :: u16) @ tag) ! 1] :: u16)
    = length p"
proof -
  have "length p < 2 ^ 16" using assms by (simp add: MAX_PACKET_SIZE_def)
  then have n: "unat (of_nat (length p) :: u16) = length p" by (simp add: unat_of_nat take_bit_nat_eq_self)
  have "length (to_be 2 (of_nat (length p) :: u16)) = 2" by simp
  then have "(to_be 2 (of_nat (length p) :: u16) @ tag) ! 0 = to_be 2 (of_nat (length p) :: u16) ! 0"
    "(to_be 2 (of_nat (length p) :: u16) @ tag) ! 1 = to_be 2 (of_nat (length p) :: u16) ! 1"
    by (simp_all only: nth_append) simp_all
  then show ?thesis using from_be_to_be_2 [of "of_nat (length p)"] n by simp
qed

lemma aead_step_read_length:
  assumes laws: "cipher_laws lib method R" and inv: "aead_reading lib rlib mem method R w rest"
    and st: "ar_state (rd_reader w) = ReadLength"
  shows "aead_progress (aead_reading lib rlib mem method R) rest w (aead_decrypt_step lib rlib now remaining w)"
proof -
  let ?r = "rd_reader w" and ?n = "2 + kind_tag_len method"
  from inv st obtain ps c d where base: "aead_base lib rlib method w ps" and R: "R c d" "ar_cipher ?r = Some d"
    and len: "length (ar_buffer ?r) \<le> ?n"
    and bytes: "ar_buffer ?r @ script_bytes (rd_source w) = fst (aead_chunks lib mem c ps)" and rest: "rest = concat ps"
    by (auto simp: aead_reading_def aead_base_def Let_def)
  have clean: "clean_script (rd_source w)" and m: "ar_method ?r = method" using base by (simp_all add: aead_base_def)
  obtain p w1 where e: "aead_read_exact ?n w = (p, w1)" by force
  show ?thesis
  proof (cases ps)
    case Nil
    then have empty: "ar_buffer ?r = []" "script_bytes (rd_source w) = []" using bytes by simp_all
    from aead_read_exact_eof [OF e clean _ empty] obtain es where
      w1: "w1 = w\<lparr>rd_reader := ?r\<lparr>ar_buffer := []\<rparr>, rd_source := es\<rparr>" "clean_script es" "script_bytes es = []" and
      c: "p = Pending \<and> script_pendings es < script_pendings (rd_source w) \<or>
        p = Ready (Ok 0) \<and> script_pendings es = script_pendings (rd_source w)" by auto
    have I: "aead_reading lib rlib mem method R w1 rest"
      by (rule aead_reading_ReadLengthI [where ps = ps and R = R, OF _ _ R(1)])
         (use base R w1 st rest Nil in \<open>simp_all add: aead_base_def\<close>)
    from c show ?thesis
      using I e st m rest Nil w1
      by (auto simp: aead_decrypt_step_def aead_read_length_def Let_def aead_progress_def)
  next
    case (Cons q qs)
    obtain a c1 where a: "aead_seal lib mem c (to_be 2 (of_nat (length q) :: u16)) = (a, c1)" by force
    obtain b c2 where b: "aead_seal lib mem c1 q = (b, c2)" by force
    let ?more = "b @ fst (aead_chunks lib mem c2 qs)"
    from aead_seal_open [OF laws R(1) a] obtain tag d1 where o: "length a = ?n"
      "cipher_decrypt lib d a = (True, to_be 2 (of_nat (length q) :: u16) @ tag, d1)"
      "length tag = kind_tag_len method" "R c1 d1" by auto
    have eq: "ar_buffer ?r @ script_bytes (rd_source w) = a @ ?more"
      using bytes by (simp add: Cons a b split: prod.splits)
    have q: "length q \<le> MAX_PACKET_SIZE" using base Cons by (simp add: aead_base_def)
    from aead_read_exact_clean [OF e clean len _ o(1) eq] obtain buf es where
      w1: "w1 = w\<lparr>rd_reader := ?r\<lparr>ar_buffer := buf\<rparr>, rd_source := es\<rparr>" "clean_script es" and
      c: "p = Pending \<and> script_pendings es < script_pendings (rd_source w) \<and> length buf \<le> ?n \<and>
          buf @ script_bytes es = a @ ?more \<or>
        p = Ready (Ok ?n) \<and> script_pendings es = script_pendings (rd_source w) \<and> buf = a \<and> script_bytes es = ?more"
      by auto
    from c show ?thesis
    proof (elim disjE conjE)
      assume *: "p = Pending" "script_pendings es < script_pendings (rd_source w)" "length buf \<le> ?n"
        "buf @ script_bytes es = a @ ?more"
      have "aead_reading lib rlib mem method R w1 rest"
        by (rule aead_reading_ReadLengthI [where ps = ps and R = R, OF _ _ R(1)])
           (use base R w1 st rest Cons a b * in \<open>simp_all add: aead_base_def case_prod_beta\<close>)
      with * e st m w1 show ?thesis
        by (simp add: aead_decrypt_step_def aead_read_length_def Let_def aead_progress_def)
    next
      assume *: "p = Ready (Ok ?n)" "script_pendings es = script_pendings (rd_source w)" "buf = a"
        "script_bytes es = ?more"
      let ?w' = "w1\<lparr>rd_reader := ?r\<lparr>ar_cipher := Some d1, ar_buffer := [], ar_state := ReadData (length q)\<rparr>\<rparr>"
      have "aead_decrypt_length lib d a = (Ok (length q), to_be 2 (of_nat (length q) :: u16) @ tag, d1)"
        using o(2) q from_be_length [OF q, of tag] by (simp add: aead_decrypt_length_def Let_def del: One_nat_def)
      then have "aead_decrypt_step lib rlib now remaining w = (None, ?w')"
        using * e st m w1 R o(1) by (simp add: aead_decrypt_step_def aead_read_length_def Let_def)
      moreover have "aead_reading lib rlib mem method R ?w' rest"
        by (rule aead_reading_ReadDataI [where ps = qs and p = q and R = R, OF _ _ o(4) _ _ b])
           (use base w1 rest Cons * in \<open>simp_all add: aead_base_def\<close>)
      ultimately show ?thesis using * w1 by (simp add: aead_progress_def Let_def)
    qed
  qed
qed

lemma aead_step_read_data:
  assumes laws: "cipher_laws lib method R" and inv: "aead_reading lib rlib mem method R w rest"
    and st: "ar_state (rd_reader w) = ReadData n"
  shows "aead_progress (aead_reading lib rlib mem method R) rest w (aead_decrypt_step lib rlib now remaining w)"
proof -
  let ?r = "rd_reader w" and ?n = "n + kind_tag_len method"
  from inv st obtain ps c d q out c' where base: "aead_base lib rlib method w ps" and R: "R c d" "ar_cipher ?r = Some d"
    and q: "length q = n" and len: "length (ar_buffer ?r) \<le> ?n"
    and b: "aead_seal lib mem c q = (out, c')"
    and bytes: "ar_buffer ?r @ script_bytes (rd_source w) = out @ fst (aead_chunks lib mem c' ps)"
    and rest: "rest = q @ concat ps"
    by (auto simp: aead_reading_def aead_base_def Let_def)
  have clean: "clean_script (rd_source w)" and m: "ar_method ?r = method" and tag0: "0 < kind_tag_len method"
    and pol: "\<not> kind_is_aead_2022 method" "replay_policy (rd_ctx w) \<noteq> PolicyReject"
    using base by (simp_all add: aead_base_def)
  from aead_seal_open [OF laws R(1) b] obtain tag d1 where o: "length out = ?n"
    "cipher_decrypt lib d out = (True, q @ tag, d1)" "length tag = kind_tag_len method" "R c' d1"
    using q by auto
  obtain p w1 where e: "aead_read_exact ?n w = (p, w1)" by force
  from aead_read_exact_clean [OF e clean len _ o(1) bytes] tag0 obtain buf es where
    w1: "w1 = w\<lparr>rd_reader := ?r\<lparr>ar_buffer := buf\<rparr>, rd_source := es\<rparr>" "clean_script es" and
    c: "p = Pending \<and> script_pendings es < script_pendings (rd_source w) \<and> length buf \<le> ?n \<and>
        buf @ script_bytes es = out @ fst (aead_chunks lib mem c' ps) \<or>
      p = Ready (Ok ?n) \<and> script_pendings es = script_pendings (rd_source w) \<and> buf = out \<and>
        script_bytes es = fst (aead_chunks lib mem c' ps)"
    by auto
  from c show ?thesis
  proof (elim disjE conjE)
    assume *: "p = Pending" "script_pendings es < script_pendings (rd_source w)" "length buf \<le> ?n"
      "buf @ script_bytes es = out @ fst (aead_chunks lib mem c' ps)"
    have "aead_reading lib rlib mem method R w1 rest"
      unfolding aead_reading_def Let_def
      by (intro conjI exI [of _ ps]) (use base R w1 st rest b q * in \<open>auto simp: aead_base_def\<close>)
    with * e st m w1 show ?thesis
      by (simp add: aead_decrypt_step_def aead_read_data_def Let_def aead_progress_def)
  next
    assume *: "p = Ready (Ok ?n)" "script_pendings es = script_pendings (rd_source w)" "buf = out"
      "script_bytes es = fst (aead_chunks lib mem c' ps)"
    obtain ctx' where ctx: "(case ar_salt ?r of
          Some salt \<Rightarrow> check_nonce_replay rlib (rd_ctx w) now method salt | None \<Rightarrow> (Ok (), rd_ctx w)) = (Ok (), ctx')"
      and pol': "replay_policy ctx' \<noteq> PolicyReject"
      using check_nonce_replay_lenient [OF pol, of rlib now] pol(2) by (cases "ar_salt ?r") fastforce+
    let ?w' = "w1\<lparr>rd_reader := ?r\<lparr>ar_cipher := Some d1, ar_buffer := q, ar_salt := None,
        ar_state := BufferedData 0\<rparr>, rd_ctx := ctx'\<rparr>"
    have "aead_decrypt_step lib rlib now remaining w = (None, ?w')"
      using * e st m w1 R o tag0 ctx q
      by (cases "ar_salt ?r") (simp_all add: aead_decrypt_step_def aead_read_data_def Let_def)
    moreover have "aead_reading lib rlib mem method R ?w' rest"
      by (rule aead_reading_BufferedI [where ps = ps and R = R and pos = 0, OF _ _ o(4)])
         (use base w1 rest * pol' in \<open>simp_all add: aead_base_def\<close>)
    ultimately show ?thesis using * w1 by (simp add: aead_progress_def Let_def)
  qed
qed

lemma aead_step_buffered:
  assumes inv: "aead_reading lib rlib mem method R w rest" and cap: "0 < remaining"
    and st: "ar_state (rd_reader w) = BufferedData pos"
  shows "aead_progress (aead_reading lib rlib mem method R) rest w (aead_decrypt_step lib rlib now remaining w)"
proof -
  let ?r = "rd_reader w"
  from inv st obtain ps c d where base: "aead_base lib rlib method w ps" and R: "R c d" "ar_cipher ?r = Some d"
    and pos: "pos \<le> length (ar_buffer ?r)"
    and bytes: "script_bytes (rd_source w) = fst (aead_chunks lib mem c ps)"
    and rest: "rest = drop pos (ar_buffer ?r) @ concat ps"
    by (auto simp: aead_reading_def aead_base_def Let_def)
  show ?thesis
  proof (cases "pos < length (ar_buffer ?r)")
    case True
    define k where "k = min (length (drop pos (ar_buffer ?r))) remaining"
    let ?w' = "w\<lparr>rd_reader := ?r\<lparr>ar_state := BufferedData (pos + k)\<rparr>\<rparr>"
    have k: "0 < k" "pos + k \<le> length (ar_buffer ?r)" using True cap by (auto simp: k_def)
    have "aead_decrypt_step lib rlib now remaining w = (Some (Ready (Ok (take k (drop pos (ar_buffer ?r))))), ?w')"
      using True st by (simp add: aead_decrypt_step_def Let_def k_def)
    moreover have "aead_reading lib rlib mem method R ?w' (drop (pos + k) (ar_buffer ?r) @ concat ps)"
      by (rule aead_reading_BufferedI [where ps = ps and R = R, OF _ _ R(1)])
         (use base R k bytes in \<open>simp_all add: aead_base_def\<close>)
    moreover have "rest = take k (drop pos (ar_buffer ?r)) @ drop (pos + k) (ar_buffer ?r) @ concat ps"
      unfolding rest by (metis add.commute append_assoc append_take_drop_id drop_drop)
    ultimately show ?thesis using k True by (auto simp: aead_progress_def)
  next
    case False
    let ?w' = "w\<lparr>rd_reader := ?r\<lparr>ar_buffer := [], ar_state := ReadLength\<rparr>\<rparr>"
    have "aead_decrypt_step lib rlib now remaining w = (None, ?w')"
      using False st by (simp add: aead_decrypt_step_def Let_def)
    moreover have "aead_reading lib rlib mem method R ?w' rest"
      by (rule aead_reading_ReadLengthI [where ps = ps and R = R, OF _ _ R(1)])
         (use base R False pos bytes rest in \<open>simp_all add: aead_base_def\<close>)
    ultimately show ?thesis by (simp add: aead_progress_def)
  qed
qed

lemma aead_decrypt_step_progress:
  assumes "cipher_laws lib method R" "aead_reading lib rlib mem method R w rest" "0 < remaining"
  shows "aead_progress (aead_reading lib rlib mem method R) rest w (aead_decrypt_step lib rlib now remaining w)"
  using assms aead_step_wait_salt aead_step_read_length aead_step_read_data aead_step_buffered
  by (cases "ar_state (rd_reader w)") blast+

lemma aead_poll_read_progress:
  assumes laws: "cipher_laws lib method R" and cap: "0 < remaining"
  shows "aead_reading lib rlib mem method R w rest \<Longrightarrow>
    aead_poll_read lib rlib now remaining w = (p, w') \<Longrightarrow>
    aead_progress (aead_reading lib rlib mem method R) rest w (Some p, w')"
proof (induction "aead_rd_size w" arbitrary: w rule: less_induct)
  case less
  obtain r w1 where step: "aead_decrypt_step lib rlib now remaining w = (r, w1)" by force
  have prog: "aead_progress (aead_reading lib rlib mem method R) rest w (r, w1)"
    using aead_decrypt_step_progress [OF laws less.prems(1) cap, of now] by (simp add: step)
  note unfold = aead_poll_read.simps [of lib rlib now remaining w]
  show ?case
  proof (cases r)
    case None
    then have "aead_poll_read lib rlib now remaining w1 = (p, w')" using less.prems(2) step by (simp add: unfold)
    moreover have "aead_reading lib rlib mem method R w1 rest" "script_pendings (rd_source w1) = script_pendings (rd_source w)"
      using prog None by (simp_all add: aead_progress_def)
    moreover have "aead_rd_size w1 < aead_rd_size w" using step None aead_decrypt_step_decreases by blast
    ultimately have "aead_progress (aead_reading lib rlib mem method R) rest w1 (Some p, w')"
      using less.hyps by blast
    then show ?thesis using \<open>script_pendings (rd_source w1) = _\<close> by (simp add: aead_progress_def)
  next
    case (Some q)
    then have "q = p" "w1 = w'" using less.prems(2) step by (simp_all add: unfold)
    with prog Some show ?thesis by simp
  qed
qed

text \<open>Polling the reader once for each capacity, and collecting what it delivers.\<close>

fun aead_read_run ::
    "('c, 'z) cipher_lib_scheme \<Rightarrow> ('b, 's, 'y) replay_lib_scheme \<Rightarrow> nat \<Rightarrow> nat list \<Rightarrow> ('c, 'b, 's) aead_rd
     \<Rightarrow> bytes \<times> (unit, aead_error) outcome" where
  "aead_read_run lib rlib now [] w = ([], Ok ())"
| "aead_read_run lib rlib now (k # ks) w =
     (case aead_poll_read lib rlib now k w of
        (Pending, w) \<Rightarrow> aead_read_run lib rlib now ks w
      | (Ready (Ok d), w) \<Rightarrow> (let (ds, r) = aead_read_run lib rlib now ks w in (d @ ds, r))
      | (Ready (Err e), w) \<Rightarrow> ([], Err e)
      | (Ready Panic, w) \<Rightarrow> ([], Panic))"

lemma aead_read_run_progress:
  assumes laws: "cipher_laws lib method R"
  shows "aead_reading lib rlib mem method R w rest \<Longrightarrow> \<forall>k \<in> set ks. 0 < k \<Longrightarrow>
    \<exists>out rest'. aead_read_run lib rlib now ks w = (out, Ok ()) \<and> rest = out @ rest' \<and>
      (script_pendings (rd_source w) + length rest \<le> length ks \<longrightarrow> rest' = [])"
proof (induction ks arbitrary: w rest)
  case Nil
  then show ?case by simp
next
  case (Cons k ks)
  obtain p w1 where p: "aead_poll_read lib rlib now k w = (p, w1)" by force
  have "0 < k" using Cons.prems(2) by simp
  note prog = aead_poll_read_progress [OF laws this Cons.prems(1) p]
  show ?case
  proof (cases p)
    case Pending
    then have "aead_reading lib rlib mem method R w1 rest" "script_pendings (rd_source w1) < script_pendings (rd_source w)"
      using prog by (simp_all add: aead_progress_def)
    with Cons.IH [of w1 rest] Cons.prems(2) show ?thesis by (auto simp: p Pending)
  next
    case (Ready r)
    then obtain d rest1 where r: "r = Ok d" and d: "rest = d @ rest1" "aead_reading lib rlib mem method R w1 rest1"
      "script_pendings (rd_source w1) = script_pendings (rd_source w)" "d = [] \<longrightarrow> rest = []"
      using prog by (cases r) (auto simp: aead_progress_def)
    have ks: "\<forall>k \<in> set ks. 0 < k" using Cons.prems(2) by simp
    from Cons.IH [OF d(2) ks] obtain out rest' where out: "aead_read_run lib rlib now ks w1 = (out, Ok ())"
      "rest1 = out @ rest'" "script_pendings (rd_source w1) + length rest1 \<le> length ks \<longrightarrow> rest' = []" by blast
    have "script_pendings (rd_source w) + length rest \<le> length (k # ks) \<Longrightarrow> rest' = []"
    proof (cases "d = []")
      case True
      then show ?thesis using d out by simp
    next
      case False
      assume "script_pendings (rd_source w) + length rest \<le> length (k # ks)"
      moreover obtain x xs where "d = x # xs" using False by (cases d) auto
      ultimately show "rest' = []" using d out by auto
    qed
    then show ?thesis using d out by (auto simp: p Ready r)
  qed
qed

lemma aead_reading_new:
  assumes "cipher_laws lib method R" "\<not> kind_is_aead_2022 method" "0 < kind_tag_len method"
    and "0 < kind_salt_len method" "length salt = kind_salt_len method" "replay_policy ctx \<noteq> PolicyReject"
    and "clean_script es" "script_bytes es = salt @ fst (aead_chunks lib mem (cipher_new lib method key salt) ps)"
    and "\<forall>p \<in> set ps. length p \<le> MAX_PACKET_SIZE"
  shows "aead_reading lib rlib mem method R
    \<lparr>rd_reader = aead_reader_new lib method key, rd_source = es, rd_ctx = ctx\<rparr> (concat ps)"
  unfolding aead_reading_def Let_def
  by (intro conjI exI [of _ ps]) (use assms in \<open>auto simp: aead_reader_new_def\<close>)

lemma aead_write_seq_new:
  assumes "aead_write_seq lib mem bufs (aead_writer_new lib method key salt, s) = (Ok (), w', s')"
    and "bufs \<noteq> []" "\<forall>b \<in> set bufs. length b \<le> MAX_PACKET_SIZE"
  shows "sink_bytes s' = sink_bytes s @ salt @ fst (aead_chunks lib mem (cipher_new lib method key salt) bufs)"
proof -
  have "aw_state (aead_writer_new lib method key salt) = AssemblePacket" by (simp add: aead_writer_new_def)
  from aead_write_seq_sent [OF assms(1) this assms(3)] assms(2) show ?thesis
    by (auto simp: aead_writer_new_def)
qed

section \<open>Properties\<close>

text \<open>What the writer sends, however the sink accepts it, is the salt followed by one encrypted
  length and one encrypted payload for each buffer, in order, with nothing left behind; and every
  buffer is reported as written in full.\<close>

theorem aead_writer_wire:
  assumes "aead_write_seq lib mem bufs (aead_writer_new lib method key salt, s) = (Ok (), w', s')"
    and "bufs \<noteq> []" "\<forall>b \<in> set bufs. length b \<le> MAX_PACKET_SIZE"
  shows "sink_bytes s' = sink_bytes s @ salt @ fst (aead_chunks lib mem (cipher_new lib method key salt) bufs)"
  using assms by (rule aead_write_seq_new)

theorem aead_writer_wire_witness:
  "let r = aead_write_seq counter_lib (\<lambda>_. 0) [[1, 2, 3]] (aead_writer_new counter_lib sample_aead_kind [] [9, 9],
        \<lparr>sink_bytes = [], sink_script = [WrPending, WrAccept 2]\<rparr>) in
   sink_bytes (snd (snd r)) = [] @ [9, 9] @
     fst (aead_chunks counter_lib (\<lambda>_. 0) (cipher_new counter_lib sample_aead_kind [] [9, 9]) [[1, 2, 3]])"
proof -
  have "aead_write_seq counter_lib (\<lambda>_. 0) [[1, 2, 3]] (aead_writer_new counter_lib sample_aead_kind [] [9, 9],
        \<lparr>sink_bytes = [], sink_script = [WrPending, WrAccept 2]\<rparr>) =
      (Ok (), \<lparr>aw_cipher = (1, 2), aw_buffer = [], aw_state = AssemblePacket, aw_salt = [9, 9]\<rparr>,
       \<lparr>sink_bytes = [9, 9, 0, 3, 0, 1, 2, 3, 1], sink_script = []\<rparr>)"
    by code_simp
  from aead_writer_wire [OF this] show ?thesis
    using \<open>_ = (Ok (), _, _)\<close> by (simp add: Let_def MAX_PACKET_SIZE_def)
qed

text \<open>C5: With ciphers that decrypt what they encrypt, a tunnel delivers: whatever fragments and
  pauses the wire has and whatever room the caller offers, the reader never fails, what it returns
  is a prefix of what was written, and it is everything after at most as many polls as there are
  pauses and bytes.\<close>

theorem aead_tunnel_delivers:
  assumes "cipher_laws lib method R" "\<not> kind_is_aead_2022 method" "0 < kind_tag_len method"
    and "0 < kind_salt_len method" "length salt = kind_salt_len method" "replay_policy ctx \<noteq> PolicyReject"
    and sent: "aead_write_seq lib mem bufs (aead_writer_new lib method key salt, \<lparr>sink_bytes = [], sink_script = ss\<rparr>) =
        (Ok (), w', s')"
    and "bufs \<noteq> []" "\<forall>b \<in> set bufs. length b \<le> MAX_PACKET_SIZE"
    and "clean_script es" "script_bytes es = sink_bytes s'" "\<forall>k \<in> set caps. 0 < k"
  shows "\<exists>out rest. aead_read_run lib rlib now caps
      \<lparr>rd_reader = aead_reader_new lib method key, rd_source = es, rd_ctx = ctx\<rparr> = (out, Ok ()) \<and>
    concat bufs = out @ rest \<and>
    (script_pendings es + length (concat bufs) \<le> length caps \<longrightarrow> out = concat bufs)"
proof -
  have "script_bytes es = salt @ fst (aead_chunks lib mem (cipher_new lib method key salt) bufs)"
    using aead_write_seq_new [OF sent assms(8,9)] assms(11) by simp
  from aead_read_run_progress [OF assms(1) aead_reading_new [OF assms(1-6,10) this assms(9)] assms(12)]
  show ?thesis by fastforce
qed

theorem aead_tunnel_delivers_witness:
  "\<exists>out rest. aead_read_run counter_lib exact_lib 7 [2, 2, 2, 2]
      \<lparr>rd_reader = aead_reader_new counter_lib sample_aead_kind [],
       rd_source = [RdData [9], RdPending, RdData [9, 0, 3], RdData [0, 1, 2, 3, 1]],
       rd_ctx = context_new exact_lib Server\<rparr> = (out, Ok ()) \<and>
    concat [[1, 2, 3]] = out @ rest \<and>
    (script_pendings [RdData [9], RdPending, RdData [9, 0, 3], RdData [0, 1, 2, 3, 1]] +
       length (concat [[1, 2, 3 :: u8]]) \<le> length [2, 2, 2, 2 :: nat] \<longrightarrow> out = concat [[1, 2, 3]])"
proof -
  have "aead_write_seq counter_lib (\<lambda>_. 0) [[1, 2, 3]] (aead_writer_new counter_lib sample_aead_kind [] [9, 9],
        \<lparr>sink_bytes = [], sink_script = []\<rparr>) =
      (Ok (), \<lparr>aw_cipher = (1, 2), aw_buffer = [], aw_state = AssemblePacket, aw_salt = [9, 9]\<rparr>,
       \<lparr>sink_bytes = [9, 9, 0, 3, 0, 1, 2, 3, 1], sink_script = []\<rparr>)"
    by code_simp
  note run = aead_tunnel_delivers [OF counter_laws _ _ _ _ _ this]
  show ?thesis
    by (rule run) (simp_all add: sample_aead_kind_def context_new_def MAX_PACKET_SIZE_def)
qed

section \<open>The reader under attack\<close>

text \<open>
  Authenticity, as the idealised guarantee of an AEAD cipher: a decrypting cipher opens, one after
  the other, the packets that were really sealed, to what was sealed in them, and nothing else.
  A transcript lists what was sealed with the packets on the wire.
\<close>

fun opens_only :: "('c, 'z) cipher_lib_scheme \<Rightarrow> 'c \<Rightarrow> (bytes \<times> bytes) list \<Rightarrow> bool" where
  "opens_only lib d [] = (\<forall>m. \<not> fst (cipher_decrypt lib d m))"
| "opens_only lib d ((pt, x) # xs) =
     ((\<forall>m. fst (cipher_decrypt lib d m) \<longrightarrow> m = x) \<and>
      (case cipher_decrypt lib d x of (ok, m, d') \<Rightarrow> ok \<and> take (length pt) m = pt \<and> opens_only lib d' xs))"

fun aead_transcript :: "('c, 'z) cipher_lib_scheme \<Rightarrow> (nat \<Rightarrow> u8) \<Rightarrow> 'c \<Rightarrow> bytes list \<Rightarrow> (bytes \<times> bytes) list" where
  "aead_transcript lib mem c [] = []"
| "aead_transcript lib mem c (p # ps) =
     (let (a, c) = aead_seal lib mem c (to_be 2 (of_nat (length p) :: u16)); (b, c) = aead_seal lib mem c p
      in (to_be 2 (of_nat (length p) :: u16), a) # (p, b) # aead_transcript lib mem c ps)"

lemma concat_aead_transcript: "concat (map snd (aead_transcript lib mem c ps)) = fst (aead_chunks lib mem c ps)"
  by (induction ps arbitrary: c) (auto split: prod.splits)

lemma opens_onlyE:
  assumes "opens_only lib d ((pt, x) # xs)" "fst (cipher_decrypt lib d m)"
  obtains tl d' where "m = x" "cipher_decrypt lib d x = (True, pt @ tl, d')" "opens_only lib d' xs"
proof -
  obtain ok p d' where d: "cipher_decrypt lib d x = (ok, p, d')" by (metis prod.collapse)
  from assms d have "m = x" "ok" "take (length pt) p = pt" "opens_only lib d' xs" by auto
  moreover from this have "p = pt @ drop (length pt) p" by (metis append_take_drop_id)
  ultimately show ?thesis using that d by metis
qed

text \<open>The state of a reader that can at most deliver \<open>rest\<close>, whatever its source holds.\<close>

definition aead_safe ::
    "('c, 'z) cipher_lib_scheme \<Rightarrow> (nat \<Rightarrow> u8) \<Rightarrow> cipher_kind
     \<Rightarrow> bytes \<Rightarrow> bytes list \<Rightarrow> ('c, 'b, 's) aead_rd \<Rightarrow> bytes \<Rightarrow> bool" where
  "aead_safe lib mem method key ps w rest \<longleftrightarrow>
     (let r = rd_reader w in
      ar_method r = method \<and>
      (case ar_state r of
         WaitSalt k \<Rightarrow> k = key \<and> rest = concat ps
       | ReadLength \<Rightarrow> \<exists>d. ar_cipher r = Some d \<and>
           (opens_only lib d [] \<or>
            (\<exists>c qs. opens_only lib d (aead_transcript lib mem c qs) \<and> rest = concat qs \<and>
               (\<forall>q \<in> set qs. length q \<le> MAX_PACKET_SIZE)))
       | ReadData n \<Rightarrow> \<exists>c d q qs b. ar_cipher r = Some d \<and> n = length q \<and>
           opens_only lib d ((q, b) # aead_transcript lib mem c qs) \<and> rest = q @ concat qs \<and>
           (\<forall>q \<in> set qs. length q \<le> MAX_PACKET_SIZE)
       | BufferedData pos \<Rightarrow> \<exists>c d qs. ar_cipher r = Some d \<and> opens_only lib d (aead_transcript lib mem c qs) \<and>
           rest = drop pos (ar_buffer r) @ concat qs \<and> (\<forall>q \<in> set qs. length q \<le> MAX_PACKET_SIZE)))"

lemma aead_safe_ReadDataI:
  assumes "ar_method (rd_reader w) = method" "ar_state (rd_reader w) = ReadData (length q)"
    and "ar_cipher (rd_reader w) = Some d"
    and "opens_only lib d ((q, b) # aead_transcript lib mem c qs)" "rest = q @ concat qs"
    and "\<forall>q \<in> set qs. length q \<le> MAX_PACKET_SIZE"
  shows "aead_safe lib mem method key ps w rest"
  unfolding aead_safe_def Let_def using assms
  by (simp del: opens_only.simps) blast

definition aead_delivers_only ::
    "(('c, 'b, 's) aead_rd \<Rightarrow> bytes \<Rightarrow> bool) \<Rightarrow> bytes \<Rightarrow> (bytes, aead_error) poll option \<times> ('c, 'b, 's) aead_rd \<Rightarrow> bool" where
  "aead_delivers_only I rest res \<longleftrightarrow>
     (case fst res of
        None \<Rightarrow> I (snd res) rest
      | Some Pending \<Rightarrow> I (snd res) rest
      | Some (Ready (Ok d)) \<Rightarrow> \<exists>rest'. rest = d @ rest' \<and> I (snd res) rest'
      | Some (Ready _) \<Rightarrow> True)"

lemma aead_read_exact_frame:
  assumes "aead_read_exact sz w = (p, w')"
  shows "\<exists>buf es. w' = w\<lparr>rd_reader := (rd_reader w)\<lparr>ar_buffer := buf\<rparr>, rd_source := es\<rparr> \<and>
     (\<forall>n. p = Ready (Ok n) \<longrightarrow> n = sz \<and> sz \<le> length buf \<or> n = 0 \<and> 0 < sz)"
proof -
  obtain q buf es where q: "poll_read_exact sz (ar_buffer (rd_reader w)) (rd_source w) = (q, buf, es)"
    by (metis prod.collapse)
  have "p = (case q of Pending \<Rightarrow> Pending | Ready r \<Rightarrow> Ready (map_err AeadIoError r))"
    "w' = w\<lparr>rd_reader := (rd_reader w)\<lparr>ar_buffer := buf\<rparr>, rd_source := es\<rparr>"
    using assms q by (cases q; simp add: aead_read_exact_def)+
  moreover have "\<forall>n. q = Ready (Ok n) \<longrightarrow> n = sz \<and> sz \<le> length buf \<or> n = 0 \<and> 0 < sz"
    using q fill_buffer_moves [of sz "ar_buffer (rd_reader w)" "rd_source w" q buf es]
    by (auto simp: poll_read_exact_def split: if_splits)
  ultimately show ?thesis by (cases q) (auto simp: outcome_simps)
qed

lemma aead_safe_wait_salt:
  assumes inv: "aead_safe lib mem method key ps w rest"
    and auth: "opens_only lib (cipher_new lib method key salt) (aead_transcript lib mem (cipher_new lib method key salt) ps)"
    and forged: "\<And>s. length s = kind_salt_len method \<Longrightarrow> s \<noteq> salt \<Longrightarrow> opens_only lib (cipher_new lib method key s) []"
    and ps: "\<forall>p \<in> set ps. length p \<le> MAX_PACKET_SIZE"
    and st: "ar_state (rd_reader w) = WaitSalt k"
  shows "aead_delivers_only (aead_safe lib mem method key ps) rest (aead_decrypt_step lib rlib now remaining w)"
proof -
  let ?r = "rd_reader w" and ?n = "kind_salt_len method"
  have base: "ar_method ?r = method" "k = key" "rest = concat ps"
    using inv st by (auto simp: aead_safe_def Let_def)
  obtain p w1 where e: "aead_read_exact ?n w = (p, w1)" by force
  from aead_read_exact_frame [OF e] obtain buf es where
    w1: "w1 = w\<lparr>rd_reader := ?r\<lparr>ar_buffer := buf\<rparr>, rd_source := es\<rparr>" and
    n: "\<forall>n. p = Ready (Ok n) \<longrightarrow> n = ?n \<and> ?n \<le> length buf \<or> n = 0 \<and> 0 < ?n" by blast
  consider (pend) "p = Pending" | (err) x where "p = Ready (Err x)" | (panic) "p = Ready Panic"
    | (short) m where "p = Ready (Ok m)" "m < ?n" | (full) m where "p = Ready (Ok m)" "\<not> m < ?n" "?n \<le> length buf"
    using n by (cases p; (cases "case p of Ready r \<Rightarrow> r | Pending \<Rightarrow> Panic")?) fastforce+
  then show ?thesis
  proof cases
    case (full m)
    let ?salt = "take ?n buf"
    have len: "length ?salt = ?n" using full by simp
    let ?w' = "w1\<lparr>rd_reader := (rd_reader w1)\<lparr>ar_salt := Some ?salt, ar_cipher := Some (cipher_new lib method key ?salt),
        ar_buffer := [], ar_state := ReadLength, ar_handshaked := True\<rparr>\<rparr>"
    have "aead_decrypt_step lib rlib now remaining w = (None, ?w')"
      using full e st base w1 by (simp add: aead_decrypt_step_def aead_read_salt_def Let_def)
    moreover have "aead_safe lib mem method key ps ?w' rest"
    proof (cases "?salt = salt")
      case True
      with auth ps base w1 show ?thesis
        unfolding aead_safe_def Let_def by auto
    next
      case False
      with forged [OF len] base w1 show ?thesis unfolding aead_safe_def Let_def by auto
    qed
    ultimately show ?thesis by (simp add: aead_delivers_only_def)
  qed (use e st base w1 inv in \<open>simp_all add: aead_decrypt_step_def aead_read_salt_def Let_def aead_delivers_only_def aead_safe_def\<close>)
qed

lemma aead_safe_read_length:
  assumes inv: "aead_safe lib mem method key ps w rest"
    and st: "ar_state (rd_reader w) = ReadLength"
  shows "aead_delivers_only (aead_safe lib mem method key ps) rest (aead_decrypt_step lib rlib now remaining w)"
proof -
  let ?r = "rd_reader w" and ?n = "2 + kind_tag_len method"
  from inv st obtain d where base: "ar_method ?r = method" "ar_cipher ?r = Some d"
    and d: "opens_only lib d [] \<or>
            (\<exists>c qs. opens_only lib d (aead_transcript lib mem c qs) \<and> rest = concat qs \<and>
               (\<forall>q \<in> set qs. length q \<le> MAX_PACKET_SIZE))"
    by (auto simp: aead_safe_def Let_def)
  obtain p w1 where e: "aead_read_exact ?n w = (p, w1)" by force
  from aead_read_exact_frame [OF e] obtain buf es where
    w1: "w1 = w\<lparr>rd_reader := ?r\<lparr>ar_buffer := buf\<rparr>, rd_source := es\<rparr>" by blast
  have same: "aead_safe lib mem method key ps w1 rest"
    using inv st by (simp add: aead_safe_def Let_def w1)
  obtain ok m d1 where m: "cipher_decrypt lib d (take ?n buf) = (ok, m, d1)" by (metis prod.collapse)
  consider (pend) "p = Pending" | (err) x where "p = Ready (Err x)" | (panic) "p = Ready Panic"
    | (eof) "p = Ready (Ok 0)" | (reject) k where "p = Ready (Ok k)" "k \<noteq> 0" "\<not> ok" | (accept) k where "p = Ready (Ok k)" "k \<noteq> 0" "ok"
    by (cases p; (cases "case p of Ready r \<Rightarrow> r | Pending \<Rightarrow> Panic")?) fastforce+
  then show ?thesis
  proof cases
    case (accept k)
    then have acc: "fst (cipher_decrypt lib d (take ?n buf))" using m by simp
    then have "\<not> opens_only lib d []" by auto
    with d obtain c qs where c: "opens_only lib d (aead_transcript lib mem c qs)" "rest = concat qs"
      "\<forall>q \<in> set qs. length q \<le> MAX_PACKET_SIZE" by blast
    with acc obtain q qs' where qs: "qs = q # qs'" by (cases qs) auto
    obtain a c1 where a: "aead_seal lib mem c (to_be 2 (of_nat (length q) :: u16)) = (a, c1)" by force
    obtain b c2 where b: "aead_seal lib mem c1 q = (b, c2)" by force
    have "opens_only lib d ((to_be 2 (of_nat (length q) :: u16), a) # (q, b) # aead_transcript lib mem c2 qs')"
      using c(1) by (simp add: qs a b)
    from opens_onlyE [OF this acc] obtain tag d2 where eq: "take ?n buf = a"
      and o: "cipher_decrypt lib d a = (True, to_be 2 (of_nat (length q) :: u16) @ tag, d2)"
        "opens_only lib d2 ((q, b) # aead_transcript lib mem c2 qs')" by metis
    have q: "length q \<le> MAX_PACKET_SIZE" using c(3) qs by simp
    let ?w' = "w1\<lparr>rd_reader := ?r\<lparr>ar_cipher := Some d2, ar_buffer := [], ar_state := ReadData (length q)\<rparr>\<rparr>"
    have "aead_decrypt_length lib d a = (Ok (length q), to_be 2 (of_nat (length q) :: u16) @ tag, d2)"
      using o(1) q from_be_length [OF q, of tag] by (simp add: aead_decrypt_length_def Let_def del: One_nat_def)
    then have "aead_decrypt_step lib rlib now remaining w = (None, ?w')"
      using accept e st base w1 eq by (simp add: aead_decrypt_step_def aead_read_length_def Let_def)
    moreover have "aead_safe lib mem method key ps ?w' rest"
      by (rule aead_safe_ReadDataI [where q = q and qs = qs', OF _ _ _ o(2)])
         (use base w1 c qs in \<open>simp_all del: opens_only.simps\<close>)
    ultimately show ?thesis by (simp add: aead_delivers_only_def)
  next
    case eof
    then show ?thesis using e st base w1 same
      by (auto simp: aead_decrypt_step_def aead_read_length_def Let_def aead_delivers_only_def)
  qed (use e st base w1 same m in \<open>simp_all add: aead_decrypt_step_def aead_read_length_def aead_decrypt_length_def
        Let_def aead_delivers_only_def\<close>)
qed

lemma aead_safe_read_data:
  assumes inv: "aead_safe lib mem method key ps w rest"
    and st: "ar_state (rd_reader w) = ReadData n"
  shows "aead_delivers_only (aead_safe lib mem method key ps) rest
    (aead_decrypt_step lib rlib now remaining w)"
proof -
  let ?r = "rd_reader w" and ?n = "n + kind_tag_len method"
  from inv st obtain c d q qs b where base: "ar_method ?r = method" "ar_cipher ?r = Some d"
    and n: "n = length q"
    and pk: "opens_only lib d ((q, b) # aead_transcript lib mem c qs)" and rest: "rest = q @ concat qs"
    and qs: "\<forall>q \<in> set qs. length q \<le> MAX_PACKET_SIZE"
    by (simp add: aead_safe_def Let_def del: opens_only.simps) blast
  obtain p w1 where e: "aead_read_exact ?n w = (p, w1)" by force
  from aead_read_exact_frame [OF e] obtain buf es where
    w1: "w1 = w\<lparr>rd_reader := ?r\<lparr>ar_buffer := buf\<rparr>, rd_source := es\<rparr>" by blast
  have same: "aead_safe lib mem method key ps w1 rest"
    using inv st by (simp add: aead_safe_def Let_def w1 del: opens_only.simps)
  obtain ok m d1 where m: "cipher_decrypt lib d (take ?n buf) = (ok, m, d1)" by (metis prod.collapse)
  obtain res ctx where ctx: "(case ar_salt ?r of
      Some salt \<Rightarrow> check_nonce_replay rlib (rd_ctx w) now method salt | None \<Rightarrow> (Ok (), rd_ctx w)) = (res, ctx)"
    by force
  consider (pend) "p = Pending" | (err) x where "p = Ready (Err x)" | (panic) "p = Ready Panic"
    | (eof) "p = Ready (Ok 0)" | (reject) k where "p = Ready (Ok k)" "k \<noteq> 0" "\<not> ok"
    | (replay) k where "p = Ready (Ok k)" "k \<noteq> 0" "ok" "\<forall>u. res \<noteq> Ok u"
    | (accept) k where "p = Ready (Ok k)" "k \<noteq> 0" "ok" "res = Ok ()"
    by (cases p; (cases "case p of Ready r \<Rightarrow> r | Pending \<Rightarrow> Panic")?) fastforce+
  then show ?thesis
  proof cases
    case (accept k)
    then have "fst (cipher_decrypt lib d (take ?n buf))" using m by simp
    from opens_onlyE [OF pk this] obtain tag d2 where eq: "take ?n buf = b"
      and o: "cipher_decrypt lib d b = (True, q @ tag, d2)" "opens_only lib d2 (aead_transcript lib mem c qs)"
      by metis
    let ?w' = "w1\<lparr>rd_reader := ?r\<lparr>ar_cipher := Some d2, ar_buffer := q, ar_salt := None,
        ar_state := BufferedData 0\<rparr>, rd_ctx := ctx\<rparr>"
    have "aead_decrypt_step lib rlib now remaining w = (None, ?w')"
      using accept e st base w1 eq o ctx n
      by (cases "ar_salt ?r") (simp_all add: aead_decrypt_step_def aead_read_data_def Let_def)
    moreover have "aead_safe lib mem method key ps ?w' rest"
      using base w1 o rest qs by (auto simp: aead_safe_def Let_def)
    ultimately show ?thesis by (simp add: aead_delivers_only_def)
  next
    case (replay k)
    then show ?thesis using e st base w1 m ctx
      by (cases "ar_salt ?r"; cases res)
         (simp_all add: aead_decrypt_step_def aead_read_data_def Let_def aead_delivers_only_def)
  qed (use e st base w1 same m in \<open>simp_all add: aead_decrypt_step_def aead_read_data_def
        Let_def aead_delivers_only_def\<close>)
qed

lemma aead_safe_buffered:
  assumes inv: "aead_safe lib mem method key ps w rest"
    and st: "ar_state (rd_reader w) = BufferedData pos"
  shows "aead_delivers_only (aead_safe lib mem method key ps) rest
    (aead_decrypt_step lib rlib now remaining w)"
proof -
  let ?r = "rd_reader w"
  from inv st obtain c d qs where base: "ar_method ?r = method" "ar_cipher ?r = Some d"
    "opens_only lib d (aead_transcript lib mem c qs)" "rest = drop pos (ar_buffer ?r) @ concat qs"
    "\<forall>q \<in> set qs. length q \<le> MAX_PACKET_SIZE"
    by (auto simp: aead_safe_def Let_def)
  show ?thesis
  proof (cases "pos < length (ar_buffer ?r)")
    case True
    define k where "k = min (length (drop pos (ar_buffer ?r))) remaining"
    let ?w' = "w\<lparr>rd_reader := ?r\<lparr>ar_state := BufferedData (pos + k)\<rparr>\<rparr>"
    have "aead_decrypt_step lib rlib now remaining w = (Some (Ready (Ok (take k (drop pos (ar_buffer ?r))))), ?w')"
      using True st by (simp add: aead_decrypt_step_def Let_def k_def)
    moreover have "aead_safe lib mem method key ps ?w' (drop (pos + k) (ar_buffer ?r) @ concat qs)"
      using base by (auto simp: aead_safe_def Let_def)
    moreover have "rest = take k (drop pos (ar_buffer ?r)) @ drop (pos + k) (ar_buffer ?r) @ concat qs"
      unfolding base(4) by (metis add.commute append_assoc append_take_drop_id drop_drop)
    ultimately show ?thesis by (auto simp: aead_delivers_only_def)
  next
    case False
    then show ?thesis using base st
      by (auto simp: aead_decrypt_step_def Let_def aead_delivers_only_def aead_safe_def)
  qed
qed

lemma aead_safe_step:
  assumes auth: "opens_only lib (cipher_new lib method key salt) (aead_transcript lib mem (cipher_new lib method key salt) ps)"
    and forged: "\<And>s. length s = kind_salt_len method \<Longrightarrow> s \<noteq> salt \<Longrightarrow> opens_only lib (cipher_new lib method key s) []"
    and ps: "\<forall>p \<in> set ps. length p \<le> MAX_PACKET_SIZE"
    and inv: "aead_safe lib mem method key ps w rest"
  shows "aead_delivers_only (aead_safe lib mem method key ps) rest (aead_decrypt_step lib rlib now remaining w)"
  using aead_safe_wait_salt [OF inv auth forged ps] aead_safe_read_length [OF inv] aead_safe_read_data [OF inv]
    aead_safe_buffered [OF inv]
  by (cases "ar_state (rd_reader w)") blast+

lemma aead_safe_poll:
  assumes auth: "opens_only lib (cipher_new lib method key salt) (aead_transcript lib mem (cipher_new lib method key salt) ps)"
    and forged: "\<And>s. length s = kind_salt_len method \<Longrightarrow> s \<noteq> salt \<Longrightarrow> opens_only lib (cipher_new lib method key s) []"
    and ps: "\<forall>p \<in> set ps. length p \<le> MAX_PACKET_SIZE"
  shows "aead_safe lib mem method key ps w rest \<Longrightarrow> aead_poll_read lib rlib now remaining w = (p, w') \<Longrightarrow>
    aead_delivers_only (aead_safe lib mem method key ps) rest (Some p, w')"
proof (induction "aead_rd_size w" arbitrary: w rule: less_induct)
  case less
  obtain r w1 where step: "aead_decrypt_step lib rlib now remaining w = (r, w1)" by force
  have one: "aead_delivers_only (aead_safe lib mem method key ps) rest (r, w1)"
    using aead_safe_step [OF auth forged ps less.prems(1), of rlib now remaining] by (simp add: step)
  note unfold = aead_poll_read.simps [of lib rlib now remaining w]
  show ?case
  proof (cases r)
    case None
    then have "aead_poll_read lib rlib now remaining w1 = (p, w')" using less.prems(2) step by (simp add: unfold)
    moreover have "aead_safe lib mem method key ps w1 rest" using one None by (simp add: aead_delivers_only_def)
    moreover have "aead_rd_size w1 < aead_rd_size w" using step None aead_decrypt_step_decreases by blast
    ultimately show ?thesis using less.hyps by blast
  next
    case (Some q)
    then have "q = p" "w1 = w'" using less.prems(2) step by (simp_all add: unfold)
    with one Some show ?thesis by simp
  qed
qed

lemma aead_safe_run:
  assumes auth: "opens_only lib (cipher_new lib method key salt) (aead_transcript lib mem (cipher_new lib method key salt) ps)"
    and forged: "\<And>s. length s = kind_salt_len method \<Longrightarrow> s \<noteq> salt \<Longrightarrow> opens_only lib (cipher_new lib method key s) []"
    and ps: "\<forall>p \<in> set ps. length p \<le> MAX_PACKET_SIZE"
  shows "aead_safe lib mem method key ps w rest \<Longrightarrow> \<exists>rest'. rest = fst (aead_read_run lib rlib now ks w) @ rest'"
proof (induction ks arbitrary: w rest)
  case Nil
  then show ?case by simp
next
  case (Cons k ks)
  obtain p w1 where p: "aead_poll_read lib rlib now k w = (p, w1)" by force
  note one = aead_safe_poll [OF auth forged ps Cons.prems p]
  show ?case
  proof (cases p)
    case Pending
    with one Cons.IH [of w1 rest] show ?thesis by (simp add: p aead_delivers_only_def)
  next
    case (Ready r)
    show ?thesis
    proof (cases r)
      case (Ok d)
      with one Ready obtain rest1 where "rest = d @ rest1" "aead_safe lib mem method key ps w1 rest1"
        by (auto simp: aead_delivers_only_def)
      with Cons.IH [of w1 rest1] show ?thesis by (auto simp: p Ready Ok case_prod_beta)
    qed (simp_all add: p Ready)
  qed
qed

text \<open>C6: With an authentic cipher, nobody on the path can make the reader deliver anything but a
  prefix of what was sealed under the key: bytes may be changed, dropped, reordered, repeated or
  inserted, the salt replaced and the connection cut, and no unauthenticated byte comes out.\<close>

theorem aead_tunnel_authentic:
  assumes "0 < kind_salt_len method" "\<forall>p \<in> set ps. length p \<le> MAX_PACKET_SIZE"
    and "opens_only lib (cipher_new lib method key salt) (aead_transcript lib mem (cipher_new lib method key salt) ps)"
    and "\<And>s. length s = kind_salt_len method \<Longrightarrow> s \<noteq> salt \<Longrightarrow> opens_only lib (cipher_new lib method key s) []"
  shows "\<exists>rest. concat ps = fst (aead_read_run lib rlib now caps
      \<lparr>rd_reader = aead_reader_new lib method key, rd_source = es, rd_ctx = ctx\<rparr>) @ rest"
proof -
  have "aead_safe lib mem method key ps
      \<lparr>rd_reader = aead_reader_new lib method key, rd_source = es, rd_ctx = ctx\<rparr> (concat ps)"
    using assms(1) by (simp add: aead_safe_def aead_reader_new_def)
  from aead_safe_run [OF assms(3,4,2) this] show ?thesis by blast
qed

text \<open>An ideal cipher for one session: it opens the packets of a transcript and no others.\<close>

definition ideal_lib :: "bytes \<Rightarrow> bytes list \<Rightarrow> (nat \<times> nat \<times> bytes list) cipher_lib" where
  "ideal_lib salt packets = \<lparr>cipher_new = \<lambda>method key s. (kind_tag_len method, 0, if s = salt then packets else []),
     cipher_tag_len = fst,
     cipher_encrypt = (\<lambda>(t, n, xs) buf. (take (length buf - t) buf @ replicate t (of_nat n), (t, Suc n, xs))),
     cipher_decrypt = (\<lambda>(t, n, xs) buf. case xs of [] \<Rightarrow> (False, buf, (t, n, []))
        | x # xs' \<Rightarrow> (buf = x, buf, (t, Suc n, xs')))\<rparr>"

theorem aead_tunnel_authentic_witness:
  "\<exists>rest. concat [[1, 2, 3]] = fst (aead_read_run (ideal_lib [9, 9] [[0, 3, 0], [1, 2, 3, 1]]) exact_lib 7 [5, 5, 5]
      \<lparr>rd_reader = aead_reader_new (ideal_lib [9, 9] [[0, 3, 0], [1, 2, 3, 1]]) sample_aead_kind [],
       rd_source = [RdData [9, 9, 0, 3, 0, 1], RdError OtherError, RdData [2, 3, 7]], rd_ctx = context_new exact_lib Server\<rparr>) @ rest"
proof (rule aead_tunnel_authentic [where mem = "\<lambda>_. 0" and salt = "[9, 9]"])
  let ?lib = "ideal_lib [9, 9] [[0, 3, 0], [1, 2, 3, 1]]"
  have "aead_transcript ?lib (\<lambda>_. 0) (cipher_new ?lib sample_aead_kind [] [9, 9]) [[1, 2, 3]] =
      [([0, 3], [0, 3, 0]), ([1, 2, 3], [1, 2, 3, 1])]"
    by code_simp
  then show "opens_only ?lib (cipher_new ?lib sample_aead_kind [] [9, 9])
      (aead_transcript ?lib (\<lambda>_. 0) (cipher_new ?lib sample_aead_kind [] [9, 9]) [[1, 2, 3]])"
    by (simp add: ideal_lib_def sample_aead_kind_def)
  show "opens_only ?lib (cipher_new ?lib sample_aead_kind [] s) []" if "s \<noteq> [9, 9]" for s
    using that by (simp add: ideal_lib_def)
qed (simp_all add: sample_aead_kind_def MAX_PACKET_SIZE_def)

end
