(* ===== verification/Tcp_Stream.thy ===== *)
theory Tcp_Stream
  imports Tcp_Aead
begin

text \<open>
  The stream-cipher tunnel of \<open>relay/tcprelay/stream.rs\<close>. After the IV the reader decrypts in place
  whatever its source put into the caller's buffer; the writer sends the IV with the first packet.
  The reading and draining loops are those of the AEAD tunnel (\<open>poll_read_exact\<close>, \<open>drain_buffer\<close>).
\<close>

section \<open>Reader\<close>

datatype stream_error = StreamIoError io_kind | StreamDecryptError

fun stream_error_into_io :: "stream_error \<Rightarrow> io_kind" where
  "stream_error_into_io (StreamIoError k) = k"
| "stream_error_into_io StreamDecryptError = OtherError"

datatype stream_read_state = WaitIv bytes | StreamRead

record 'c stream_reader =
  sr_state :: stream_read_state
  sr_cipher :: "'c option"
  sr_buffer :: bytes
  sr_method :: cipher_kind
  sr_iv :: "bytes option"
  sr_handshaked :: bool

definition stream_reader_new :: "('c, 'z) cipher_lib_scheme \<Rightarrow> cipher_kind \<Rightarrow> bytes \<Rightarrow> 'c stream_reader" where
  "stream_reader_new lib method key =
     (if kind_iv_len method > 0 then
        \<lparr>sr_state = WaitIv key, sr_cipher = None, sr_buffer = [], sr_method = method, sr_iv = None, sr_handshaked = False\<rparr>
      else
        \<lparr>sr_state = StreamRead, sr_cipher = Some (cipher_new lib method key []), sr_buffer = [],
         sr_method = method, sr_iv = Some [], sr_handshaked = False\<rparr>)"

record ('c, 'b, 's) stream_rd =
  sd_reader :: "'c stream_reader"
  sd_source :: rd_script
  sd_ctx :: "('b, 's) ss_context"

definition stream_read_exact :: "nat \<Rightarrow> ('c, 'b, 's) stream_rd \<Rightarrow> (nat, stream_error) poll \<times> ('c, 'b, 's) stream_rd" where
  "stream_read_exact sz w =
     (let (p, buf, es) = poll_read_exact sz (sr_buffer (sd_reader w)) (sd_source w)
      in poll_map_err StreamIoError (p, w\<lparr>sd_reader := (sd_reader w)\<lparr>sr_buffer := buf\<rparr>, sd_source := es\<rparr>))"

definition stream_read_iv ::
    "('c, 'z) cipher_lib_scheme \<Rightarrow> ('b, 's, 'y) replay_lib_scheme \<Rightarrow> nat \<Rightarrow> bytes \<Rightarrow> ('c, 'b, 's) stream_rd
     \<Rightarrow> (unit, stream_error) poll \<times> ('c, 'b, 's) stream_rd" where
  "stream_read_iv lib rlib now key w =
     (let iv_len = kind_iv_len (sr_method (sd_reader w)) in
      poll_bind (stream_read_exact iv_len w) (\<lambda>n w.
        if n < iv_len then (Ready (Err (StreamIoError UnexpectedEof)), w)
        else
          let r = sd_reader w; iv = take iv_len (sr_buffer r);
              (res, ctx) = check_nonce_replay rlib (sd_ctx w) now (sr_method r) iv
          in case res of
               Err k \<Rightarrow> (Ready (Err (StreamIoError k)), w\<lparr>sd_ctx := ctx\<rparr>)
             | Panic \<Rightarrow> (Ready Panic, w\<lparr>sd_ctx := ctx\<rparr>)
             | Ok _ \<Rightarrow> (Ready (Ok ()),
                 w\<lparr>sd_reader := r\<lparr>sr_iv := Some iv, sr_cipher := Some (cipher_new lib (sr_method r) key iv)\<rparr>,
                   sd_ctx := ctx\<rparr>)))"

text \<open>\<open>poll_read_decrypted\<close>: the loop goes round once, from \<open>WaitIv\<close> to \<open>Read\<close>, which returns.\<close>

definition stream_read_data ::
    "('c, 'z) cipher_lib_scheme \<Rightarrow> nat \<Rightarrow> ('c, 'b, 's) stream_rd
     \<Rightarrow> (bytes, stream_error) poll \<times> ('c, 'b, 's) stream_rd" where
  "stream_read_data lib remaining w =
     (case poll_read remaining (sd_source w) of
        (Pending, es) \<Rightarrow> (Pending, w\<lparr>sd_source := es\<rparr>)
      | (Ready (Err e), es) \<Rightarrow> (Ready (Err (StreamIoError e)), w\<lparr>sd_source := es\<rparr>)
      | (Ready Panic, es) \<Rightarrow> (Ready Panic, w\<lparr>sd_source := es\<rparr>)
      | (Ready (Ok m), es) \<Rightarrow>
          let w = w\<lparr>sd_source := es\<rparr> in
          if m = [] then (Ready (Ok []), w)
          else (case sr_cipher (sd_reader w) of
              None \<Rightarrow> (Ready Panic, w)
            | Some cipher \<Rightarrow>
                let (ok, m, cipher) = cipher_decrypt lib cipher m;
                    w = w\<lparr>sd_reader := (sd_reader w)\<lparr>sr_cipher := Some cipher\<rparr>\<rparr>
                in if \<not> ok then (Ready (Err StreamDecryptError), w) else (Ready (Ok m), w)))"

definition stream_poll_read ::
    "('c, 'z) cipher_lib_scheme \<Rightarrow> ('b, 's, 'y) replay_lib_scheme \<Rightarrow> nat \<Rightarrow> nat \<Rightarrow> ('c, 'b, 's) stream_rd
     \<Rightarrow> (bytes, stream_error) poll \<times> ('c, 'b, 's) stream_rd" where
  "stream_poll_read lib rlib now remaining w =
     (case sr_state (sd_reader w) of
        WaitIv key \<Rightarrow>
          poll_bind (stream_read_iv lib rlib now key w) (\<lambda>_ w.
            stream_read_data lib remaining
              (w\<lparr>sd_reader := (sd_reader w)\<lparr>sr_buffer := [], sr_state := StreamRead, sr_handshaked := True\<rparr>\<rparr>))
      | StreamRead \<Rightarrow> stream_read_data lib remaining w)"

section \<open>Writer\<close>

record 'c stream_writer =
  sw_cipher :: 'c
  sw_buffer :: bytes
  sw_state :: aead_write_state
  sw_iv :: bytes

definition stream_writer_new :: "('c, 'z) cipher_lib_scheme \<Rightarrow> cipher_kind \<Rightarrow> bytes \<Rightarrow> bytes \<Rightarrow> 'c stream_writer" where
  "stream_writer_new lib method key nonce =
     \<lparr>sw_cipher = cipher_new lib method key nonce, sw_buffer = nonce, sw_state = AssemblePacket, sw_iv = nonce\<rparr>"

definition stream_assemble :: "('c, 'z) cipher_lib_scheme \<Rightarrow> bytes \<Rightarrow> 'c stream_writer \<Rightarrow> 'c stream_writer" where
  "stream_assemble lib buf w =
     (let (out, c) = cipher_encrypt lib (sw_cipher w) buf
      in w\<lparr>sw_cipher := c, sw_buffer := sw_buffer w @ out, sw_state := Writing 0\<rparr>)"

definition stream_poll_write ::
    "('c, 'z) cipher_lib_scheme \<Rightarrow> bytes \<Rightarrow> 'c stream_writer \<times> sink
     \<Rightarrow> (nat, stream_error) poll \<times> 'c stream_writer \<times> sink" where
  "stream_poll_write lib buf ws =
     (let (w, s) = ws;
          w = (case sw_state w of AssemblePacket \<Rightarrow> stream_assemble lib buf w | Writing _ \<Rightarrow> w);
          pos = (case sw_state w of AssemblePacket \<Rightarrow> 0 | Writing pos \<Rightarrow> pos);
          (p, pos, s) = drain_buffer (sw_buffer w) pos s
      in case p of
           Ready (Ok _) \<Rightarrow>
             (Ready (Ok (length buf)), w\<lparr>sw_state := AssemblePacket, sw_buffer := []\<rparr>, s)
         | Ready (Err e) \<Rightarrow> (Ready (Err (StreamIoError e)), w\<lparr>sw_state := Writing pos\<rparr>, s)
         | Ready Panic \<Rightarrow> (Ready Panic, w\<lparr>sw_state := Writing pos\<rparr>, s)
         | Pending \<Rightarrow> (Pending, w\<lparr>sw_state := Writing pos\<rparr>, s))"

section \<open>Delivery\<close>

text \<open>
  What a stream cipher is: encryption under a key and IV is one length-preserving function \<open>E\<close> of
  everything written so far, which extends when more is written, and a cipher that has seen the
  plaintext \<open>h\<close> continues it, in whatever pieces the text comes.
\<close>

definition stream_laws ::
    "('c, 'z) cipher_lib_scheme \<Rightarrow> 'c \<Rightarrow> (bytes \<Rightarrow> bytes) \<Rightarrow> ('c \<Rightarrow> bytes \<Rightarrow> bool) \<Rightarrow> bool" where
  "stream_laws lib c0 E seen \<longleftrightarrow>
     (\<forall>x. length (E x) = length x) \<and> (\<forall>x n. take n (E x) = E (take n x)) \<and>
     seen c0 [] \<and>
     (\<forall>d h x. seen d h \<longrightarrow> (\<exists>d'. cipher_decrypt lib d (drop (length h) (E (h @ x))) = (True, x, d') \<and> seen d' (h @ x)))"

definition stream_reading ::
    "('c, 'z) cipher_lib_scheme \<Rightarrow> (bytes \<Rightarrow> bytes) \<Rightarrow> ('c \<Rightarrow> bytes \<Rightarrow> bool) \<Rightarrow> bytes \<Rightarrow> bytes \<Rightarrow> cipher_kind
     \<Rightarrow> ('c, 'b, 's) stream_rd \<Rightarrow> bytes \<Rightarrow> bool" where
  "stream_reading lib E seen key iv method w rest \<longleftrightarrow>
     (let r = sd_reader w; rst = script_bytes (sd_source w) in
      clean_script (sd_source w) \<and> sr_method r = method \<and> \<not> kind_is_aead_2022 method \<and>
      replay_policy (sd_ctx w) \<noteq> PolicyReject \<and> stream_laws lib (cipher_new lib method key iv) E seen \<and>
      (case sr_state r of
         WaitIv k \<Rightarrow> k = key \<and> 0 < kind_iv_len method \<and> length iv = kind_iv_len method \<and>
           length (sr_buffer r) \<le> length iv \<and> sr_buffer r @ rst = iv @ E rest
       | StreamRead \<Rightarrow> \<exists>d h. sr_cipher r = Some d \<and> seen d h \<and> rst = drop (length h) (E (h @ rest))))"

text \<open>A poll in the reading state, and any poll.\<close>

definition stream_progress ::
    "(('c, 'b, 's) stream_rd \<Rightarrow> bytes \<Rightarrow> bool) \<Rightarrow> bytes \<Rightarrow> ('c, 'b, 's) stream_rd
     \<Rightarrow> (bytes, stream_error) poll \<times> ('c, 'b, 's) stream_rd \<Rightarrow> bool" where
  "stream_progress I rest w res \<longleftrightarrow>
     (let pend = script_pendings (sd_source w); pend' = script_pendings (sd_source (snd res)) in
      case fst res of
        Pending \<Rightarrow> I (snd res) rest \<and> pend' < pend
      | Ready (Ok d) \<Rightarrow> (\<exists>rest'. rest = d @ rest' \<and> I (snd res) rest') \<and> pend' \<le> pend \<and> (d = [] \<longrightarrow> rest = [])
      | Ready _ \<Rightarrow> False)"

lemma stream_read_data_progress:
  assumes inv: "stream_reading lib E seen key iv method w rest" and cap: "0 < remaining"
    and st: "sr_state (sd_reader w) = StreamRead"
  shows "stream_progress (stream_reading lib E seen key iv method) rest w (stream_read_data lib remaining w)"
proof -
  let ?r = "sd_reader w"
  from inv st obtain d h where base: "clean_script (sd_source w)" "sr_method ?r = method" "\<not> kind_is_aead_2022 method"
      "replay_policy (sd_ctx w) \<noteq> PolicyReject"
    and laws: "stream_laws lib (cipher_new lib method key iv) E seen"
    and d: "sr_cipher ?r = Some d" "seen d h" "script_bytes (sd_source w) = drop (length h) (E (h @ rest))"
    by (auto simp: stream_reading_def Let_def)
  have E: "length (E x) = length x" "take n (E x) = E (take n x)" for x n
    using laws by (auto simp: stream_laws_def)
  obtain p es where p: "poll_read remaining (sd_source w) = (p, es)" by force
  note clean = poll_read_clean [OF base(1) p cap] and bytes = poll_read_bytes [OF p]
  consider (pend) "p = Pending" | (eof) "p = Ready (Ok [])" "sd_source w = []" | (data) m where "p = Ready (Ok m)" "m \<noteq> []"
    using clean by blast
  then show ?thesis
  proof cases
    case pend
    then have "sd_source w = RdPending # es" using poll_read_pending p by blast
    then show ?thesis using pend p inv st
      by (auto simp: stream_read_data_def stream_progress_def stream_reading_def Let_def)
  next
    case eof
    then have "rest = []" using d(3) E(1) [of "h @ rest"] by simp
    moreover have "es = []" using eof p by simp
    ultimately show ?thesis using eof p inv st
      by (auto simp: stream_read_data_def stream_progress_def stream_reading_def Let_def)
  next
    case (data m)
    have split: "drop (length h) (E (h @ rest)) = m @ script_bytes es" using bytes data d(3) by simp
    define x where "x = take (length m) rest"
    define y where "y = drop (length m) rest"
    have rest: "rest = x @ y" by (simp add: x_def y_def)
    have len: "length m \<le> length rest"
      using arg_cong [OF split, of length] E(1) [of "h @ rest"] by simp
    then have lx: "length x = length m" by (simp add: x_def)
    have "m = take (length m) (drop (length h) (E (h @ rest)))" unfolding split by simp
    also have "\<dots> = drop (length h) (take (length (h @ x)) (E (h @ rest)))"
      by (simp add: take_drop lx add.commute)
    also have "\<dots> = drop (length h) (E (h @ x))" unfolding E(2) by (simp add: rest)
    finally have m: "m = drop (length h) (E (h @ x))" .
    from laws d(2) obtain d' where d': "cipher_decrypt lib d m = (True, x, d')" "seen d' (h @ x)"
      unfolding m stream_laws_def by blast
    have "script_bytes es = drop (length m) (drop (length h) (E (h @ rest)))" unfolding split by simp
    also have "\<dots> = drop (length (h @ x)) (E ((h @ x) @ y))" by (simp add: rest lx add.commute)
    finally have es: "script_bytes es = drop (length (h @ x)) (E ((h @ x) @ y))" .
    let ?w' = "w\<lparr>sd_source := es, sd_reader := ?r\<lparr>sr_cipher := Some d'\<rparr>\<rparr>"
    have "stream_read_data lib remaining w = (Ready (Ok x), ?w')"
      using p data d d' by (simp add: stream_read_data_def Let_def)
    moreover have "stream_reading lib E seen key iv method ?w' y"
      unfolding stream_reading_def Let_def using base laws d' es st clean by auto
    moreover have "x \<noteq> []" using lx data by auto
    ultimately show ?thesis using rest poll_read_pendings p data(1)
      by (auto simp: stream_progress_def Let_def)
  qed
qed

lemma stream_read_exact_clean:
  assumes e: "stream_read_exact sz w = (p, w')" and clean: "clean_script (sd_source w)"
    and len: "length (sr_buffer (sd_reader w)) \<le> sz" "0 < sz" "length pkt = sz"
    and bytes: "sr_buffer (sd_reader w) @ script_bytes (sd_source w) = pkt @ rst"
  shows "\<exists>buf es. w' = w\<lparr>sd_reader := (sd_reader w)\<lparr>sr_buffer := buf\<rparr>, sd_source := es\<rparr> \<and> clean_script es \<and>
     (p = Pending \<and> script_pendings es < script_pendings (sd_source w) \<and> length buf \<le> sz \<and>
        buf @ script_bytes es = pkt @ rst \<or>
      p = Ready (Ok sz) \<and> script_pendings es = script_pendings (sd_source w) \<and> buf = pkt \<and> script_bytes es = rst)"
proof -
  obtain q buf es where q: "poll_read_exact sz (sr_buffer (sd_reader w)) (sd_source w) = (q, buf, es)"
    by (metis prod.collapse)
  from poll_read_exact_clean [OF q clean len bytes] show ?thesis
    by (intro exI [of _ buf] exI [of _ es]) (use e q in \<open>auto simp: stream_read_exact_def\<close>)
qed

lemma stream_poll_read_progress:
  assumes inv: "stream_reading lib E seen key iv method w rest" and cap: "0 < remaining"
  shows "stream_progress (stream_reading lib E seen key iv method) rest w
    (stream_poll_read lib rlib now remaining w)"
proof (cases "sr_state (sd_reader w)")
  case StreamRead
  then show ?thesis using stream_read_data_progress [OF inv cap] by (simp add: stream_poll_read_def)
next
  case (WaitIv k)
  let ?r = "sd_reader w" and ?n = "kind_iv_len method"
  from inv WaitIv have base: "clean_script (sd_source w)" "sr_method ?r = method" "\<not> kind_is_aead_2022 method"
      "replay_policy (sd_ctx w) \<noteq> PolicyReject" "k = key" "0 < ?n" "length iv = ?n" "length (sr_buffer ?r) \<le> ?n"
    and bytes: "sr_buffer ?r @ script_bytes (sd_source w) = iv @ E rest"
    and laws: "stream_laws lib (cipher_new lib method key iv) E seen"
    by (auto simp: stream_reading_def Let_def)
  obtain p w1 where e: "stream_read_exact ?n w = (p, w1)" by force
  from stream_read_exact_clean [OF e base(1,8,6,7) bytes] obtain buf es where
    w1: "w1 = w\<lparr>sd_reader := ?r\<lparr>sr_buffer := buf\<rparr>, sd_source := es\<rparr>" "clean_script es" and
    c: "p = Pending \<and> script_pendings es < script_pendings (sd_source w) \<and> length buf \<le> ?n \<and>
        buf @ script_bytes es = iv @ E rest \<or>
      p = Ready (Ok ?n) \<and> script_pendings es = script_pendings (sd_source w) \<and> buf = iv \<and> script_bytes es = E rest"
    by blast
  from c show ?thesis
  proof (elim disjE conjE)
    assume "p = Pending" "script_pendings es < script_pendings (sd_source w)" "length buf \<le> ?n"
      "buf @ script_bytes es = iv @ E rest"
    with w1 e base laws WaitIv show ?thesis
      by (simp add: stream_poll_read_def stream_read_iv_def Let_def stream_progress_def stream_reading_def)
  next
    assume *: "p = Ready (Ok ?n)" "script_pendings es = script_pendings (sd_source w)" "buf = iv" "script_bytes es = E rest"
    obtain ctx where ctx: "check_nonce_replay rlib (sd_ctx w) now method iv = (Ok (), ctx)"
      "replay_policy ctx = replay_policy (sd_ctx w)"
      using check_nonce_replay_lenient [OF base(3,4)] by blast
    let ?w' = "w1\<lparr>sd_ctx := ctx, sd_reader := ?r\<lparr>sr_iv := Some iv, sr_cipher := Some (cipher_new lib method key iv),
        sr_buffer := [], sr_state := StreamRead, sr_handshaked := True\<rparr>\<rparr>"
    have "stream_poll_read lib rlib now remaining w = stream_read_data lib remaining ?w'"
      using * e w1 base WaitIv ctx by (simp add: stream_poll_read_def stream_read_iv_def Let_def)
    moreover have "seen (cipher_new lib method key iv) []" using laws by (simp add: stream_laws_def)
    then have "stream_reading lib E seen key iv method ?w' rest"
      using * w1 base laws ctx by (auto simp: stream_reading_def Let_def intro!: exI [of _ "[]"])
    from stream_read_data_progress [OF this cap]
    have "stream_progress (stream_reading lib E seen key iv method) rest ?w' (stream_read_data lib remaining ?w')"
      by simp
    ultimately show ?thesis using * w1 by (simp add: stream_progress_def)
  qed
qed

fun stream_read_run ::
    "('c, 'z) cipher_lib_scheme \<Rightarrow> ('b, 's, 'y) replay_lib_scheme \<Rightarrow> nat \<Rightarrow> nat list \<Rightarrow> ('c, 'b, 's) stream_rd
     \<Rightarrow> bytes \<times> (unit, stream_error) outcome" where
  "stream_read_run lib rlib now [] w = ([], Ok ())"
| "stream_read_run lib rlib now (k # ks) w =
     (case stream_poll_read lib rlib now k w of
        (Pending, w) \<Rightarrow> stream_read_run lib rlib now ks w
      | (Ready (Ok d), w) \<Rightarrow> (let (ds, r) = stream_read_run lib rlib now ks w in (d @ ds, r))
      | (Ready (Err e), w) \<Rightarrow> ([], Err e)
      | (Ready Panic, w) \<Rightarrow> ([], Panic))"

lemma stream_read_run_progress:
  "stream_reading lib E seen key iv method w rest \<Longrightarrow> \<forall>k \<in> set ks. 0 < k \<Longrightarrow>
    \<exists>out rest'. stream_read_run lib rlib now ks w = (out, Ok ()) \<and> rest = out @ rest' \<and>
      (script_pendings (sd_source w) + length rest \<le> length ks \<longrightarrow> rest' = [])"
proof (induction ks arbitrary: w rest)
  case Nil
  then show ?case by simp
next
  case (Cons k ks)
  obtain p w1 where p: "stream_poll_read lib rlib now k w = (p, w1)" by force
  have "0 < k" using Cons.prems(2) by simp
  from stream_poll_read_progress [OF Cons.prems(1) this, of rlib now]
  have prog: "stream_progress (stream_reading lib E seen key iv method) rest w (p, w1)" by (simp add: p)
  have ks: "\<forall>k \<in> set ks. 0 < k" using Cons.prems(2) by simp
  show ?case
  proof (cases p)
    case Pending
    then have "stream_reading lib E seen key iv method w1 rest"
      "script_pendings (sd_source w1) < script_pendings (sd_source w)"
      using prog by (simp_all add: stream_progress_def)
    with Cons.IH [of w1 rest] ks show ?thesis by (auto simp: p Pending)
  next
    case (Ready r)
    then obtain d rest1 where r: "r = Ok d" and d: "rest = d @ rest1" "stream_reading lib E seen key iv method w1 rest1"
      "script_pendings (sd_source w1) \<le> script_pendings (sd_source w)" "d = [] \<longrightarrow> rest = []"
      using prog by (cases r) (auto simp: stream_progress_def)
    from Cons.IH [OF d(2) ks] obtain out rest' where out: "stream_read_run lib rlib now ks w1 = (out, Ok ())"
      "rest1 = out @ rest'" "script_pendings (sd_source w1) + length rest1 \<le> length ks \<longrightarrow> rest' = []" by blast
    have "rest' = []" if "script_pendings (sd_source w) + length rest \<le> length (k # ks)"
    proof (cases d)
      case Nil
      then show ?thesis using d out by simp
    next
      case Cons
      then show ?thesis using d out that by auto
    qed
    then show ?thesis using d out by (auto simp: p Ready r)
  qed
qed

section \<open>Properties\<close>

text \<open>C25: With a stream cipher, the reader returns the plaintext in order from any fragmentation of
  the IV and the ciphertext, never fails, and is done after at most as many polls as there are
  pauses and bytes.\<close>

theorem stream_tunnel_delivers:
  assumes "stream_laws lib (cipher_new lib method key iv) E seen" "\<not> kind_is_aead_2022 method"
    and "0 < kind_iv_len method" "length iv = kind_iv_len method" "replay_policy ctx \<noteq> PolicyReject"
    and "clean_script es" "script_bytes es = iv @ E text" "\<forall>k \<in> set caps. 0 < k"
  shows "\<exists>out rest. stream_read_run lib rlib now caps
      \<lparr>sd_reader = stream_reader_new lib method key, sd_source = es, sd_ctx = ctx\<rparr> = (out, Ok ()) \<and>
    text = out @ rest \<and> (script_pendings es + length text \<le> length caps \<longrightarrow> out = text)"
proof -
  have "stream_reading lib E seen key iv method
      \<lparr>sd_reader = stream_reader_new lib method key, sd_source = es, sd_ctx = ctx\<rparr> text"
    using assms by (simp add: stream_reading_def stream_reader_new_def)
  from stream_read_run_progress [OF this assms(8)] show ?thesis by fastforce
qed

text \<open>A cipher that adds its position to each byte.\<close>

definition shift_lib :: "nat cipher_lib" where
  "shift_lib = \<lparr>cipher_new = \<lambda>method key salt. 0, cipher_tag_len = \<lambda>n. 0,
     cipher_encrypt = (\<lambda>n buf. (map (\<lambda>i. buf ! i + of_nat (n + i)) [0..<length buf], n + length buf)),
     cipher_decrypt = (\<lambda>n buf. (True, map (\<lambda>i. buf ! i - of_nat (n + i)) [0..<length buf], n + length buf))\<rparr>"

lemma shift_laws:
  "stream_laws shift_lib 0 (\<lambda>x. map (\<lambda>i. x ! i + of_nat i) [0..<length x]) (\<lambda>d h. d = length h)"
  unfolding stream_laws_def
  by (auto simp: shift_lib_def intro!: nth_equalityI simp: nth_append)

definition sample_stream_kind :: cipher_kind where
  "sample_stream_kind = \<lparr>kind_category = CatStream, kind_is_aead_2022 = False, kind_key_len = 4,
     kind_salt_len = 0, kind_iv_len = 2, kind_tag_len = 0\<rparr>"

theorem stream_tunnel_delivers_witness:
  "\<exists>out rest. stream_read_run shift_lib exact_lib 7 [4, 4, 4]
      \<lparr>sd_reader = stream_reader_new shift_lib sample_stream_kind [],
       sd_source = [RdData [9], RdData [9, 5], RdData [7]], sd_ctx = context_new exact_lib Server\<rparr> = (out, Ok ()) \<and>
    [5, 6] = out @ rest \<and>
    (script_pendings [RdData [9], RdData [9, 5], RdData [7]] + length [5, 6 :: u8] \<le> length [4, 4, 4 :: nat] \<longrightarrow> out = [5, 6])"
proof (rule stream_tunnel_delivers [where iv = "[9, 9]"])
  show "stream_laws shift_lib (cipher_new shift_lib sample_stream_kind [] [9, 9])
      (\<lambda>x. map (\<lambda>i. x ! i + of_nat i) [0..<length x]) (\<lambda>d h. d = length h)"
    using shift_laws by (simp add: shift_lib_def)
qed (simp_all add: sample_stream_kind_def context_new_def)

end
