(* ===== verification/Udp_Packet.thy ===== *)
theory Udp_Packet
  imports Socks5 Cipher Tcp_Stream
begin

text \<open>
  The datagrams of \<open>crates/shadowsocks/src/relay/udprelay\<close> under AEAD ciphers (\<open>aead.rs\<close>) and stream
  ciphers (\<open>stream.rs\<close>): a salt or IV, then the encrypted target address and payload.

  An encoder appends to a buffer \<open>dst\<close>; a decoder works in place on the datagram and returns the
  buffer it leaves together with its result. \<open>mem\<close> is what the allocation holds where
  \<open>advance_mut\<close> claims bytes without writing them, and \<open>draw\<close> is the random salt.
\<close>

section \<open>Buffers\<close>

text \<open>\<open>BytesMut::resize\<close>, and \<open>slice::copy_within(s..e, 0)\<close> for a range inside the slice.\<close>

definition buf_resize :: "nat \<Rightarrow> u8 \<Rightarrow> bytes \<Rightarrow> bytes" where
  "buf_resize n b buf = take n buf @ replicate (n - length buf) b"

definition copy_to_front :: "nat \<Rightarrow> nat \<Rightarrow> bytes \<Rightarrow> bytes" where
  "copy_to_front s e buf = take (e - s) (drop s buf) @ drop (e - s) buf"

text \<open>
  \<open>context.generate_nonce(method, &mut dst[..n], false)\<close>: with \<open>unique\<close> false the first draw is
  taken, and the context is not changed.
\<close>

definition fill_nonce ::
    "('b, 's, 'z) replay_lib_scheme \<Rightarrow> ('b, 's) ss_context \<Rightarrow> cipher_kind \<Rightarrow> nat \<Rightarrow> bytes \<Rightarrow> bytes \<Rightarrow> bytes" where
  "fill_nonce rlib ctx method n draw buf =
     (case generate_nonce rlib ctx method n False [(0, draw)] of
        Some (nonce, _) \<Rightarrow> nonce @ drop n buf
      | None \<Rightarrow> buf)"

lemma fill_nonce [simp]: "length draw = n \<Longrightarrow> fill_nonce rlib ctx method n draw buf = draw @ drop n buf"
  by (cases n) (simp_all add: fill_nonce_def)

lemma length_copy_to_front: "s \<le> e \<Longrightarrow> e \<le> length buf \<Longrightarrow> length (copy_to_front s e buf) = length buf"
  by (simp add: copy_to_front_def)

lemma copy_to_front_append:
  "copy_to_front (length p) (length p + length q) (p @ q @ r) = q @ drop (length q) (p @ q @ r)"
  by (simp add: copy_to_front_def)

lemma take_copy_to_front:
  "s \<le> e \<Longrightarrow> e \<le> length buf \<Longrightarrow> take (e - s) (copy_to_front s e buf) = take (e - s) (drop s buf)"
  by (simp add: copy_to_front_def)

section \<open>AEAD datagrams\<close>

datatype udp_aead_error =
    PacketTooShortForSalt nat nat
  | PacketTooShortForTag nat nat
  | AeadInvalidAddress error
  | DecryptPayloadError

definition encrypt_payload_aead ::
    "('b, 's, 'z) replay_lib_scheme \<Rightarrow> ('c, 'y) cipher_lib_scheme \<Rightarrow> (nat \<Rightarrow> u8) \<Rightarrow> ('b, 's) ss_context
     \<Rightarrow> cipher_kind \<Rightarrow> bytes \<Rightarrow> address \<Rightarrow> bytes \<Rightarrow> bytes \<Rightarrow> bytes \<Rightarrow> (bytes, unit) outcome" where
  "encrypt_payload_aead rlib lib mem ctx method key addr payload draw dst =
     (let salt_len = kind_salt_len method;
          dst = buf_resize salt_len 0 dst;
          dst = (if salt_len > 0 then fill_nonce rlib ctx method salt_len draw dst else dst);
          cipher = cipher_new lib method key (take salt_len dst)
      in and_then (address_write_to_buf addr) (\<lambda>addr_bytes.
           let dst = dst @ addr_bytes;
               dst = dst @ payload;
               dst = dst @ map mem [0..<kind_tag_len method];
               (m, cipher) = cipher_encrypt lib cipher (drop salt_len dst)
           in Ok (take salt_len dst @ m)))"

definition udp_parse_packet :: "bytes \<Rightarrow> (nat \<times> address, error) outcome" where
  "udp_parse_packet buf =
     and_then (address_read_cursor (buf, 0)) (\<lambda>(addr, cur). Ok (snd cur, addr))"

definition decrypt_payload_aead ::
    "('c, 'y) cipher_lib_scheme \<Rightarrow> cipher_kind \<Rightarrow> bytes \<Rightarrow> bytes
     \<Rightarrow> (nat \<times> address, udp_aead_error) outcome \<times> bytes" where
  "decrypt_payload_aead lib method key payload =
     (let plen = length payload; salt_len = kind_salt_len method in
      if plen < salt_len then (Err (PacketTooShortForSalt salt_len plen), payload)
      else
        let salt = take salt_len payload; data = drop salt_len payload;
            cipher = cipher_new lib method key salt;
            tag_len = cipher_tag_len lib cipher
        in if length data < tag_len then (Err (PacketTooShortForTag tag_len (length data)), payload)
           else
             let (ok, data, cipher) = cipher_decrypt lib cipher data;
                 payload = salt @ data
             in if \<not> ok then (Err DecryptPayloadError, payload)
                else
                  let data_len = length data - tag_len in
                  case map_err AeadInvalidAddress (udp_parse_packet (take data_len data)) of
                    Ok (dn, addr) \<Rightarrow>
                      let data_length = data_len - dn;
                          data_start_idx = salt_len + dn;
                          data_end_idx = data_start_idx + data_length
                      in (Ok (data_length, addr), copy_to_front data_start_idx data_end_idx payload)
                  | Err e \<Rightarrow> (Err e, payload)
                  | Panic \<Rightarrow> (Panic, payload))"

section \<open>Stream datagrams\<close>

datatype udp_stream_error = PacketTooShort nat nat | StreamInvalidAddress error

definition encrypt_payload_stream ::
    "('b, 's, 'z) replay_lib_scheme \<Rightarrow> ('c, 'y) cipher_lib_scheme \<Rightarrow> ('b, 's) ss_context
     \<Rightarrow> cipher_kind \<Rightarrow> bytes \<Rightarrow> address \<Rightarrow> bytes \<Rightarrow> bytes \<Rightarrow> bytes \<Rightarrow> (bytes, unit) outcome" where
  "encrypt_payload_stream rlib lib ctx method key addr payload draw dst =
     (let iv_len = kind_iv_len method;
          dst = buf_resize iv_len 0 dst;
          dst = (if iv_len > 0 then fill_nonce rlib ctx method iv_len draw dst else dst);
          cipher = cipher_new lib method key (take iv_len dst)
      in and_then (address_write_to_buf addr) (\<lambda>addr_bytes.
           let dst = dst @ addr_bytes;
               dst = dst @ payload;
               (m, cipher) = cipher_encrypt lib cipher (drop iv_len dst)
           in Ok (take iv_len dst @ m)))"

text \<open>The result of decryption is asserted, so a datagram that fails to decrypt would be a panic.\<close>

definition decrypt_payload_stream ::
    "('c, 'y) cipher_lib_scheme \<Rightarrow> cipher_kind \<Rightarrow> bytes \<Rightarrow> bytes
     \<Rightarrow> (nat \<times> address, udp_stream_error) outcome \<times> bytes" where
  "decrypt_payload_stream lib method key payload =
     (let plen = length payload; iv_len = kind_iv_len method in
      if plen < iv_len then (Err (PacketTooShort iv_len plen), payload)
      else
        let iv = take iv_len payload; data = drop iv_len payload;
            cipher = cipher_new lib method key iv;
            (ok, data, cipher) = cipher_decrypt lib cipher data;
            payload = iv @ data
        in if \<not> ok then (Panic, payload)
           else case map_err StreamInvalidAddress (udp_parse_packet data) of
                  Ok (dn, addr) \<Rightarrow>
                    let data_start_idx = iv_len + dn;
                        data_length = length payload - data_start_idx
                    in (Ok (data_length, addr), copy_to_front data_start_idx (length payload) payload)
                | Err e \<Rightarrow> (Err e, payload)
                | Panic \<Rightarrow> (Panic, payload))"

section \<open>What the decoders accept\<close>

abbreviation encoded_address :: "address \<Rightarrow> bytes \<Rightarrow> bool" where
  "encoded_address a bs \<equiv> address_write_to_buf a = (Ok bs :: (bytes, unit) outcome)"

lemma udp_parse_packet_write:
  assumes "wf_address a" "encoded_address a bs"
  shows "udp_parse_packet (bs @ rest) = Ok (length bs, a)"
  using address_read_cursor_write [OF assms, of "(bs @ rest, 0)" rest]
  by (simp add: udp_parse_packet_def cur_rest_def)

lemma udp_parse_packet_Ok_iff:
  "udp_parse_packet buf = Ok (dn, a) \<longleftrightarrow>
     wf_address a \<and> (\<exists>bs rest. encoded_address a bs \<and> buf = bs @ rest \<and> dn = length bs)"
proof
  assume "udp_parse_packet buf = Ok (dn, a)"
  then obtain c' where "address_read_cursor (buf, 0) = Ok (a, c')" "snd c' = dn"
    by (auto simp: udp_parse_packet_def outcome_simps)
  from address_read_cursor_canonical [OF this(1)] this(2)
  show "wf_address a \<and> (\<exists>bs rest. encoded_address a bs \<and> buf = bs @ rest \<and> dn = length bs)"
    by (metis cur_adv_proj(2) cur_rest_def drop0 fst_conv snd_conv add_0)
qed (auto simp: udp_parse_packet_write)

lemma udp_parse_packet_Panic:
  "udp_parse_packet buf = Panic \<longleftrightarrow>
     (\<exists>l q. buf = 0x03 # l # q \<and> unat l \<le> length q \<and> length q < unat l + 2)"
  by (simp add: udp_parse_packet_def outcome_simps address_read_cursor_Panic cur_rest_def split_beta)

lemma decrypt_payload_aead_Ok:
  assumes "length salt = kind_salt_len method" "cipher_tag_len lib (cipher_new lib method key salt) = length tag"
    and "length tag \<le> length ct"
    and "cipher_decrypt lib (cipher_new lib method key salt) ct = (True, ab @ payload @ tag, c')"
    and "wf_address addr" "encoded_address addr ab"
  shows "decrypt_payload_aead lib method key (salt @ ct) =
    (Ok (length payload, addr), payload @ drop (length payload) (salt @ ab @ payload @ tag))"
  using assms udp_parse_packet_write [OF assms(5,6), of payload]
  by (simp add: decrypt_payload_aead_def copy_to_front_def Let_def add.commute)

lemma decrypt_payload_stream_Ok:
  assumes "length iv = kind_iv_len method"
    and "cipher_decrypt lib (cipher_new lib method key iv) ct = (True, ab @ payload, c')"
    and "wf_address addr" "encoded_address addr ab"
  shows "decrypt_payload_stream lib method key (iv @ ct) =
    (Ok (length payload, addr), payload @ drop (length payload) (iv @ ab @ payload))"
  using assms udp_parse_packet_write [OF assms(3,4), of payload]
  by (simp add: decrypt_payload_stream_def copy_to_front_def Let_def)

text \<open>In Rust a packet is decrypted in place: the slice keeps its length.\<close>

definition cipher_in_place :: "('c, 'z) cipher_lib_scheme \<Rightarrow> bool" where
  "cipher_in_place lib \<longleftrightarrow> (\<forall>c buf ok out c'. cipher_decrypt lib c buf = (ok, out, c') \<longrightarrow> length out = length buf)"

lemma decrypt_payload_aead_accepts:
  assumes "cipher_in_place lib" "decrypt_payload_aead lib method key dgram = (Ok (n, addr), buf)"
  obtains salt ct ab payload tag c' where "dgram = salt @ ct" "length salt = kind_salt_len method"
    "cipher_decrypt lib (cipher_new lib method key salt) ct = (True, ab @ payload @ tag, c')"
    "length tag = cipher_tag_len lib (cipher_new lib method key salt)" "length tag \<le> length ct"
    "wf_address addr" "encoded_address addr ab" "n = length payload" "take n buf = payload"
    "length buf = length dgram"
proof -
  let ?sl = "kind_salt_len method"
  let ?salt = "take ?sl dgram" and ?ct = "drop ?sl dgram"
  let ?c = "cipher_new lib method key ?salt"
  let ?t = "cipher_tag_len lib ?c"
  obtain ok data c' where d: "cipher_decrypt lib ?c ?ct = (ok, data, c')" by (cases "cipher_decrypt lib ?c ?ct")
  have ld: "length data = length ?ct" using assms(1) d unfolding cipher_in_place_def by blast
  from assms(2) d have g: "\<not> length dgram < ?sl" "\<not> length ?ct < ?t" ok
    by (auto simp: decrypt_payload_aead_def Let_def split: if_splits)
  from assms(2) d g obtain dn where p: "udp_parse_packet (take (length data - ?t) data) = Ok (dn, addr)"
    and r: "n = length data - ?t - dn" "buf = copy_to_front (?sl + dn) (?sl + dn + n) (?salt @ data)"
    by (auto simp: decrypt_payload_aead_def Let_def split: outcome.splits)
        (auto simp: outcome_simps)
  from p obtain ab payload where w: "wf_address addr" "encoded_address addr ab" "dn = length ab"
    and e: "take (length data - ?t) data = ab @ payload"
    unfolding udp_parse_packet_Ok_iff by blast
  define tag where "tag = drop (length data - ?t) data"
  have dt: "data = ab @ payload @ tag" using e unfolding tag_def by (metis append_assoc append_take_drop_id)
  have lt: "length tag = ?t" using ld g(2) by (simp add: tag_def)
  have n: "n = length payload" using r(1) dt lt w(3) by simp
  have "take n buf = payload" using r dt w(3) g(1) n by (simp add: copy_to_front_def)
  moreover have "length buf = length dgram"
    using r dt w(3) g(1) ld n by (simp add: copy_to_front_def)
  ultimately show ?thesis
    using that [of ?salt ?ct ab payload tag c'] g d dt lt w n by simp
qed


lemma encrypt_payload_aead_Ok:
  assumes "length draw = kind_salt_len method" "encoded_address addr ab"
    and "cipher_encrypt lib (cipher_new lib method key draw) (ab @ payload @ map mem [0..<kind_tag_len method]) = (ct, c')"
  shows "encrypt_payload_aead rlib lib mem ctx method key addr payload draw [] = Ok (draw @ ct)"
  using assms by (cases "kind_salt_len method") (simp_all add: encrypt_payload_aead_def buf_resize_def Let_def)

lemma encrypt_payload_stream_Ok:
  assumes "length draw = kind_iv_len method" "encoded_address addr ab"
    and "cipher_encrypt lib (cipher_new lib method key draw) (ab @ payload) = (ct, c')"
  shows "encrypt_payload_stream rlib lib ctx method key addr payload draw [] = Ok (draw @ ct)"
  using assms by (cases "kind_iv_len method") (simp_all add: encrypt_payload_stream_def buf_resize_def Let_def)

lemma udp_aead_roundtrip:
  assumes "cipher_laws lib method R" "length draw = kind_salt_len method" "wf_address addr"
    and "encrypt_payload_aead rlib lib mem ctx method key addr payload draw [] = Ok dgram"
  shows "\<exists>buf. decrypt_payload_aead lib method key dgram = (Ok (length payload, addr), buf) \<and>
    take (length payload) buf = payload"
proof -
  from address_write_total [OF assms(3)] obtain ab where ab: "encoded_address addr ab" ..
  let ?c = "cipher_new lib method key draw" and ?m = "map mem [0..<kind_tag_len method]"
  obtain ct c' where e: "cipher_encrypt lib ?c ((ab @ payload) @ ?m) = (ct, c')"
    by (cases "cipher_encrypt lib ?c ((ab @ payload) @ ?m)")
  have r: "R ?c ?c" using cipher_laws_new [OF assms(1)] .
  have lm: "length ?m = kind_tag_len method" by simp
  obtain tag d' where
    d: "length ct = length (ab @ payload) + kind_tag_len method"
      "cipher_decrypt lib ?c ct = (True, (ab @ payload) @ tag, d')" "length tag = kind_tag_len method"
    by (rule cipher_laws_packet [OF assms(1) r lm e])
  have "dgram = draw @ ct"
    using encrypt_payload_aead_Ok [OF assms(2) ab, of lib key payload mem ct c' rlib ctx] e assms(4) by simp
  moreover have "decrypt_payload_aead lib method key (draw @ ct) =
      (Ok (length payload, addr), payload @ drop (length payload) (draw @ ab @ payload @ tag))"
    using d cipher_laws_tag(2) [OF assms(1) r]
    by (intro decrypt_payload_aead_Ok [OF assms(2) _ _ _ assms(3) ab]) simp_all
  ultimately show ?thesis by simp
qed

lemma udp_stream_roundtrip:
  assumes "cipher_laws lib method R" "kind_tag_len method = 0" "length draw = kind_iv_len method" "wf_address addr"
    and "encrypt_payload_stream rlib lib ctx method key addr payload draw [] = Ok dgram"
  shows "\<exists>buf. decrypt_payload_stream lib method key dgram = (Ok (length payload, addr), buf) \<and>
    take (length payload) buf = payload"
proof -
  from address_write_total [OF assms(4)] obtain ab where ab: "encoded_address addr ab" ..
  let ?c = "cipher_new lib method key draw"
  obtain ct c' where e: "cipher_encrypt lib ?c ((ab @ payload) @ []) = (ct, c')"
    by (cases "cipher_encrypt lib ?c ((ab @ payload) @ [])")
  have l0: "length [] = kind_tag_len method" using assms(2) by simp
  obtain d' where d: "cipher_decrypt lib ?c ct = (True, ab @ payload, d')"
    by (rule cipher_laws_packet [OF assms(1) cipher_laws_new [OF assms(1)] l0 e]) (use assms(2) in simp)
  have "dgram = draw @ ct"
    using encrypt_payload_stream_Ok [OF assms(3) ab, of lib key payload ct c' rlib ctx] e assms(5) by simp
  with decrypt_payload_stream_Ok [OF assms(3) d assms(4) ab] show ?thesis by simp
qed

lemma decrypt_payload_aead_exact:
  assumes "cipher_in_place lib"
  shows "(\<exists>buf. decrypt_payload_aead lib method key dgram = (Ok (length payload, addr), buf) \<and>
      take (length payload) buf = payload) \<longleftrightarrow>
    wf_address addr \<and> (\<exists>salt ct ab tag c'. dgram = salt @ ct \<and> length salt = kind_salt_len method \<and>
      length tag = cipher_tag_len lib (cipher_new lib method key salt) \<and>
      cipher_decrypt lib (cipher_new lib method key salt) ct = (True, ab @ payload @ tag, c') \<and>
      encoded_address addr ab)" (is "?l \<longleftrightarrow> ?r")
proof
  assume ?l
  then obtain buf where b: "decrypt_payload_aead lib method key dgram = (Ok (length payload, addr), buf)"
    "take (length payload) buf = payload" by blast
  obtain salt ct ab p tag c' where r: "dgram = salt @ ct" "length salt = kind_salt_len method"
    "cipher_decrypt lib (cipher_new lib method key salt) ct = (True, ab @ p @ tag, c')"
    "length tag = cipher_tag_len lib (cipher_new lib method key salt)"
    "wf_address addr" "encoded_address addr ab" "take (length payload) buf = p"
    by (rule decrypt_payload_aead_accepts [OF assms b(1)])
  from r(7) b(2) have "p = payload" by simp
  then show ?r
    by (intro conjI exI [of _ salt] exI [of _ ct] exI [of _ ab] exI [of _ tag] exI [of _ c']) (use r in simp_all)
next
  assume ?r
  then obtain salt ct ab tag c' where r: "wf_address addr" "dgram = salt @ ct" "length salt = kind_salt_len method"
      "length tag = cipher_tag_len lib (cipher_new lib method key salt)"
      "cipher_decrypt lib (cipher_new lib method key salt) ct = (True, ab @ payload @ tag, c')"
      "encoded_address addr ab" by blast
  have "length (ab @ payload @ tag) = length ct"
    using assms r(5) unfolding cipher_in_place_def by blast
  then have "length tag \<le> length ct" by simp
  from decrypt_payload_aead_Ok [OF r(3) r(4) [symmetric] this r(5,1,6)] show ?l by (simp add: r(2))
qed

section \<open>Properties\<close>

text \<open>An AEAD datagram is accepted exactly when it is a salt followed by what decrypts, under the key
  and that salt, to the encoding of a representable address, the payload and a tag; the payload is
  then at the front of the buffer.\<close>

theorem udp_aead_accepts_exactly:
  assumes "cipher_in_place lib"
  shows "(\<exists>buf. decrypt_payload_aead lib method key dgram = (Ok (length payload, addr), buf) \<and>
      take (length payload) buf = payload) \<longleftrightarrow>
    wf_address addr \<and> (\<exists>salt ct ab tag c'. dgram = salt @ ct \<and> length salt = kind_salt_len method \<and>
      length tag = cipher_tag_len lib (cipher_new lib method key salt) \<and>
      cipher_decrypt lib (cipher_new lib method key salt) ct = (True, ab @ payload @ tag, c') \<and>
      encoded_address addr ab)"
  using decrypt_payload_aead_exact [OF assms] .

theorem udp_aead_accepts_exactly_witness:
  "(\<exists>buf. decrypt_payload_aead counter_lib sample_aead_kind [] [7, 7, 3, 1, 97, 0, 80, 5, 0] =
        (Ok (length [5 :: u8], DomainNameAddress ''a'' 80), buf) \<and> take (length [5 :: u8]) buf = [5]) \<longleftrightarrow>
    wf_address (DomainNameAddress ''a'' 80) \<and>
    (\<exists>salt ct ab tag c'. [7, 7, 3, 1, 97, 0, 80, 5, 0] = salt @ ct \<and> length salt = kind_salt_len sample_aead_kind \<and>
      length tag = cipher_tag_len counter_lib (cipher_new counter_lib sample_aead_kind [] salt) \<and>
      cipher_decrypt counter_lib (cipher_new counter_lib sample_aead_kind [] salt) ct = (True, ab @ [5] @ tag, c') \<and>
      encoded_address (DomainNameAddress ''a'' 80) ab)"
  by (rule udp_aead_accepts_exactly) (auto simp: cipher_in_place_def counter_lib_def)

end
