(* ===== verification/Net_Text.thy ===== *)
theory Net_Text
  imports Net_Addr
begin

text \<open>
  The text forms of the Rust standard library that configurations and access lists are written in:
  \<open>parse\<close> and \<open>Display\<close> of unsigned integers, IP addresses and socket addresses, following the
  recursive-descent parser of \<open>core::net\<close>, and the string splitting functions. What \<open>Display\<close> prints
  of numbers and IPv4 addresses is read back.
\<close>


section \<open>Splitting and trimming strings\<close>

text \<open>\<open>str::split(c)\<close>, of which \<open>rsplit\<close> is the reverse, and \<open>str::splitn(2, c)\<close> as a pair.\<close>

fun split_on :: "char \<Rightarrow> string \<Rightarrow> string list" where
  "split_on c [] = [[]]"
| "split_on c (x # xs) =
     (if x = c then [] # split_on c xs
      else (case split_on c xs of [] \<Rightarrow> [[x]] | p # ps \<Rightarrow> (x # p) # ps))"

fun split_once :: "char \<Rightarrow> string \<Rightarrow> string \<times> string option" where
  "split_once c [] = ([], None)"
| "split_once c (x # xs) = (if x = c then ([], Some xs) else (let (p, q) = split_once c xs in (x # p, q)))"

fun join_with :: "char \<Rightarrow> string list \<Rightarrow> string" where
  "join_with c [] = []"
| "join_with c [p] = p"
| "join_with c (p # ps) = p @ [c] @ join_with c ps"

text \<open>
  The UTF-8 encodings of the characters with the Unicode property \<open>White_Space\<close>, and \<open>str::trim\<close>:
  an encoded character is removed as long as there is one at either end.
\<close>

definition whitespace_chars :: "bytes list" where
  "whitespace_chars = [[0x09], [0x0A], [0x0B], [0x0C], [0x0D], [0x20], [0xC2, 0x85], [0xC2, 0xA0],
     [0xE1, 0x9A, 0x80], [0xE2, 0x80, 0x80], [0xE2, 0x80, 0x81], [0xE2, 0x80, 0x82], [0xE2, 0x80, 0x83],
     [0xE2, 0x80, 0x84], [0xE2, 0x80, 0x85], [0xE2, 0x80, 0x86], [0xE2, 0x80, 0x87], [0xE2, 0x80, 0x88],
     [0xE2, 0x80, 0x89], [0xE2, 0x80, 0x8A], [0xE2, 0x80, 0xA8], [0xE2, 0x80, 0xA9], [0xE2, 0x80, 0xAF],
     [0xE2, 0x81, 0x9F], [0xE3, 0x80, 0x80]]"

fun strip_front :: "bytes list \<Rightarrow> bytes \<Rightarrow> bytes" where
  "strip_front ws [] = []"
| "strip_front ws (b # bs) =
     (case List.find (\<lambda>w. w \<noteq> [] \<and> take (length w) (b # bs) = w) ws of
        None \<Rightarrow> b # bs
      | Some w \<Rightarrow> strip_front ws (drop (length w - 1) bs))"

definition trim_bytes :: "bytes \<Rightarrow> bytes" where
  "trim_bytes bs = rev (strip_front (map rev whitespace_chars) (rev (strip_front whitespace_chars bs)))"

definition trim_str :: "string \<Rightarrow> string" where
  "trim_str s = of_bytes (trim_bytes (as_bytes s))"

lemma split_on_ne [simp]: "split_on c s \<noteq> []"
  by (induction s) (auto split: list.splits)

lemma split_on_append: "c \<notin> set p \<Longrightarrow> split_on c (p @ c # s) = p # split_on c s"
  by (induction p) auto

lemma split_on_none: "c \<notin> set p \<Longrightarrow> split_on c p = [p]"
  by (induction p) auto

lemma split_on_join: "ps \<noteq> [] \<Longrightarrow> \<forall>p \<in> set ps. c \<notin> set p \<Longrightarrow> split_on c (join_with c ps) = ps"
  by (induction c ps rule: join_with.induct) (simp_all add: split_on_append split_on_none)

lemma split_once_append: "c \<notin> set p \<Longrightarrow> split_once c (p @ c # s) = (p, Some s)"
  by (induction p) auto

section \<open>Numbers\<close>

text \<open>\<open>char::to_digit(radix)\<close> and the \<open>Display\<close> of unsigned integers, in base 10 and 16.\<close>

definition to_digit :: "nat \<Rightarrow> char \<Rightarrow> nat option" where
  "to_digit radix c =
     (let n = of_char c :: nat;
          d = (if 48 \<le> n \<and> n \<le> 57 then n - 48
               else if 97 \<le> n \<and> n \<le> 122 then n - 87
               else if 65 \<le> n \<and> n \<le> 90 then n - 55 else radix)
      in if d < radix then Some d else None)"

definition digit_char :: "nat \<Rightarrow> char" where
  "digit_char d = char_of (if d < 10 then 48 + d else 87 + d)"

fun show_base :: "nat \<Rightarrow> nat \<Rightarrow> string" where
  "show_base b n = (if b \<le> 1 \<or> n < b then [digit_char n] else show_base b (n div b) @ [digit_char (n mod b)])"

declare show_base.simps [simp del]

abbreviation show_dec :: "nat \<Rightarrow> string" where "show_dec \<equiv> show_base 10"

lemma to_digit_char [simp]: "d < radix \<Longrightarrow> radix \<le> 16 \<Longrightarrow> to_digit radix (digit_char d) = Some d"
  by (simp add: to_digit_def digit_char_def Let_def)

lemma to_digit_less: "to_digit radix c = Some d \<Longrightarrow> d < radix"
  by (auto simp: to_digit_def Let_def split: if_splits)

section \<open>The parser of \<open>core::net\<close>\<close>

text \<open>
  A parser takes the input that is left and returns a value with the new rest, or \<open>None\<close>, in which
  case the caller keeps its input (\<open>read_atomically\<close>).
\<close>

type_synonym 'a text_parser = "string \<Rightarrow> ('a \<times> string) option"

definition read_given_char :: "char \<Rightarrow> unit text_parser" where
  "read_given_char c s = (case s of [] \<Rightarrow> None | x # r \<Rightarrow> if x = c then Some ((), r) else None)"

text \<open>\<open>read_separator\<close>: the separator comes before every element but the first.\<close>

definition read_separator :: "char \<Rightarrow> nat \<Rightarrow> 'a text_parser \<Rightarrow> 'a text_parser" where
  "read_separator sep index p s =
     (if index > 0 then Option.bind (read_given_char sep s) (\<lambda>(_, s). p s) else p s)"

text \<open>
  \<open>read_number\<close> for an integer type with values below \<open>bound\<close>: digits are read as long as there
  are any; too many digits, a value out of range or a leading zero that is not allowed fail.
\<close>

fun read_digits :: "nat \<Rightarrow> nat \<Rightarrow> nat option \<Rightarrow> nat \<Rightarrow> nat \<Rightarrow> (nat \<times> nat) text_parser" where
  "read_digits radix bound max_digits res cnt [] = Some ((res, cnt), [])"
| "read_digits radix bound max_digits res cnt (c # s) =
     (case to_digit radix c of
        None \<Rightarrow> Some ((res, cnt), c # s)
      | Some d \<Rightarrow>
          if bound \<le> res * radix \<or> bound \<le> res * radix + d then None
          else if (case max_digits of None \<Rightarrow> False | Some m \<Rightarrow> m < Suc cnt) then None
          else read_digits radix bound max_digits (res * radix + d) (Suc cnt) s)"

definition read_number :: "nat \<Rightarrow> nat \<Rightarrow> nat option \<Rightarrow> bool \<Rightarrow> nat text_parser" where
  "read_number radix bound max_digits allow_zero_prefix s =
     (let has_leading_zero = (case s of [] \<Rightarrow> False | c # _ \<Rightarrow> c = CHR ''0'') in
      case read_digits radix bound max_digits 0 0 s of
        None \<Rightarrow> None
      | Some ((res, cnt), s) \<Rightarrow>
          if cnt = 0 then None
          else if \<not> allow_zero_prefix \<and> has_leading_zero \<and> cnt > 1 then None
          else Some (res, s))"

definition read_octet :: "nat \<Rightarrow> nat text_parser" where
  "read_octet i = read_separator CHR ''.'' i (read_number 10 256 (Some 3) False)"

definition read_ipv4_addr :: "ipv4_addr text_parser" where
  "read_ipv4_addr s =
     Option.bind (read_octet 0 s) (\<lambda>(a, s). Option.bind (read_octet 1 s) (\<lambda>(b, s).
     Option.bind (read_octet 2 s) (\<lambda>(c, s). Option.bind (read_octet 3 s) (\<lambda>(d, s).
       Some (ipv4_new (of_nat a) (of_nat b) (of_nat c) (of_nat d), s)))))"

text \<open>
  \<open>read_groups\<close> for \<open>limit\<close> groups, of which \<open>i\<close> are read: the groups, and whether the last two
  came from an embedded IPv4 address.
\<close>

function read_groups :: "nat \<Rightarrow> nat \<Rightarrow> string \<Rightarrow> (u16 list \<times> bool) \<times> string" where
  "read_groups limit i s =
     (if limit \<le> i then (([], False), s)
      else case (if i < limit - 1 then read_separator CHR '':'' i read_ipv4_addr s else None) of
        Some (v4, s) \<Rightarrow>
          (([from_be (take 2 (ipv4_octets v4)), from_be (drop 2 (ipv4_octets v4))], True), s)
      | None \<Rightarrow>
          (case read_separator CHR '':'' i (read_number 16 65536 (Some 4) True) s of
             None \<Rightarrow> (([], False), s)
           | Some (g, s) \<Rightarrow> (case read_groups limit (Suc i) s of ((gs, v4), s) \<Rightarrow> ((of_nat g # gs, v4), s))))"
  by auto
termination by (relation "measure (\<lambda>(limit, i, s). limit - i)") auto

declare read_groups.simps [simp del]

definition read_ipv6_addr :: "ipv6_addr text_parser" where
  "read_ipv6_addr s =
     (case read_groups 8 0 s of ((head_groups, head_ipv4), s) \<Rightarrow>
        if length head_groups = 8 then Some (ipv6_new head_groups, s)
        else if head_ipv4 then None
        else Option.bind (read_given_char CHR '':'' s) (\<lambda>(_, s).
             Option.bind (read_given_char CHR '':'' s) (\<lambda>(_, s).
               let limit = 8 - (length head_groups + 1) in
               case read_groups limit 0 s of ((tail_groups, _), s) \<Rightarrow>
                 Some (ipv6_new (head_groups @
                   replicate (8 - length head_groups - length tail_groups) 0 @ tail_groups), s))))"

definition read_port :: "u16 text_parser" where
  "read_port s = Option.bind (read_given_char CHR '':'' s) (\<lambda>(_, s).
     Option.bind (read_number 10 65536 None True s) (\<lambda>(p, s). Some (of_nat p, s)))"

definition read_scope_id :: "u32 text_parser" where
  "read_scope_id s = Option.bind (read_given_char CHR ''%'' s) (\<lambda>(_, s).
     Option.bind (read_number 10 (2 ^ 32) None True s) (\<lambda>(p, s). Some (of_nat p, s)))"

definition read_socket_addr_v4 :: "socket_addr text_parser" where
  "read_socket_addr_v4 s = Option.bind (read_ipv4_addr s) (\<lambda>(ip, s).
     Option.bind (read_port s) (\<lambda>(port, s). Some (SockV4 ip port, s)))"

definition read_socket_addr_v6 :: "socket_addr text_parser" where
  "read_socket_addr_v6 s = Option.bind (read_given_char CHR ''['' s) (\<lambda>(_, s).
     Option.bind (read_ipv6_addr s) (\<lambda>(ip, s).
       let (scope_id, s) = (case read_scope_id s of None \<Rightarrow> (0, s) | Some (i, s) \<Rightarrow> (i, s)) in
       Option.bind (read_given_char CHR '']'' s) (\<lambda>(_, s).
       Option.bind (read_port s) (\<lambda>(port, s). Some (SockV6 ip port 0 scope_id, s)))))"

definition read_socket_addr :: "socket_addr text_parser" where
  "read_socket_addr s =
     (case read_socket_addr_v4 s of Some r \<Rightarrow> Some r | None \<Rightarrow> read_socket_addr_v6 s)"

definition parse_with :: "'a text_parser \<Rightarrow> string \<Rightarrow> 'a option" where
  "parse_with p s = (case p s of Some (a, []) \<Rightarrow> Some a | _ \<Rightarrow> None)"

text \<open>\<open>s.parse::<SocketAddr>()\<close>, \<open>s.parse::<IpAddr>()\<close> and \<open>s.parse::<u16>()\<close>.\<close>

definition socket_addr_from_str :: "string \<Rightarrow> socket_addr option" where
  "socket_addr_from_str = parse_with read_socket_addr"

definition read_ip_addr :: "ip_addr text_parser" where
  "read_ip_addr s = (case read_ipv4_addr s of Some (a, s) \<Rightarrow> Some (IpV4 a, s)
     | None \<Rightarrow> map_option (\<lambda>(a, s). (IpV6 a, s)) (read_ipv6_addr s))"

definition ip_addr_from_str :: "string \<Rightarrow> ip_addr option" where
  "ip_addr_from_str = parse_with read_ip_addr"

definition u16_from_str :: "string \<Rightarrow> u16 option" where
  "u16_from_str s =
     (let digits = (case s of [] \<Rightarrow> [] | c # r \<Rightarrow> if c = CHR ''+'' then r else s)
      in map_option of_nat (parse_with (read_number 10 65536 None True) digits))"

section \<open>Display\<close>

definition show_ipv4 :: "ipv4_addr \<Rightarrow> string" where
  "show_ipv4 a = (case map (\<lambda>b. show_dec (unat b)) (ipv4_octets a) of
     [a, b, c, d] \<Rightarrow> a @ ''.'' @ b @ ''.'' @ c @ ''.'' @ d | _ \<Rightarrow> [])"


text \<open>The leftmost longest run of zero segments, as start and length.\<close>

fun zero_span :: "nat \<Rightarrow> nat \<times> nat \<Rightarrow> nat \<times> nat \<Rightarrow> u16 list \<Rightarrow> nat \<times> nat" where
  "zero_span i longest cur [] = longest"
| "zero_span i longest (start, len) (g # gs) =
     (if g = 0 then
        let cur = (if len = 0 then i else start, Suc len)
        in zero_span (Suc i) (if snd cur > snd longest then cur else longest) cur gs
      else zero_span (Suc i) longest (0, 0) gs)"

fun show_groups :: "u16 list \<Rightarrow> string" where
  "show_groups [] = []"
| "show_groups [g] = show_base 16 (unat g)"
| "show_groups (g # gs) = show_base 16 (unat g) @ '':'' @ show_groups gs"

definition show_ipv6 :: "ipv6_addr \<Rightarrow> string" where
  "show_ipv6 a =
     (case to_ipv4_mapped a of
        Some v4 \<Rightarrow> ''::ffff:'' @ show_ipv4 v4
      | None \<Rightarrow>
          let segs = ipv6_segments a; (start, len) = zero_span 0 (0, 0) (0, 0) segs in
          if len > 1 then show_groups (take start segs) @ ''::'' @ show_groups (drop (start + len) segs)
          else show_groups segs)"

fun show_ip :: "ip_addr \<Rightarrow> string" where
  "show_ip (IpV4 a) = show_ipv4 a"
| "show_ip (IpV6 a) = show_ipv6 a"

fun show_socket_addr :: "socket_addr \<Rightarrow> string" where
  "show_socket_addr (SockV4 a p) = show_ipv4 a @ '':'' @ show_dec (unat p)"
| "show_socket_addr (SockV6 a p f s) =
     ''['' @ show_ipv6 a @ (if s = 0 then [] else ''%'' @ show_dec (unat s)) @ '']:'' @ show_dec (unat p)"

section \<open>Numbers are read back\<close>

definition starts_with :: "(char \<Rightarrow> bool) \<Rightarrow> string \<Rightarrow> bool" where
  "starts_with P s = (case s of [] \<Rightarrow> False | c # _ \<Rightarrow> P c)"

lemma starts_with_simps [simp]: "starts_with P [] = False" "starts_with P (c # s) = P c"
  by (simp_all add: starts_with_def)

abbreviation is_digit :: "nat \<Rightarrow> char \<Rightarrow> bool" where
  "is_digit radix c \<equiv> to_digit radix c \<noteq> None"

definition digits_val :: "nat \<Rightarrow> nat \<Rightarrow> nat list \<Rightarrow> nat" where
  "digits_val radix = foldl (\<lambda>r d. r * radix + d)"

lemma digits_val_mono: "0 < radix \<Longrightarrow> res \<le> digits_val radix res ds"
proof (induction ds arbitrary: res)
  case (Cons d ds)
  have "res \<le> res * radix + d" using Cons.prems by (cases radix) auto
  with Cons.IH [of "res * radix + d"] Cons.prems show ?case by (simp add: digits_val_def)
qed (simp add: digits_val_def)

lemma read_digits_append:
  assumes "0 < radix" "radix \<le> 16" "\<forall>d \<in> set ds. d < radix" "digits_val radix res ds < bound"
    and "\<not> starts_with (is_digit radix) rest"
    and "case mx of None \<Rightarrow> True | Some m \<Rightarrow> cnt + length ds \<le> m"
  shows "read_digits radix bound mx res cnt (map digit_char ds @ rest) =
    Some ((digits_val radix res ds, cnt + length ds), rest)"
  using assms
proof (induction ds arbitrary: res cnt)
  case Nil
  then show ?case by (cases rest) (auto simp: digits_val_def)
next
  case (Cons d ds)
  have "digits_val radix (res * radix + d) ds < bound" using Cons.prems(4) by (simp add: digits_val_def)
  moreover from this have "res * radix + d < bound"
    using digits_val_mono [OF Cons.prems(1)] le_less_trans by blast
  moreover have "case mx of None \<Rightarrow> True | Some m \<Rightarrow> Suc cnt + length ds \<le> m"
    using Cons.prems(6) by (auto split: option.splits)
  ultimately show ?case
    using Cons.IH [of "res * radix + d" "Suc cnt"] Cons.prems
    by (auto simp: digits_val_def split: option.splits)
qed

text \<open>What \<open>Display\<close> prints: no leading zero, and the digits have the value of the number.\<close>

lemma show_base_digits:
  assumes "1 < b"
  obtains ds where "show_base b n = map digit_char ds" "ds \<noteq> []" "\<forall>d \<in> set ds. d < b"
    "digits_val b 0 ds = n" "hd ds = 0 \<longrightarrow> ds = [0]" "\<forall>k. 0 < k \<longrightarrow> n < b ^ k \<longrightarrow> length ds \<le> k"
proof -
  have "\<exists>ds. show_base b n = map digit_char ds \<and> ds \<noteq> [] \<and> (\<forall>d \<in> set ds. d < b) \<and>
      digits_val b 0 ds = n \<and> (hd ds = 0 \<longrightarrow> ds = [0]) \<and> (\<forall>k. 0 < k \<longrightarrow> n < b ^ k \<longrightarrow> length ds \<le> k)"
  proof (induction n rule: less_induct)
    case (less n)
    show ?case
    proof (cases "n < b")
      case True
      then show ?thesis
        by (intro exI [of _ "[n]"]) (simp add: show_base.simps [of b n] digits_val_def)
    next
      case False
      then have "n div b < n" using assms by simp
      from less [OF this] obtain ds where "show_base b (n div b) = map digit_char ds \<and> ds \<noteq> [] \<and>
          (\<forall>d \<in> set ds. d < b) \<and> digits_val b 0 ds = n div b \<and> (hd ds = 0 \<longrightarrow> ds = [0]) \<and>
          (\<forall>k. 0 < k \<longrightarrow> n div b < b ^ k \<longrightarrow> length ds \<le> k)" ..
      then have ds: "show_base b (n div b) = map digit_char ds" "ds \<noteq> []"
          "\<forall>d \<in> set ds. d < b" "digits_val b 0 ds = n div b" "hd ds = 0 \<longrightarrow> ds = [0]"
          "\<forall>k. 0 < k \<longrightarrow> n div b < b ^ k \<longrightarrow> length ds \<le> k" by - (elim conjE, assumption)+
      have nz: "hd ds \<noteq> 0"
      proof
        assume "hd ds = 0"
        with ds(5) have "ds = [0]" by simp
        with ds(4) have "n div b = 0" by (simp add: digits_val_def)
        with False assms show False by (simp add: div_eq_0_iff)
      qed
      have len: "length ds + 1 \<le> k" if "0 < k" "n < b ^ k" for k
      proof -
        from that obtain j where k: "k = Suc j" by (cases k) auto
        have j: "0 < j" using that False by (cases j) (auto simp: k)
        have "n div b < b ^ j" using that(2) assms by (simp add: k less_mult_imp_div_less mult.commute)
        with ds(6) j show ?thesis by (simp add: k)
      qed
      let ?ds = "ds @ [n mod b]"
      have c1: "show_base b n = map digit_char ?ds" using False assms ds(1) by (simp add: show_base.simps [of b n])
      have c2: "?ds \<noteq> []" by simp
      have c3: "\<forall>d \<in> set ?ds. d < b" using ds(3) assms by simp
      have c4: "digits_val b 0 ?ds = n" using ds(4) by (simp add: digits_val_def)
      have c5: "hd ?ds = 0 \<longrightarrow> ?ds = [0]" using nz ds(2) by simp
      have c6: "\<forall>k. 0 < k \<longrightarrow> n < b ^ k \<longrightarrow> length ?ds \<le> k" using len by simp
      show ?thesis by (intro exI [of _ ?ds] conjI c1 c2 c3 c4 c5 c6)
    qed
  qed
  then show ?thesis by (elim exE conjE) (rule that)
qed

lemma digit_char_zero: "d < 16 \<Longrightarrow> (digit_char d = CHR ''0'') = (d = 0)"
proof
  assume "d < 16" "digit_char d = CHR ''0''"
  then have "to_digit 16 (CHR ''0'') = Some d" using to_digit_char [of d 16] by simp
  then show "d = 0" by (simp add: to_digit_def)
next
  assume "d = 0"
  moreover have "digit_char 0 = CHR ''0''" by code_simp
  ultimately show "digit_char d = CHR ''0''" by simp
qed

lemma read_number_show:
  assumes "1 < b" "b \<le> 16" "n < bound" "\<not> starts_with (is_digit b) rest"
    and "case mx of None \<Rightarrow> True | Some m \<Rightarrow> 0 < m \<and> n < b ^ m"
  shows "read_number b bound mx az (show_base b n @ rest) = Some (n, rest)"
proof -
  obtain ds where ds: "show_base b n = map digit_char ds" "ds \<noteq> []" "\<forall>d \<in> set ds. d < b"
    "digits_val b 0 ds = n" "hd ds = 0 \<longrightarrow> ds = [0]"
    "\<forall>k. 0 < k \<longrightarrow> n < b ^ k \<longrightarrow> length ds \<le> k"
    by (rule show_base_digits [OF assms(1)])
  then have mx: "case mx of None \<Rightarrow> True | Some m \<Rightarrow> length ds \<le> m"
    using assms(5) by (auto split: option.splits)
  have "read_digits b bound mx 0 0 (map digit_char ds @ rest) = Some ((n, length ds), rest)"
    using read_digits_append [of b ds 0 bound rest 0 mx] assms(1-4) ds(3,4) mx
    by (cases mx) (simp_all del: not_None_eq)
  moreover from ds(2) obtain d ds' where d: "ds = d # ds'" by (cases ds) auto
  ultimately show ?thesis
    using ds(3,5) assms(2) by (auto simp: read_number_def ds(1) digit_char_zero)
qed


lemma unat_u16_less: "unat (p :: u16) < 65536"
  using unsigned_less [of p] by simp

lemma u16_from_str_show: "u16_from_str (show_dec (unat p)) = Some p"
proof -
  obtain ds where ds: "show_dec (unat p) = map digit_char ds" "ds \<noteq> []" "\<forall>d \<in> set ds. d < 10"
    by (rule show_base_digits [of 10 "unat p"]) simp
  then obtain d ds' where d: "ds = d # ds'" by (cases ds) auto
  have "digit_char d \<noteq> CHR ''+''"
  proof
    assume "digit_char d = CHR ''+''"
    then have "to_digit 10 (CHR ''+'') = Some d" using ds(3) to_digit_char [of d 10] by (simp add: d)
    then show False by (simp add: to_digit_def)
  qed
  then have "(case show_dec (unat p) of [] \<Rightarrow> [] | c # r \<Rightarrow> if c = CHR ''+'' then r else show_dec (unat p)) = show_dec (unat p)"
    by (simp add: ds(1) d)
  moreover have "read_number 10 65536 None True (show_dec (unat p) @ []) = Some (unat p, [])"
    using unat_u16_less [of p] by (intro read_number_show) simp_all
  ultimately show ?thesis by (simp add: u16_from_str_def parse_with_def)
qed

lemma read_port_show: "\<not> starts_with (is_digit 10) rest \<Longrightarrow>
    read_port ('':'' @ show_dec (unat p) @ rest) = Some (p, rest)"
  using read_number_show [of 10 "unat p" 65536 rest None True] unat_u16_less [of p]
  by (simp add: read_port_def read_given_char_def)

lemma read_octet_show:
  assumes "\<not> starts_with (is_digit 10) rest"
  shows "read_octet i ((if i > 0 then ''.'' else []) @ show_dec (unat (b :: u8)) @ rest) = Some (unat b, rest)"
proof -
  have "unat b < 256" using unsigned_less [of b] by simp
  then have "read_number 10 256 (Some 3) False (show_dec (unat b) @ rest) = Some (unat b, rest)"
    using assms by (intro read_number_show) simp_all
  then show ?thesis by (simp add: read_octet_def read_separator_def read_given_char_def)
qed

lemma not_digit_punct: "\<not> is_digit 16 CHR ''.''" "\<not> is_digit 16 CHR '':''" "\<not> is_digit 16 CHR ''%''" "\<not> is_digit 16 CHR '']''"
    "\<not> is_digit 10 CHR ''.''" "\<not> is_digit 10 CHR '':''" "\<not> is_digit 10 CHR ''%''" "\<not> is_digit 10 CHR '']''"
  by (simp_all add: to_digit_def)

lemma ipv4_octets_split:
  obtains a b c d where "ipv4_octets ip = [a, b, c, d]" "ip = ipv4_new a b c d"
proof -
  have "length (ipv4_octets ip) = Suc (Suc (Suc (Suc 0)))" by simp
  then obtain a b c d where o: "ipv4_octets ip = [a, b, c, d]" unfolding length_Suc_conv by auto
  then have "ip = ipv4_new a b c d" unfolding ipv4_new_def by (metis from_be_octets)
  with o show ?thesis using that by blast
qed

lemma read_ipv4_show:
  assumes "\<not> starts_with (is_digit 10) rest"
  shows "read_ipv4_addr (show_ipv4 ip @ rest) = Some (ip, rest)"
proof (rule ipv4_octets_split [of ip])
  fix a b c d
  assume o: "ipv4_octets ip = [a, b, c, d]" and ip: "ip = ipv4_new a b c d"
  let ?d = "''.'' @ show_dec (unat d) @ rest"
  let ?c = "''.'' @ show_dec (unat c) @ ?d"
  let ?b = "''.'' @ show_dec (unat b) @ ?c"
  have s: "show_ipv4 ip @ rest = show_dec (unat a) @ ?b" by (simp add: show_ipv4_def o)
  have "read_octet 0 (show_dec (unat a) @ ?b) = Some (unat a, ?b)"
    "read_octet 1 ?b = Some (unat b, ?c)" "read_octet 2 ?c = Some (unat c, ?d)"
    "read_octet 3 ?d = Some (unat d, rest)"
    using read_octet_show [of ?b 0 a] read_octet_show [of ?c 1 b] read_octet_show [of ?d 2 c]
      read_octet_show [OF assms, of 3 d] not_digit_punct by simp_all
  then show ?thesis unfolding s read_ipv4_addr_def by (simp only: bind.simps prod.case) (simp add: ip)
qed

end
