(* ===== verification/Server_Config.thy ===== *)
theory Server_Config
  imports Net_Text Socks5 Replay
begin

text \<open>
  The configuration of a server, \<open>crates/shadowsocks/src/config.rs\<close>: modes, users of a server, the
  keys derived from a password, \<open>ServerConfig\<close> with its \<open>ss://\<close> URL, and the addresses of servers and
  managers.

  The cipher kinds, BLAKE3, base64, percent encoding, the URL parser and OpenSSL's
  \<open>EVP_BytesToKey\<close> are third-party crates: fields of a library record. The weights of the balancer
  are floating-point numbers; they are a type parameter.
\<close>

section \<open>Third-party operations\<close>

text \<open>\<open>kind_2022\<close> tells which of the AEAD-2022 variants of \<open>CipherKind\<close> a method is.\<close>

datatype aead_2022_variant = Aes128Gcm | Aes256Gcm | ChaCha20Poly1305 | ChaCha8Poly1305

record crypto_lib =
  kind_2022 :: "cipher_kind \<Rightarrow> aead_2022_variant option"
  blake3_hash :: "bytes \<Rightarrow> bytes"

record url =
  url_scheme :: string
  url_username :: string
  url_password :: "string option"
  url_host_str :: "string option"
  url_port :: "u16 option"
  url_query :: "string option"
  url_fragment :: "string option"

text \<open>
  \<open>b64_*\<close> is the standard alphabet (\<open>USER_KEY_BASE64_ENGINE\<close> and \<open>AEAD2022_PASSWORD_BASE64_ENGINE\<close> have
  the same configuration), \<open>b64url_*\<close> the URL-safe one.
\<close>

record config_lib = crypto_lib +
  kind_display :: "cipher_kind \<Rightarrow> string"
  kind_from_str :: "string \<Rightarrow> cipher_kind option"
  openssl_bytes_to_key :: "bytes \<Rightarrow> nat \<Rightarrow> bytes"
  b64_encode :: "bytes \<Rightarrow> string"
  b64_decode :: "string \<Rightarrow> bytes option"
  b64url_encode :: "bytes \<Rightarrow> string"
  b64url_decode :: "string \<Rightarrow> bytes option"
  percent_encode :: "string \<Rightarrow> string"
  percent_decode :: "string \<Rightarrow> bytes"
  url_parse :: "string \<Rightarrow> url option"
  query_from_bytes :: "string \<Rightarrow> (string \<times> string) list option"

section \<open>Modes\<close>

datatype mode = TcpOnly | TcpAndUdp | UdpOnly

fun mode_as_u8 :: "mode \<Rightarrow> u8" where
  "mode_as_u8 TcpOnly = 0x01"
| "mode_as_u8 TcpAndUdp = 0x03"
| "mode_as_u8 UdpOnly = 0x02"

definition enable_udp :: "mode \<Rightarrow> bool" where
  "enable_udp m \<longleftrightarrow> m = UdpOnly \<or> m = TcpAndUdp"

definition enable_tcp :: "mode \<Rightarrow> bool" where
  "enable_tcp m \<longleftrightarrow> m = TcpOnly \<or> m = TcpAndUdp"

definition mode_merge :: "mode \<Rightarrow> mode \<Rightarrow> (mode, unit) outcome" where
  "mode_merge me fm =
     (let v = or (mode_as_u8 me) (mode_as_u8 fm) in
      if v = 0x01 then Ok TcpOnly else if v = 0x02 then Ok UdpOnly
      else if v = 0x03 then Ok TcpAndUdp else Panic)"

fun mode_display :: "mode \<Rightarrow> string" where
  "mode_display TcpOnly = ''tcp_only''"
| "mode_display TcpAndUdp = ''tcp_and_udp''"
| "mode_display UdpOnly = ''udp_only''"

definition mode_from_str :: "string \<Rightarrow> (mode, unit) outcome" where
  "mode_from_str s =
     (if s = ''tcp_only'' then Ok TcpOnly
      else if s = ''tcp_and_udp'' then Ok TcpAndUdp
      else if s = ''udp_only'' then Ok UdpOnly
      else Err ())"

section \<open>Users\<close>

record server_user =
  user_name :: string
  user_key :: bytes
  identity_hash :: bytes

text \<open>Slicing 16 bytes of the 32 of a BLAKE3 hash.\<close>

definition server_user_new :: "'z crypto_lib_scheme \<Rightarrow> string \<Rightarrow> bytes \<Rightarrow> server_user" where
  "server_user_new lib name key =
     \<lparr>user_name = name, user_key = key, identity_hash = take 16 (blake3_hash lib key)\<rparr>"

definition server_user_with_encoded_key ::
    "'z config_lib_scheme \<Rightarrow> string \<Rightarrow> string \<Rightarrow> (server_user, unit) outcome" where
  "server_user_with_encoded_key lib name key =
     (case b64_decode lib key of None \<Rightarrow> Err () | Some key \<Rightarrow> Ok (server_user_new lib name key))"

definition encoded_key :: "'z config_lib_scheme \<Rightarrow> server_user \<Rightarrow> string" where
  "encoded_key lib u = b64_encode lib (user_key u)"

text \<open>\<open>ServerUserManager\<close> is its map of users by identity hash.\<close>

type_synonym user_manager = "bytes \<rightharpoonup> server_user"

definition user_manager_new :: user_manager where
  "user_manager_new = (\<lambda>_. None)"

definition add_user :: "server_user \<Rightarrow> user_manager \<Rightarrow> user_manager" where
  "add_user user m = m(identity_hash user \<mapsto> user)"

definition get_user_by_hash :: "user_manager \<Rightarrow> bytes \<Rightarrow> server_user option" where
  "get_user_by_hash m user_hash = m user_hash"

section \<open>Keys from passwords\<close>

definition method_support_eih :: "'z crypto_lib_scheme \<Rightarrow> cipher_kind \<Rightarrow> bool" where
  "method_support_eih lib method \<longleftrightarrow>
     kind_2022 lib method = Some Aes128Gcm \<or> kind_2022 lib method = Some Aes256Gcm"

definition make_derived_key :: "'z config_lib_scheme \<Rightarrow> cipher_kind \<Rightarrow> string \<Rightarrow> nat \<Rightarrow> (bytes, 'e) outcome" where
  "make_derived_key lib method password key_len =
     (if kind_is_aead_2022 method then
        (case b64_decode lib password of
           Some v \<Rightarrow> if length v \<noteq> key_len then Panic else Ok v
         | None \<Rightarrow> Panic)
      else Ok (openssl_bytes_to_key lib (as_bytes password) key_len))"

text \<open>The identity keys are decoded while the iterator runs from the last to the first.\<close>

fun decode_identity_keys :: "'z config_lib_scheme \<Rightarrow> string list \<Rightarrow> (bytes list, 'e) outcome" where
  "decode_identity_keys lib [] = Ok []"
| "decode_identity_keys lib (ipsk # rest) =
     (case b64_decode lib ipsk of
        Some v \<Rightarrow> and_then (decode_identity_keys lib rest) (\<lambda>vs. Ok (v # vs))
      | None \<Rightarrow> Panic)"

definition password_to_keys ::
    "'z config_lib_scheme \<Rightarrow> cipher_kind \<Rightarrow> string \<Rightarrow> (string \<times> bytes \<times> bytes list, 'e) outcome" where
  "password_to_keys lib method password =
     (if method_support_eih lib method then
        let split_iter = rev (split_on CHR '':'' password);
            upsk = hd split_iter
        in and_then (make_derived_key lib method upsk (kind_key_len method)) (\<lambda>enc_key.
           and_then (decode_identity_keys lib (tl split_iter)) (\<lambda>identity_keys.
             Ok (upsk, enc_key, rev identity_keys)))
      else
        and_then (make_derived_key lib method password (kind_key_len method)) (\<lambda>enc_key.
          Ok (password, enc_key, [])))"

section \<open>Server addresses\<close>

datatype server_addr = ServerSocketAddr socket_addr | ServerDomainName string u16

fun server_addr_host :: "server_addr \<Rightarrow> string" where
  "server_addr_host (ServerSocketAddr s) = show_ip (sock_ip s)"
| "server_addr_host (ServerDomainName dm _) = dm"

fun server_addr_port :: "server_addr \<Rightarrow> u16" where
  "server_addr_port (ServerSocketAddr s) = sock_port s"
| "server_addr_port (ServerDomainName _ p) = p"

definition server_addr_from_str :: "string \<Rightarrow> (server_addr, unit) outcome" where
  "server_addr_from_str s =
     (case socket_addr_from_str s of
        Some addr \<Rightarrow> Ok (ServerSocketAddr addr)
      | None \<Rightarrow>
          (case split_on CHR '':'' s of
             dn # port # _ \<Rightarrow>
               if dn = [] then Err ()
               else (case u16_from_str port of
                       Some port \<Rightarrow> Ok (ServerDomainName dn port)
                     | None \<Rightarrow> Err ())
           | _ \<Rightarrow> Err ()))"

fun server_addr_display :: "server_addr \<Rightarrow> string" where
  "server_addr_display (ServerSocketAddr a) = show_socket_addr a"
| "server_addr_display (ServerDomainName d port) = d @ '':'' @ show_dec (unat port)"

fun server_addr_from_address :: "address \<Rightarrow> server_addr" where
  "server_addr_from_address (SocketAddress sa) = ServerSocketAddr sa"
| "server_addr_from_address (DomainNameAddress dn port) = ServerDomainName dn port"

fun server_addr_into_address :: "server_addr \<Rightarrow> address" where
  "server_addr_into_address (ServerSocketAddr sa) = SocketAddress sa"
| "server_addr_into_address (ServerDomainName dn port) = DomainNameAddress dn port"

text \<open>On Unix an address without a colon is a socket path.\<close>

datatype manager_addr = ManagerSocketAddr socket_addr | ManagerDomainName string u16 | UnixSocketAddr string

definition manager_addr_from_str :: "string \<Rightarrow> (manager_addr, unit) outcome" where
  "manager_addr_from_str s =
     (case split_once CHR '':'' s of
        (sdomain, Some sport) \<Rightarrow>
          (case socket_addr_from_str s of
             Some saddr \<Rightarrow> Ok (ManagerSocketAddr saddr)
           | None \<Rightarrow>
               (case u16_from_str (trim_str sport) of
                  Some port \<Rightarrow> Ok (ManagerDomainName (trim_str sdomain) port)
                | None \<Rightarrow> Err ()))
      | (_, None) \<Rightarrow> Ok (UnixSocketAddr s))"

fun manager_addr_display :: "manager_addr \<Rightarrow> string" where
  "manager_addr_display (ManagerSocketAddr saddr) = show_socket_addr saddr"
| "manager_addr_display (ManagerDomainName dname port) = dname @ '':'' @ show_dec (unat port)"
| "manager_addr_display (UnixSocketAddr path) = path"

section \<open>The configuration\<close>

record plugin_config =
  plugin :: string
  plugin_opts :: "string option"
  plugin_args :: "string list"
  plugin_mode :: mode

record 'w server_config =
  svr_addr :: server_addr
  svr_password :: string
  svr_method :: cipher_kind
  svr_enc_key :: bytes
  svr_timeout :: "nat option"
  svr_identity_keys :: "bytes list"
  svr_user_manager :: "user_manager option"
  svr_plugin :: "plugin_config option"
  svr_plugin_addr :: "server_addr option"
  svr_remarks :: "string option"
  svr_id :: "string option"
  svr_mode :: mode
  svr_weight :: 'w

text \<open>\<open>w\<close> is the default weight.\<close>

definition server_config_new ::
    "'z config_lib_scheme \<Rightarrow> 'w \<Rightarrow> server_addr \<Rightarrow> string \<Rightarrow> cipher_kind \<Rightarrow> ('w server_config, 'e) outcome" where
  "server_config_new lib w addr password method =
     and_then (password_to_keys lib method password) (\<lambda>(password, enc_key, identity_keys).
       Ok \<lparr>svr_addr = addr, svr_password = password, svr_method = method, svr_enc_key = enc_key,
           svr_timeout = None, svr_identity_keys = identity_keys, svr_user_manager = None,
           svr_plugin = None, svr_plugin_addr = None, svr_remarks = None, svr_id = None,
           svr_mode = TcpAndUdp, svr_weight = w\<rparr>)"

definition set_method ::
    "'z config_lib_scheme \<Rightarrow> cipher_kind \<Rightarrow> string \<Rightarrow> 'w server_config \<Rightarrow> ('w server_config, 'e) outcome" where
  "set_method lib method password c =
     (let c = c\<lparr>svr_method := method\<rparr> in
      and_then (password_to_keys lib method password) (\<lambda>(password, enc_key, identity_keys).
        Ok (c\<lparr>svr_password := password, svr_enc_key := enc_key, svr_identity_keys := identity_keys\<rparr>)))"

definition set_plugin :: "plugin_config \<Rightarrow> 'w server_config \<Rightarrow> 'w server_config" where
  "set_plugin p c = c\<lparr>svr_plugin := Some p\<rparr>"

definition set_addr :: "server_addr \<Rightarrow> 'w server_config \<Rightarrow> 'w server_config" where
  "set_addr a c = c\<lparr>svr_addr := a\<rparr>"

definition set_user_manager :: "user_manager \<Rightarrow> 'w server_config \<Rightarrow> 'w server_config" where
  "set_user_manager m c = c\<lparr>svr_user_manager := Some m\<rparr>"

definition set_plugin_addr :: "server_addr \<Rightarrow> 'w server_config \<Rightarrow> 'w server_config" where
  "set_plugin_addr a c = c\<lparr>svr_plugin_addr := Some a\<rparr>"

definition set_timeout :: "nat \<Rightarrow> 'w server_config \<Rightarrow> 'w server_config" where
  "set_timeout t c = c\<lparr>svr_timeout := Some t\<rparr>"

definition set_remarks :: "string \<Rightarrow> 'w server_config \<Rightarrow> 'w server_config" where
  "set_remarks r c = c\<lparr>svr_remarks := Some r\<rparr>"

definition set_id :: "string \<Rightarrow> 'w server_config \<Rightarrow> 'w server_config" where
  "set_id i c = c\<lparr>svr_id := Some i\<rparr>"

definition set_mode :: "mode \<Rightarrow> 'w server_config \<Rightarrow> 'w server_config" where
  "set_mode m c = c\<lparr>svr_mode := m\<rparr>"

definition set_weight :: "'w \<Rightarrow> 'w server_config \<Rightarrow> 'w server_config" where
  "set_weight w c = c\<lparr>svr_weight := w\<rparr>"

definition tcp_external_addr :: "'w server_config \<Rightarrow> server_addr" where
  "tcp_external_addr c =
     (case svr_plugin c of
        Some p \<Rightarrow> if enable_tcp (plugin_mode p)
                  then (case svr_plugin_addr c of Some a \<Rightarrow> a | None \<Rightarrow> svr_addr c) else svr_addr c
      | None \<Rightarrow> svr_addr c)"

definition udp_external_addr :: "'w server_config \<Rightarrow> server_addr" where
  "udp_external_addr c =
     (case svr_plugin c of
        Some p \<Rightarrow> if enable_udp (plugin_mode p)
                  then (case svr_plugin_addr c of Some a \<Rightarrow> a | None \<Rightarrow> svr_addr c) else svr_addr c
      | None \<Rightarrow> svr_addr c)"

definition is_basic :: "'w server_config \<Rightarrow> bool" where
  "is_basic c \<longleftrightarrow> svr_remarks c = None \<and> svr_id c = None"

section \<open>URLs\<close>

definition to_qrcode_url :: "'z config_lib_scheme \<Rightarrow> 'w server_config \<Rightarrow> string" where
  "to_qrcode_url lib c =
     (let param = kind_display lib (svr_method c) @ '':'' @ svr_password c @ ''@'' @ server_addr_display (svr_addr c)
      in ''ss://'' @ b64url_encode lib (as_bytes param))"

definition to_url :: "'z config_lib_scheme \<Rightarrow> 'w server_config \<Rightarrow> string" where
  "to_url lib c =
     (let user_info =
            (if \<not> kind_is_aead_2022 (svr_method c)
             then b64url_encode lib (as_bytes (kind_display lib (svr_method c) @ '':'' @ svr_password c))
             else kind_display lib (svr_method c) @ '':'' @ percent_encode lib (svr_password c));
          url = ''ss://'' @ user_info @ ''@'' @ server_addr_display (svr_addr c);
          url = (case svr_plugin c of
              Some p \<Rightarrow>
                let s = plugin p @ (case plugin_opts p of Some opt \<Rightarrow> '';'' @ opt | None \<Rightarrow> [])
                in url @ ''/?plugin='' @ percent_encode lib s
            | None \<Rightarrow> url)
      in case svr_remarks c of Some remark \<Rightarrow> url @ ''#'' @ percent_encode lib remark | None \<Rightarrow> url)"

datatype url_parse_error =
    ParseError | InvalidScheme | InvalidUserInfo | MissingHost | InvalidAuthInfo | InvalidServerAddr
  | InvalidQueryString

text \<open>The method and password of the user information.\<close>

definition url_account ::
    "'z config_lib_scheme \<Rightarrow> string \<Rightarrow> string option \<Rightarrow> (string \<times> string, url_parse_error) outcome" where
  "url_account lib user_info password =
     (case password of
        Some password \<Rightarrow>
          (case from_utf8 (percent_decode lib user_info) of
             None \<Rightarrow> Err InvalidAuthInfo
           | Some m \<Rightarrow>
               (case from_utf8 (percent_decode lib password) of
                  None \<Rightarrow> Err InvalidAuthInfo
                | Some p \<Rightarrow> Ok (m, p)))
      | None \<Rightarrow>
          (case from_utf8 (percent_decode lib user_info) of
             None \<Rightarrow> Err InvalidAuthInfo
           | Some decoded_user_info \<Rightarrow>
               (case b64url_decode lib decoded_user_info of
                  None \<Rightarrow> Err InvalidUserInfo
                | Some account \<Rightarrow>
                    (case from_utf8 account of
                       None \<Rightarrow> Err InvalidAuthInfo
                     | Some account \<Rightarrow>
                         (case split_once CHR '':'' account of
                            (m, Some p) \<Rightarrow> Ok (m, p)
                          | (_, None) \<Rightarrow> Err InvalidUserInfo)))))"

fun url_plugins :: "(string \<times> string) list \<Rightarrow> 'w server_config \<Rightarrow> 'w server_config" where
  "url_plugins [] c = c"
| "url_plugins ((key, v) # query) c =
     (if key \<noteq> ''plugin'' then url_plugins query c
      else
        let (p, opts) = split_once CHR '';'' v
        in url_plugins query
             (set_plugin \<lparr>plugin = p, plugin_opts = opts, plugin_args = [], plugin_mode = TcpOnly\<rparr> c))"

text \<open>The plugin of the query and the remarks of the fragment.\<close>

definition url_finish ::
    "'z config_lib_scheme \<Rightarrow> url \<Rightarrow> 'w server_config \<Rightarrow> ('w server_config, url_parse_error) outcome" where
  "url_finish lib parsed svrconfig =
     and_then (case url_query parsed of
                 None \<Rightarrow> Ok svrconfig
               | Some q \<Rightarrow>
                   (case query_from_bytes lib q of
                      None \<Rightarrow> Err InvalidQueryString
                    | Some query \<Rightarrow> Ok (url_plugins query svrconfig))) (\<lambda>svrconfig.
       Ok (case url_fragment parsed of
             Some remark \<Rightarrow> set_remarks remark svrconfig
           | None \<Rightarrow> svrconfig))"

text \<open>The host and port, 8388 when there is none.\<close>

definition url_server_addr :: "url \<Rightarrow> (server_addr, url_parse_error) outcome" where
  "url_server_addr parsed =
     (case url_host_str parsed of
        None \<Rightarrow> Err MissingHost
      | Some host \<Rightarrow>
          let port = (case url_port parsed of Some p \<Rightarrow> p | None \<Rightarrow> 8388);
              addr = host @ '':'' @ show_dec (unat port)
          in map_err (\<lambda>_. InvalidServerAddr) (server_addr_from_str addr))"

text \<open>Everything after the user information is known to be present.\<close>

definition from_url_with_user ::
    "'z config_lib_scheme \<Rightarrow> 'w \<Rightarrow> url \<Rightarrow> ('w server_config, url_parse_error) outcome" where
  "from_url_with_user lib w parsed =
     and_then (url_account lib (url_username parsed) (url_password parsed)) (\<lambda>(method, pwd).
     and_then (url_server_addr parsed) (\<lambda>addr.
       case kind_from_str lib method of
         None \<Rightarrow> Panic
       | Some method \<Rightarrow>
           and_then (server_config_new lib w addr pwd method) (\<lambda>svrconfig.
             url_finish lib parsed svrconfig)))"

text \<open>One call of \<open>from_url\<close>: its result, or the URL of the recursive call.\<close>

definition from_url_step ::
    "'z config_lib_scheme \<Rightarrow> 'w \<Rightarrow> string \<Rightarrow> string + ('w server_config, url_parse_error) outcome" where
  "from_url_step lib w encoded =
     (case url_parse lib encoded of
        None \<Rightarrow> Inr (Err ParseError)
      | Some parsed \<Rightarrow>
          if url_scheme parsed \<noteq> ''ss'' then Inr (Err InvalidScheme)
          else if url_username parsed = [] then
            (case url_host_str parsed of
               None \<Rightarrow> Inr (Err MissingHost)
             | Some encoded \<Rightarrow>
                 (case b64url_decode lib encoded of
                    None \<Rightarrow> Inr (Err InvalidServerAddr)
                  | Some b \<Rightarrow>
                      (case from_utf8 b of
                         None \<Rightarrow> Inr (Err InvalidServerAddr)
                       | Some decoded_body \<Rightarrow> Inl (''ss://'' @ decoded_body))))
          else Inr (from_url_with_user lib w parsed))"

partial_function (option) from_url ::
    "'z config_lib_scheme \<Rightarrow> 'w \<Rightarrow> string \<Rightarrow> ('w server_config, url_parse_error) outcome option" where
  "from_url lib w encoded =
     (case from_url_step lib w encoded of
        Inl decoded_body \<Rightarrow> from_url lib w decoded_body
      | Inr r \<Rightarrow> Some r)"

section \<open>Keys\<close>

text \<open>
  What is relied on of base64: decoding inverts encoding, its alphabet has no colon, and a decoded
  text is shorter than its encoding unless both are empty.
\<close>

definition b64_laws :: "(bytes \<Rightarrow> string) \<Rightarrow> (string \<Rightarrow> bytes option) \<Rightarrow> bool" where
  "b64_laws enc dec \<longleftrightarrow> dec [] = Some [] \<and> (\<forall>b. dec (enc b) = Some b) \<and> (\<forall>b. CHR '':'' \<notin> set (enc b)) \<and>
     (\<forall>s b. dec s = Some b \<longrightarrow> s \<noteq> [] \<longrightarrow> length b < length s)"

lemma b64_lawsD:
  assumes "b64_laws enc dec"
  shows "dec (enc b) = Some b" "CHR '':'' \<notin> set (enc b)" "dec s = Some b' \<Longrightarrow> s \<noteq> [] \<Longrightarrow> length b' < length s" "dec [] = Some []"
  using assms by (auto simp: b64_laws_def)

lemma decode_identity_keys_encoded:
  "(\<And>k. dec (enc k) = Some k) \<Longrightarrow> dec = b64_decode lib \<Longrightarrow>
   decode_identity_keys lib (map enc ks) = Ok ks"
  by (induction ks) auto

lemma make_derived_key_length:
  assumes "make_derived_key lib method pw n = Ok k" "\<And>p n. length (openssl_bytes_to_key lib p n) = n"
  shows "length k = n"
  using assms by (auto simp: make_derived_key_def split: if_splits option.splits)

lemma password_to_keys_length:
  assumes "password_to_keys lib method pw = Ok (p, k, ids)" "\<And>p n. length (openssl_bytes_to_key lib p n) = n"
  shows "length k = kind_key_len method"
  using assms(1) make_derived_key_length [OF _ assms(2)]
  by (auto simp: password_to_keys_def Let_def outcome_simps split: if_splits)

lemma password_to_keys_encoded:
  assumes "b64_laws (b64_encode lib) (b64_decode lib)" "method_support_eih lib method" "kind_is_aead_2022 method"
    and "length key = kind_key_len method"
  shows "password_to_keys lib method (join_with CHR '':'' (map (b64_encode lib) (ids @ [key]))) =
    (Ok (b64_encode lib key, key, ids) :: (string \<times> bytes \<times> bytes list, 'e) outcome)"
proof -
  have "split_on CHR '':'' (join_with CHR '':'' (map (b64_encode lib) (ids @ [key]))) =
      map (b64_encode lib) (ids @ [key])"
    using b64_lawsD(2) [OF assms(1)] by (intro split_on_join) auto
  moreover have "decode_identity_keys lib (map (b64_encode lib) (rev ids)) = (Ok (rev ids) :: (bytes list, 'e) outcome)"
    using b64_lawsD(1) [OF assms(1)] by (intro decode_identity_keys_encoded) auto
  ultimately show ?thesis
    using assms(2-4) b64_lawsD(1) [OF assms(1)]
    by (simp add: password_to_keys_def make_derived_key_def Let_def rev_map)
qed

section \<open>A well-formed configuration\<close>

definition config_wf :: "'w server_config \<Rightarrow> bool" where
  "config_wf c \<longleftrightarrow> length (svr_enc_key c) = kind_key_len (svr_method c)"

named_theorems setter_defs

lemmas [setter_defs] = set_plugin_def set_addr_def set_user_manager_def set_plugin_addr_def set_timeout_def
  set_remarks_def set_id_def set_mode_def set_weight_def

lemma config_wf_setters [simp]:
  "config_wf (set_plugin p c) = config_wf c" "config_wf (set_addr a c) = config_wf c"
  "config_wf (set_user_manager um c) = config_wf c" "config_wf (set_plugin_addr a c) = config_wf c"
  "config_wf (set_timeout t c) = config_wf c" "config_wf (set_remarks r c) = config_wf c"
  "config_wf (set_id r c) = config_wf c" "config_wf (set_mode m c) = config_wf c"
  "config_wf (set_weight w c) = config_wf c"
  by (simp_all add: config_wf_def setter_defs)

lemma config_wf_new:
  assumes "server_config_new lib w addr pw method = Ok c" "\<And>p n. length (openssl_bytes_to_key lib p n) = n"
  shows "config_wf c"
  using assms(1) password_to_keys_length [OF _ assms(2)]
  by (auto simp: server_config_new_def outcome_simps config_wf_def)

lemma config_wf_set_method:
  assumes "set_method lib method pw c = Ok c'" "\<And>p n. length (openssl_bytes_to_key lib p n) = n"
  shows "config_wf c'"
  using assms(1) password_to_keys_length [OF _ assms(2)]
  by (auto simp: set_method_def outcome_simps config_wf_def Let_def)

lemma config_wf_plugins [simp]: "config_wf (url_plugins q c) = config_wf c"
  by (induction q c rule: url_plugins.induct) (auto split: prod.splits)

lemma config_wf_url_finish: "url_finish lib u c = Ok c' \<Longrightarrow> config_wf c' = config_wf c"
  by (auto simp: url_finish_def outcome_simps split: option.split_asm option.split)

lemma from_url_with_user_Ok:
  assumes "from_url_with_user lib w u = Ok c"
  obtains m pw addr k c1 where "url_account lib (url_username u) (url_password u) = Ok (m, pw)"
    "url_server_addr u = Ok addr" "kind_from_str lib m = Some k"
    "server_config_new lib w addr pw k = (Ok c1 :: (_, url_parse_error) outcome)" "url_finish lib u c1 = Ok c"
  using assms by (auto simp: from_url_with_user_def outcome_simps split: option.split_asm)

lemma config_wf_from_url_with_user:
  assumes "from_url_with_user lib w u = Ok c" "\<And>p n. length (openssl_bytes_to_key lib p n) = n"
  shows "config_wf c"
  using assms(1) config_wf_new [OF _ assms(2)] config_wf_url_finish by (metis from_url_with_user_Ok)

lemma config_wf_from_url_step:
  assumes "from_url_step lib w s = Inr (Ok c)" "\<And>p n. length (openssl_bytes_to_key lib p n) = n"
  shows "config_wf c"
  using assms(1) config_wf_from_url_with_user [OF _ assms(2)]
  by (auto simp: from_url_step_def split: option.split_asm if_split_asm)

section \<open>Termination of the URL parser\<close>

text \<open>
  The host of a parsed \<open>ss\<close> URL, whose scheme is not a special one, follows \<open>://\<close>: when it is base64
  text it is not empty and a part of the URL after the scheme and \<open>://\<close>.
\<close>

definition url_laws :: "'z config_lib_scheme \<Rightarrow> bool" where
  "url_laws lib \<longleftrightarrow> (\<forall>s u h b. url_parse lib s = Some u \<longrightarrow> url_scheme u = ''ss'' \<longrightarrow> url_host_str u = Some h \<longrightarrow>
     b64url_decode lib h = Some b \<longrightarrow> h \<noteq> [] \<and> length h + 5 \<le> length s)"

lemma from_url_step_shorter:
  assumes "url_laws lib" "b64_laws (b64url_encode lib) (b64url_decode lib)" "from_url_step lib w s = Inl s'"
  shows "length s' < length s"
proof -
  from assms(3) obtain u h b where u: "url_parse lib s = Some u" "url_scheme u = ''ss''" "url_host_str u = Some h"
    "b64url_decode lib h = Some b" and s': "\<exists>d. from_utf8 b = Some d \<and> s' = ''ss://'' @ d"
    by (auto simp: from_url_step_def split: option.splits if_splits)
  have "h \<noteq> []" "length h + 5 \<le> length s" using assms(1) u unfolding url_laws_def by blast+
  moreover from b64_lawsD(3) [OF assms(2) u(4)] this have "length b < length h" by simp
  moreover have "length s' = 5 + length b" using s' by (auto simp: from_utf8_Some)
  ultimately show ?thesis by simp
qed

lemma from_url_total:
  assumes "url_laws lib" "b64_laws (b64url_encode lib) (b64url_decode lib)"
  shows "\<exists>r. from_url lib w s = Some r"
proof (induction "length s" arbitrary: s rule: less_induct)
  case (less t)
  show ?case
  proof (cases "from_url_step lib w t")
    case (Inl t')
    from less [OF from_url_step_shorter [OF assms Inl]] Inl show ?thesis by (simp add: from_url.simps [of lib w t])
  next
    case (Inr r)
    then show ?thesis by (simp add: from_url.simps [of lib w t])
  qed
qed

lemma config_wf_from_url:
  assumes "from_url lib w s = Some r" "\<And>p n. length (openssl_bytes_to_key lib p n) = n"
  shows "r = Ok c \<longrightarrow> config_wf c"
proof -
  have "(\<forall>p n. length (openssl_bytes_to_key lib p n) = n) \<longrightarrow> r = Ok c \<longrightarrow> config_wf c"
  proof (rule from_url.raw_induct [OF _ assms(1), where P = "\<lambda>lib w s r.
        (\<forall>p n. length (openssl_bytes_to_key lib p n) = n) \<longrightarrow> r = Ok c \<longrightarrow> config_wf c"])
  qed (auto split: sum.splits intro: config_wf_from_url_step)
  with assms(2) show ?thesis by blast
qed

section \<open>Addresses and URLs\<close>

text \<open>The addresses that print as something that is read back as themselves.\<close>

fun addr_readable :: "server_addr \<Rightarrow> bool" where
  "addr_readable (ServerSocketAddr (SockV4 _ _)) = True"
| "addr_readable (ServerSocketAddr (SockV6 _ _ _ _)) = False"
| "addr_readable (ServerDomainName d p) =
     (d \<noteq> [] \<and> CHR '':'' \<notin> set d \<and> socket_addr_from_str (d @ '':'' @ show_dec (unat p)) = None)"

lemma socket_addr_from_str_v4: "socket_addr_from_str (show_socket_addr (SockV4 ip p)) = Some (SockV4 ip p)"
proof -
  have "read_ipv4_addr (show_ipv4 ip @ '':'' @ show_dec (unat p)) = Some (ip, '':'' @ show_dec (unat p))"
    using not_digit_punct by (intro read_ipv4_show) simp
  moreover have "read_port ('':'' @ show_dec (unat p)) = Some (p, [])"
    using read_port_show [of "[]" p] by simp
  ultimately have "read_socket_addr_v4 (show_ipv4 ip @ '':'' @ show_dec (unat p)) = Some (SockV4 ip p, [])"
    by (simp add: read_socket_addr_v4_def)
  then show ?thesis by (simp add: socket_addr_from_str_def parse_with_def read_socket_addr_def)
qed

lemma colon_not_in_show: "CHR '':'' \<notin> set (show_dec n)"
proof (rule show_base_digits [of 10 n])
  fix ds
  assume s: "show_dec n = map digit_char ds" "\<forall>d \<in> set ds. d < 10"
  have "digit_char d \<noteq> CHR '':''" if "d < 10" for d
    using to_digit_char [of d 10] that not_digit_punct(6) by fastforce
  then show ?thesis unfolding s(1) using s(2) by (metis imageE list.set_map)
qed simp

lemma server_addr_readable: "addr_readable a \<Longrightarrow> server_addr_from_str (server_addr_display a) = Ok a"
proof (induction a rule: addr_readable.induct)
  case (1 ip p)
  then show ?case using socket_addr_from_str_v4 by (simp add: server_addr_from_str_def)
next
  case (3 d p)
  then have "split_on CHR '':'' (d @ CHR '':'' # show_dec (unat p)) = [d, show_dec (unat p)]"
    using colon_not_in_show by (simp add: split_on_append split_on_none)
  with 3 show ?case by (simp add: server_addr_from_str_def u16_from_str_show)
qed simp

lemma show_socket_addr_host_port:
  "addr_readable a \<Longrightarrow> server_addr_host a @ '':'' @ show_dec (unat (server_addr_port a)) = server_addr_display a"
  by (cases a rule: addr_readable.cases) auto

lemma b64_encode_ne: "b64_laws enc dec \<Longrightarrow> enc (as_bytes (m @ '':'' @ p)) \<noteq> []"
  using b64_lawsD(1,4) [of enc dec] by (metis append_is_Nil_conv as_bytes_simps(1) as_bytes_inject list.distinct(1) option.inject)

lemma from_url_with_user_intro:
  assumes "url_parse lib s = Some u" "url_scheme u = ''ss''" "url_username u \<noteq> []"
  shows "from_url lib w s = Some (from_url_with_user lib w u)"
  using assms by (simp add: from_url.simps [of lib w s] from_url_step_def)

text \<open>What the plugin parameter of a URL carries, and how it is printed.\<close>

definition sip002_plugin :: "plugin_config \<Rightarrow> string" where
  "sip002_plugin p = plugin p @ (case plugin_opts p of Some opt \<Rightarrow> '';'' @ opt | None \<Rightarrow> [])"

lemma split_sip002:
  "CHR '';'' \<notin> set (plugin p) \<Longrightarrow> split_once CHR '';'' (sip002_plugin p) = (plugin p, plugin_opts p)"
proof -
  assume a: "CHR '';'' \<notin> set (plugin p)"
  have "split_once CHR '';'' q = (q, None)" if "CHR '';'' \<notin> set q" for q using that by (induction q) auto
  with a show ?thesis by (auto simp: sip002_plugin_def split_once_append split: option.splits)
qed

text \<open>
  Text that is the same in every part of a URL, and text that was percent-encoded with
  \<open>NON_ALPHANUMERIC\<close>.
\<close>

definition plain_char :: "char \<Rightarrow> bool" where
  "plain_char c \<longleftrightarrow> (let n = of_char c :: nat in 48 \<le> n \<and> n \<le> 57 \<or> 65 \<le> n \<and> n \<le> 90 \<or> 97 \<le> n \<and> n \<le> 122) \<or>
     c \<in> {CHR ''-'', CHR ''.'', CHR ''_''}"

definition escaped_char :: "char \<Rightarrow> bool" where
  "escaped_char c \<longleftrightarrow> plain_char c \<or> c = CHR ''%''"

definition opt_part :: "string \<Rightarrow> string option \<Rightarrow> string" where
  "opt_part mark x = (case x of None \<Rightarrow> [] | Some s \<Rightarrow> mark @ s)"

lemma opt_part_simps [simp]: "opt_part mark None = []" "opt_part mark (Some s) = mark @ s"
  by (simp_all add: opt_part_def)

text \<open>A URL of the generic syntax, written from its parts.\<close>

definition url_text :: "string \<Rightarrow> string option \<Rightarrow> string \<Rightarrow> u16 \<Rightarrow> string option \<Rightarrow> string option \<Rightarrow> string" where
  "url_text user pw host port query fragment =
     ''ss://'' @ user @ opt_part '':'' pw @ ''@'' @ host @ '':'' @ show_dec (unat port) @
     opt_part ''/?'' query @ opt_part ''#'' fragment"

text \<open>
  What is relied on of the URL parser for such texts: a URL whose parts need no encoding is taken apart
  into these parts. And of the encodings: their alphabets, that percent decoding inverts the encoding and
  changes no plain text, and that form decoding finds the parameter of the query.
\<close>

definition url_print_laws :: "'z config_lib_scheme \<Rightarrow> bool" where
  "url_print_laws lib \<longleftrightarrow> (\<forall>user pw host port query fragment.
     user \<noteq> [] \<and> list_all plain_char user \<and> pred_option (\<lambda>s. s \<noteq> [] \<and> list_all escaped_char s) pw \<and>
     host \<noteq> [] \<and> list_all plain_char host \<and>
     pred_option (list_all (\<lambda>c. escaped_char c \<or> c = CHR ''='')) query \<and>
     pred_option (list_all escaped_char) fragment \<longrightarrow>
     url_parse lib (url_text user pw host port query fragment) =
       Some \<lparr>url_scheme = ''ss'', url_username = user, url_password = pw, url_host_str = Some host,
         url_port = Some port, url_query = query, url_fragment = fragment\<rparr>)"

definition url_codec_laws :: "'z config_lib_scheme \<Rightarrow> bool" where
  "url_codec_laws lib \<longleftrightarrow>
     (\<forall>b. list_all plain_char (b64url_encode lib b)) \<and> (\<forall>s. list_all escaped_char (percent_encode lib s)) \<and>
     (\<forall>s. percent_decode lib (percent_encode lib s) = as_bytes s) \<and>
     (\<forall>s. list_all plain_char s \<longrightarrow> percent_decode lib s = as_bytes s) \<and>
     (\<forall>s. valid_str s \<longrightarrow> query_from_bytes lib (''plugin='' @ percent_encode lib s) = Some [(''plugin'', s)])"

lemma url_codec_lawsD:
  assumes "url_codec_laws lib"
  shows "list_all plain_char (b64url_encode lib b)" "list_all escaped_char (percent_encode lib s)"
    "percent_decode lib (percent_encode lib s) = as_bytes s"
    "list_all plain_char s \<Longrightarrow> percent_decode lib s = as_bytes s"
    "valid_str s \<Longrightarrow> query_from_bytes lib (''plugin='' @ percent_encode lib s) = Some [(''plugin'', s)]"
    "s \<noteq> [] \<Longrightarrow> percent_encode lib s \<noteq> []"
proof -
  note l = assms [unfolded url_codec_laws_def]
  show "list_all plain_char (b64url_encode lib b)" "list_all escaped_char (percent_encode lib s)"
    "percent_decode lib (percent_encode lib s) = as_bytes s"
    "list_all plain_char s \<Longrightarrow> percent_decode lib s = as_bytes s"
    "valid_str s \<Longrightarrow> query_from_bytes lib (''plugin='' @ percent_encode lib s) = Some [(''plugin'', s)]"
    using l by simp_all
  have "as_bytes s = []" if "percent_encode lib s = []"
  proof -
    have "percent_decode lib [] = as_bytes []" using l by simp
    moreover have "percent_decode lib (percent_encode lib s) = as_bytes s" using l by simp
    ultimately show ?thesis using that by simp
  qed
  then show "s \<noteq> [] \<Longrightarrow> percent_encode lib s \<noteq> []" by (cases s) auto
qed

lemma plain_char_ascii: "plain_char c \<Longrightarrow> (of_char c :: u8) < 0x80"
proof -
  assume "plain_char c"
  then have "(of_char c :: nat) < 128" by (auto simp: plain_char_def Let_def)
  then show ?thesis by (simp add: word_less_nat_alt of_char_byte)
qed

lemma valid_plain_append: "list_all plain_char s \<Longrightarrow> valid_str (s @ t) = valid_str t"
  by (induction s) (use plain_char_ascii in \<open>auto simp: valid_str_def\<close>)

lemma valid_plain: "list_all plain_char s \<Longrightarrow> valid_str s"
  using valid_plain_append [of s "[]"] by (simp add: valid_str_def)

lemma plain_show_dec: "list_all plain_char (show_dec n)"
proof (rule show_base_digits [of 10 n])
  fix ds
  assume s: "show_dec n = map digit_char ds" "\<forall>d \<in> set ds. d < 10"
  have "plain_char (digit_char d)" if "d < 10" for d
    using that by (simp add: plain_char_def digit_char_def)
  with s show ?thesis by (simp add: list_all_iff)
qed simp

lemma plain_show_ipv4: "list_all plain_char (show_ipv4 ip) \<and> show_ipv4 ip \<noteq> []"
proof (rule ipv4_octets_split [of ip])
  fix a b c d
  assume o: "ipv4_octets ip = [a, b, c, d]"
  have "plain_char CHR ''.''" by (simp add: plain_char_def)
  with plain_show_dec show ?thesis by (simp add: show_ipv4_def o)
qed

lemma addr_readable_host:
  assumes "addr_readable a" "\<forall>d p. a = ServerDomainName d p \<longrightarrow> list_all plain_char d"
  shows "list_all plain_char (server_addr_host a) \<and> server_addr_host a \<noteq> []"
  using assms plain_show_ipv4 by (cases a rule: addr_readable.cases) auto

text \<open>
  What the URL printed for a server is made of: its user information, host and port, the \<open>plugin\<close> query,
  and the encoded remarks as the fragment.
\<close>

definition url_of :: "'z config_lib_scheme \<Rightarrow> 'w server_config \<Rightarrow> url" where
  "url_of lib c =
     \<lparr>url_scheme = ''ss'',
      url_username =
        (if kind_is_aead_2022 (svr_method c) then kind_display lib (svr_method c)
         else b64url_encode lib (as_bytes (kind_display lib (svr_method c) @ '':'' @ svr_password c))),
      url_password =
        (if kind_is_aead_2022 (svr_method c) then Some (percent_encode lib (svr_password c)) else None),
      url_host_str = Some (server_addr_host (svr_addr c)),
      url_port = Some (server_addr_port (svr_addr c)),
      url_query = map_option (\<lambda>p. ''plugin='' @ percent_encode lib (sip002_plugin p)) (svr_plugin c),
      url_fragment = map_option (percent_encode lib) (svr_remarks c)\<rparr>"

lemma to_url_text:
  assumes "addr_readable (svr_addr c)"
  shows "to_url lib c = url_text (url_username (url_of lib c)) (url_password (url_of lib c))
    (server_addr_host (svr_addr c)) (server_addr_port (svr_addr c)) (url_query (url_of lib c)) (url_fragment (url_of lib c))"
  unfolding to_url_def url_text_def show_socket_addr_host_port [OF assms, symmetric]
  by (auto simp: url_of_def sip002_plugin_def Let_def split: option.split)

lemma to_url_parsed:
  assumes laws: "url_print_laws lib" "url_codec_laws lib" and addr: "addr_readable (svr_addr c)"
    and plain: "list_all plain_char (kind_display lib (svr_method c))" "list_all plain_char (server_addr_host (svr_addr c))"
    and ne: "kind_display lib (svr_method c) \<noteq> []" "svr_password c \<noteq> []" "server_addr_host (svr_addr c) \<noteq> []"
      "url_username (url_of lib c) \<noteq> []"
  shows "url_parse lib (to_url lib c) = Some (url_of lib c)"
proof -
  note d = url_codec_lawsD [OF laws(2)]
  have esc: "escaped_char c" if "plain_char c" for c using that by (simp add: escaped_char_def)
  have user: "list_all plain_char (url_username (url_of lib c))" using d(1) plain(1) by (simp add: url_of_def)
  have pw: "pred_option (\<lambda>s. s \<noteq> [] \<and> list_all escaped_char s) (url_password (url_of lib c))"
    using d(2) d(6) [OF ne(2)] by (simp add: url_of_def)
  have "list_all (\<lambda>c. escaped_char c \<or> c = CHR ''='') (percent_encode lib s)" for s
    using d(2) [of s] by (simp add: list_all_iff)
  moreover have "list_all (\<lambda>c. escaped_char c \<or> c = CHR ''='') ''plugin=''"
    by (simp add: escaped_char_def plain_char_def)
  ultimately have query: "pred_option (list_all (\<lambda>c. escaped_char c \<or> c = CHR ''='')) (url_query (url_of lib c))"
    by (cases "svr_plugin c") (simp_all add: url_of_def)
  have frag: "pred_option (list_all escaped_char) (url_fragment (url_of lib c))"
    using d(2) by (cases "svr_remarks c") (simp_all add: url_of_def)
  have "url_parse lib (to_url lib c) = Some \<lparr>url_scheme = ''ss'', url_username = url_username (url_of lib c),
      url_password = url_password (url_of lib c), url_host_str = Some (server_addr_host (svr_addr c)),
      url_port = Some (server_addr_port (svr_addr c)), url_query = url_query (url_of lib c),
      url_fragment = url_fragment (url_of lib c)\<rparr>"
    unfolding to_url_text [OF addr]
    using laws(1) ne(3,4) user pw plain(2) query frag unfolding url_print_laws_def by blast
  then show ?thesis by (simp add: url_of_def)
qed

lemma url_of_account:
  assumes laws: "url_codec_laws lib" "b64_laws (b64url_encode lib) (b64url_decode lib)"
    and plain: "list_all plain_char (kind_display lib (svr_method c))" and pw: "valid_str (svr_password c)"
  shows "url_account lib (url_username (url_of lib c)) (url_password (url_of lib c)) =
    Ok (kind_display lib (svr_method c), svr_password c)"
proof -
  note d = url_codec_lawsD [OF laws(1)]
  let ?m = "kind_display lib (svr_method c)"
  have "\<not> plain_char CHR '':''" by (simp add: plain_char_def)
  with plain have colon: "CHR '':'' \<notin> set ?m" by (auto simp: list_all_iff)
  have "valid_str (CHR '':'' # svr_password c)" using pw by (simp add: valid_str_def)
  then have v: "from_utf8 (as_bytes (?m @ CHR '':'' # svr_password c)) = Some (?m @ CHR '':'' # svr_password c)"
    using valid_plain_append [OF plain] by (intro from_utf8_as_bytes) simp
  have u: "from_utf8 (percent_decode lib s) = Some s" if "list_all plain_char s" for s
    using d(4) [OF that] valid_plain [OF that] by (simp add: from_utf8_as_bytes)
  show ?thesis
  proof (cases "kind_is_aead_2022 (svr_method c)")
    case True
    then show ?thesis using u [OF plain] d(3) from_utf8_as_bytes [OF pw] by (simp add: url_account_def url_of_def)
  next
    case False
    then show ?thesis using u [OF d(1)] b64_lawsD(1) [OF laws(2)] v colon
      by (simp add: url_account_def url_of_def split_once_append)
  qed
qed

lemma url_of_finish:
  assumes "url_codec_laws lib"
    "\<forall>p. svr_plugin c = Some p \<longrightarrow> CHR '';'' \<notin> set (plugin p) \<and> valid_str (sip002_plugin p)"
    "svr_plugin c1 = None" "svr_remarks c1 = None"
  shows "url_finish lib (url_of lib c) c1 = Ok (c1
    \<lparr>svr_plugin := map_option (\<lambda>p. \<lparr>plugin = plugin p, plugin_opts = plugin_opts p, plugin_args = [],
        plugin_mode = TcpOnly\<rparr>) (svr_plugin c),
     svr_remarks := map_option (percent_encode lib) (svr_remarks c)\<rparr>)"
  using assms(2-4) url_codec_lawsD(5) [OF assms(1)]
  by (cases "svr_plugin c"; cases "svr_remarks c")
     (simp_all add: url_finish_def url_of_def set_remarks_def set_plugin_def split_sip002)

section \<open>A concrete library\<close>

text \<open>
  Bytes in letters, two for each, marked with a percent sign in percent encoding; a URL is a scheme, user
  information up to an at sign, a host, a port, a query and a fragment.
\<close>

definition hex_letter :: "nat \<Rightarrow> char" where "hex_letter d = char_of (97 + d)"

definition hex_encode :: "bytes \<Rightarrow> string" where
  "hex_encode bs = concat (map (\<lambda>b. [hex_letter (unat b div 16), hex_letter (unat b mod 16)]) bs)"

fun hex_decode :: "string \<Rightarrow> bytes option" where
  "hex_decode [] = Some []"
| "hex_decode [c] = None"
| "hex_decode (c # d # s) =
     (let h = of_char c :: nat; l = of_char d :: nat in
      if 97 \<le> h \<and> h < 113 \<and> 97 \<le> l \<and> l < 113
      then map_option (\<lambda>bs. of_nat ((h - 97) * 16 + (l - 97)) # bs) (hex_decode s) else None)"

lemma hex_decode_encode: "hex_decode (hex_encode bs) = Some bs"
proof (induction bs)
  case (Cons b bs)
  have "unat b < 256" using unsigned_less [of b] by simp
  then have "unat b div 16 < 16" by simp
  then have "(of_char (hex_letter (unat b div 16)) :: nat) = 97 + unat b div 16"
    "(of_char (hex_letter (unat b mod 16)) :: nat) = 97 + unat b mod 16"
    by (simp_all add: hex_letter_def)
  with Cons \<open>unat b div 16 < 16\<close> show ?case
    by (simp add: hex_encode_def Let_def del: of_nat_add of_nat_mult)
qed (simp add: hex_encode_def)

lemma hex_decode_shorter: "hex_decode s = Some b \<Longrightarrow> 2 * length b = length s"
  by (induction s arbitrary: b rule: hex_decode.induct) (auto simp: Let_def split: if_splits)

lemma hex_no_colon: "CHR '':'' \<notin> set (hex_encode bs)"
proof -
  have "hex_letter d \<noteq> CHR '':''" if "d < 16" for d
  proof
    assume "hex_letter d = CHR '':''"
    then have "(of_char (hex_letter d) :: nat) = 58" by simp
    then show False using that by (simp add: hex_letter_def)
  qed
  moreover have "unat b div 16 < 16" for b :: u8
  proof -
    have "unat b < 256" using unsigned_less [of b] by simp
    then show ?thesis by simp
  qed
  ultimately show ?thesis unfolding hex_encode_def by (auto dest: sym)
qed

lemma hex_laws: "b64_laws hex_encode hex_decode"
proof -
  have "length b < length s" if "hex_decode s = Some b" "s \<noteq> []" for s b
    using hex_decode_shorter [OF that(1)] that(2) by (cases b; cases s) auto
  then show ?thesis using hex_decode_encode hex_no_colon by (simp add: b64_laws_def)
qed

definition pct_encode :: "string \<Rightarrow> string" where
  "pct_encode s = concat (map (\<lambda>c. CHR ''%'' # hex_encode [of_char c]) s)"

fun pct_decode :: "string \<Rightarrow> bytes" where
  "pct_decode [] = []"
| "pct_decode (c # s) =
     (if c = CHR ''%'' then
        (case hex_decode (take 2 s) of
           Some [b] \<Rightarrow> b # pct_decode (drop 2 s)
         | _ \<Rightarrow> of_char c # pct_decode s)
      else of_char c # pct_decode s)"

definition sample_url_parse :: "string \<Rightarrow> url option" where
  "sample_url_parse s =
     (if take 5 s \<noteq> ''ss://'' \<or> drop 5 s = [] then None
      else
        let (body, fragment) = split_once CHR ''#'' (drop 5 s);
            (main, query) = split_once CHR ''?'' body;
            (authority, _) = split_once CHR ''/'' main;
            (first, rest) = split_once CHR ''@'' authority;
            (user, pw) = (if rest = None then ([], None) else split_once CHR '':'' first);
            (host, port) = split_once CHR '':'' (case rest of None \<Rightarrow> first | Some r \<Rightarrow> r)
        in Some \<lparr>url_scheme = ''ss'', url_username = user, url_password = pw,
             url_host_str = (if host = [] then None else Some host), url_port = Option.bind port u16_from_str,
             url_query = query, url_fragment = fragment\<rparr>)"

definition sample_old_kind :: cipher_kind where
  "sample_old_kind = \<lparr>kind_category = CatAead, kind_is_aead_2022 = False, kind_key_len = 4,
     kind_salt_len = 2, kind_iv_len = 0, kind_tag_len = 1\<rparr>"

definition sample_config_lib :: config_lib where
  "sample_config_lib = \<lparr>kind_2022 = (\<lambda>k. if kind_is_aead_2022 k then Some Aes128Gcm else None),
     blake3_hash = (\<lambda>b. take 32 (b @ replicate 32 0)), kind_display = (\<lambda>k. if kind_is_aead_2022 k then ''x'' else ''y''),
     kind_from_str = (\<lambda>s. if s = ''y'' then Some sample_old_kind else None),
     openssl_bytes_to_key = (\<lambda>p n. replicate n 1), b64_encode = hex_encode, b64_decode = hex_decode,
     b64url_encode = hex_encode, b64url_decode = hex_decode, percent_encode = pct_encode,
     percent_decode = pct_decode, url_parse = sample_url_parse,
     query_from_bytes = (\<lambda>s. Some [(''plugin'', of_bytes (pct_decode (drop 7 s)))])\<rparr>"

lemma split_once_length: "split_once c s = (p, None) \<Longrightarrow> p = s"
  by (induction s arbitrary: p) (auto split: if_splits prod.splits)

lemma split_once_length_Some: "split_once c s = (p, Some q) \<Longrightarrow> length s = Suc (length p + length q)"
  by (induction s arbitrary: p) (auto split: if_splits prod.splits)

lemma split_once_length_le: "split_once c s = (p, q) \<Longrightarrow> length p \<le> length s"
  by (cases q) (auto dest: split_once_length split_once_length_Some)

lemma sample_url_laws: "url_laws sample_config_lib"
proof -
  have "h \<noteq> [] \<and> length h + 5 \<le> length s" if p: "sample_url_parse s = Some u" and h: "url_host_str u = Some h" for s u h
  proof -
    have "drop 5 s \<noteq> []" using p by (auto simp: sample_url_parse_def)
    then have l: "5 \<le> length s" by (metis drop_all linorder_le_cases)
    obtain body frag where 1: "split_once CHR ''#'' (drop 5 s) = (body, frag)" by force
    obtain main q where 2: "split_once CHR ''?'' body = (main, q)" by force
    obtain auth x where 3: "split_once CHR ''/'' main = (auth, x)" by force
    obtain first rest where 4: "split_once CHR ''@'' auth = (first, rest)" by force
    obtain host port where 5: "split_once CHR '':'' (case rest of None \<Rightarrow> first | Some r \<Rightarrow> r) = (host, port)" by force
    have "h = host" "h \<noteq> []"
      using p h 1 2 3 4 5 by (auto simp: sample_url_parse_def split: if_split_asm prod.split_asm)
    moreover have "length (case rest of None \<Rightarrow> first | Some r \<Rightarrow> r) \<le> length auth"
      using split_once_length_le [OF 4] split_once_length_Some [of "CHR ''@''" auth first] 4 by (cases rest) auto
    ultimately show ?thesis
      using l split_once_length_le [OF 1] split_once_length_le [OF 2] split_once_length_le [OF 3]
        split_once_length_le [OF 5] by simp
  qed
  then show ?thesis by (simp add: url_laws_def sample_config_lib_def)
qed

text \<open>The sample parser takes a printed URL apart, and the sample encoding is undone.\<close>

lemma split_once_skip: "c \<notin> set p \<Longrightarrow> split_once c (p @ s) = (case split_once c s of (x, y) \<Rightarrow> (p @ x, y))"
  by (induction p) (auto split: prod.splits)

lemma escaped_char_clean:
  assumes "list_all (\<lambda>c. escaped_char c \<or> c = CHR ''='') s"
  shows "CHR ''#'' \<notin> set s" "CHR ''?'' \<notin> set s" "CHR ''/'' \<notin> set s" "CHR ''@'' \<notin> set s" "CHR '':'' \<notin> set s"
  using assms by (auto simp: list_all_iff escaped_char_def plain_char_def)

lemma sample_url_print_laws: "url_print_laws sample_config_lib"
proof -
  let ?esc = "list_all (\<lambda>c. escaped_char c \<or> c = CHR ''='')"
  have "sample_url_parse (url_text user pw host port query fragment) =
       Some \<lparr>url_scheme = ''ss'', url_username = user, url_password = pw, url_host_str = Some host,
         url_port = Some port, url_query = query, url_fragment = fragment\<rparr>"
    if p: "user \<noteq> []" "host \<noteq> []" "?esc user" "?esc host" "pred_option ?esc pw" "pred_option ?esc query"
    for user pw host port query fragment
  proof -
    have dec: "?esc (show_dec (unat port))"
      using plain_show_dec [of "unat port"] by (auto simp: list_all_iff escaped_char_def)
    note c = escaped_char_clean [OF p(3)] escaped_char_clean [OF p(4)] escaped_char_clean [OF dec]
    have pw: "CHR ''#'' \<notin> set x" "CHR ''?'' \<notin> set x" "CHR ''/'' \<notin> set x" "CHR ''@'' \<notin> set x"
      if "pw = Some x" for x using escaped_char_clean [of x] p(5) that by simp_all
    have q: "CHR ''#'' \<notin> set x" if "query = Some x" for x using escaped_char_clean [of x] p(6) that by simp
    have none: "split_once a s = (s, None)" if "a \<notin> set s" for a s using that by (induction s) auto
    show ?thesis
      using p(1,2) c pw q u16_from_str_show [of port]
      by (cases pw; cases query; cases fragment)
        (simp_all add: sample_url_parse_def url_text_def split_once_skip none)
  qed
  moreover have "?esc s" if "list_all escaped_char s" for s using that by (auto simp: list_all_iff)
  moreover have "?esc s" if "list_all plain_char s" for s using that by (auto simp: list_all_iff escaped_char_def)
  ultimately show ?thesis
    by (auto simp: url_print_laws_def sample_config_lib_def option.pred_set)
qed

lemma plain_hex_letter: "d < 16 \<Longrightarrow> plain_char (hex_letter d)"
  by (simp add: plain_char_def hex_letter_def)

lemma plain_hex_encode: "list_all plain_char (hex_encode bs)"
proof -
  have "unat b div 16 < 16" for b :: u8
  proof -
    have "unat b < 256" using unsigned_less [of b] by simp
    then show ?thesis by simp
  qed
  then show ?thesis by (auto simp: hex_encode_def list_all_iff intro: plain_hex_letter)
qed

lemma pct_decode_encode: "pct_decode (pct_encode s) = as_bytes s"
proof (induction s)
  case (Cons c s)
  obtain a b where ab: "hex_encode [of_char c :: u8] = [a, b]" by (simp add: hex_encode_def)
  with hex_decode_encode [of "[of_char c :: u8]"] have "hex_decode [a, b] = Some [of_char c]" by simp
  with Cons ab show ?case by (simp add: pct_encode_def del: hex_decode.simps)
qed (simp add: pct_encode_def)

lemma pct_decode_plain: "list_all plain_char s \<Longrightarrow> pct_decode s = as_bytes s"
  by (induction s) (auto simp: plain_char_def)

lemma sample_url_codec_laws: "url_codec_laws sample_config_lib"
proof -
  have "list_all escaped_char (pct_encode s)" for s
    using plain_hex_encode by (induction s) (auto simp: pct_encode_def list_all_iff escaped_char_def)
  then show ?thesis
    using plain_hex_encode pct_decode_encode pct_decode_plain
    by (simp add: url_codec_laws_def sample_config_lib_def)
qed

definition sample_config :: "unit server_config" where
  "sample_config = \<lparr>svr_addr = ServerDomainName ''a'' 8, svr_password = ''p:q'', svr_method = sample_old_kind,
     svr_enc_key = [1, 1, 1, 1], svr_timeout = None, svr_identity_keys = [], svr_user_manager = None,
     svr_plugin = Some \<lparr>plugin = ''v'', plugin_opts = Some ''tls;h=b'', plugin_args = [], plugin_mode = TcpOnly\<rparr>,
     svr_plugin_addr = None, svr_remarks = Some ''r s'', svr_id = None, svr_mode = TcpAndUdp,
     svr_weight = ()\<rparr>"

lemma sample_valid: "valid_str ''p:q''" "valid_str ''v;tls;h=b''"
  by code_simp+

lemma addr_readable_a8: "addr_readable (ServerDomainName ''a'' 8)"
  by (simp add: socket_addr_from_str_def parse_with_def read_socket_addr_def read_socket_addr_v4_def
        read_ipv4_addr_def read_octet_def read_separator_def read_number_def to_digit_def
        read_socket_addr_v6_def read_given_char_def)

section \<open>Properties\<close>

text \<open>C30: The password of an AEAD-2022 server with identity headers, written as the colon-separated
  base64 identity keys followed by the user key, yields exactly these keys in this order; only the
  user key is kept as the password.\<close>

theorem password_identity_keys:
  assumes "b64_laws (b64_encode lib) (b64_decode lib)" "method_support_eih lib method" "kind_is_aead_2022 method"
    and "length key = kind_key_len method"
  shows "password_to_keys lib method (join_with CHR '':'' (map (b64_encode lib) (ids @ [key]))) =
    (Ok (b64_encode lib key, key, ids) :: (string \<times> bytes \<times> bytes list, 'e) outcome)"
  using password_to_keys_encoded [OF assms] .

theorem password_identity_keys_witness:
  "password_to_keys sample_config_lib sample_2022_kind
      (join_with CHR '':'' (map (b64_encode sample_config_lib) ([[7], [8, 9]] @ [replicate 16 1]))) =
    (Ok (b64_encode sample_config_lib (replicate 16 1), replicate 16 1, [[7], [8, 9]]) ::
      (string \<times> bytes \<times> bytes list, unit) outcome)"
  by (rule password_identity_keys)
     (use hex_laws in \<open>simp_all add: sample_config_lib_def sample_2022_kind_def method_support_eih_def\<close>)

text \<open>C37: Parsing a URL always returns: each step into a legacy base64 URL makes the text shorter.\<close>

theorem from_url_terminates:
  assumes "url_laws lib" "b64_laws (b64url_encode lib) (b64url_decode lib)"
  shows "\<exists>r. from_url lib w s = Some r"
  using from_url_total [OF assms] .

theorem from_url_terminates_witness: "\<exists>r. from_url sample_config_lib () ''ss://abcd'' = Some r"
  using from_url_terminates [OF sample_url_laws, of "()" "''ss://abcd''"] hex_laws
  by (simp add: sample_config_lib_def)

text \<open>C38: Every configuration that is created, given another method, or parsed from a URL has a key of
  the length of its method, and no setter changes that.\<close>

theorem config_key_length:
  assumes "\<And>p n. length (openssl_bytes_to_key lib p n) = n"
  shows "(server_config_new lib w addr pw method = (Ok c :: (_, 'e) outcome) \<longrightarrow> config_wf c) \<and>
    (set_method lib method pw c = (Ok c' :: (_, 'e) outcome) \<longrightarrow> config_wf c') \<and>
    (from_url lib w s = Some (Ok c) \<longrightarrow> config_wf c) \<and>
    (config_wf c \<longrightarrow> config_wf (set_plugin p c) \<and> config_wf (set_addr addr c) \<and> config_wf (set_user_manager um c) \<and>
       config_wf (set_plugin_addr addr c) \<and> config_wf (set_timeout t c) \<and> config_wf (set_remarks r c) \<and>
       config_wf (set_id r c) \<and> config_wf (set_mode m c) \<and> config_wf (set_weight w c))"
  using config_wf_from_url [where lib = lib and w = w and s = s and r = "Ok c" and c = c, OF _ assms]
  by (auto intro: config_wf_new [OF _ assms] config_wf_set_method [OF _ assms])

theorem config_key_length_witness:
  "\<exists>c. server_config_new sample_config_lib () (ServerDomainName ''a'' 8) ''p'' sample_old_kind = (Ok c :: (_, unit) outcome) \<and>
    config_wf c \<and> config_wf (set_remarks ''r'' c)"
proof -
  have law: "\<And>p n. length (openssl_bytes_to_key sample_config_lib p n) = n" by (simp add: sample_config_lib_def)
  obtain c where c: "server_config_new sample_config_lib () (ServerDomainName ''a'' 8) ''p'' sample_old_kind =
      (Ok c :: (_, unit) outcome)"
    by (simp add: server_config_new_def password_to_keys_def make_derived_key_def sample_old_kind_def
        sample_config_lib_def method_support_eih_def)
  from config_key_length [where c = c and lib = sample_config_lib and w = "()" and r = "''r''", OF law] c
  show ?thesis by blast
qed

text \<open>An IPv4 socket address or a domain name with a port is read back from its printed form.\<close>

theorem server_addr_roundtrip:
  assumes "addr_readable a"
  shows "server_addr_from_str (server_addr_display a) = Ok a"
  using server_addr_readable [OF assms] .

theorem server_addr_roundtrip_witness:
  "server_addr_from_str (server_addr_display (ServerDomainName ''a'' 8)) = Ok (ServerDomainName ''a'' 8)"
  by (rule server_addr_roundtrip) (rule addr_readable_a8)

text \<open>C39: A URL printed for a server without identity keys, of any method, is taken apart by the URL parser into
  its parts and parsed back to the same address, method, password, key and plugin, but the remarks come back
  percent-encoded.\<close>

theorem url_roundtrip:
  assumes "url_print_laws lib" "url_codec_laws lib" "b64_laws (b64url_encode lib) (b64url_decode lib)"
    and "kind_from_str lib (kind_display lib (svr_method c)) = Some (svr_method c)"
    and "kind_display lib (svr_method c) \<noteq> []" "list_all plain_char (kind_display lib (svr_method c))"
    and "addr_readable (svr_addr c)" "\<forall>d p. svr_addr c = ServerDomainName d p \<longrightarrow> list_all plain_char d"
    and "password_to_keys lib (svr_method c) (svr_password c) =
      (Ok (svr_password c, svr_enc_key c, []) :: (_, url_parse_error) outcome)"
    and "valid_str (svr_password c)" "svr_password c \<noteq> []"
    and "\<forall>p. svr_plugin c = Some p \<longrightarrow> CHR '';'' \<notin> set (plugin p) \<and> valid_str (sip002_plugin p)"
  shows "\<exists>c'. from_url lib w (to_url lib c) = Some (Ok c') \<and> svr_addr c' = svr_addr c \<and>
    svr_method c' = svr_method c \<and> svr_password c' = svr_password c \<and> svr_enc_key c' = svr_enc_key c \<and>
    svr_identity_keys c' = [] \<and>
    svr_plugin c' = map_option (\<lambda>p. \<lparr>plugin = plugin p, plugin_opts = plugin_opts p, plugin_args = [],
        plugin_mode = TcpOnly\<rparr>) (svr_plugin c) \<and>
    svr_remarks c' = map_option (percent_encode lib) (svr_remarks c)"
proof -
  let ?u = "url_of lib c"
  have user: "url_username ?u \<noteq> []" using b64_encode_ne [OF assms(3)] assms(5) by (simp add: url_of_def)
  from addr_readable_host [OF assms(7,8)] have host: "list_all plain_char (server_addr_host (svr_addr c))"
    "server_addr_host (svr_addr c) \<noteq> []" by simp_all
  note parsed = to_url_parsed [OF assms(1,2,7,6) host(1) assms(5,11) host(2) user]
  have f: "from_url lib w (to_url lib c) = Some (from_url_with_user lib w ?u)"
    using parsed user by (intro from_url_with_user_intro) (simp_all add: url_of_def)
  have addr: "url_server_addr ?u = (Ok (svr_addr c) :: (server_addr, url_parse_error) outcome)"
    using server_addr_readable [OF assms(7)] show_socket_addr_host_port [OF assms(7)]
    by (simp add: url_server_addr_def url_of_def)
  obtain c1 where c1: "server_config_new lib w (svr_addr c) (svr_password c) (svr_method c) =
      (Ok c1 :: (_, url_parse_error) outcome)" "svr_addr c1 = svr_addr c" "svr_method c1 = svr_method c"
      "svr_password c1 = svr_password c" "svr_enc_key c1 = svr_enc_key c" "svr_identity_keys c1 = []"
      "svr_plugin c1 = None" "svr_remarks c1 = None"
    using assms(9) by (simp add: server_config_new_def)
  show ?thesis
    unfolding f from_url_with_user_def
    using url_of_account [OF assms(2,3,6,10)] addr c1 assms(4) url_of_finish [OF assms(2,12) c1(7,8)]
    by simp
qed

theorem url_roundtrip_witness:
  "\<exists>c'. from_url sample_config_lib () (to_url sample_config_lib sample_config) = Some (Ok c') \<and>
    svr_addr c' = svr_addr sample_config \<and> svr_method c' = svr_method sample_config \<and>
    svr_password c' = ''p:q'' \<and> svr_enc_key c' = [1, 1, 1, 1] \<and> svr_identity_keys c' = [] \<and>
    svr_plugin c' = Some \<lparr>plugin = ''v'', plugin_opts = Some ''tls;h=b'', plugin_args = [], plugin_mode = TcpOnly\<rparr> \<and>
    svr_remarks c' = Some (pct_encode ''r s'')"
proof -
  have addr: "addr_readable (svr_addr sample_config)" using addr_readable_a8 by (simp add: sample_config_def)
  have v: "valid_str (svr_password sample_config)"
    "\<forall>p. svr_plugin sample_config = Some p \<longrightarrow> CHR '';'' \<notin> set (plugin p) \<and> valid_str (sip002_plugin p)"
    by (simp_all add: sample_config_def sip002_plugin_def sample_valid)
  have m: "kind_from_str sample_config_lib (kind_display sample_config_lib (svr_method sample_config)) =
      Some (svr_method sample_config)" "kind_display sample_config_lib (svr_method sample_config) \<noteq> []"
    "list_all plain_char (kind_display sample_config_lib (svr_method sample_config))"
    "\<forall>d p. svr_addr sample_config = ServerDomainName d p \<longrightarrow> list_all plain_char d" "svr_password sample_config \<noteq> []"
    by (simp_all add: sample_config_lib_def sample_config_def sample_old_kind_def plain_char_def)
  have keys: "password_to_keys sample_config_lib (svr_method sample_config) (svr_password sample_config) =
      (Ok (svr_password sample_config, svr_enc_key sample_config, []) :: (_, url_parse_error) outcome)"
    by (simp add: password_to_keys_def make_derived_key_def sample_config_lib_def sample_config_def
        sample_old_kind_def method_support_eih_def numeral_eq_Suc)
  have b64: "b64_laws (b64url_encode sample_config_lib) (b64url_decode sample_config_lib)"
    using hex_laws by (simp add: sample_config_lib_def)
  from url_roundtrip [OF sample_url_print_laws sample_url_codec_laws b64 m(1-3) addr m(4) keys v(1) m(5) v(2), of "()"]
  show ?thesis by (simp add: sample_config_def sample_config_lib_def)
qed

text \<open>C40: The URL of a server with identity headers is the one of its user key alone: the identity keys
  are lost.\<close>

theorem url_drops_identity_keys:
  assumes "b64_laws (b64_encode lib) (b64_decode lib)" "method_support_eih lib method" "kind_is_aead_2022 method"
    and "length key = kind_key_len method"
    and "server_config_new lib w addr (join_with CHR '':'' (map (b64_encode lib) (ids @ [key]))) method =
      (Ok c :: (_, unit) outcome)"
    and "server_config_new lib w addr (b64_encode lib key) method = (Ok c' :: (_, unit) outcome)"
  shows "svr_identity_keys c = ids \<and> svr_identity_keys c' = [] \<and> to_url lib c = to_url lib c' \<and>
    to_qrcode_url lib c = to_qrcode_url lib c'"
proof -
  have "password_to_keys lib method (join_with CHR '':'' (map (b64_encode lib) (ids @ [key]))) =
      (Ok (b64_encode lib key, key, ids) :: (string \<times> bytes \<times> bytes list, unit) outcome)"
    and "password_to_keys lib method (b64_encode lib key) =
      (Ok (b64_encode lib key, key, []) :: (string \<times> bytes \<times> bytes list, unit) outcome)"
    using password_to_keys_encoded [OF assms(1-4)] password_to_keys_encoded [OF assms(1-4), of "[]"] by simp_all
  then show ?thesis using assms(5,6) by (auto simp: server_config_new_def to_url_def to_qrcode_url_def Let_def)
qed

theorem url_drops_identity_keys_witness:
  "\<exists>(c :: unit server_config) (c' :: unit server_config). svr_identity_keys c = [[7]] \<and> svr_identity_keys c' = [] \<and>
    to_url sample_config_lib c = to_url sample_config_lib c' \<and>
    to_qrcode_url sample_config_lib c = to_qrcode_url sample_config_lib c'"
proof -
  let ?key = "replicate 16 1 :: bytes"
  have laws: "b64_laws (b64_encode sample_config_lib) (b64_decode sample_config_lib)"
    and eih: "method_support_eih sample_config_lib sample_2022_kind" "kind_is_aead_2022 sample_2022_kind"
      "length ?key = kind_key_len sample_2022_kind"
    using hex_laws by (simp_all add: sample_config_lib_def sample_2022_kind_def method_support_eih_def)
  have "\<exists>c :: unit server_config. server_config_new sample_config_lib () (ServerDomainName ''a'' 8)
      (join_with CHR '':'' (map (b64_encode sample_config_lib) (ids @ [?key]))) sample_2022_kind =
      (Ok c :: (_, unit) outcome)" for ids
    using arg_cong [OF password_to_keys_encoded [OF laws eih, of ids],
        of "\<lambda>r. and_then r (\<lambda>(password, enc_key, identity_keys). Ok undefined) :: (unit server_config, unit) outcome"]
    unfolding server_config_new_def password_to_keys_encoded [OF laws eih, of ids] by simp
  from this [of "[[7]]"] this [of "[]"] obtain c c' :: "unit server_config" where
    "server_config_new sample_config_lib () (ServerDomainName ''a'' 8)
      (join_with CHR '':'' (map (b64_encode sample_config_lib) ([[7]] @ [?key]))) sample_2022_kind = (Ok c :: (_, unit) outcome)"
    "server_config_new sample_config_lib () (ServerDomainName ''a'' 8) (b64_encode sample_config_lib ?key) sample_2022_kind =
      (Ok c' :: (_, unit) outcome)" by auto
  from url_drops_identity_keys [OF laws eih this] show ?thesis by - (rule exI [of _ c], rule exI [of _ c'])
qed

end
