(* ===== verification/Udp_Aead_2022.thy ===== *)
theory Udp_Aead_2022
  imports Udp_Packet Server_Config Tcp_Protocol
begin

text \<open>
  The AEAD-2022 datagrams of \<open>crates/shadowsocks/src/relay/udprelay/aead_2022.rs\<close>: a session id and
  a packet id, identity headers, and a checked timestamp before the address and payload.

  \<open>UdpCipher\<close>, the AES block cipher and BLAKE3 are third-party: fields of a library record. A
  \<open>UdpCipher\<close> is immutable, and its cache by key and session id only saves the derivation of keys,
  so \<open>get_cipher\<close> creates it. A decoder that fails leaves a partly decrypted buffer that its
  callers discard: the buffer is part of successful results only.
\<close>

section \<open>Third-party operations\<close>

record 'c udp_2022_lib = crypto_lib +
  udp_cipher_new :: "cipher_kind \<Rightarrow> bytes \<Rightarrow> u64 \<Rightarrow> 'c"
  udp_encrypt :: "'c \<Rightarrow> bytes \<Rightarrow> bytes \<Rightarrow> bytes"
  udp_decrypt :: "'c \<Rightarrow> bytes \<Rightarrow> bytes \<Rightarrow> bool \<times> bytes"
  aes_encrypt :: "aead_2022_variant \<Rightarrow> bytes \<Rightarrow> bytes \<Rightarrow> bytes"
  aes_decrypt :: "aead_2022_variant \<Rightarrow> bytes \<Rightarrow> bytes \<Rightarrow> bytes"
  chacha_nonce_size :: "aead_2022_variant \<Rightarrow> nat"
  kind_nonce_len :: "cipher_kind \<Rightarrow> nat"

text \<open>\<open>split_at_mut\<close>, which panics beyond the end, and \<open>Aes*::new_from_slice(key).expect(..)\<close>.\<close>

definition split_at :: "nat \<Rightarrow> bytes \<Rightarrow> (bytes \<times> bytes, 'e) outcome" where
  "split_at n bs = (if n \<le> length bs then Ok (take n bs, drop n bs) else Panic)"

definition aes_key_len :: "aead_2022_variant \<Rightarrow> nat" where
  "aes_key_len v = (if v = Aes128Gcm then 16 else 32)"

definition aes_init :: "aead_2022_variant \<Rightarrow> bytes \<Rightarrow> (unit, 'e) outcome" where
  "aes_init v key = rust_assert (length key = aes_key_len v)"

definition xor_bytes :: "bytes \<Rightarrow> bytes \<Rightarrow> bytes" where
  "xor_bytes a b = map2 xor a b"

section \<open>Messages\<close>

definition CLIENT_SOCKET_TYPE :: u8 where "CLIENT_SOCKET_TYPE = 0"
definition SERVER_SOCKET_TYPE :: u8 where "SERVER_SOCKET_TYPE = 1"
definition SERVER_PACKET_TIMESTAMP_MAX_DIFF :: u64 where "SERVER_PACKET_TIMESTAMP_MAX_DIFF = 30"

datatype udp_2022_error =
    Packet2022TooShort nat nat
  | Invalid2022Address error
  | Decrypt2022PayloadError
  | InvalidClientUser bytes
  | InvalidSocketType u8 u8
  | InvalidTimestamp u64 u64
  | Udp2022IoError io_kind

record udp_control =
  client_session_id :: u64
  server_session_id :: u64
  packet_id :: u64
  control_user :: "server_user option"

definition get_cipher :: "('c, 'z) udp_2022_lib_scheme \<Rightarrow> cipher_kind \<Rightarrow> bytes \<Rightarrow> u64 \<Rightarrow> 'c" where
  "get_cipher lib method key session_id = udp_cipher_new lib method key session_id"

definition encrypt_message ::
    "('c, 'z) udp_2022_lib_scheme \<Rightarrow> (nat \<Rightarrow> u8) \<Rightarrow> cipher_kind \<Rightarrow> bytes \<Rightarrow> bytes \<Rightarrow> bytes \<Rightarrow> u64 \<Rightarrow> nat
     \<Rightarrow> (bytes, 'e) outcome" where
  "encrypt_message lib mem method ipsk key packet session_id eih_len =
     (let packet = packet @ map mem [0..<kind_tag_len method] in
      case kind_2022 lib method of
        None \<Rightarrow> Panic
      | Some v \<Rightarrow>
          let cipher = get_cipher lib method key session_id in
          if v = ChaCha20Poly1305 \<or> v = ChaCha8Poly1305 then
            and_then (split_at (chacha_nonce_size lib v) packet) (\<lambda>(nonce, message).
              Ok (nonce @ udp_encrypt lib cipher nonce message))
          else
            and_then (split_at 16 packet) (\<lambda>(packet_header, message).
              let nonce = drop 4 packet_header in
              and_then (if eih_len > 0 then split_at eih_len message else Ok ([], message)) (\<lambda>(eih, message).
                let message = udp_encrypt lib cipher nonce message in
                and_then (aes_init v ipsk) (\<lambda>_.
                  Ok (aes_encrypt lib v ipsk packet_header @ eih @ message)))))"

text \<open>The first eight bytes of a slice as a session id, as \<open>u64::from_be\<close> of the raw bytes.\<close>

definition session_id_of :: "bytes \<Rightarrow> (u64, 'e) outcome" where
  "session_id_of bs = (if 8 \<le> length bs then Ok (from_be (take 8 bs)) else Panic)"

definition decrypt_message ::
    "('c, 'z) udp_2022_lib_scheme \<Rightarrow> cipher_kind \<Rightarrow> bytes \<Rightarrow> bytes \<Rightarrow> user_manager option
     \<Rightarrow> (server_user option \<times> bytes, udp_2022_error) outcome" where
  "decrypt_message lib method key packet um =
     (case kind_2022 lib method of
        None \<Rightarrow> Panic
      | Some v \<Rightarrow>
          if v = ChaCha20Poly1305 \<or> v = ChaCha8Poly1305 then
            and_then (split_at (chacha_nonce_size lib v) packet) (\<lambda>(nonce, message).
            and_then (session_id_of message) (\<lambda>session_id.
              let cipher = get_cipher lib method key session_id;
                  (ok, message) = udp_decrypt lib cipher nonce message
              in if ok then Ok (None, nonce @ message) else Err Decrypt2022PayloadError))
          else
            and_then (split_at 16 packet) (\<lambda>(packet_header, message).
            and_then (aes_init v key) (\<lambda>_.
              let packet_header = aes_decrypt lib v key packet_header in
              and_then (session_id_of packet_header) (\<lambda>session_id.
              and_then
                (case (if method_support_eih lib method then um else None) of
                   Some user_manager \<Rightarrow>
                     and_then (split_at 16 message) (\<lambda>(eih, message).
                     and_then (aes_init v key) (\<lambda>_.
                       let eih = aes_decrypt lib v key eih;
                           eih = xor_bytes eih packet_header
                       in case get_user_by_hash user_manager eih of
                            None \<Rightarrow> Err (InvalidClientUser eih)
                          | Some user \<Rightarrow>
                              Ok (get_cipher lib method (user_key user) session_id, Some user, eih, message)))
                 | None \<Rightarrow> Ok (get_cipher lib method key session_id, None, [], message))
                (\<lambda>(cipher, client_user, eih, message).
                  let nonce = drop 4 packet_header;
                      (ok, message) = udp_decrypt lib cipher nonce message
                  in if ok then Ok (client_user, packet_header @ eih @ message)
                     else Err Decrypt2022PayloadError)))))"

definition get_nonce_len :: "('c, 'z) udp_2022_lib_scheme \<Rightarrow> cipher_kind \<Rightarrow> (nat, 'e) outcome" where
  "get_nonce_len lib method =
     (case kind_2022 lib method of
        Some Aes128Gcm \<Rightarrow> Ok 0
      | Some Aes256Gcm \<Rightarrow> Ok 0
      | Some ChaCha20Poly1305 \<Rightarrow> Ok (kind_nonce_len lib method)
      | Some ChaCha8Poly1305 \<Rightarrow> Ok (kind_nonce_len lib method)
      | None \<Rightarrow> Panic)"

section \<open>From client to server\<close>

definition make_eih ::
    "('c, 'z) udp_2022_lib_scheme \<Rightarrow> cipher_kind \<Rightarrow> bytes \<Rightarrow> bytes \<Rightarrow> bytes \<Rightarrow> (bytes, 'e) outcome" where
  "make_eih lib method ipsk ipskn session_id_packet_id =
     (let plain_text = take 16 (blake3_hash lib ipskn);
          identity_header = xor_bytes plain_text session_id_packet_id
      in case kind_2022 lib method of
           Some Aes128Gcm \<Rightarrow>
             and_then (aes_init Aes128Gcm ipsk) (\<lambda>_. Ok (aes_encrypt lib Aes128Gcm ipsk identity_header))
         | Some Aes256Gcm \<Rightarrow>
             and_then (aes_init Aes256Gcm ipsk) (\<lambda>_. Ok (aes_encrypt lib Aes256Gcm ipsk identity_header))
         | _ \<Rightarrow> Panic)"

fun put_eihs ::
    "('c, 'z) udp_2022_lib_scheme \<Rightarrow> cipher_kind \<Rightarrow> nat \<Rightarrow> (bytes \<times> bytes) list \<Rightarrow> bytes \<Rightarrow> (bytes, 'e) outcome" where
  "put_eihs lib method nonce_size [] dst = Ok dst"
| "put_eihs lib method nonce_size ((ipsk, ipskn) # ks) dst =
     and_then (make_eih lib method ipsk ipskn (take 16 (drop nonce_size dst))) (\<lambda>identity_header.
       put_eihs lib method nonce_size ks (dst @ identity_header))"

text \<open>Claiming \<open>n\<close> bytes of the allocation, and overwriting the front with a nonce.\<close>

definition put_nonce ::
    "('b, 's, 'y) replay_lib_scheme \<Rightarrow> (nat \<Rightarrow> u8) \<Rightarrow> ('b, 's) ss_context \<Rightarrow> cipher_kind \<Rightarrow> nat \<Rightarrow> bytes
     \<Rightarrow> bytes \<Rightarrow> bytes" where
  "put_nonce rlib mem ctx method nonce_size draw dst =
     (if nonce_size > 0
      then fill_nonce rlib ctx method nonce_size draw (dst @ map mem [0..<nonce_size]) else dst)"

definition put_padding :: "(nat \<Rightarrow> u8) \<Rightarrow> nat \<Rightarrow> bytes" where
  "put_padding mem padding_size =
     to_be 2 (of_nat padding_size :: u16) @ (if padding_size > 0 then map mem [0..<padding_size] else [])"

definition encrypt_client_payload_aead_2022 ::
    "('c, 'z) udp_2022_lib_scheme \<Rightarrow> ('b, 's, 'y) replay_lib_scheme \<Rightarrow> (nat \<Rightarrow> u8) \<Rightarrow> nat \<Rightarrow> ('b, 's) ss_context
     \<Rightarrow> u64 \<Rightarrow> bytes \<Rightarrow> cipher_kind \<Rightarrow> bytes \<Rightarrow> address \<Rightarrow> udp_control \<Rightarrow> bytes list \<Rightarrow> bytes \<Rightarrow> bytes
     \<Rightarrow> (bytes, unit) outcome" where
  "encrypt_client_payload_aead_2022 lib rlib mem rnd ctx now draw method key addr control identity_keys payload dst =
     (let padding_size = get_aead_2022_padding_size rnd payload in
      and_then (get_nonce_len lib method) (\<lambda>nonce_size.
        let require_eih = (method_support_eih lib method \<and> identity_keys \<noteq> []);
            eih_size = (if require_eih then length identity_keys * 16 else 0);
            dst = put_nonce rlib mem ctx method nonce_size draw dst;
            dst = dst @ to_be 8 (client_session_id control) @ to_be 8 (packet_id control)
        in and_then
             (if require_eih
              then put_eihs lib method nonce_size (zip identity_keys (tl identity_keys @ [key])) dst
              else Ok dst) (\<lambda>dst.
           and_then (address_write_to_buf addr) (\<lambda>addr_bytes.
             let dst = dst @ [CLIENT_SOCKET_TYPE] @ to_be 8 now @ put_padding mem padding_size @ addr_bytes @ payload;
                 ipsk = (if identity_keys = [] then key else hd identity_keys)
             in encrypt_message lib mem method ipsk key dst (client_session_id control) eih_size))))"

definition u64_abs_diff :: "u64 \<Rightarrow> u64 \<Rightarrow> u64" where
  "u64_abs_diff a b = (if a < b then b - a else a - b)"

text \<open>The padding is skipped by seeking, which may go beyond the end of the data.\<close>

definition skip_udp_padding :: "cursor \<Rightarrow> (cursor, 'e) outcome" where
  "skip_udp_padding cur =
     and_then (cur_get 2 cur) (\<lambda>(b, cur).
       let padding_size = unat (from_be b :: u16) in
       Ok (if padding_size > 0 then cur_adv padding_size cur else cur))"

text \<open>The fields of a decrypted packet: session id, packet id, address, and where the payload starts.\<close>

definition parse_client_packet ::
    "u64 \<Rightarrow> bool \<Rightarrow> bytes \<Rightarrow> (u64 \<times> u64 \<times> address \<times> nat, udp_2022_error) outcome" where
  "parse_client_packet now require_eih data =
     and_then (cur_get 8 (data, 0)) (\<lambda>(client_session_id, cursor).
     and_then (cur_get 8 cursor) (\<lambda>(packet_id, cursor).
     and_then (if require_eih then and_then (cur_get 16 cursor) (\<lambda>(_, cursor). Ok cursor)
               else Ok cursor) (\<lambda>cursor.
     and_then (cur_get 1 cursor) (\<lambda>(socket_type, cursor).
     if socket_type ! 0 \<noteq> CLIENT_SOCKET_TYPE
     then Err (InvalidSocketType CLIENT_SOCKET_TYPE (socket_type ! 0))
     else and_then (cur_get 8 cursor) (\<lambda>(timestamp, cursor).
     if u64_abs_diff now (from_be timestamp) > SERVER_PACKET_TIMESTAMP_MAX_DIFF
     then Err (InvalidTimestamp (from_be timestamp) now)
     else and_then (skip_udp_padding cursor) (\<lambda>cursor.
     and_then (map_err Invalid2022Address (address_read_cursor cursor)) (\<lambda>(addr, cursor).
       Ok (from_be client_session_id, from_be packet_id, addr, snd cursor))))))))"

definition decrypt_client_payload_aead_2022 ::
    "('c, 'z) udp_2022_lib_scheme \<Rightarrow> u64 \<Rightarrow> cipher_kind \<Rightarrow> bytes \<Rightarrow> bytes \<Rightarrow> user_manager option
     \<Rightarrow> (nat \<times> address \<times> udp_control \<times> bytes, udp_2022_error) outcome" where
  "decrypt_client_payload_aead_2022 lib now method key payload um =
     and_then (get_nonce_len lib method) (\<lambda>nonce_len.
       let tag_len = kind_tag_len method;
           require_eih = (method_support_eih lib method \<and> um \<noteq> None);
           eih_len = (if require_eih then 16 else 0);
           header_len = nonce_len + tag_len + 8 + 8 + eih_len + 1 + 8 + 2
       in if length payload < header_len then Err (Packet2022TooShort header_len (length payload))
       else and_then (decrypt_message lib method key payload um) (\<lambda>(user, payload).
         let data = take (length payload - tag_len - nonce_len) (drop nonce_len payload) in
         and_then (parse_client_packet now require_eih data) (\<lambda>(csid, pid, addr, payload_start).
           let payload_len = length data - payload_start
           in Ok (payload_len, addr,
                  \<lparr>client_session_id = csid, server_session_id = 0, packet_id = pid, control_user = user\<rparr>,
                  copy_to_front (nonce_len + payload_start) (nonce_len + payload_start + payload_len)
                    payload))))"

section \<open>From server to client\<close>

definition encrypt_server_payload_aead_2022 ::
    "('c, 'z) udp_2022_lib_scheme \<Rightarrow> ('b, 's, 'y) replay_lib_scheme \<Rightarrow> (nat \<Rightarrow> u8) \<Rightarrow> nat \<Rightarrow> ('b, 's) ss_context
     \<Rightarrow> u64 \<Rightarrow> bytes \<Rightarrow> cipher_kind \<Rightarrow> bytes \<Rightarrow> address \<Rightarrow> udp_control \<Rightarrow> bytes \<Rightarrow> bytes \<Rightarrow> (bytes, unit) outcome" where
  "encrypt_server_payload_aead_2022 lib rlib mem rnd ctx now draw method key addr control payload dst =
     (let padding_size = get_aead_2022_padding_size rnd payload in
      and_then (get_nonce_len lib method) (\<lambda>nonce_size.
        let dst = put_nonce rlib mem ctx method nonce_size draw dst;
            dst = dst @ to_be 8 (server_session_id control) @ to_be 8 (packet_id control) @
                  [SERVER_SOCKET_TYPE] @ to_be 8 now @ to_be 8 (client_session_id control) @
                  put_padding mem padding_size
        in and_then (address_write_to_buf addr) (\<lambda>addr_bytes.
             let dst = dst @ addr_bytes @ payload
             in encrypt_message lib mem method key key dst (server_session_id control) 0)))"

definition parse_server_packet ::
    "u64 \<Rightarrow> bytes \<Rightarrow> (u64 \<times> u64 \<times> u64 \<times> address \<times> nat, udp_2022_error) outcome" where
  "parse_server_packet now data =
     and_then (cur_get 8 (data, 0)) (\<lambda>(server_session_id, cursor).
     and_then (cur_get 8 cursor) (\<lambda>(packet_id, cursor).
     and_then (cur_get 1 cursor) (\<lambda>(socket_type, cursor).
     if socket_type ! 0 \<noteq> SERVER_SOCKET_TYPE
     then Err (InvalidSocketType SERVER_SOCKET_TYPE (socket_type ! 0))
     else and_then (cur_get 8 cursor) (\<lambda>(timestamp, cursor).
     if u64_abs_diff now (from_be timestamp) > SERVER_PACKET_TIMESTAMP_MAX_DIFF
     then Err (InvalidTimestamp (from_be timestamp) now)
     else and_then (cur_get 8 cursor) (\<lambda>(client_session_id, cursor).
     and_then (skip_udp_padding cursor) (\<lambda>cursor.
     and_then (map_err Invalid2022Address (address_read_cursor cursor)) (\<lambda>(addr, cursor).
       Ok (from_be server_session_id, from_be packet_id, from_be client_session_id, addr, snd cursor))))))))"

definition decrypt_server_payload_aead_2022 ::
    "('c, 'z) udp_2022_lib_scheme \<Rightarrow> u64 \<Rightarrow> cipher_kind \<Rightarrow> bytes \<Rightarrow> bytes
     \<Rightarrow> (nat \<times> address \<times> udp_control \<times> bytes, udp_2022_error) outcome" where
  "decrypt_server_payload_aead_2022 lib now method key payload =
     and_then (get_nonce_len lib method) (\<lambda>nonce_len.
       let tag_len = kind_tag_len method;
           header_len = nonce_len + tag_len + 8 + 8 + 1 + 8 + 2
       in if length payload < header_len then Err (Packet2022TooShort header_len (length payload))
       else and_then (decrypt_message lib method key payload None) (\<lambda>(user, payload).
         let data = take (length payload - tag_len - nonce_len) (drop nonce_len payload) in
         and_then (parse_server_packet now data) (\<lambda>(ssid, pid, csid, addr, payload_start).
           let payload_len = length data - payload_start
           in Ok (payload_len, addr,
                  \<lparr>client_session_id = csid, server_session_id = ssid, packet_id = pid, control_user = None\<rparr>,
                  copy_to_front (nonce_len + payload_start) (nonce_len + payload_start + payload_len)
                    payload))))"

section \<open>Parsing what was written\<close>

lemma length_to_be_64 [simp]: "length (to_be 8 (w :: u64)) = 8" by simp

lemma cur_rest_0 [simp]: "cur_rest (bs, 0) = bs" by (simp add: cur_rest_def)

lemma from_be_to_be_64 [simp]: "from_be (to_be 8 (w :: u64)) = w" by simp

lemma skip_udp_padding_put:
  assumes "cur_rest c = put_padding mem n @ r" "n < 65536"
  shows "skip_udp_padding c = Ok (cur_adv (2 + n) c)"
proof -
  let ?p = "to_be 2 (of_nat n :: u16)"
  have u: "unat (of_nat n :: u16) = n" using assms(2) by (simp add: unat_of_nat take_bit_nat_eq_self)
  have "cur_get 2 c = (Ok (?p, cur_adv 2 c) :: (_, 'a) outcome)"
    using assms(1) by (intro cur_get_rest) (simp_all add: put_padding_def)
  then show ?thesis using u by (simp add: skip_udp_padding_def add.commute del: add_2_eq_Suc add_2_eq_Suc')
qed

lemma length_put_padding [simp]: "length (put_padding mem n) = 2 + n"
  by (simp add: put_padding_def)

definition fresh_timestamp :: "u64 \<Rightarrow> u64 \<Rightarrow> bool" where
  "fresh_timestamp now ts \<longleftrightarrow> unat ts \<le> unat now + 30 \<and> unat now \<le> unat ts + 30"

lemma abs_diff_fresh: "u64_abs_diff now ts > SERVER_PACKET_TIMESTAMP_MAX_DIFF \<longleftrightarrow> \<not> fresh_timestamp now ts"
  by (auto simp: u64_abs_diff_def fresh_timestamp_def SERVER_PACKET_TIMESTAMP_MAX_DIFF_def word_less_nat_alt
      unat_sub_if')

lemma parse_client_packet_written:
  assumes "eih = [] \<and> \<not> req \<or> length eih = 16 \<and> req" "fresh_timestamp now ts" "n < 65536"
    and "wf_address addr" "encoded_address addr ab"
    and d: "data = to_be 8 csid @ to_be 8 pid @ eih @ [CLIENT_SOCKET_TYPE] @ to_be 8 ts @ put_padding mem n @ ab @ payload"
  shows "parse_client_packet now req data = Ok (csid, pid, addr, length data - length payload)"
proof -
  let ?c = "(data, 0) :: cursor" and ?e = "16 + length eih"
  have g1: "cur_get 8 ?c = (Ok (to_be 8 csid, cur_adv 8 ?c) :: (_, udp_2022_error) outcome)"
    by (simp add: cur_get_def d)
  have g2: "cur_get 8 (cur_adv 8 ?c) = (Ok (to_be 8 pid, cur_adv 16 ?c) :: (_, udp_2022_error) outcome)"
    by (simp add: cur_get_def d)
  have g3: "(if req then and_then (cur_get 16 (cur_adv 16 ?c)) (\<lambda>(_, cursor). Ok cursor) else Ok (cur_adv 16 ?c)) =
      (Ok (cur_adv ?e ?c) :: (_, udp_2022_error) outcome)"
    using cur_get_rest [of "cur_adv 16 ?c" eih] assms(1) by (auto simp: cur_get_def d)
  have g4: "cur_get 1 (cur_adv ?e ?c) = (Ok ([CLIENT_SOCKET_TYPE], cur_adv (?e + 1) ?c) :: (_, udp_2022_error) outcome)"
    by (simp add: cur_get_def d)
  have g5: "cur_get 8 (cur_adv (?e + 1) ?c) = (Ok (to_be 8 ts, cur_adv (?e + 9) ?c) :: (_, udp_2022_error) outcome)"
    by (simp add: cur_get_def d)
  have g6: "skip_udp_padding (cur_adv (?e + 9) ?c) = (Ok (cur_adv (?e + 9 + (2 + n)) ?c) :: (_, udp_2022_error) outcome)"
    using skip_udp_padding_put [of "cur_adv (?e + 9) ?c" mem n] assms(3) by (simp add: d add_ac)
  have r7: "cur_rest (cur_adv (?e + 9 + (2 + n)) ?c) = ab @ payload" by (simp add: d drop_Cons')
  have g7: "address_read_cursor (cur_adv (?e + 9 + (2 + n)) ?c) = Ok (addr, cur_adv (?e + 9 + (2 + n) + length ab) ?c)"
    using address_read_cursor_write [OF assms(4,5) r7] by (simp add: add_ac)
  have len: "length data - length payload = ?e + 9 + (2 + n) + length ab" by (simp add: d)
  show ?thesis
    unfolding parse_client_packet_def
    using assms(2) by (simp only: g1 g2 g3 g4 g5 g6 g7 and_then.simps prod.case map_err.simps abs_diff_fresh from_be_to_be_64
        nth_Cons_0 simp_thms if_False if_True) (simp add: len)
qed


lemma parse_server_packet_written:
  assumes "fresh_timestamp now ts" "n < 65536" "wf_address addr" "encoded_address addr ab"
    and d: "data = to_be 8 ssid @ to_be 8 pid @ [SERVER_SOCKET_TYPE] @ to_be 8 ts @ to_be 8 csid @
      put_padding mem n @ ab @ payload"
  shows "parse_server_packet now data = Ok (ssid, pid, csid, addr, length data - length payload)"
proof -
  let ?c = "(data, 0) :: cursor"
  have g1: "cur_get 8 ?c = (Ok (to_be 8 ssid, cur_adv 8 ?c) :: (_, udp_2022_error) outcome)"
    by (simp add: cur_get_def d)
  have g2: "cur_get 8 (cur_adv 8 ?c) = (Ok (to_be 8 pid, cur_adv 16 ?c) :: (_, udp_2022_error) outcome)"
    by (simp add: cur_get_def d)
  have g4: "cur_get 1 (cur_adv 16 ?c) = (Ok ([SERVER_SOCKET_TYPE], cur_adv 17 ?c) :: (_, udp_2022_error) outcome)"
    by (simp add: cur_get_def d)
  have g5: "cur_get 8 (cur_adv 17 ?c) = (Ok (to_be 8 ts, cur_adv 25 ?c) :: (_, udp_2022_error) outcome)"
    by (simp add: cur_get_def d)
  have g3: "cur_get 8 (cur_adv 25 ?c) = (Ok (to_be 8 csid, cur_adv 33 ?c) :: (_, udp_2022_error) outcome)"
    by (simp add: cur_get_def d)
  have g6: "skip_udp_padding (cur_adv 33 ?c) = (Ok (cur_adv (33 + (2 + n)) ?c) :: (_, udp_2022_error) outcome)"
    using skip_udp_padding_put [of "cur_adv 33 ?c" mem n] assms(2) by (simp add: d add_ac)
  have r7: "cur_rest (cur_adv (33 + (2 + n)) ?c) = ab @ payload" by (simp add: d drop_Cons')
  have g7: "address_read_cursor (cur_adv (33 + (2 + n)) ?c) = Ok (addr, cur_adv (33 + (2 + n) + length ab) ?c)"
    using address_read_cursor_write [OF assms(3,4) r7] by (simp add: add_ac)
  have len: "length data - length payload = 33 + (2 + n) + length ab" by (simp add: d)
  show ?thesis
    unfolding parse_server_packet_def
    using assms(1) by (simp only: g1 g2 g3 g4 g5 g6 g7 and_then.simps prod.case map_err.simps abs_diff_fresh from_be_to_be_64
        nth_Cons_0 simp_thms if_False if_True) (simp add: len)
qed

section \<open>Decrypting what was encrypted\<close>

text \<open>
  What is relied on: AES decrypts what it encrypts on a block, with a key of its length; a
  \<open>UdpCipher\<close> for the same key and session decrypts what one encrypted under the same nonce, and for
  the ChaCha methods the session id does not matter; the nonce lengths agree.
\<close>

definition udp_2022_laws :: "('c, 'z) udp_2022_lib_scheme \<Rightarrow> cipher_kind \<Rightarrow> bool" where
  "udp_2022_laws lib method \<longleftrightarrow>
     (\<forall>v k b. length k = aes_key_len v \<longrightarrow> length b = 16 \<longrightarrow>
        length (aes_encrypt lib v k b) = 16 \<and> aes_decrypt lib v k (aes_encrypt lib v k b) = b) \<and>
     (\<forall>c nonce pt tag. length tag = kind_tag_len method \<longrightarrow>
        length (udp_encrypt lib c nonce (pt @ tag)) = length pt + kind_tag_len method \<and>
        (\<exists>tag'. udp_decrypt lib c nonce (udp_encrypt lib c nonce (pt @ tag)) = (True, pt @ tag') \<and>
           length tag' = kind_tag_len method)) \<and>
     (\<forall>v. kind_2022 lib method = Some v \<longrightarrow> v = ChaCha20Poly1305 \<or> v = ChaCha8Poly1305 \<longrightarrow>
        0 < kind_nonce_len lib method \<and> chacha_nonce_size lib v = kind_nonce_len lib method \<and>
        (\<forall>key sid sid'. udp_cipher_new lib method key sid = udp_cipher_new lib method key sid')) \<and>
     (\<forall>b. length (blake3_hash lib b) = 32)"

lemma udp_2022_laws_aes:
  assumes "udp_2022_laws lib method" "length k = aes_key_len v" "length b = 16"
  shows "length (aes_encrypt lib v k b) = 16" "aes_decrypt lib v k (aes_encrypt lib v k b) = b"
  using assms(1) [unfolded udp_2022_laws_def, THEN conjunct1, rule_format, OF assms(2,3)] by simp_all

lemma udp_2022_laws_packet:
  assumes "udp_2022_laws lib method" "length tag = kind_tag_len method"
  obtains tag' where "length (udp_encrypt lib c nonce (pt @ tag)) = length pt + kind_tag_len method"
    "udp_decrypt lib c nonce (udp_encrypt lib c nonce (pt @ tag)) = (True, pt @ tag')" "length tag' = kind_tag_len method"
proof -
  note law = assms(1) [unfolded udp_2022_laws_def, THEN conjunct2, THEN conjunct1, rule_format, OF assms(2), of c nonce pt]
  from law [THEN conjunct2] show ?thesis by (elim exE conjE) (rule that [OF law [THEN conjunct1]])
qed

lemma udp_2022_laws_chacha:
  assumes "udp_2022_laws lib method" "kind_2022 lib method = Some v" "v = ChaCha20Poly1305 \<or> v = ChaCha8Poly1305"
  shows "0 < kind_nonce_len lib method" "chacha_nonce_size lib v = kind_nonce_len lib method"
    "udp_cipher_new lib method key sid = udp_cipher_new lib method key sid'"
proof -
  note law = assms(1) [unfolded udp_2022_laws_def, THEN conjunct2, THEN conjunct2, THEN conjunct1, rule_format,
      OF assms(2,3)]
  show "0 < kind_nonce_len lib method" "chacha_nonce_size lib v = kind_nonce_len lib method"
    using law by simp_all
  show "udp_cipher_new lib method key sid = udp_cipher_new lib method key sid'"
    using law by blast
qed

lemma udp_2022_laws_hash: "udp_2022_laws lib method \<Longrightarrow> length (blake3_hash lib b) = 32"
  by (simp add: udp_2022_laws_def)

lemma length_xor_bytes [simp]: "length (xor_bytes a b) = min (length a) (length b)"
  by (simp add: xor_bytes_def)

lemma xor_bytes_twice: "length a = length b \<Longrightarrow> xor_bytes (xor_bytes a b) b = a"
  unfolding xor_bytes_def by (induction a b rule: list_induct2) (simp_all add: xor.assoc)

definition is_aes :: "aead_2022_variant \<Rightarrow> bool" where
  "is_aes v \<longleftrightarrow> v = Aes128Gcm \<or> v = Aes256Gcm"

lemma is_aes_simps [simp]: "is_aes Aes128Gcm" "is_aes Aes256Gcm" "\<not> is_aes ChaCha20Poly1305" "\<not> is_aes ChaCha8Poly1305"
  by (simp_all add: is_aes_def)

lemma not_chacha_aes: "(v = ChaCha20Poly1305 \<or> v = ChaCha8Poly1305) = (\<not> is_aes v)"
  by (cases v) simp_all

lemma get_nonce_len_variant:
  "kind_2022 lib method = Some v \<Longrightarrow>
   get_nonce_len lib method = Ok (if is_aes v then 0 else kind_nonce_len lib method)"
  by (cases v) (simp_all add: get_nonce_len_def)

lemma method_support_eih_variant: "kind_2022 lib method = Some v \<Longrightarrow> method_support_eih lib method = is_aes v"
  by (cases v) (simp_all add: method_support_eih_def)

text \<open>A packet without identity headers, whatever the method: \<open>nonce\<close> is empty for AES.\<close>

lemma message_roundtrip:
  assumes "udp_2022_laws lib method" "kind_2022 lib method = Some v"
    and "length nonce = (if is_aes v then 0 else kind_nonce_len lib method)"
    and "is_aes v \<longrightarrow> length key = aes_key_len v"
    and "um = None \<or> \<not> is_aes v"
    and "encrypt_message lib mem method key key (nonce @ to_be 8 sid @ to_be 8 pid @ body) sid 0 = (Ok out :: (_, 'e) outcome)"
  obtains tag' where "decrypt_message lib method key out um =
      Ok (None, nonce @ to_be 8 sid @ to_be 8 pid @ body @ tag')"
    "length tag' = kind_tag_len method" "length out = length nonce + 16 + length body + kind_tag_len method"
proof (cases "is_aes v")
  case True
  let ?h = "to_be 8 sid @ to_be 8 pid" and ?m = "map mem [0..<kind_tag_len method]"
  let ?c = "get_cipher lib method key sid"
  obtain tag' where t: "length (udp_encrypt lib ?c (drop 4 ?h) (body @ ?m)) = length body + kind_tag_len method"
    "udp_decrypt lib ?c (drop 4 ?h) (udp_encrypt lib ?c (drop 4 ?h) (body @ ?m)) = (True, body @ tag')"
    "length tag' = kind_tag_len method"
    by (rule udp_2022_laws_packet [where tag = ?m and c = ?c and nonce = "drop 4 ?h" and pt = body, OF assms(1)]) simp_all
  have k: "length key = aes_key_len v" and n: "nonce = []" using True assms(3,4) by simp_all
  note aes = udp_2022_laws_aes [OF assms(1) k, of ?h]
  have out: "out = aes_encrypt lib v key ?h @ udp_encrypt lib ?c (drop 4 ?h) (body @ ?m)"
    using assms(2,6) True k n not_chacha_aes [of v]
    by (simp add: encrypt_message_def split_at_def aes_init_def rust_assert_def Let_def)
  have "decrypt_message lib method key out um = Ok (None, ?h @ body @ tag')"
    using assms(2,5) True k aes t not_chacha_aes [of v] method_support_eih_variant [OF assms(2)]
    by (simp add: decrypt_message_def out split_at_def aes_init_def rust_assert_def Let_def session_id_of_def)
  moreover have "length out = 16 + length body + kind_tag_len method" using out t(1) aes by simp
  ultimately show ?thesis using that t(3) n by simp
next
  case False
  let ?b = "to_be 8 sid @ to_be 8 pid @ body" and ?m = "map mem [0..<kind_tag_len method]"
  let ?c = "get_cipher lib method key sid"
  obtain tag' where t: "length (udp_encrypt lib ?c nonce (?b @ ?m)) = length ?b + kind_tag_len method"
    "udp_decrypt lib ?c nonce (udp_encrypt lib ?c nonce (?b @ ?m)) = (True, ?b @ tag')"
    "length tag' = kind_tag_len method"
    by (rule udp_2022_laws_packet [where tag = ?m and c = ?c and nonce = nonce and pt = ?b, OF assms(1)]) simp_all
  have v: "v = ChaCha20Poly1305 \<or> v = ChaCha8Poly1305" using False not_chacha_aes by blast
  note ch = udp_2022_laws_chacha [OF assms(1,2) v]
  have n: "length nonce = chacha_nonce_size lib v" using assms(3) False ch by simp
  have out: "out = nonce @ udp_encrypt lib ?c nonce (?b @ ?m)"
    using assms(2,6) v n by (auto simp add: encrypt_message_def split_at_def Let_def)
  let ?e = "udp_encrypt lib ?c nonce (?b @ ?m)"
  define s where "s = (from_be (take 8 ?e) :: u64)"
  have "session_id_of ?e = (Ok s :: (u64, udp_2022_error) outcome)" using t(1) by (simp add: session_id_of_def s_def)
  moreover have "get_cipher lib method key s = ?c" unfolding get_cipher_def by (rule ch(3))
  moreover have "split_at (chacha_nonce_size lib v) out = (Ok (nonce, ?e) :: (_, udp_2022_error) outcome)"
    using n by (simp add: out split_at_def)
  ultimately have "decrypt_message lib method key out um = Ok (None, nonce @ ?b @ tag')"
    using assms(2) v t(2) by (auto simp add: decrypt_message_def Let_def)
  then show ?thesis using that t n out by simp
qed

text \<open>A packet with one identity header, under the key of the server, for a user of the server.\<close>

lemma message_roundtrip_eih:
  assumes "udp_2022_laws lib method" "kind_2022 lib method = Some v" "is_aes v"
    and "length skey = aes_key_len v" "um (take 16 (blake3_hash lib ukey)) = Some user" "user_key user = ukey"
    and h: "h = to_be 8 sid @ to_be 8 pid"
    and "make_eih lib method skey ukey h = (Ok eih :: (_, 'e) outcome)"
    and "encrypt_message lib mem method skey ukey (h @ eih @ body) sid 16 = (Ok out :: (_, 'f) outcome)"
  obtains eih' tag' where "decrypt_message lib method skey out (Some um) = Ok (Some user, h @ eih' @ body @ tag')"
    "length eih' = 16" "length tag' = kind_tag_len method" "length out = 32 + length body + kind_tag_len method"
proof -
  let ?m = "map mem [0..<kind_tag_len method]" and ?c = "get_cipher lib method ukey sid"
  let ?id = "take 16 (blake3_hash lib ukey)"
  have lh: "length h = 16" "take 8 h = to_be 8 sid" by (simp_all add: h)
  have li: "length ?id = 16" using udp_2022_laws_hash [OF assms(1)] by simp
  note aes = udp_2022_laws_aes [OF assms(1,4)]
  have eih: "eih = aes_encrypt lib v skey (xor_bytes ?id h)"
    using assms(2,3,4,8) by (cases v) (simp_all add: make_eih_def aes_init_def rust_assert_def Let_def)
  have le: "length eih = 16" using aes(1) li lh by (simp add: eih)
  obtain tag' where t: "length (udp_encrypt lib ?c (drop 4 h) (body @ ?m)) = length body + kind_tag_len method"
    "udp_decrypt lib ?c (drop 4 h) (udp_encrypt lib ?c (drop 4 h) (body @ ?m)) = (True, body @ tag')"
    "length tag' = kind_tag_len method"
    by (rule udp_2022_laws_packet [where tag = ?m and c = ?c and nonce = "drop 4 h" and pt = body, OF assms(1)]) simp_all
  have nc: "\<not> (v = ChaCha20Poly1305 \<or> v = ChaCha8Poly1305)" using assms(3) not_chacha_aes by blast
  let ?e = "udp_encrypt lib ?c (drop 4 h) (body @ ?m)"
  have out: "out = aes_encrypt lib v skey h @ eih @ ?e"
    using assms(2,4,9) nc lh le
    by (simp add: encrypt_message_def split_at_def aes_init_def rust_assert_def Let_def)
  have s: "split_at 16 out = (Ok (aes_encrypt lib v skey h, eih @ ?e) :: (_, udp_2022_error) outcome)"
    "split_at 16 (eih @ ?e) = (Ok (eih, ?e) :: (_, udp_2022_error) outcome)"
    "session_id_of h = (Ok sid :: (_, udp_2022_error) outcome)"
    using aes(1) lh le by (simp_all add: out split_at_def session_id_of_def)
  have x: "xor_bytes (aes_decrypt lib v skey eih) h = ?id"
    using aes(2) li lh by (simp add: eih xor_bytes_twice)
  have "decrypt_message lib method skey out (Some um) = Ok (Some user, h @ ?id @ body @ tag')"
    using assms(2,3,4,5,6) nc aes(2) lh s x t(2) method_support_eih_variant [OF assms(2)]
    by (simp add: decrypt_message_def aes_init_def rust_assert_def Let_def get_user_by_hash_def)
  moreover have "length out = 32 + length body + kind_tag_len method" using out t(1) aes(1) lh le by simp
  ultimately show ?thesis using that li t(3) by blast
qed

lemma put_nonce_empty [simp]: "put_nonce rlib mem ctx method (length draw) draw [] = draw"
  by (cases draw) (simp_all add: put_nonce_def)

lemma put_nonce_0 [simp]: "put_nonce rlib mem ctx method 0 draw dst = dst"
  by (simp add: put_nonce_def)

lemma padding_bound: "get_aead_2022_padding_size rnd payload < 65536"
proof -
  have "rnd mod 900 < 900" by simp
  then have "rnd mod 900 < 65536" by linarith
  then show ?thesis by (simp add: get_aead_2022_padding_size_def AEAD2022_MAX_PADDING_SIZE_def)
qed

lemma copy_payload:
  assumes "buf = nonce @ pre @ payload @ tag"
  shows "copy_to_front (length nonce + length pre) (length nonce + length pre + length payload) buf =
      payload @ drop (length payload) buf"
  using assms by (simp add: copy_to_front_def)

definition client_body ::
    "(nat \<Rightarrow> u8) \<Rightarrow> u64 \<Rightarrow> nat \<Rightarrow> bytes \<Rightarrow> bytes \<Rightarrow> bytes" where
  "client_body mem now n ab payload = [CLIENT_SOCKET_TYPE] @ to_be 8 now @ put_padding mem n @ ab @ payload"

lemma client_roundtrip:
  assumes "udp_2022_laws lib method" "kind_2022 lib method = Some v"
    and "length draw = (if is_aes v then 0 else kind_nonce_len lib method)" "is_aes v \<longrightarrow> length key = aes_key_len v"
    and "um = None \<or> \<not> is_aes v" "wf_address addr" "fresh_timestamp now' now"
    and e: "encrypt_client_payload_aead_2022 lib rlib mem rnd ctx now draw method key addr control [] payload [] = Ok dgram"
  shows "\<exists>buf. decrypt_client_payload_aead_2022 lib now' method key dgram um = Ok (length payload, addr,
      \<lparr>client_session_id = client_session_id control, server_session_id = 0, packet_id = packet_id control,
       control_user = None\<rparr>, buf) \<and> take (length payload) buf = payload"
proof -
  let ?n = "get_aead_2022_padding_size rnd payload"
  let ?sid = "client_session_id control" and ?pid = "packet_id control"
  from address_write_total [OF assms(6)] obtain ab where ab: "encoded_address addr ab" by blast
  define body where "body = client_body mem now ?n ab payload"
  have gn: "get_nonce_len lib method = (Ok (length draw) :: (_, unit) outcome)"
    "get_nonce_len lib method = (Ok (length draw) :: (_, udp_2022_error) outcome)"
    using get_nonce_len_variant [OF assms(2)] assms(3) by simp_all
  have "encrypt_message lib mem method key key (draw @ to_be 8 ?sid @ to_be 8 ?pid @ body) ?sid 0 = (Ok dgram :: (bytes, unit) outcome)"
    using e ab
    by (simp add: encrypt_client_payload_aead_2022_def gn body_def client_body_def Let_def)
  then obtain tag' where d: "decrypt_message lib method key dgram um =
      Ok (None, draw @ to_be 8 ?sid @ to_be 8 ?pid @ body @ tag')"
    and l: "length tag' = kind_tag_len method" "length dgram = length draw + 16 + length body + kind_tag_len method"
    by (rule message_roundtrip [OF assms(1,2,3,4,5)])
  define data where "data = to_be 8 ?sid @ to_be 8 ?pid @ [] @ [CLIENT_SOCKET_TYPE] @ to_be 8 now @ put_padding mem ?n @ ab @ payload"
  have p: "parse_client_packet now' False data = Ok (?sid, ?pid, addr, length data - length payload)"
    by (rule parse_client_packet_written [OF _ assms(7) padding_bound assms(6) ab data_def]) simp
  define pre where "pre = to_be 8 ?sid @ to_be 8 ?pid @ [CLIENT_SOCKET_TYPE] @ to_be 8 now @ put_padding mem ?n @ ab"
  define buf where "buf = draw @ pre @ payload @ tag'"
  have b: "draw @ to_be 8 ?sid @ to_be 8 ?pid @ body @ tag' = buf"
    by (simp add: buf_def pre_def body_def client_body_def)
  have bd: "buf = draw @ data @ tag'" by (simp add: data_def pre_def buf_def)
  have lp: "length data - length payload = length pre" "length data = length pre + length payload"
    by (simp_all add: data_def pre_def)
  have ld': "take (length buf - kind_tag_len method - length draw) (drop (length draw) buf) = data"
    using l(1) by (simp add: bd)
  have lb: "length buf = length draw + length pre + length payload + kind_tag_len method"
    using l(1) by (simp add: buf_def)
  have ld: "27 \<le> 16 + length body" by (simp add: body_def client_body_def)
  have req: "\<not> (method_support_eih lib method \<and> um \<noteq> None)"
    using assms(5) method_support_eih_variant [OF assms(2)] by auto
  have "decrypt_client_payload_aead_2022 lib now' method key dgram um = Ok (length payload, addr,
      \<lparr>client_session_id = ?sid, server_session_id = 0, packet_id = ?pid, control_user = None\<rparr>,
      payload @ drop (length payload) buf)"
    unfolding decrypt_client_payload_aead_2022_def gn and_then.simps Let_def
    using req l(2) ld p d lp ld' lb copy_payload [OF buf_def] by (auto simp: b)
  then show ?thesis by simp
qed


lemma client_roundtrip_eih:
  assumes "udp_2022_laws lib method" "kind_2022 lib method = Some v" "is_aes v"
    and "length skey = aes_key_len v" "um (take 16 (blake3_hash lib ukey)) = Some user" "user_key user = ukey"
    and "wf_address addr" "fresh_timestamp now' now"
    and e: "encrypt_client_payload_aead_2022 lib rlib mem rnd ctx now [] method ukey addr control [skey] payload [] = Ok dgram"
  shows "\<exists>buf. decrypt_client_payload_aead_2022 lib now' method skey dgram (Some um) = Ok (length payload, addr,
      \<lparr>client_session_id = client_session_id control, server_session_id = 0, packet_id = packet_id control,
       control_user = Some user\<rparr>, buf) \<and> take (length payload) buf = payload"
proof -
  let ?n = "get_aead_2022_padding_size rnd payload"
  let ?sid = "client_session_id control" and ?pid = "packet_id control"
  from address_write_total [OF assms(7)] obtain ab where ab: "encoded_address addr ab" by blast
  define body where "body = client_body mem now ?n ab payload"
  define h where "h = to_be 8 ?sid @ to_be 8 ?pid"
  have gn: "get_nonce_len lib method = (Ok 0 :: (_, unit) outcome)"
    "get_nonce_len lib method = (Ok 0 :: (_, udp_2022_error) outcome)"
    using get_nonce_len_variant [OF assms(2)] assms(3) by simp_all
  note req = method_support_eih_variant [OF assms(2)]
  obtain eih where eih: "make_eih lib method skey ukey h = (Ok eih :: (_, unit) outcome)"
    and m: "encrypt_message lib mem method skey ukey (h @ eih @ body) ?sid 16 = (Ok dgram :: (_, unit) outcome)"
    using e ab assms(3) req
    by (auto simp: encrypt_client_payload_aead_2022_def gn body_def client_body_def Let_def outcome_simps h_def)
  obtain eih' tag' where d: "decrypt_message lib method skey dgram (Some um) =
      Ok (Some user, h @ eih' @ body @ tag')" "length eih' = 16" "length tag' = kind_tag_len method"
      "length dgram = 32 + length body + kind_tag_len method"
    by (rule message_roundtrip_eih [where um = um, OF assms(1-6) h_def eih m])
  define data where "data = to_be 8 ?sid @ to_be 8 ?pid @ eih' @ [CLIENT_SOCKET_TYPE] @ to_be 8 now @ put_padding mem ?n @ ab @ payload"
  have p: "parse_client_packet now' True data = Ok (?sid, ?pid, addr, length data - length payload)"
    by (rule parse_client_packet_written [OF _ assms(8) padding_bound assms(7) ab data_def]) (simp add: d)
  define pre where "pre = h @ eih' @ [CLIENT_SOCKET_TYPE] @ to_be 8 now @ put_padding mem ?n @ ab"
  define buf where "buf = [] @ pre @ payload @ tag'"
  have b: "h @ eih' @ body @ tag' = buf" by (simp add: buf_def pre_def body_def client_body_def)
  have bd: "buf = data @ tag'" by (simp add: data_def pre_def buf_def h_def)
  have lp: "length data - length payload = length pre" "length data = length pre + length payload"
    by (simp_all add: data_def pre_def h_def)
  have ld': "take (length buf - kind_tag_len method) buf = data"
    using d(3) by (simp add: bd)
  have lb: "length buf = length pre + length payload + kind_tag_len method"
    using d(3) by (simp add: buf_def)
  have ld: "11 \<le> length body" by (simp add: body_def client_body_def)
  have "decrypt_client_payload_aead_2022 lib now' method skey dgram (Some um) = Ok (length payload, addr,
      \<lparr>client_session_id = ?sid, server_session_id = 0, packet_id = ?pid, control_user = Some user\<rparr>,
      payload @ drop (length payload) buf)"
    unfolding decrypt_client_payload_aead_2022_def gn and_then.simps Let_def
    using req assms(3) ld p d lp ld' lb copy_payload [OF buf_def] by (auto simp: b)
  then show ?thesis by simp
qed

lemma server_roundtrip:
  assumes "udp_2022_laws lib method" "kind_2022 lib method = Some v"
    and "length draw = (if is_aes v then 0 else kind_nonce_len lib method)" "is_aes v \<longrightarrow> length key = aes_key_len v"
    and "wf_address addr" "fresh_timestamp now' now"
    and e: "encrypt_server_payload_aead_2022 lib rlib mem rnd ctx now draw method key addr control payload [] = Ok dgram"
  shows "\<exists>buf. decrypt_server_payload_aead_2022 lib now' method key dgram = Ok (length payload, addr,
      control\<lparr>control_user := None\<rparr>, buf) \<and> take (length payload) buf = payload"
proof -
  let ?n = "get_aead_2022_padding_size rnd payload"
  let ?sid = "server_session_id control" and ?pid = "packet_id control"
  from address_write_total [OF assms(5)] obtain ab where ab: "encoded_address addr ab" by blast
  define body where "body = [SERVER_SOCKET_TYPE] @ to_be 8 now @ to_be 8 (client_session_id control) @ put_padding mem ?n @ ab @ payload"
  have gn: "get_nonce_len lib method = (Ok (length draw) :: (_, unit) outcome)"
    "get_nonce_len lib method = (Ok (length draw) :: (_, udp_2022_error) outcome)"
    using get_nonce_len_variant [OF assms(2)] assms(3) by simp_all
  have "encrypt_message lib mem method key key (draw @ to_be 8 ?sid @ to_be 8 ?pid @ body) ?sid 0 = (Ok dgram :: (bytes, unit) outcome)"
    using e ab
    by (simp add: encrypt_server_payload_aead_2022_def gn body_def Let_def)
  then obtain tag' where d: "decrypt_message lib method key dgram None =
      Ok (None, draw @ to_be 8 ?sid @ to_be 8 ?pid @ body @ tag')"
    and l: "length tag' = kind_tag_len method" "length dgram = length draw + 16 + length body + kind_tag_len method"
    by (rule message_roundtrip [OF assms(1,2,3,4) disjI1 [OF refl]])
  define data where "data = to_be 8 ?sid @ to_be 8 ?pid @ [SERVER_SOCKET_TYPE] @ to_be 8 now @
    to_be 8 (client_session_id control) @ put_padding mem ?n @ ab @ payload"
  have p: "parse_server_packet now' data = Ok (?sid, ?pid, client_session_id control, addr, length data - length payload)"
    by (rule parse_server_packet_written [OF assms(6) padding_bound assms(5) ab data_def])
  define pre where "pre = to_be 8 ?sid @ to_be 8 ?pid @ [SERVER_SOCKET_TYPE] @ to_be 8 now @
    to_be 8 (client_session_id control) @ put_padding mem ?n @ ab"
  define buf where "buf = draw @ pre @ payload @ tag'"
  have b: "draw @ to_be 8 ?sid @ to_be 8 ?pid @ body @ tag' = buf" by (simp add: buf_def pre_def body_def)
  have bd: "buf = draw @ data @ tag'" by (simp add: data_def pre_def buf_def)
  have lp: "length data - length payload = length pre" "length data = length pre + length payload"
    by (simp_all add: data_def pre_def)
  have ld': "take (length buf - kind_tag_len method - length draw) (drop (length draw) buf) = data"
    using l(1) by (simp add: bd)
  have lb: "length buf = length draw + length pre + length payload + kind_tag_len method"
    using l(1) by (simp add: buf_def)
  have ld: "11 \<le> length body" by (simp add: body_def)
  have "decrypt_server_payload_aead_2022 lib now' method key dgram = Ok (length payload, addr,
      \<lparr>client_session_id = client_session_id control, server_session_id = ?sid, packet_id = ?pid, control_user = None\<rparr>,
      payload @ drop (length payload) buf)"
    unfolding decrypt_server_payload_aead_2022_def gn and_then.simps Let_def
    using l(2) ld p d lp ld' lb copy_payload [OF buf_def] by (auto simp: b)
  then show ?thesis by (cases control) simp
qed

section \<open>What the decoders check\<close>

lemma parse_client_packet_fresh:
  assumes "parse_client_packet now req data = Ok (csid, pid, addr, k)"
  shows "data ! (16 + (if req then 16 else 0)) = CLIENT_SOCKET_TYPE \<and>
    fresh_timestamp now (from_be (take 8 (drop (17 + (if req then 16 else 0)) data)))"
proof -
  let ?e = "if req then 16 else (0 :: nat)"
  have e: "and_then (if req then and_then (cur_get 16 c) (\<lambda>(_, cursor). Ok cursor) else Ok c) f =
      (if req \<longrightarrow> 16 \<le> length (cur_rest c) then f (cur_adv ?e c) else Panic)" for c f
    by (simp add: cur_get_def cur_adv_def)
  from assms show ?thesis
    unfolding parse_client_packet_def e
    by (cases req)
       (auto simp: cur_get_def abs_diff_fresh split: if_split_asm)
qed

lemma decrypt_client_2022_Ok:
  assumes "decrypt_client_payload_aead_2022 lib now method key dgram um = Ok (n, addr, control, buf)"
  obtains nl user pt csid pid k where "get_nonce_len lib method = (Ok nl :: (_, udp_2022_error) outcome)"
    "decrypt_message lib method key dgram um = Ok (user, pt)" "control_user control = user"
    "parse_client_packet now (method_support_eih lib method \<and> um \<noteq> None)
       (take (length pt - kind_tag_len method - nl) (drop nl pt)) = Ok (csid, pid, addr, k)"
  using assms
  by (auto simp: decrypt_client_payload_aead_2022_def outcome_simps Let_def split: if_split_asm)

lemma parse_server_packet_panic:
  assumes "fresh_timestamp now ts" "2 \<le> length rest" "length rest < 10"
    and d: "data = to_be 8 ssid @ to_be 8 pid @ [SERVER_SOCKET_TYPE] @ to_be 8 ts @ rest"
  shows "parse_server_packet now data = Panic"
proof (cases "length rest < 8")
  case True
  then show ?thesis using assms(1) by (simp add: parse_server_packet_def cur_get_def d abs_diff_fresh)
next
  case False
  then have "\<not> 2 \<le> length rest - 8" using assms(3) by simp
  with False show ?thesis using assms(1)
    by (simp add: parse_server_packet_def cur_get_def d abs_diff_fresh skip_udp_padding_def)
qed

section \<open>A concrete cipher\<close>

definition mask_bytes :: "bytes \<Rightarrow> bytes" where
  "mask_bytes = map (xor 0x5A)"

lemma mask_bytes_simps [simp]: "length (mask_bytes b) = length b" "mask_bytes (mask_bytes b) = b"
  by (simp_all add: mask_bytes_def comp_def xor.assoc [symmetric])

definition mask_lib :: "(aead_2022_variant) \<Rightarrow> unit udp_2022_lib" where
  "mask_lib v = \<lparr>kind_2022 = (\<lambda>m. Some v), blake3_hash = (\<lambda>b. take 32 (b @ replicate 32 0)),
     udp_cipher_new = (\<lambda>m k s. ()), udp_encrypt = (\<lambda>c n m. mask_bytes m), udp_decrypt = (\<lambda>c n m. (True, mask_bytes m)),
     aes_encrypt = (\<lambda>v k b. mask_bytes b), aes_decrypt = (\<lambda>v k b. mask_bytes b),
     chacha_nonce_size = (\<lambda>v. 24), kind_nonce_len = (\<lambda>m. 24)\<rparr>"

lemma mask_laws: "udp_2022_laws (mask_lib v) method"
  by (simp add: udp_2022_laws_def mask_lib_def min_def)

definition sample_udp_control :: udp_control where
  "sample_udp_control = \<lparr>client_session_id = 1, server_session_id = 2, packet_id = 3, control_user = None\<rparr>"

definition sample_user :: server_user where
  "sample_user = server_user_new (mask_lib Aes128Gcm) ''u'' (replicate 16 7)"

lemma mask_client_encrypts:
  "\<exists>dgram. encrypt_client_payload_aead_2022 (mask_lib Aes128Gcm) exact_lib (\<lambda>_. 0) 5 (context_new exact_lib Local) 1000 []
     sample_2022_kind (replicate 16 7) (DomainNameAddress ''a'' 80) sample_udp_control [replicate 16 9] [5, 6] [] = Ok dgram"
  by (simp add: encrypt_client_payload_aead_2022_def get_nonce_len_def mask_lib_def method_support_eih_def make_eih_def
      aes_init_def rust_assert_def aes_key_len_def Let_def encrypt_message_def split_at_def address_write_simps
      sample_udp_control_def)

lemma mask_server_encrypts:
  "\<exists>dgram. encrypt_server_payload_aead_2022 (mask_lib ChaCha20Poly1305) exact_lib (\<lambda>_. 0) 5 (context_new exact_lib Server) 1000
     (replicate 24 4) sample_2022_kind (replicate 32 7) (DomainNameAddress ''a'' 80) sample_udp_control [5, 6] [] = Ok dgram"
  by (simp add: encrypt_server_payload_aead_2022_def get_nonce_len_def mask_lib_def Let_def encrypt_message_def split_at_def
      address_write_simps put_nonce_def)

section \<open>Properties\<close>

text \<open>A datagram of a client is decrypted by the server to the same address, payload, session and
  packet id, when the clocks differ by at most 30 seconds; with an identity header it also yields the
  user whose key encrypted it.\<close>

theorem udp_2022_client_roundtrip:
  assumes "udp_2022_laws lib method" "kind_2022 lib method = Some v"
    and "length draw = (if is_aes v then 0 else kind_nonce_len lib method)"
    and "is_aes v \<longrightarrow> length skey = aes_key_len v" "wf_address addr" "fresh_timestamp now' now"
    and "ids = [] \<and> ukey = skey \<and> um = None \<and> user = None \<or>
         is_aes v \<and> ids = [skey] \<and> (\<exists>m u. um = Some m \<and> user = Some u \<and> user_key u = ukey \<and>
           m (take 16 (blake3_hash lib ukey)) = Some u)"
    and "encrypt_client_payload_aead_2022 lib rlib mem rnd ctx now draw method ukey addr control ids payload [] = Ok dgram"
  shows "\<exists>buf. decrypt_client_payload_aead_2022 lib now' method skey dgram um = Ok (length payload, addr,
      \<lparr>client_session_id = client_session_id control, server_session_id = 0, packet_id = packet_id control,
       control_user = user\<rparr>, buf) \<and> take (length payload) buf = payload"
  using assms(7)
proof (elim disjE conjE exE)
  assume "ids = []" "ukey = skey" "um = None" "user = None"
  then show ?thesis using client_roundtrip [OF assms(1-4) disjI1 [OF refl] assms(5,6)] assms(8) by simp
next
  fix m u
  assume a: "is_aes v" "ids = [skey]" "um = Some m" "user = Some u" "user_key u = ukey"
    "m (take 16 (blake3_hash lib ukey)) = Some u"
  then have "draw = []" "length skey = aes_key_len v" using assms(3,4) by simp_all
  with client_roundtrip_eih [where um = m, OF assms(1,2) a(1) _ a(6,5) assms(5,6)] assms(8) a show ?thesis by simp
qed

theorem udp_2022_client_roundtrip_witness:
  "\<exists>dgram buf. decrypt_client_payload_aead_2022 (mask_lib Aes128Gcm) 1030 sample_2022_kind (replicate 16 9) dgram
      (Some (add_user sample_user user_manager_new)) = Ok (length [5, 6 :: u8], DomainNameAddress ''a'' 80,
      \<lparr>client_session_id = client_session_id sample_udp_control, server_session_id = 0,
       packet_id = packet_id sample_udp_control, control_user = Some sample_user\<rparr>, buf) \<and>
    take (length [5, 6 :: u8]) buf = [5, 6]"
proof -
  obtain dgram where e: "encrypt_client_payload_aead_2022 (mask_lib Aes128Gcm) exact_lib (\<lambda>_. 0) 5 (context_new exact_lib Local)
     1000 [] sample_2022_kind (replicate 16 7) (DomainNameAddress ''a'' 80) sample_udp_control [replicate 16 9] [5, 6] [] = Ok dgram"
    using mask_client_encrypts by blast
  have "\<exists>buf. decrypt_client_payload_aead_2022 (mask_lib Aes128Gcm) 1030 sample_2022_kind (replicate 16 9) dgram
      (Some (add_user sample_user user_manager_new)) = Ok (length [5, 6 :: u8], DomainNameAddress ''a'' 80,
      \<lparr>client_session_id = client_session_id sample_udp_control, server_session_id = 0,
       packet_id = packet_id sample_udp_control, control_user = Some sample_user\<rparr>, buf) \<and>
    take (length [5, 6 :: u8]) buf = [5, 6]"
    by (rule udp_2022_client_roundtrip [where v = Aes128Gcm, OF mask_laws _ _ _ _ _ _ e])
       (simp_all add: mask_lib_def aes_key_len_def fresh_timestamp_def valid_str_def sample_user_def server_user_new_def
          add_user_def)
  then show ?thesis by blast
qed

text \<open>A datagram of the server is decrypted by the client to the same address, payload, sessions and
  packet id, when the clocks differ by at most 30 seconds.\<close>

theorem udp_2022_server_roundtrip:
  assumes "udp_2022_laws lib method" "kind_2022 lib method = Some v"
    and "length draw = (if is_aes v then 0 else kind_nonce_len lib method)" "is_aes v \<longrightarrow> length key = aes_key_len v"
    and "wf_address addr" "fresh_timestamp now' now"
    and "encrypt_server_payload_aead_2022 lib rlib mem rnd ctx now draw method key addr control payload [] = Ok dgram"
  shows "\<exists>buf. decrypt_server_payload_aead_2022 lib now' method key dgram = Ok (length payload, addr,
      control\<lparr>control_user := None\<rparr>, buf) \<and> take (length payload) buf = payload"
  using server_roundtrip [OF assms] .

theorem udp_2022_server_roundtrip_witness:
  "\<exists>dgram buf. decrypt_server_payload_aead_2022 (mask_lib ChaCha20Poly1305) 970 sample_2022_kind (replicate 32 7) dgram =
      Ok (length [5, 6 :: u8], DomainNameAddress ''a'' 80, sample_udp_control\<lparr>control_user := None\<rparr>, buf) \<and>
    take (length [5, 6 :: u8]) buf = [5, 6]"
proof -
  obtain dgram where e: "encrypt_server_payload_aead_2022 (mask_lib ChaCha20Poly1305) exact_lib (\<lambda>_. 0) 5
     (context_new exact_lib Server) 1000 (replicate 24 4) sample_2022_kind (replicate 32 7) (DomainNameAddress ''a'' 80)
     sample_udp_control [5, 6] [] = Ok dgram"
    using mask_server_encrypts by blast
  have "\<exists>buf. decrypt_server_payload_aead_2022 (mask_lib ChaCha20Poly1305) 970 sample_2022_kind (replicate 32 7) dgram =
      Ok (length [5, 6 :: u8], DomainNameAddress ''a'' 80, sample_udp_control\<lparr>control_user := None\<rparr>, buf) \<and>
    take (length [5, 6 :: u8]) buf = [5, 6]"
    by (rule udp_2022_server_roundtrip [where v = ChaCha20Poly1305, OF mask_laws _ _ _ _ _ e])
       (simp_all add: mask_lib_def fresh_timestamp_def valid_str_def)
  then show ?thesis by blast
qed

text \<open>C22: The server accepts only decrypted datagrams of type client whose timestamp is at most 30 seconds
  away from its clock, on either side; the user it reports is the one decryption found.\<close>

theorem udp_2022_accepts_fresh_only:
  assumes "decrypt_client_payload_aead_2022 lib now method key dgram um = Ok (n, addr, control, buf)"
  shows "\<exists>nl pt. get_nonce_len lib method = (Ok nl :: (_, udp_2022_error) outcome) \<and>
    decrypt_message lib method key dgram um = Ok (control_user control, pt) \<and>
    (let data = take (length pt - kind_tag_len method - nl) (drop nl pt);
         eih_len = (if method_support_eih lib method \<and> um \<noteq> None then 16 else 0)
     in data ! (16 + eih_len) = CLIENT_SOCKET_TYPE \<and>
        fresh_timestamp now (from_be (take 8 (drop (17 + eih_len) data))))"
  by (rule decrypt_client_2022_Ok [OF assms]) (use parse_client_packet_fresh in \<open>fastforce simp: Let_def\<close>)

theorem udp_2022_accepts_fresh_only_witness:
  "\<exists>dgram (control :: udp_control) nl pt. get_nonce_len (mask_lib Aes128Gcm) sample_2022_kind = (Ok nl :: (_, udp_2022_error) outcome) \<and>
    decrypt_message (mask_lib Aes128Gcm) sample_2022_kind (replicate 16 9) dgram (Some (add_user sample_user user_manager_new)) =
      Ok (control_user control, pt) \<and>
    (let data = take (length pt - kind_tag_len sample_2022_kind - nl) (drop nl pt);
         eih_len = (if method_support_eih (mask_lib Aes128Gcm) sample_2022_kind \<and>
           Some (add_user sample_user user_manager_new) \<noteq> None then 16 else 0)
     in data ! (16 + eih_len) = CLIENT_SOCKET_TYPE \<and>
        fresh_timestamp 1030 (from_be (take 8 (drop (17 + eih_len) data))))"
proof -
  obtain dgram where e: "encrypt_client_payload_aead_2022 (mask_lib Aes128Gcm) exact_lib (\<lambda>_. 0) 5 (context_new exact_lib Local)
     1000 [] sample_2022_kind (replicate 16 7) (DomainNameAddress ''a'' 80) sample_udp_control [replicate 16 9] [5, 6] [] = Ok dgram"
    using mask_client_encrypts by blast
  let ?um = "add_user sample_user user_manager_new" and ?ctl = "sample_udp_control\<lparr>server_session_id := 0, control_user := Some sample_user\<rparr>"
  have "\<exists>buf. decrypt_client_payload_aead_2022 (mask_lib Aes128Gcm) 1030 sample_2022_kind (replicate 16 9) dgram (Some ?um) =
      Ok (length [5, 6 :: u8], DomainNameAddress ''a'' 80,
      \<lparr>client_session_id = client_session_id sample_udp_control, server_session_id = 0,
       packet_id = packet_id sample_udp_control, control_user = Some sample_user\<rparr>, buf) \<and>
    take (length [5, 6 :: u8]) buf = [5, 6]"
    by (rule client_roundtrip_eih [where v = Aes128Gcm, OF mask_laws _ _ _ _ _ _ _ e])
       (simp_all add: mask_lib_def aes_key_len_def fresh_timestamp_def valid_str_def sample_user_def server_user_new_def
          add_user_def)
  then obtain buf control where "decrypt_client_payload_aead_2022 (mask_lib Aes128Gcm) 1030 sample_2022_kind (replicate 16 9)
      dgram (Some ?um) = Ok (length [5, 6 :: u8], DomainNameAddress ''a'' 80, control, buf)" by blast
  from udp_2022_accepts_fresh_only [OF this] show ?thesis by - (rule exI [of _ dgram], rule exI [of _ control])
qed

text \<open>C36: The client's length check forgets the client session id: an authentic datagram of the server that
  ends up to eight bytes after the shortest accepted header makes the client panic.\<close>

theorem udp_2022_server_short_panics:
  assumes "decrypt_message lib method key dgram None = Ok (None, nonce @ data @ tag)"
    and "get_nonce_len lib method = (Ok (length nonce) :: (_, udp_2022_error) outcome)" "length tag = kind_tag_len method"
    and "length dgram = length (nonce @ data @ tag)" "fresh_timestamp now ts"
    and "data = to_be 8 ssid @ to_be 8 pid @ [SERVER_SOCKET_TYPE] @ to_be 8 ts @ rest" "2 \<le> length rest" "length rest < 10"
  shows "decrypt_server_payload_aead_2022 lib now method key dgram = Panic"
proof -
  have "take (length (nonce @ data @ tag) - kind_tag_len method - length nonce) (drop (length nonce) (nonce @ data @ tag)) = data"
    using assms(3) by simp
  moreover have "\<not> length dgram < length nonce + kind_tag_len method + 8 + 8 + 1 + 8 + 2"
    using assms(3,4,6,7) by simp
  ultimately show ?thesis
    using assms(1-3) parse_server_packet_panic [OF assms(5,7,8,6)]
    by (simp add: decrypt_server_payload_aead_2022_def Let_def)
qed

theorem udp_2022_server_short_panics_witness:
  "decrypt_server_payload_aead_2022 (mask_lib Aes128Gcm) 1000 sample_2022_kind (replicate 16 9)
    (mask_bytes (to_be 8 (1 :: u64) @ to_be 8 (2 :: u64) @ [SERVER_SOCKET_TYPE] @ to_be 8 (1000 :: u64) @ [0, 0]) @ replicate 16 0) = Panic"
proof -
  let ?data = "to_be 8 (1 :: u64) @ to_be 8 (2 :: u64) @ [SERVER_SOCKET_TYPE] @ to_be 8 (1000 :: u64) @ [0, 0]"
  have "decrypt_message (mask_lib Aes128Gcm) sample_2022_kind (replicate 16 9) (mask_bytes ?data @ replicate 16 0) None =
      Ok (None, [] @ ?data @ mask_bytes (replicate 16 0))"
    by (simp add: decrypt_message_def mask_lib_def split_at_def aes_init_def rust_assert_def aes_key_len_def
        session_id_of_def method_support_eih_def Let_def mask_bytes_def comp_def xor.assoc [symmetric] take_map drop_map)
  from udp_2022_server_short_panics [OF this, of 1000 1000 "1 :: u64" "2 :: u64" "[0, 0]"] show ?thesis
    by (simp add: get_nonce_len_def mask_lib_def sample_2022_kind_def fresh_timestamp_def)
qed

end
