(* ===== verification/Udp_Crypto.thy ===== *)
theory Udp_Crypto
  imports Udp_Packet Udp_Aead_2022
begin

text \<open>
  The choice of the datagram format by the category of the method:
  \<open>crates/shadowsocks/src/relay/udprelay/crypto_io.rs\<close>.
\<close>

datatype udp_error =
    UdpInvalidAddress error
  | UdpStreamError udp_stream_error
  | UdpAeadError udp_aead_error
  | Udp2022Error udp_2022_error

text \<open>
  The world of one call: the third-party libraries, the content of unwritten memory, the random
  salt and padding length it draws, the clock, and the context.
\<close>

record ('c, 'd, 'b, 's) udp_env =
  env_cipher :: "'c cipher_lib"
  env_2022 :: "'d udp_2022_lib"
  env_replay :: "('b, 's) replay_lib"
  env_ctx :: "('b, 's) ss_context"
  env_mem :: "nat \<Rightarrow> u8"
  env_draw :: bytes
  env_rnd :: nat
  env_now :: u64

text \<open>The plain format, for methods without encryption.\<close>

definition encrypt_payload_none :: "address \<Rightarrow> bytes \<Rightarrow> bytes \<Rightarrow> (bytes, unit) outcome" where
  "encrypt_payload_none addr payload dst =
     and_then (address_write_to_buf addr) (\<lambda>addr_bytes. Ok (dst @ addr_bytes @ payload))"

definition decrypt_payload_none :: "bytes \<Rightarrow> (nat \<times> address \<times> udp_control option \<times> bytes, udp_error) outcome" where
  "decrypt_payload_none payload =
     (case address_read_cursor (payload, 0) of
        Ok (address, cur) \<Rightarrow>
          let pos = snd cur
          in Ok (length payload - pos, address, None, copy_to_front pos (length payload) payload)
      | Err err \<Rightarrow> Err (UdpInvalidAddress err)
      | Panic \<Rightarrow> Panic)"

definition encrypt_client_payload ::
    "('c, 'd, 'b, 's) udp_env \<Rightarrow> cipher_kind \<Rightarrow> bytes \<Rightarrow> address \<Rightarrow> udp_control \<Rightarrow> bytes list \<Rightarrow> bytes \<Rightarrow> bytes
     \<Rightarrow> (bytes, unit) outcome" where
  "encrypt_client_payload env method key addr control identity_keys payload dst =
     (case kind_category method of
        CatNone \<Rightarrow> encrypt_payload_none addr payload dst
      | CatStream \<Rightarrow>
          encrypt_payload_stream (env_replay env) (env_cipher env) (env_ctx env) method key addr payload (env_draw env) dst
      | CatAead \<Rightarrow>
          encrypt_payload_aead (env_replay env) (env_cipher env) (env_mem env) (env_ctx env) method key addr payload
            (env_draw env) dst
      | CatAead2022 \<Rightarrow>
          encrypt_client_payload_aead_2022 (env_2022 env) (env_replay env) (env_mem env) (env_rnd env) (env_ctx env)
            (env_now env) (env_draw env) method key addr control identity_keys payload dst)"

definition encrypt_server_payload ::
    "('c, 'd, 'b, 's) udp_env \<Rightarrow> cipher_kind \<Rightarrow> bytes \<Rightarrow> address \<Rightarrow> udp_control \<Rightarrow> bytes \<Rightarrow> bytes
     \<Rightarrow> (bytes, unit) outcome" where
  "encrypt_server_payload env method key addr control payload dst =
     (case kind_category method of
        CatNone \<Rightarrow> encrypt_payload_none addr payload dst
      | CatStream \<Rightarrow>
          encrypt_payload_stream (env_replay env) (env_cipher env) (env_ctx env) method key addr payload (env_draw env) dst
      | CatAead \<Rightarrow>
          encrypt_payload_aead (env_replay env) (env_cipher env) (env_mem env) (env_ctx env) method key addr payload
            (env_draw env) dst
      | CatAead2022 \<Rightarrow>
          encrypt_server_payload_aead_2022 (env_2022 env) (env_replay env) (env_mem env) (env_rnd env) (env_ctx env)
            (env_now env) (env_draw env) method key addr control payload dst)"

text \<open>Results of the older formats carry no control data; of failures only the error is kept.\<close>

fun without_control :: "('e \<Rightarrow> udp_error) \<Rightarrow> (nat \<times> address, 'e) outcome \<times> bytes
    \<Rightarrow> (nat \<times> address \<times> udp_control option \<times> bytes, udp_error) outcome" where
  "without_control into (r, buf) = and_then (map_err into r) (\<lambda>(n, a). Ok (n, a, None, buf))"

definition with_control :: "(nat \<times> address \<times> udp_control \<times> bytes, udp_2022_error) outcome
    \<Rightarrow> (nat \<times> address \<times> udp_control option \<times> bytes, udp_error) outcome" where
  "with_control r = and_then (map_err Udp2022Error r) (\<lambda>(n, a, c, buf). Ok (n, a, Some c, buf))"

definition decrypt_client_payload ::
    "('c, 'd, 'b, 's) udp_env \<Rightarrow> cipher_kind \<Rightarrow> bytes \<Rightarrow> bytes \<Rightarrow> user_manager option
     \<Rightarrow> (nat \<times> address \<times> udp_control option \<times> bytes, udp_error) outcome" where
  "decrypt_client_payload env method key payload um =
     (case kind_category method of
        CatNone \<Rightarrow> decrypt_payload_none payload
      | CatStream \<Rightarrow> without_control UdpStreamError (decrypt_payload_stream (env_cipher env) method key payload)
      | CatAead \<Rightarrow> without_control UdpAeadError (decrypt_payload_aead (env_cipher env) method key payload)
      | CatAead2022 \<Rightarrow>
          with_control (decrypt_client_payload_aead_2022 (env_2022 env) (env_now env) method key payload um))"

definition decrypt_server_payload ::
    "('c, 'd, 'b, 's) udp_env \<Rightarrow> cipher_kind \<Rightarrow> bytes \<Rightarrow> bytes
     \<Rightarrow> (nat \<times> address \<times> udp_control option \<times> bytes, udp_error) outcome" where
  "decrypt_server_payload env method key payload =
     (case kind_category method of
        CatNone \<Rightarrow> decrypt_payload_none payload
      | CatStream \<Rightarrow> without_control UdpStreamError (decrypt_payload_stream (env_cipher env) method key payload)
      | CatAead \<Rightarrow> without_control UdpAeadError (decrypt_payload_aead (env_cipher env) method key payload)
      | CatAead2022 \<Rightarrow>
          with_control (decrypt_server_payload_aead_2022 (env_2022 env) (env_now env) method key payload))"

section \<open>Round trips\<close>

text \<open>What a method needs of the libraries, its key and the salt that is drawn.\<close>

definition udp_method_ok ::
    "('c, 'd, 'b, 's) udp_env \<Rightarrow> ('c \<Rightarrow> 'c \<Rightarrow> bool) \<Rightarrow> cipher_kind \<Rightarrow> bytes \<Rightarrow> bool" where
  "udp_method_ok env R method key \<longleftrightarrow>
     (case kind_category method of
        CatNone \<Rightarrow> True
      | CatStream \<Rightarrow> cipher_laws (env_cipher env) method R \<and> kind_tag_len method = 0 \<and>
          length (env_draw env) = kind_iv_len method
      | CatAead \<Rightarrow> cipher_laws (env_cipher env) method R \<and> length (env_draw env) = kind_salt_len method
      | CatAead2022 \<Rightarrow> udp_2022_laws (env_2022 env) method \<and>
          (\<exists>v. kind_2022 (env_2022 env) method = Some v \<and> (is_aes v \<longrightarrow> length key = aes_key_len v) \<and>
             length (env_draw env) = (if is_aes v then 0 else kind_nonce_len (env_2022 env) method)))"

lemma udp_none_roundtrip:
  assumes "wf_address addr" "encrypt_payload_none addr payload [] = Ok dgram"
  shows "\<exists>buf. decrypt_payload_none dgram = Ok (length payload, addr, None, buf) \<and> take (length payload) buf = payload"
proof -
  from address_write_total [OF assms(1)] obtain ab where ab: "encoded_address addr ab" by blast
  with assms(2) have d: "dgram = ab @ payload" by (simp add: encrypt_payload_none_def)
  have "address_read_cursor (dgram, 0) = Ok (addr, cur_adv (length ab) (dgram, 0))"
    by (rule address_read_cursor_write [OF assms(1) ab]) (simp add: d)
  then show ?thesis by (simp add: decrypt_payload_none_def d copy_to_front_def Let_def)
qed

lemma without_control_roundtrip:
  assumes "\<exists>buf. r = (Ok (n, a), buf) \<and> take n buf = p"
  shows "\<exists>c buf. without_control into r = Ok (n, a, c, buf) \<and> take n buf = p"
  using assms by auto

section \<open>Properties\<close>

text \<open>C11: Whatever the category of the method, the server decrypts a datagram of a client to the address and
  payload that were sent, when the clocks differ by at most 30 seconds. The client has no identity keys and the
  server no user manager.\<close>

theorem udp_client_payload_roundtrip:
  assumes "udp_method_ok env R method key" "wf_address addr" "fresh_timestamp (env_now env') (env_now env)"
    and "env_cipher env' = env_cipher env" "env_2022 env' = env_2022 env"
    and "encrypt_client_payload env method key addr control [] payload [] = Ok dgram"
  shows "\<exists>c buf. decrypt_client_payload env' method key dgram None = Ok (length payload, addr, c, buf) \<and>
    take (length payload) buf = payload"
proof (cases "kind_category method")
  case CatNone
  then show ?thesis using udp_none_roundtrip [OF assms(2), of payload dgram] assms(6)
    by (fastforce simp: encrypt_client_payload_def decrypt_client_payload_def)
next
  case CatStream
  then show ?thesis
    using udp_stream_roundtrip [OF _ _ _ assms(2), of "env_cipher env" "method" R "env_draw env"] assms
    by (auto simp: encrypt_client_payload_def decrypt_client_payload_def udp_method_ok_def
        intro!: without_control_roundtrip)
next
  case CatAead
  then show ?thesis
    using udp_aead_roundtrip [OF _ _ assms(2), of "env_cipher env" "method" R "env_draw env"] assms
    by (auto simp: encrypt_client_payload_def decrypt_client_payload_def udp_method_ok_def
        intro!: without_control_roundtrip)
next
  case CatAead2022
  with assms(1) obtain v where v: "udp_2022_laws (env_2022 env) method" "kind_2022 (env_2022 env) method = Some v"
    "length (env_draw env) = (if is_aes v then 0 else kind_nonce_len (env_2022 env) method)"
    "is_aes v \<longrightarrow> length key = aes_key_len v" by (auto simp: udp_method_ok_def)
  have "encrypt_client_payload_aead_2022 (env_2022 env) (env_replay env) (env_mem env) (env_rnd env) (env_ctx env)
      (env_now env) (env_draw env) method key addr control [] payload [] = Ok dgram"
    using assms(6) CatAead2022 by (simp add: encrypt_client_payload_def)
  from client_roundtrip [OF v disjI1 [OF refl] assms(2,3) this] show ?thesis
    using assms(5) CatAead2022 by (elim exE) (simp add: decrypt_client_payload_def with_control_def)
qed

text \<open>C24: Likewise for a datagram of the server.\<close>

theorem udp_server_payload_roundtrip:
  assumes "udp_method_ok env R method key" "wf_address addr" "fresh_timestamp (env_now env') (env_now env)"
    and "env_cipher env' = env_cipher env" "env_2022 env' = env_2022 env"
    and "encrypt_server_payload env method key addr control payload [] = Ok dgram"
  shows "\<exists>c buf. decrypt_server_payload env' method key dgram = Ok (length payload, addr, c, buf) \<and>
    take (length payload) buf = payload"
proof (cases "kind_category method")
  case CatNone
  then show ?thesis using udp_none_roundtrip [OF assms(2), of payload dgram] assms(6)
    by (fastforce simp: encrypt_server_payload_def decrypt_server_payload_def)
next
  case CatStream
  then show ?thesis
    using udp_stream_roundtrip [OF _ _ _ assms(2), of "env_cipher env" "method" R "env_draw env"] assms
    by (auto simp: encrypt_server_payload_def decrypt_server_payload_def udp_method_ok_def
        intro!: without_control_roundtrip)
next
  case CatAead
  then show ?thesis
    using udp_aead_roundtrip [OF _ _ assms(2), of "env_cipher env" "method" R "env_draw env"] assms
    by (auto simp: encrypt_server_payload_def decrypt_server_payload_def udp_method_ok_def
        intro!: without_control_roundtrip)
next
  case CatAead2022
  with assms(1) obtain v where v: "udp_2022_laws (env_2022 env) method" "kind_2022 (env_2022 env) method = Some v"
    "length (env_draw env) = (if is_aes v then 0 else kind_nonce_len (env_2022 env) method)"
    "is_aes v \<longrightarrow> length key = aes_key_len v" by (auto simp: udp_method_ok_def)
  have "encrypt_server_payload_aead_2022 (env_2022 env) (env_replay env) (env_mem env) (env_rnd env) (env_ctx env)
      (env_now env) (env_draw env) method key addr control payload [] = Ok dgram"
    using assms(6) CatAead2022 by (simp add: encrypt_server_payload_def)
  from server_roundtrip [OF v assms(2,3) this] show ?thesis
    using assms(5) CatAead2022 by (elim exE) (simp add: decrypt_server_payload_def with_control_def)
qed

section \<open>Witnesses\<close>

definition sample_env :: "((nat \<times> nat), unit, bytes list, exact_cache) udp_env" where
  "sample_env = \<lparr>env_cipher = counter_lib, env_2022 = mask_lib Aes128Gcm, env_replay = exact_lib,
     env_ctx = context_new exact_lib Local, env_mem = (\<lambda>_. 0), env_draw = [8, 9], env_rnd = 5, env_now = 1000\<rparr>"

lemma sample_env_ok: "udp_method_ok sample_env (\<lambda>c d. c = d \<and> fst c = kind_tag_len sample_aead_kind) sample_aead_kind []"
  using counter_laws [of sample_aead_kind]
  by (simp add: udp_method_ok_def sample_env_def) (simp add: sample_aead_kind_def)

lemma sample_env_encrypts:
  "\<exists>dgram. encrypt_client_payload sample_env sample_aead_kind [] (DomainNameAddress ''a'' 80) sample_udp_control [] [5] [] = Ok dgram"
  "\<exists>dgram. encrypt_server_payload sample_env sample_aead_kind [] (DomainNameAddress ''a'' 80) sample_udp_control [5] [] = Ok dgram"
  by (simp_all add: encrypt_client_payload_def encrypt_server_payload_def sample_env_def sample_aead_kind_def
      encrypt_payload_aead_def address_write_simps counter_lib_def Let_def)

theorem udp_client_payload_roundtrip_witness:
  "\<exists>dgram c buf. decrypt_client_payload (sample_env\<lparr>env_now := 970\<rparr>) sample_aead_kind [] dgram None =
      Ok (length [5 :: u8], DomainNameAddress ''a'' 80, c, buf) \<and> take (length [5 :: u8]) buf = [5]"
proof -
  obtain dgram where "encrypt_client_payload sample_env sample_aead_kind [] (DomainNameAddress ''a'' 80)
      sample_udp_control [] [5] [] = Ok dgram" using sample_env_encrypts by blast
  from udp_client_payload_roundtrip [where env' = "sample_env\<lparr>env_now := 970\<rparr>", OF sample_env_ok _ _ _ _ this]
  show ?thesis by (simp add: valid_str_def fresh_timestamp_def) (simp add: sample_env_def, blast)
qed

theorem udp_server_payload_roundtrip_witness:
  "\<exists>dgram c buf. decrypt_server_payload (sample_env\<lparr>env_now := 970\<rparr>) sample_aead_kind [] dgram =
      Ok (length [5 :: u8], DomainNameAddress ''a'' 80, c, buf) \<and> take (length [5 :: u8]) buf = [5]"
proof -
  obtain dgram where "encrypt_server_payload sample_env sample_aead_kind [] (DomainNameAddress ''a'' 80)
      sample_udp_control [5] [] = Ok dgram" using sample_env_encrypts by blast
  from udp_server_payload_roundtrip [where env' = "sample_env\<lparr>env_now := 970\<rparr>", OF sample_env_ok _ _ _ _ this]
  show ?thesis by (simp add: valid_str_def fresh_timestamp_def) (simp add: sample_env_def, blast)
qed

end
