(* ===== verification/Tcp_Aead_2022.thy ===== *)
theory Tcp_Aead_2022
  imports Tcp_Aead Udp_Aead_2022
begin

text \<open>
  The AEAD-2022 tunnel of \<open>relay/tcprelay/aead_2022.rs\<close>: a reader that takes the whole header, with
  salt, identity header, type, timestamp and the length of the first chunk, out of one read, checks it,
  and then reads chunks; and a writer that puts such a header before its first chunk. Both are the
  poll-based state machines of the source over arbitrary sources and sinks.
\<close>

section \<open>Types\<close>

datatype stream_type = ClientStream | ServerStream

definition MAX_CHUNK_SIZE :: nat where "MAX_CHUNK_SIZE = 0xFFFF"

definition AEAD2022_EIH_SUBKEY_CONTEXT :: string where
  "AEAD2022_EIH_SUBKEY_CONTEXT = ''shadowsocks 2022 identity subkey''"

datatype tcp_2022_error =
    Tcp2022IoError io_kind
  | Header2022TooShort nat nat
  | MissingExtendedIdentityHeader
  | InvalidTunnelUser bytes
  | DecryptHeaderChunkError
  | DecryptChunkError
  | DecryptChunkLengthError
  | InvalidStreamType u8 u8
  | InvalidHeaderTimestamp u64 u64

fun tcp_2022_error_into_io :: "tcp_2022_error \<Rightarrow> io_kind" where
  "tcp_2022_error_into_io (Tcp2022IoError k) = k"
| "tcp_2022_error_into_io _ = OtherError"

text \<open>\<open>blake3::derive_key(context, material)\<close>, beside the primitives of the datagrams.\<close>

record 'd tcp_2022_lib = "'d udp_2022_lib" +
  blake3_derive_key :: "string \<Rightarrow> bytes \<Rightarrow> bytes"

section \<open>The reader\<close>

datatype read_state_2022 = ReadHeader bytes | ReadChunkLength | ReadChunkData nat | BufferedChunk nat

record 'c reader_2022 =
  r22_stream_ty :: stream_type
  r22_state :: read_state_2022
  r22_cipher :: "'c option"
  r22_buffer :: bytes
  r22_method :: cipher_kind
  r22_salt :: "bytes option"
  r22_request_salt :: "bytes option"
  r22_data_chunk_count :: u64
  r22_user_manager :: "user_manager option"
  r22_user_key :: "bytes option"
  r22_handshaked :: bool

definition reader_2022_with_user_manager ::
    "('c, 'z) cipher_lib_scheme \<Rightarrow> stream_type \<Rightarrow> cipher_kind \<Rightarrow> bytes \<Rightarrow> user_manager option \<Rightarrow> 'c reader_2022" where
  "reader_2022_with_user_manager lib ty method key um =
     \<lparr>r22_stream_ty = ty,
      r22_state = ReadHeader (if kind_salt_len method > 0 then key else []),
      r22_cipher = (if kind_salt_len method > 0 then None else Some (cipher_new lib method key [])),
      r22_buffer = [], r22_method = method, r22_salt = None, r22_request_salt = None,
      r22_data_chunk_count = 0, r22_user_manager = um, r22_user_key = None, r22_handshaked = False\<rparr>"

definition reader_2022_new ::
    "('c, 'z) cipher_lib_scheme \<Rightarrow> stream_type \<Rightarrow> cipher_kind \<Rightarrow> bytes \<Rightarrow> 'c reader_2022" where
  "reader_2022_new lib ty method key = reader_2022_with_user_manager lib ty method key None"

text \<open>The reader with its source and the context of the replay checks.\<close>

record ('c, 'b, 's) rd_2022 =
  d22_reader :: "'c reader_2022"
  d22_source :: rd_script
  d22_ctx :: "('b, 's) ss_context"

text \<open>The user that the identity header names, with the cipher of the user's key.\<close>

definition tunnel_user_hash ::
    "('d, 'y) tcp_2022_lib_scheme \<Rightarrow> cipher_kind \<Rightarrow> bytes \<Rightarrow> bytes \<Rightarrow> bytes \<Rightarrow> (bytes, 'e) outcome" where
  "tunnel_user_hash k method key salt eih =
     (let identity_sub_key = blake3_derive_key k AEAD2022_EIH_SUBKEY_CONTEXT (key @ salt) in
      case kind_2022 k method of
        Some Aes128Gcm \<Rightarrow>
          and_then (aes_init Aes128Gcm (take 16 identity_sub_key)) (\<lambda>_.
            Ok (aes_decrypt k Aes128Gcm (take 16 identity_sub_key) eih))
      | Some Aes256Gcm \<Rightarrow>
          and_then (aes_init Aes256Gcm (take 32 identity_sub_key)) (\<lambda>_.
            Ok (aes_decrypt k Aes256Gcm (take 32 identity_sub_key) eih))
      | _ \<Rightarrow> Panic)"

definition header_cipher ::
    "('c, 'z) cipher_lib_scheme \<Rightarrow> ('d, 'y) tcp_2022_lib_scheme \<Rightarrow> bool \<Rightarrow> user_manager option \<Rightarrow> cipher_kind
     \<Rightarrow> bytes \<Rightarrow> bytes \<Rightarrow> bytes \<Rightarrow> ('c \<times> bytes option \<times> bytes \<times> bytes, tcp_2022_error) outcome" where
  "header_cipher lib k require_eih um method key salt header_chunk =
     (if require_eih then
        (case um of
           None \<Rightarrow> Panic
         | Some user_manager \<Rightarrow>
             if length header_chunk < 16 then Err MissingExtendedIdentityHeader
             else
               let eih = take 16 header_chunk; header_chunk = drop 16 header_chunk in
               and_then (tunnel_user_hash k method key salt eih) (\<lambda>user_hash.
                 case get_user_by_hash user_manager user_hash of
                   None \<Rightarrow> Err (InvalidTunnelUser user_hash)
                 | Some user \<Rightarrow>
                     Ok (cipher_new lib method (user_key user) salt, Some (user_key user), eih, header_chunk)))
      else Ok (cipher_new lib method key salt, None, [], header_chunk))"

text \<open>\<open>Read::read_exact\<close> on a cursor, which fails where the \<open>Buf\<close> accessors panic.\<close>

definition cur_read_exact :: "nat \<Rightarrow> cursor \<Rightarrow> (bytes \<times> cursor, tcp_2022_error) outcome" where
  "cur_read_exact n cur =
     (if cur_remaining cur < n then Err (Tcp2022IoError UnexpectedEof) else cur_get n cur)"

text \<open>The fields of the decrypted header: the request salt, if there is one, and the length of the first chunk.\<close>

definition parse_header_2022 ::
    "stream_type \<Rightarrow> u64 \<Rightarrow> nat \<Rightarrow> bytes \<Rightarrow> (bytes option \<times> nat, tcp_2022_error) outcome" where
  "parse_header_2022 ty now request_salt_len header_chunk =
     and_then (cur_get 1 (header_chunk, 0)) (\<lambda>(stream_ty, cur).
       let expected_stream_ty = (case ty of ClientStream \<Rightarrow> 1 | ServerStream \<Rightarrow> 0) in
       if stream_ty ! 0 \<noteq> expected_stream_ty then Err (InvalidStreamType expected_stream_ty (stream_ty ! 0))
       else and_then (cur_get 8 cur) (\<lambda>(timestamp, cur).
         if u64_abs_diff now (from_be timestamp) > of_nat SERVER_STREAM_TIMESTAMP_MAX_DIFF
         then Err (InvalidHeaderTimestamp (from_be timestamp) now)
         else and_then
           (if request_salt_len > 0
            then and_then (cur_read_exact request_salt_len cur) (\<lambda>(salt, cur). Ok (Some salt, cur))
            else Ok (None, cur)) (\<lambda>(request_salt, cur).
         and_then (cur_get 2 cur) (\<lambda>(data_length, cur).
           Ok (request_salt, unat (from_be data_length :: u16))))))"

definition header_2022_len ::
    "('d, 'y) tcp_2022_lib_scheme \<Rightarrow> stream_type \<Rightarrow> cipher_kind \<Rightarrow> user_manager option \<Rightarrow> nat" where
  "header_2022_len k ty method um =
     (let salt_len = kind_salt_len method;
          request_salt_len = (case ty of ClientStream \<Rightarrow> salt_len | ServerStream \<Rightarrow> 0);
          require_eih = (ty = ServerStream \<and> method_support_eih k method \<and> um \<noteq> None);
          eih_len = (if require_eih then 16 else 0)
      in salt_len + eih_len + 1 + 8 + request_salt_len + 2 + kind_tag_len method)"

text \<open>
  What is done with a header that was read in full into the buffer: it is decrypted in place and checked.
  The key of an identified user is kept even when a later check fails.
\<close>

definition accept_header_2022 ::
    "('c, 'z) cipher_lib_scheme \<Rightarrow> ('d, 'y) tcp_2022_lib_scheme \<Rightarrow> ('b, 's, 'x) replay_lib_scheme \<Rightarrow> u64 \<Rightarrow> nat
     \<Rightarrow> bytes \<Rightarrow> bytes \<Rightarrow> ('c, 'b, 's) rd_2022 \<Rightarrow> (nat option, tcp_2022_error) poll \<times> ('c, 'b, 's) rd_2022" where
  "accept_header_2022 lib k rlib now inst key header_buf w =
     (let r = d22_reader w; method = r22_method r; ty = r22_stream_ty r; um = r22_user_manager r;
          salt_len = kind_salt_len method;
          request_salt_len = (case ty of ClientStream \<Rightarrow> salt_len | ServerStream \<Rightarrow> 0);
          require_eih = (ty = ServerStream \<and> method_support_eih k method \<and> um \<noteq> None);
          salt = take salt_len header_buf
      in case header_cipher lib k require_eih um method key salt (drop salt_len header_buf) of
           Err e \<Rightarrow> (Ready (Err e), w)
         | Panic \<Rightarrow> (Ready Panic, w)
         | Ok (cipher, ukey, eih, header_chunk) \<Rightarrow>
             let (ok, header_chunk, cipher) = cipher_decrypt lib cipher header_chunk;
                 r = r\<lparr>r22_user_key := (case ukey of None \<Rightarrow> r22_user_key r | Some _ \<Rightarrow> ukey),
                       r22_buffer := salt @ eih @ header_chunk @ drop (length header_buf) (r22_buffer r)\<rparr>;
                 w = w\<lparr>d22_reader := r\<rparr>
             in if \<not> ok then (Ready (Err DecryptHeaderChunkError), w)
             else (case parse_header_2022 ty now request_salt_len header_chunk of
               Err e \<Rightarrow> (Ready (Err e), w)
             | Panic \<Rightarrow> (Ready Panic, w)
             | Ok (request_salt, data_length) \<Rightarrow>
                 let r = r\<lparr>r22_request_salt :=
                         (case request_salt of None \<Rightarrow> r22_request_salt r | Some _ \<Rightarrow> request_salt)\<rparr>;
                     (res, ctx) = (case ty of
                        ServerStream \<Rightarrow> check_nonce_replay rlib (d22_ctx w) inst method salt
                      | ClientStream \<Rightarrow> (Ok (), d22_ctx w));
                     w = w\<lparr>d22_reader := r, d22_ctx := ctx\<rparr>
                 in (case res of
                       Err e \<Rightarrow> (Ready (Err (Tcp2022IoError e)), w)
                     | Panic \<Rightarrow> (Ready Panic, w)
                     | Ok _ \<Rightarrow>
                         (Ready (Ok (Some data_length)),
                          w\<lparr>d22_reader := r\<lparr>r22_salt := Some salt, r22_cipher := Some cipher\<rparr>\<rparr>))))"

text \<open>\<open>poll_read_header\<close>: the buffer is grown to the length of the header, and one read goes into it.\<close>

definition read_header_2022 ::
    "('c, 'z) cipher_lib_scheme \<Rightarrow> ('d, 'y) tcp_2022_lib_scheme \<Rightarrow> ('b, 's, 'x) replay_lib_scheme \<Rightarrow> u64 \<Rightarrow> nat
     \<Rightarrow> bytes \<Rightarrow> ('c, 'b, 's) rd_2022 \<Rightarrow> (nat option, tcp_2022_error) poll \<times> ('c, 'b, 's) rd_2022" where
  "read_header_2022 lib k rlib now inst key w =
     (let r = d22_reader w;
          header_len = header_2022_len k (r22_stream_ty r) (r22_method r) (r22_user_manager r);
          buffer = r22_buffer r @ replicate (header_len - length (r22_buffer r)) 0;
          (p, es) = poll_read header_len (d22_source w)
      in poll_bind (poll_map_err Tcp2022IoError (p, w\<lparr>d22_reader := r\<lparr>r22_buffer := buffer\<rparr>, d22_source := es\<rparr>))
        (\<lambda>header_buf w.
           let w = w\<lparr>d22_reader := (d22_reader w)\<lparr>r22_buffer := header_buf @ drop (length header_buf) buffer\<rparr>\<rparr>
           in if header_buf = [] then (Ready (Ok None), w)
           else if length header_buf \<noteq> header_len
           then (Ready (Err (Header2022TooShort header_len (length header_buf))), w)
           else accept_header_2022 lib k rlib now inst key header_buf w))"

definition read_exact_2022 ::
    "nat \<Rightarrow> ('c, 'b, 's) rd_2022 \<Rightarrow> (nat, tcp_2022_error) poll \<times> ('c, 'b, 's) rd_2022" where
  "read_exact_2022 sz w =
     (let (p, buf, es) = poll_read_exact sz (r22_buffer (d22_reader w)) (d22_source w)
      in poll_map_err Tcp2022IoError
           (p, w\<lparr>d22_reader := (d22_reader w)\<lparr>r22_buffer := buf\<rparr>, d22_source := es\<rparr>))"

definition decrypt_length_2022 ::
    "('c, 'z) cipher_lib_scheme \<Rightarrow> 'c \<Rightarrow> bytes \<Rightarrow> (nat, tcp_2022_error) outcome \<times> bytes \<times> 'c" where
  "decrypt_length_2022 lib cipher m =
     (let (ok, m, cipher) = cipher_decrypt lib cipher m in
      (if ok then Ok (unat (from_be [m ! 0, m ! 1] :: u16)) else Err DecryptChunkLengthError, m, cipher))"

text \<open>\<open>poll_read_length\<close> returns an \<open>io::Result\<close>: its errors pass through the conversion to I/O errors.\<close>

definition read_length_2022 ::
    "('c, 'z) cipher_lib_scheme \<Rightarrow> ('c, 'b, 's) rd_2022
     \<Rightarrow> (nat option, tcp_2022_error) poll \<times> ('c, 'b, 's) rd_2022" where
  "read_length_2022 lib w =
     (let length_len = 2 + kind_tag_len (r22_method (d22_reader w)) in
      poll_bind (read_exact_2022 length_len w) (\<lambda>n w.
        if n = 0 then (Ready (Ok None), w)
        else (case r22_cipher (d22_reader w) of
          None \<Rightarrow> (Ready Panic, w)
        | Some cipher \<Rightarrow>
            let r = d22_reader w;
                (res, m, cipher) = decrypt_length_2022 lib cipher (take length_len (r22_buffer r));
                w = w\<lparr>d22_reader := r\<lparr>r22_cipher := Some cipher, r22_buffer := m @ drop length_len (r22_buffer r)\<rparr>\<rparr>
            in (case res of
                  Ok plen \<Rightarrow> (Ready (Ok (Some plen)), w)
                | Err e \<Rightarrow> (Ready (Err (Tcp2022IoError (tcp_2022_error_into_io e))), w)
                | Panic \<Rightarrow> (Ready Panic, w)))))"

definition read_data_2022 ::
    "('c, 'z) cipher_lib_scheme \<Rightarrow> nat \<Rightarrow> ('c, 'b, 's) rd_2022
     \<Rightarrow> (unit, tcp_2022_error) poll \<times> ('c, 'b, 's) rd_2022" where
  "read_data_2022 lib sz w =
     (let data_len = sz + kind_tag_len (r22_method (d22_reader w)) in
      poll_bind (read_exact_2022 data_len w) (\<lambda>n w.
        if n = 0 then (Ready (Err (Tcp2022IoError UnexpectedEof)), w)
        else (case r22_cipher (d22_reader w) of
          None \<Rightarrow> (Ready Panic, w)
        | Some cipher \<Rightarrow>
            let r = d22_reader w;
                (ok, m, cipher) = cipher_decrypt lib cipher (take data_len (r22_buffer r));
                r = r\<lparr>r22_cipher := Some cipher, r22_buffer := m @ drop data_len (r22_buffer r)\<rparr>
            in if \<not> ok then (Ready (Err DecryptChunkError), w\<lparr>d22_reader := r\<rparr>)
               else (Ready (Ok ()), w\<lparr>d22_reader := r\<lparr>r22_buffer := take sz (r22_buffer r)\<rparr>\<rparr>))))"

text \<open>One turn of the loop of \<open>poll_read_decrypted\<close>.\<close>

definition decrypt_step_2022 ::
    "('c, 'z) cipher_lib_scheme \<Rightarrow> ('d, 'y) tcp_2022_lib_scheme \<Rightarrow> ('b, 's, 'x) replay_lib_scheme \<Rightarrow> u64 \<Rightarrow> nat
     \<Rightarrow> nat \<Rightarrow> ('c, 'b, 's) rd_2022 \<Rightarrow> (bytes, tcp_2022_error) poll option \<times> ('c, 'b, 's) rd_2022" where
  "decrypt_step_2022 lib k rlib now inst remaining w =
     (case r22_state (d22_reader w) of
        ReadHeader key \<Rightarrow>
          step_done (read_header_2022 lib k rlib now inst key w) (\<lambda>len w. (case len of
              None \<Rightarrow> (Some (Ready (Ok [])), w)
            | Some len \<Rightarrow>
                (None, w\<lparr>d22_reader := (d22_reader w)\<lparr>r22_buffer := [], r22_state := ReadChunkData len,
                    r22_handshaked := True\<rparr>\<rparr>)))
      | ReadChunkLength \<Rightarrow>
          step_done (read_length_2022 lib w) (\<lambda>len w. (case len of
              None \<Rightarrow> (Some (Ready (Ok [])), w)
            | Some len \<Rightarrow>
                (None, w\<lparr>d22_reader := (d22_reader w)\<lparr>r22_buffer := [], r22_state := ReadChunkData len\<rparr>\<rparr>)))
      | ReadChunkData len \<Rightarrow>
          step_done (read_data_2022 lib len w) (\<lambda>_ w.
            (None, w\<lparr>d22_reader := (d22_reader w)\<lparr>r22_state := BufferedChunk 0,
                r22_data_chunk_count := r22_data_chunk_count (d22_reader w) + 1\<rparr>\<rparr>))
      | BufferedChunk pos \<Rightarrow>
          let r = d22_reader w in
          if pos < length (r22_buffer r) then
            let buffered = drop pos (r22_buffer r);
                consumed = min (length buffered) remaining
            in (Some (Ready (Ok (take consumed buffered))),
                w\<lparr>d22_reader := r\<lparr>r22_state := BufferedChunk (pos + consumed)\<rparr>\<rparr>)
          else (None, w\<lparr>d22_reader := r\<lparr>r22_buffer := [], r22_state := ReadChunkLength\<rparr>\<rparr>))"

text \<open>Every turn that goes round again consumes bytes or moves to a state nearer to reading.\<close>

fun rank_2022 :: "read_state_2022 \<Rightarrow> nat" where
  "rank_2022 ReadChunkLength = 0"
| "rank_2022 (BufferedChunk _) = 1"
| "rank_2022 (ReadChunkData _) = 2"
| "rank_2022 (ReadHeader _) = 3"

definition size_2022 :: "('c, 'b, 's) rd_2022 \<Rightarrow> nat" where
  "size_2022 w = 3 * (length (script_bytes (d22_source w)) + length (r22_buffer (d22_reader w)))
     + rank_2022 (r22_state (d22_reader w))"

definition current_data_chunk_remaining :: "'c reader_2022 \<Rightarrow> u64 \<times> nat" where
  "current_data_chunk_remaining r =
     (case r22_state r of
        BufferedChunk pos \<Rightarrow> (r22_data_chunk_count r, length (r22_buffer r) - pos)
      | _ \<Rightarrow> (r22_data_chunk_count r, 0))"

lemma read_exact_2022_size:
  assumes "read_exact_2022 sz w = (Ready (Ok n), w')"
  shows "\<exists>buf es. w' = w\<lparr>d22_reader := (d22_reader w)\<lparr>r22_buffer := buf\<rparr>, d22_source := es\<rparr> \<and>
     length (script_bytes es) + length buf = length (script_bytes (d22_source w)) + length (r22_buffer (d22_reader w)) \<and>
     0 < sz \<and> (n = sz \<and> sz \<le> length buf \<or> n = 0)"
proof -
  obtain p buf es where p: "poll_read_exact sz (r22_buffer (d22_reader w)) (d22_source w) = (p, buf, es)"
    by (metis prod.collapse)
  have "p = Ready (Ok n)" "w' = w\<lparr>d22_reader := (d22_reader w)\<lparr>r22_buffer := buf\<rparr>, d22_source := es\<rparr>"
    using assms p by (cases p; auto simp: read_exact_2022_def outcome_simps)+
  moreover have "0 < sz" "fill_buffer sz (r22_buffer (d22_reader w)) (d22_source w) = (p, buf, es)"
    using p \<open>p = _\<close> by (auto simp: poll_read_exact_def split: if_splits)
  ultimately show ?thesis using fill_buffer_moves [of sz _ _ p buf es] by fastforce
qed

lemma accept_header_2022_source: "d22_source (snd (accept_header_2022 lib k rlib now inst key hb w)) = d22_source w"
  by (simp add: accept_header_2022_def Let_def split: outcome.splits prod.splits)

lemma read_header_2022_size:
  assumes "read_header_2022 lib k rlib now inst key w = (Ready (Ok (Some len)), w')"
  shows "length (script_bytes (d22_source w')) < length (script_bytes (d22_source w))"
proof -
  let ?n = "header_2022_len k (r22_stream_ty (d22_reader w)) (r22_method (d22_reader w)) (r22_user_manager (d22_reader w))"
  obtain p es where p: "poll_read ?n (d22_source w) = (p, es)" by force
  from assms p obtain hb where h: "p = Ready (Ok hb)" "hb \<noteq> []"
    by (cases p; cases "case p of Ready r \<Rightarrow> r | Pending \<Rightarrow> Panic") (auto simp: read_header_2022_def Let_def split: if_splits)
  with assms p have "(Ready (Ok (Some len)), w') = accept_header_2022 lib k rlib now inst key hb
      (w\<lparr>d22_source := es, d22_reader := (d22_reader w)\<lparr>r22_buffer := hb @ drop (length hb) (r22_buffer (d22_reader w))\<rparr>\<rparr>)"
    by (simp add: read_header_2022_def Let_def split: if_splits)
  from arg_cong [OF this, of "\<lambda>x. d22_source (snd x)"] have "d22_source w' = es"
    by (simp add: accept_header_2022_source)
  then show ?thesis using poll_read_bytes [OF p] h by (cases hb) simp_all
qed

lemma decrypt_step_2022_decreases:
  assumes "decrypt_step_2022 lib k rlib now inst remaining w = (None, w')"
  shows "size_2022 w' < size_2022 w"
proof (cases "r22_state (d22_reader w)")
  case (ReadHeader key)
  then obtain len w1 where s: "read_header_2022 lib k rlib now inst key w = (Ready (Ok (Some len)), w1)"
    and w': "w' = w1\<lparr>d22_reader := (d22_reader w1)\<lparr>r22_buffer := [], r22_state := ReadChunkData len, r22_handshaked := True\<rparr>\<rparr>"
    using assms by (auto simp: decrypt_step_2022_def step_done_None_iff split: option.splits)
  from read_header_2022_size [OF s] show ?thesis by (simp add: size_2022_def w' ReadHeader)
next
  case ReadChunkLength
  then obtain len w1 where s: "read_length_2022 lib w = (Ready (Ok (Some len)), w1)"
    and w': "w' = w1\<lparr>d22_reader := (d22_reader w1)\<lparr>r22_buffer := [], r22_state := ReadChunkData len\<rparr>\<rparr>"
    using assms by (auto simp: decrypt_step_2022_def step_done_None_iff split: option.splits)
  from s obtain n w2 where e: "read_exact_2022 (2 + kind_tag_len (r22_method (d22_reader w))) w = (Ready (Ok n), w2)"
    and n: "n \<noteq> 0" and w1: "d22_source w1 = d22_source w2"
    by (auto simp: read_length_2022_def outcome_simps Let_def split: if_splits option.splits outcome.splits prod.splits)
  from read_exact_2022_size [OF e] n show ?thesis
    by (auto simp: size_2022_def w' w1 ReadChunkLength)
next
  case (ReadChunkData len)
  then obtain w1 where s: "read_data_2022 lib len w = (Ready (Ok ()), w1)"
    and w': "w' = w1\<lparr>d22_reader := (d22_reader w1)\<lparr>r22_state := BufferedChunk 0,
        r22_data_chunk_count := r22_data_chunk_count (d22_reader w1) + 1\<rparr>\<rparr>"
    using assms by (auto simp: decrypt_step_2022_def step_done_None_iff)
  from s obtain n w2 where e: "read_exact_2022 (len + kind_tag_len (r22_method (d22_reader w))) w = (Ready (Ok n), w2)"
    and n: "n \<noteq> 0" and w1: "d22_source w1 = d22_source w2" "length (r22_buffer (d22_reader w1)) \<le> len"
    by (auto simp: read_data_2022_def outcome_simps Let_def split: if_splits option.splits outcome.splits prod.splits)
  from read_exact_2022_size [OF e] obtain buf es where
    "w2 = w\<lparr>d22_reader := (d22_reader w)\<lparr>r22_buffer := buf\<rparr>, d22_source := es\<rparr>"
    and b: "length (script_bytes es) + length buf =
       length (script_bytes (d22_source w)) + length (r22_buffer (d22_reader w))"
      "n = len + kind_tag_len (r22_method (d22_reader w)) \<and>
       len + kind_tag_len (r22_method (d22_reader w)) \<le> length buf \<or> n = 0"
    by blast
  then have "d22_source w1 = es" using w1(1) by simp
  with w1(2) b n have "length (script_bytes (d22_source w1)) + length (r22_buffer (d22_reader w1)) \<le>
      length (script_bytes (d22_source w)) + length (r22_buffer (d22_reader w))" by simp
  then show ?thesis by (simp add: size_2022_def w' ReadChunkData)
next
  case (BufferedChunk pos)
  with assms show ?thesis
    by (auto simp: decrypt_step_2022_def size_2022_def Let_def split: if_splits)
qed

function poll_read_2022 ::
    "('c, 'z) cipher_lib_scheme \<Rightarrow> ('d, 'y) tcp_2022_lib_scheme \<Rightarrow> ('b, 's, 'x) replay_lib_scheme \<Rightarrow> u64 \<Rightarrow> nat
     \<Rightarrow> nat \<Rightarrow> ('c, 'b, 's) rd_2022 \<Rightarrow> (bytes, tcp_2022_error) poll \<times> ('c, 'b, 's) rd_2022" where
  "poll_read_2022 lib k rlib now inst remaining w =
     (case decrypt_step_2022 lib k rlib now inst remaining w of
        (Some res, w) \<Rightarrow> (res, w)
      | (None, w) \<Rightarrow> poll_read_2022 lib k rlib now inst remaining w)"
  by pat_completeness auto
termination
  by (relation "measure (\<lambda>(lib, k, rlib, now, inst, remaining, w). size_2022 w)")
     (auto simp: decrypt_step_2022_decreases)

declare poll_read_2022.simps [simp del]

section \<open>The writer\<close>

datatype write_state_2022 = AssembleHeader | AssembleChunk | WritingChunk nat

record 'c writer_2022 =
  w22_stream_ty :: stream_type
  w22_cipher :: 'c
  w22_method :: cipher_kind
  w22_buffer :: bytes
  w22_state :: write_state_2022
  w22_salt :: bytes
  w22_request_salt :: "bytes option"

definition make_tunnel_eih ::
    "('d, 'y) tcp_2022_lib_scheme \<Rightarrow> cipher_kind \<Rightarrow> bytes \<Rightarrow> bytes \<Rightarrow> (bytes, 'e) outcome" where
  "make_tunnel_eih k method sub_key ipsk =
     (let ipsk_plain_text = take 16 (blake3_hash k ipsk) in
      case kind_2022 k method of
        Some Aes128Gcm \<Rightarrow>
          and_then (aes_init Aes128Gcm (take 16 sub_key)) (\<lambda>_. Ok (aes_encrypt k Aes128Gcm (take 16 sub_key) ipsk_plain_text))
      | Some Aes256Gcm \<Rightarrow>
          and_then (aes_init Aes256Gcm (take 32 sub_key)) (\<lambda>_. Ok (aes_encrypt k Aes256Gcm (take 32 sub_key) ipsk_plain_text))
      | _ \<Rightarrow> Panic)"

text \<open>The loop over the identity keys, with the last derived sub-key, and the header for the key itself at its end.\<close>

fun put_tunnel_eihs ::
    "('d, 'y) tcp_2022_lib_scheme \<Rightarrow> cipher_kind \<Rightarrow> bytes \<Rightarrow> bytes \<Rightarrow> bytes option \<Rightarrow> bytes list \<Rightarrow> bytes
     \<Rightarrow> (bytes, 'e) outcome" where
  "put_tunnel_eihs k method key nonce sub_key [] buffer =
     (case sub_key of
        Some sk \<Rightarrow> and_then (make_tunnel_eih k method sk key) (\<lambda>eih. Ok (buffer @ eih))
      | None \<Rightarrow> Ok buffer)"
| "put_tunnel_eihs k method key nonce sub_key (ipsk # ipsks) buffer =
     and_then
       (case sub_key of
          Some sk \<Rightarrow> and_then (make_tunnel_eih k method sk ipsk) (\<lambda>eih. Ok (buffer @ eih))
        | None \<Rightarrow> Ok buffer) (\<lambda>buffer.
     put_tunnel_eihs k method key nonce (Some (blake3_derive_key k AEAD2022_EIH_SUBKEY_CONTEXT (ipsk @ nonce))) ipsks buffer)"

definition writer_2022_with_identity ::
    "('c, 'z) cipher_lib_scheme \<Rightarrow> ('d, 'y) tcp_2022_lib_scheme \<Rightarrow> stream_type \<Rightarrow> cipher_kind \<Rightarrow> bytes \<Rightarrow> bytes
     \<Rightarrow> bytes list \<Rightarrow> ('c writer_2022, 'e) outcome" where
  "writer_2022_with_identity lib k ty method key nonce identity_keys =
     and_then
       (if ty = ClientStream \<and> method_support_eih k method
        then put_tunnel_eihs k method key nonce None identity_keys nonce else Ok nonce) (\<lambda>buffer.
     Ok \<lparr>w22_stream_ty = ty, w22_cipher = cipher_new lib method key nonce, w22_method = method,
         w22_buffer = buffer, w22_state = AssembleHeader, w22_salt = nonce, w22_request_salt = None\<rparr>)"

definition writer_2022_new ::
    "('c, 'z) cipher_lib_scheme \<Rightarrow> ('d, 'y) tcp_2022_lib_scheme \<Rightarrow> stream_type \<Rightarrow> cipher_kind \<Rightarrow> bytes \<Rightarrow> bytes
     \<Rightarrow> ('c writer_2022, 'e) outcome" where
  "writer_2022_new lib k ty method key nonce = writer_2022_with_identity lib k ty method key nonce []"

definition set_request_salt :: "bytes \<Rightarrow> 'c writer_2022 \<Rightarrow> 'c writer_2022" where
  "set_request_salt salt w = w\<lparr>w22_request_salt := Some salt\<rparr>"

definition reset_cipher_with_key ::
    "('c, 'z) cipher_lib_scheme \<Rightarrow> bytes \<Rightarrow> 'c writer_2022 \<Rightarrow> 'c writer_2022" where
  "reset_cipher_with_key lib key w = w\<lparr>w22_cipher := cipher_new lib (w22_method w) key (w22_salt w)\<rparr>"

definition header_2022_plain :: "u64 \<Rightarrow> 'c writer_2022 \<Rightarrow> nat \<Rightarrow> bytes" where
  "header_2022_plain now w len =
     [case w22_stream_ty w of ClientStream \<Rightarrow> 0 | ServerStream \<Rightarrow> 1] @ to_be 8 now @
     (case w22_request_salt w of None \<Rightarrow> [] | Some salt \<Rightarrow> salt) @ to_be 2 (of_nat len :: u16)"

text \<open>Both states that assemble seal a first packet, header or length, and then the data.\<close>

definition assemble_2022 ::
    "('c, 'z) cipher_lib_scheme \<Rightarrow> (nat \<Rightarrow> u8) \<Rightarrow> bytes \<Rightarrow> bytes \<Rightarrow> 'c writer_2022 \<Rightarrow> 'c writer_2022" where
  "assemble_2022 lib mem first buf w =
     (let (a, c1) = aead_seal lib mem (w22_cipher w) first;
          (b, c2) = aead_seal lib mem c1 buf
      in w\<lparr>w22_cipher := c2, w22_buffer := w22_buffer w @ a @ b, w22_state := WritingChunk 0\<rparr>)"

definition poll_write_2022 ::
    "('c, 'z) cipher_lib_scheme \<Rightarrow> (nat \<Rightarrow> u8) \<Rightarrow> u64 \<Rightarrow> bytes \<Rightarrow> 'c writer_2022 \<times> sink
     \<Rightarrow> (nat, io_kind) poll \<times> 'c writer_2022 \<times> sink" where
  "poll_write_2022 lib mem now buf ws =
     (let buf = (if length buf > MAX_CHUNK_SIZE then take MAX_CHUNK_SIZE buf else buf);
          (w, s) = ws;
          w = (case w22_state w of
                 AssembleHeader \<Rightarrow> assemble_2022 lib mem (header_2022_plain now w (length buf)) buf w
               | AssembleChunk \<Rightarrow> assemble_2022 lib mem (to_be 2 (of_nat (length buf) :: u16)) buf w
               | WritingChunk _ \<Rightarrow> w);
          pos = (case w22_state w of WritingChunk pos \<Rightarrow> pos | _ \<Rightarrow> 0);
          (p, pos, s) = drain_buffer (w22_buffer w) pos s
      in case p of
           Ready (Ok _) \<Rightarrow>
             (Ready (Ok (length buf)), w\<lparr>w22_state := AssembleChunk, w22_buffer := []\<rparr>, s)
         | Ready (Err e) \<Rightarrow> (Ready (Err e), w\<lparr>w22_state := WritingChunk pos\<rparr>, s)
         | Ready Panic \<Rightarrow> (Ready Panic, w\<lparr>w22_state := WritingChunk pos\<rparr>, s)
         | Pending \<Rightarrow> (Pending, w\<lparr>w22_state := WritingChunk pos\<rparr>, s))"

section \<open>What the writer puts on the wire\<close>

text \<open>Polling until the result is there, at most \<open>n\<close> times.\<close>

fun poll_times :: "nat \<Rightarrow> ('w \<Rightarrow> ('a, 'e) poll \<times> 'w) \<Rightarrow> 'w \<Rightarrow> ('a, 'e) poll \<times> 'w" where
  "poll_times 0 f w = (Pending, w)"
| "poll_times (Suc n) f w = (case f w of (Pending, w) \<Rightarrow> poll_times n f w | (Ready r, w) \<Rightarrow> (Ready r, w))"

text \<open>
  Writing buffers one after the other. A sink keeps a writer pending at most once for each event it
  has left, so that many polls and one more suffice.
\<close>

fun write_seq_2022 ::
    "('c, 'z) cipher_lib_scheme \<Rightarrow> (nat \<Rightarrow> u8) \<Rightarrow> u64 \<Rightarrow> bytes list \<Rightarrow> 'c writer_2022 \<times> sink
     \<Rightarrow> (unit, io_kind) poll \<times> 'c writer_2022 \<times> sink" where
  "write_seq_2022 lib mem now [] ws = (Ready (Ok ()), ws)"
| "write_seq_2022 lib mem now (b # bs) ws =
     poll_bind (poll_times (Suc (length (sink_script (snd ws)))) (poll_write_2022 lib mem now b) ws)
       (\<lambda>n ws. write_seq_2022 lib mem now bs ws)"

fun sent_2022 :: "'c writer_2022 \<times> sink \<Rightarrow> bytes" where
  "sent_2022 (w, s) = sink_bytes s @
     (case w22_state w of WritingChunk pos \<Rightarrow> drop pos (w22_buffer w) | _ \<Rightarrow> w22_buffer w)"

fun writer_2022_ok :: "'c writer_2022 \<times> sink \<Rightarrow> bool" where
  "writer_2022_ok (w, s) = (case w22_state w of WritingChunk pos \<Rightarrow> pos \<le> length (w22_buffer w) | _ \<Rightarrow> True)"

text \<open>The packets that a poll assembles, and the cipher after them.\<close>

definition packets_2022 ::
    "('c, 'z) cipher_lib_scheme \<Rightarrow> (nat \<Rightarrow> u8) \<Rightarrow> u64 \<Rightarrow> bytes \<Rightarrow> 'c writer_2022 \<Rightarrow> bytes \<times> 'c" where
  "packets_2022 lib mem now buf w =
     (case w22_state w of
        WritingChunk _ \<Rightarrow> ([], w22_cipher w)
      | AssembleChunk \<Rightarrow> aead_chunks lib mem (w22_cipher w) [buf]
      | AssembleHeader \<Rightarrow>
          (let (a, c) = aead_seal lib mem (w22_cipher w) (header_2022_plain now w (length buf));
               (b, c) = aead_seal lib mem c buf
           in (a @ b, c)))"

lemma poll_write_2022_sent:
  assumes poll: "poll_write_2022 lib mem now buf (w, s) = (p, w', s')" and ok: "writer_2022_ok (w, s)"
    and len: "length buf \<le> MAX_CHUNK_SIZE"
  shows "writer_2022_ok (w', s') \<and> w22_cipher w' = snd (packets_2022 lib mem now buf w) \<and>
    sent_2022 (w', s') = sent_2022 (w, s) @ fst (packets_2022 lib mem now buf w) \<and>
    (case p of Pending \<Rightarrow> (\<exists>pos. w22_state w' = WritingChunk pos) \<and> length (sink_script s') < length (sink_script s)
     | Ready (Ok n) \<Rightarrow> n = length buf \<and> w22_state w' = AssembleChunk \<and> w22_buffer w' = []
     | Ready (Err e) \<Rightarrow> True | Ready Panic \<Rightarrow> False)"
proof -
  define w1 where "w1 = (case w22_state w of
        AssembleHeader \<Rightarrow> assemble_2022 lib mem (header_2022_plain now w (length buf)) buf w
      | AssembleChunk \<Rightarrow> assemble_2022 lib mem (to_be 2 (of_nat (length buf) :: u16)) buf w
      | WritingChunk _ \<Rightarrow> w)"
  obtain pos where pos: "w22_state w1 = WritingChunk pos"
    by (cases "w22_state w") (auto simp: w1_def assemble_2022_def Let_def split: prod.splits)
  obtain q pos' s1 where d: "drain_buffer (w22_buffer w1) pos s = (q, pos', s1)" by (metis prod.collapse)
  have le: "pos \<le> length (w22_buffer w1)" using ok pos
    by (cases "w22_state w") (auto simp: w1_def assemble_2022_def Let_def split: prod.splits)
  have w1: "w22_cipher w1 = snd (packets_2022 lib mem now buf w) \<and>
      sent_2022 (w1, s) = sent_2022 (w, s) @ fst (packets_2022 lib mem now buf w)"
    by (cases "w22_state w") (auto simp: w1_def packets_2022_def assemble_2022_def Let_def split: prod.splits)
  have p: "p = (case q of Ready (Ok _) \<Rightarrow> Ready (Ok (length buf)) | Ready (Err e) \<Rightarrow> Ready (Err e)
        | Ready Panic \<Rightarrow> Ready Panic | Pending \<Rightarrow> Pending)" "s' = s1"
    "w' = (case q of Ready (Ok _) \<Rightarrow> w1\<lparr>w22_state := AssembleChunk, w22_buffer := []\<rparr> | _ \<Rightarrow> w1\<lparr>w22_state := WritingChunk pos'\<rparr>)"
    using poll len d pos
    by (auto simp: poll_write_2022_def Let_def w1_def [symmetric] split: poll.splits outcome.splits)
  note drain = drain_buffer_moves [OF d le]
  have "sent_2022 (w', s') = sent_2022 (w1, s)" "w22_cipher w' = w22_cipher w1" "writer_2022_ok (w', s')"
    using drain p pos by (auto split: poll.splits outcome.splits)
  with w1 drain p show ?thesis by (auto split: poll.splits outcome.splits)
qed

lemma poll_times_2022_sent:
  assumes "poll_times n (poll_write_2022 lib mem now buf) (w, s) = (p, w', s')" "length (sink_script s) < n"
    and "writer_2022_ok (w, s)" "length buf \<le> MAX_CHUNK_SIZE"
  shows "p \<noteq> Pending \<and> p \<noteq> Ready Panic \<and> (\<forall>m. p = Ready (Ok m) \<longrightarrow> m = length buf \<and>
     w22_state w' = AssembleChunk \<and> w22_buffer w' = [] \<and>
     w22_cipher w' = snd (packets_2022 lib mem now buf w) \<and>
     sent_2022 (w', s') = sent_2022 (w, s) @ fst (packets_2022 lib mem now buf w))"
  using assms
proof (induction n arbitrary: w s)
  case (Suc n)
  obtain q w1 s1 where q: "poll_write_2022 lib mem now buf (w, s) = (q, w1, s1)" by (metis prod.collapse)
  note sent = poll_write_2022_sent [OF q Suc.prems(3,4)]
  show ?case
  proof (cases q)
    case Pending
    then have r: "poll_times n (poll_write_2022 lib mem now buf) (w1, s1) = (p, w', s')" using Suc.prems(1) q by simp
    from sent Pending obtain pos where w1: "w22_state w1 = WritingChunk pos" "writer_2022_ok (w1, s1)"
      "length (sink_script s1) < n" using Suc.prems(2) by auto
    have "packets_2022 lib mem now buf w1 = ([], w22_cipher w1)" using w1 by (simp add: packets_2022_def)
    with Suc.IH [OF r w1(3,2) Suc.prems(4)] sent show ?thesis by (simp del: sent_2022.simps)
  next
    case (Ready r)
    then show ?thesis using Suc.prems(1) q sent by (auto split: outcome.splits)
  qed
qed simp

lemma write_seq_2022_sent:
  assumes "write_seq_2022 lib mem now bufs (w, s) = (p, w', s')" "w22_state w = AssembleChunk"
    and "\<forall>b \<in> set bufs. length b \<le> MAX_CHUNK_SIZE"
  shows "p \<noteq> Pending \<and> p \<noteq> Ready Panic \<and> (p = Ready (Ok ()) \<longrightarrow>
    w22_state w' = AssembleChunk \<and> (bufs \<noteq> [] \<or> w22_buffer w = [] \<longrightarrow> w22_buffer w' = []) \<and>
    sent_2022 (w', s') = sent_2022 (w, s) @ fst (aead_chunks lib mem (w22_cipher w) bufs))"
  using assms
proof (induction bufs arbitrary: w s)
  case (Cons b bs)
  obtain q w1 s1 where q: "poll_times (Suc (length (sink_script s))) (poll_write_2022 lib mem now b) (w, s) = (q, w1, s1)"
    by (metis prod.collapse)
  have ok: "writer_2022_ok (w, s)" "length b \<le> MAX_CHUNK_SIZE" using Cons.prems(2,3) by auto
  note sent = poll_times_2022_sent [OF q _ ok]
  show ?case
  proof (cases "\<exists>m. q = Ready (Ok m)")
    case True
    then obtain m where m: "q = Ready (Ok m)" ..
    then have r: "write_seq_2022 lib mem now bs (w1, s1) = (p, w', s')" using Cons.prems(1) q by simp
    have w1: "w22_state w1 = AssembleChunk" "w22_buffer w1 = []"
      "w22_cipher w1 = snd (aead_chunks lib mem (w22_cipher w) [b])"
      "sent_2022 (w1, s1) = sent_2022 (w, s) @ fst (aead_chunks lib mem (w22_cipher w) [b])"
      using sent m Cons.prems(2)
      by (simp_all add: packets_2022_def del: sent_2022.simps aead_chunks.simps)
    from Cons.IH [OF r w1(1)] Cons.prems(3) w1 show ?thesis by (auto split: prod.splits)
  next
    case False
    then show ?thesis using Cons.prems(1) q sent
      by (cases q; cases "case q of Ready r \<Rightarrow> r | Pending \<Rightarrow> Panic") auto
  qed
qed auto

text \<open>A writer that has not sent anything: what it has buffered, the header with the first buffer, and the chunks.\<close>

definition wire_2022 ::
    "('c, 'z) cipher_lib_scheme \<Rightarrow> (nat \<Rightarrow> u8) \<Rightarrow> u64 \<Rightarrow> 'c writer_2022 \<Rightarrow> bytes \<Rightarrow> bytes list \<Rightarrow> bytes" where
  "wire_2022 lib mem now w b bs =
     (let (a, c) = aead_seal lib mem (w22_cipher w) (header_2022_plain now w (length b));
          (d, c) = aead_seal lib mem c b
      in w22_buffer w @ a @ d @ fst (aead_chunks lib mem c bs))"

lemma write_seq_2022_wire:
  assumes "write_seq_2022 lib mem now (b # bs) (w, s) = (p, w', s')" "w22_state w = AssembleHeader"
    and "\<forall>b \<in> set (b # bs). length b \<le> MAX_CHUNK_SIZE"
  shows "p \<noteq> Pending \<and> p \<noteq> Ready Panic \<and>
    (p = Ready (Ok ()) \<longrightarrow> sink_bytes s' = sink_bytes s @ wire_2022 lib mem now w b bs)"
proof -
  obtain q w1 s1 where q: "poll_times (Suc (length (sink_script s))) (poll_write_2022 lib mem now b) (w, s) = (q, w1, s1)"
    by (metis prod.collapse)
  have ok: "writer_2022_ok (w, s)" "length b \<le> MAX_CHUNK_SIZE" using assms(2,3) by auto
  note sent = poll_times_2022_sent [OF q _ ok]
  show ?thesis
  proof (cases "\<exists>m. q = Ready (Ok m)")
    case True
    then obtain m where m: "q = Ready (Ok m)" ..
    then have r: "write_seq_2022 lib mem now bs (w1, s1) = (p, w', s')" using assms(1) q by simp
    have w1: "w22_state w1 = AssembleChunk" "w22_buffer w1 = []"
      "w22_cipher w1 = snd (packets_2022 lib mem now b w)"
      "sent_2022 (w1, s1) = sent_2022 (w, s) @ fst (packets_2022 lib mem now b w)"
      using sent m by (simp_all del: sent_2022.simps)
    from write_seq_2022_sent [OF r w1(1)] assms(2,3) w1 show ?thesis
      by (auto simp: wire_2022_def packets_2022_def Let_def split: prod.splits)
  next
    case False
    then show ?thesis using assms(1) q sent
      by (cases q; cases "case q of Ready r \<Rightarrow> r | Pending \<Rightarrow> Panic") auto
  qed
qed

section \<open>The reader on the chunks that a writer sent\<close>

lemma read_exact_2022_clean:
  assumes e: "read_exact_2022 sz w = (p, w')" and clean: "clean_script (d22_source w)"
    and len: "length (r22_buffer (d22_reader w)) \<le> sz" "0 < sz" "length pkt = sz"
    and bytes: "r22_buffer (d22_reader w) @ script_bytes (d22_source w) = pkt @ rst"
  shows "\<exists>buf es. w' = w\<lparr>d22_reader := (d22_reader w)\<lparr>r22_buffer := buf\<rparr>, d22_source := es\<rparr> \<and> clean_script es \<and>
     (p = Pending \<and> script_pendings es < script_pendings (d22_source w) \<and> length buf \<le> sz \<and>
        buf @ script_bytes es = pkt @ rst \<or>
      p = Ready (Ok sz) \<and> script_pendings es = script_pendings (d22_source w) \<and> buf = pkt \<and> script_bytes es = rst)"
proof -
  obtain q buf es where q: "poll_read_exact sz (r22_buffer (d22_reader w)) (d22_source w) = (q, buf, es)"
    by (metis prod.collapse)
  from poll_read_exact_clean [OF q clean len bytes] show ?thesis
    by (intro exI [of _ buf] exI [of _ es]) (use e q in \<open>auto simp: read_exact_2022_def\<close>)
qed

lemma read_exact_2022_eof:
  assumes e: "read_exact_2022 sz w = (p, w')" and clean: "clean_script (d22_source w)" and sz: "0 < sz"
    and bytes: "r22_buffer (d22_reader w) = []" "script_bytes (d22_source w) = []"
  shows "\<exists>es. w' = w\<lparr>d22_reader := (d22_reader w)\<lparr>r22_buffer := []\<rparr>, d22_source := es\<rparr> \<and> clean_script es \<and> script_bytes es = [] \<and>
     (p = Pending \<and> script_pendings es < script_pendings (d22_source w) \<or>
      p = Ready (Ok 0) \<and> script_pendings es = script_pendings (d22_source w))"
proof -
  obtain q buf es where q: "fill_buffer sz (r22_buffer (d22_reader w)) (d22_source w) = (q, buf, es)"
    by (metis prod.collapse)
  from fill_buffer_moves [OF q] bytes have b: "buf = []" "script_bytes es = []" by auto
  from fill_buffer_clean [OF q clean] b(1) sz show ?thesis using e q b
    by (auto simp: read_exact_2022_def poll_read_exact_def)
qed

definition base_2022 :: "cipher_kind \<Rightarrow> ('c, 'b, 's) rd_2022 \<Rightarrow> bytes list \<Rightarrow> bool" where
  "base_2022 method w ps \<longleftrightarrow> clean_script (d22_source w) \<and> r22_method (d22_reader w) = method \<and>
     0 < kind_tag_len method \<and> (\<forall>p \<in> set ps. length p \<le> MAX_CHUNK_SIZE)"

text \<open>A reader past the header from which the plaintext \<open>rest\<close> is still to come.\<close>

definition reading_2022 ::
    "('c, 'z) cipher_lib_scheme \<Rightarrow> (nat \<Rightarrow> u8) \<Rightarrow> cipher_kind \<Rightarrow> ('c \<Rightarrow> 'c \<Rightarrow> bool) \<Rightarrow> ('c, 'b, 's) rd_2022 \<Rightarrow> bytes \<Rightarrow> bool" where
  "reading_2022 lib mem method R w rest \<longleftrightarrow>
     (let r = d22_reader w; rst = script_bytes (d22_source w); tag = kind_tag_len method in
      (\<exists>ps. base_2022 method w ps \<and>
       (case r22_state r of
          ReadHeader key \<Rightarrow> False
        | ReadChunkLength \<Rightarrow> \<exists>c d. R c d \<and> r22_cipher r = Some d \<and> length (r22_buffer r) \<le> 2 + tag \<and>
            r22_buffer r @ rst = fst (aead_chunks lib mem c ps) \<and> rest = concat ps
        | ReadChunkData n \<Rightarrow> \<exists>c d p out c'. R c d \<and> r22_cipher r = Some d \<and> length p = n \<and>
            length (r22_buffer r) \<le> n + tag \<and> aead_seal lib mem c p = (out, c') \<and>
            r22_buffer r @ rst = out @ fst (aead_chunks lib mem c' ps) \<and> rest = p @ concat ps
        | BufferedChunk pos \<Rightarrow> \<exists>c d. R c d \<and> r22_cipher r = Some d \<and> pos \<le> length (r22_buffer r) \<and>
            rst = fst (aead_chunks lib mem c ps) \<and> rest = drop pos (r22_buffer r) @ concat ps)))"

lemma reading_2022_LengthI:
  assumes "base_2022 method w ps" "r22_state (d22_reader w) = ReadChunkLength" "R c d"
    and "r22_cipher (d22_reader w) = Some d" "length (r22_buffer (d22_reader w)) \<le> 2 + kind_tag_len method"
    and "r22_buffer (d22_reader w) @ script_bytes (d22_source w) = fst (aead_chunks lib mem c ps)"
    and "rest = concat ps"
  shows "reading_2022 lib mem method R w rest"
  unfolding reading_2022_def Let_def by (intro exI [of _ ps]) (use assms in auto)

lemma reading_2022_DataI:
  assumes "base_2022 method w ps" "r22_state (d22_reader w) = ReadChunkData (length p)" "R c d"
    and "r22_cipher (d22_reader w) = Some d" "length (r22_buffer (d22_reader w)) \<le> length p + kind_tag_len method"
    and "aead_seal lib mem c p = (out, c')"
    and "r22_buffer (d22_reader w) @ script_bytes (d22_source w) = out @ fst (aead_chunks lib mem c' ps)"
    and "rest = p @ concat ps"
  shows "reading_2022 lib mem method R w rest"
  unfolding reading_2022_def Let_def by (intro exI [of _ ps]) (use assms in auto)

lemma reading_2022_BufferedI:
  assumes "base_2022 method w ps" "r22_state (d22_reader w) = BufferedChunk pos" "R c d"
    and "r22_cipher (d22_reader w) = Some d" "pos \<le> length (r22_buffer (d22_reader w))"
    and "script_bytes (d22_source w) = fst (aead_chunks lib mem c ps)"
    and "rest = drop pos (r22_buffer (d22_reader w)) @ concat ps"
  shows "reading_2022 lib mem method R w rest"
  unfolding reading_2022_def Let_def by (intro exI [of _ ps]) (use assms in auto)

definition progress_2022 ::
    "(('c, 'b, 's) rd_2022 \<Rightarrow> bytes \<Rightarrow> bool) \<Rightarrow> bytes \<Rightarrow> ('c, 'b, 's) rd_2022
     \<Rightarrow> (bytes, tcp_2022_error) poll option \<times> ('c, 'b, 's) rd_2022 \<Rightarrow> bool" where
  "progress_2022 I rest w res \<longleftrightarrow>
     (let pend = script_pendings (d22_source w); pend' = script_pendings (d22_source (snd res)) in
      case fst res of
        None \<Rightarrow> I (snd res) rest \<and> pend' = pend
      | Some Pending \<Rightarrow> I (snd res) rest \<and> pend' < pend
      | Some (Ready (Ok d)) \<Rightarrow> (\<exists>rest'. rest = d @ rest' \<and> I (snd res) rest') \<and> pend' = pend \<and> (d = [] \<longrightarrow> rest = [])
      | Some (Ready _) \<Rightarrow> False)"

lemma from_be_length_2022:
  assumes "length p \<le> MAX_CHUNK_SIZE"
  shows "unat (from_be [(to_be 2 (of_nat (length p) :: u16) @ tag) ! 0, (to_be 2 (of_nat (length p) :: u16) @ tag) ! 1] :: u16)
    = length p"
proof -
  have "length p < 2 ^ 16" using assms by (simp add: MAX_CHUNK_SIZE_def)
  then have n: "unat (of_nat (length p) :: u16) = length p" by (simp add: unat_of_nat take_bit_nat_eq_self)
  have "length (to_be 2 (of_nat (length p) :: u16)) = 2" by simp
  then have "(to_be 2 (of_nat (length p) :: u16) @ tag) ! 0 = to_be 2 (of_nat (length p) :: u16) ! 0"
    "(to_be 2 (of_nat (length p) :: u16) @ tag) ! 1 = to_be 2 (of_nat (length p) :: u16) ! 1"
    by (simp_all only: nth_append) simp_all
  then show ?thesis using from_be_to_be_2 [of "of_nat (length p)"] n by simp
qed

lemma step_2022_read_length:
  assumes laws: "cipher_laws lib method R" and inv: "reading_2022 lib mem method R w rest"
    and st: "r22_state (d22_reader w) = ReadChunkLength"
  shows "progress_2022 (reading_2022 lib mem method R) rest w (decrypt_step_2022 lib k rlib now inst remaining w)"
proof -
  let ?r = "d22_reader w" and ?n = "2 + kind_tag_len method"
  from inv st obtain ps c d where base: "base_2022 method w ps" and R: "R c d" "r22_cipher ?r = Some d"
    and len: "length (r22_buffer ?r) \<le> ?n"
    and bytes: "r22_buffer ?r @ script_bytes (d22_source w) = fst (aead_chunks lib mem c ps)" and rest: "rest = concat ps"
    by (auto simp: reading_2022_def Let_def)
  have clean: "clean_script (d22_source w)" and m: "r22_method ?r = method" using base by (simp_all add: base_2022_def)
  obtain p w1 where e: "read_exact_2022 ?n w = (p, w1)" by force
  show ?thesis
  proof (cases ps)
    case Nil
    then have empty: "r22_buffer ?r = []" "script_bytes (d22_source w) = []" using bytes by simp_all
    from read_exact_2022_eof [OF e clean _ empty] obtain es where
      w1: "w1 = w\<lparr>d22_reader := ?r\<lparr>r22_buffer := []\<rparr>, d22_source := es\<rparr>" "clean_script es" "script_bytes es = []" and
      c: "p = Pending \<and> script_pendings es < script_pendings (d22_source w) \<or>
        p = Ready (Ok 0) \<and> script_pendings es = script_pendings (d22_source w)" by auto
    have I: "reading_2022 lib mem method R w1 rest"
      by (rule reading_2022_LengthI [where ps = ps and R = R, OF _ _ R(1)])
         (use base R w1 st rest Nil in \<open>simp_all add: base_2022_def\<close>)
    from c show ?thesis
      using I e st m rest Nil w1
      by (auto simp: decrypt_step_2022_def read_length_2022_def Let_def progress_2022_def)
  next
    case (Cons q qs)
    obtain a c1 where a: "aead_seal lib mem c (to_be 2 (of_nat (length q) :: u16)) = (a, c1)" by force
    obtain b c2 where b: "aead_seal lib mem c1 q = (b, c2)" by force
    let ?more = "b @ fst (aead_chunks lib mem c2 qs)"
    from aead_seal_open [OF laws R(1) a] obtain tag d1 where o: "length a = ?n"
      "cipher_decrypt lib d a = (True, to_be 2 (of_nat (length q) :: u16) @ tag, d1)"
      "length tag = kind_tag_len method" "R c1 d1" by auto
    have eq: "r22_buffer ?r @ script_bytes (d22_source w) = a @ ?more"
      using bytes by (simp add: Cons a b split: prod.splits)
    have q: "length q \<le> MAX_CHUNK_SIZE" using base Cons by (simp add: base_2022_def)
    from read_exact_2022_clean [OF e clean len _ o(1) eq] obtain buf es where
      w1: "w1 = w\<lparr>d22_reader := ?r\<lparr>r22_buffer := buf\<rparr>, d22_source := es\<rparr>" "clean_script es" and
      c: "p = Pending \<and> script_pendings es < script_pendings (d22_source w) \<and> length buf \<le> ?n \<and>
          buf @ script_bytes es = a @ ?more \<or>
        p = Ready (Ok ?n) \<and> script_pendings es = script_pendings (d22_source w) \<and> buf = a \<and> script_bytes es = ?more"
      by auto
    from c show ?thesis
    proof (elim disjE conjE)
      assume *: "p = Pending" "script_pendings es < script_pendings (d22_source w)" "length buf \<le> ?n"
        "buf @ script_bytes es = a @ ?more"
      have "reading_2022 lib mem method R w1 rest"
        by (rule reading_2022_LengthI [where ps = ps and R = R, OF _ _ R(1)])
           (use base R w1 st rest Cons a b * in \<open>simp_all add: base_2022_def case_prod_beta\<close>)
      with * e st m w1 show ?thesis
        by (simp add: decrypt_step_2022_def read_length_2022_def Let_def progress_2022_def)
    next
      assume *: "p = Ready (Ok ?n)" "script_pendings es = script_pendings (d22_source w)" "buf = a"
        "script_bytes es = ?more"
      let ?w' = "w1\<lparr>d22_reader := ?r\<lparr>r22_cipher := Some d1, r22_buffer := [], r22_state := ReadChunkData (length q)\<rparr>\<rparr>"
      have "decrypt_length_2022 lib d a = (Ok (length q), to_be 2 (of_nat (length q) :: u16) @ tag, d1)"
        using o(2) q from_be_length_2022 [OF q, of tag] by (simp add: decrypt_length_2022_def Let_def del: One_nat_def)
      then have "decrypt_step_2022 lib k rlib now inst remaining w = (None, ?w')"
        using * e st m w1 R o(1) by (simp add: decrypt_step_2022_def read_length_2022_def Let_def)
      moreover have "reading_2022 lib mem method R ?w' rest"
        by (rule reading_2022_DataI [where ps = qs and p = q and R = R, OF _ _ o(4) _ _ b])
           (use base w1 rest Cons * in \<open>simp_all add: base_2022_def\<close>)
      ultimately show ?thesis using * w1 by (simp add: progress_2022_def Let_def)
    qed
  qed
qed

lemma step_2022_read_data:
  assumes laws: "cipher_laws lib method R" and inv: "reading_2022 lib mem method R w rest"
    and st: "r22_state (d22_reader w) = ReadChunkData n"
  shows "progress_2022 (reading_2022 lib mem method R) rest w (decrypt_step_2022 lib k rlib now inst remaining w)"
proof -
  let ?r = "d22_reader w" and ?n = "n + kind_tag_len method"
  from inv st obtain ps c d q out c' where base: "base_2022 method w ps" and R: "R c d" "r22_cipher ?r = Some d"
    and q: "length q = n" and len: "length (r22_buffer ?r) \<le> ?n"
    and b: "aead_seal lib mem c q = (out, c')"
    and bytes: "r22_buffer ?r @ script_bytes (d22_source w) = out @ fst (aead_chunks lib mem c' ps)"
    and rest: "rest = q @ concat ps"
    by (auto simp: reading_2022_def Let_def)
  have clean: "clean_script (d22_source w)" and m: "r22_method ?r = method" and tag0: "0 < kind_tag_len method"
    using base by (simp_all add: base_2022_def)
  from aead_seal_open [OF laws R(1) b] obtain tag d1 where o: "length out = ?n"
    "cipher_decrypt lib d out = (True, q @ tag, d1)" "length tag = kind_tag_len method" "R c' d1"
    using q by auto
  obtain p w1 where e: "read_exact_2022 ?n w = (p, w1)" by force
  from read_exact_2022_clean [OF e clean len _ o(1) bytes] tag0 obtain buf es where
    w1: "w1 = w\<lparr>d22_reader := ?r\<lparr>r22_buffer := buf\<rparr>, d22_source := es\<rparr>" "clean_script es" and
    c: "p = Pending \<and> script_pendings es < script_pendings (d22_source w) \<and> length buf \<le> ?n \<and>
        buf @ script_bytes es = out @ fst (aead_chunks lib mem c' ps) \<or>
      p = Ready (Ok ?n) \<and> script_pendings es = script_pendings (d22_source w) \<and> buf = out \<and>
        script_bytes es = fst (aead_chunks lib mem c' ps)"
    by auto
  from c show ?thesis
  proof (elim disjE conjE)
    assume *: "p = Pending" "script_pendings es < script_pendings (d22_source w)" "length buf \<le> ?n"
      "buf @ script_bytes es = out @ fst (aead_chunks lib mem c' ps)"
    have "reading_2022 lib mem method R w1 rest"
      by (rule reading_2022_DataI [where ps = ps and p = q and R = R, OF _ _ R(1) _ _ b])
         (use base R w1 st rest q * in \<open>auto simp: base_2022_def\<close>)
    with * e st m w1 show ?thesis
      by (simp add: decrypt_step_2022_def read_data_2022_def Let_def progress_2022_def)
  next
    assume *: "p = Ready (Ok ?n)" "script_pendings es = script_pendings (d22_source w)" "buf = out"
      "script_bytes es = fst (aead_chunks lib mem c' ps)"
    let ?w' = "w1\<lparr>d22_reader := ?r\<lparr>r22_cipher := Some d1, r22_buffer := q, r22_state := BufferedChunk 0,
        r22_data_chunk_count := r22_data_chunk_count ?r + 1\<rparr>\<rparr>"
    have "decrypt_step_2022 lib k rlib now inst remaining w = (None, ?w')"
      using * e st m w1 R o tag0 q by (simp add: decrypt_step_2022_def read_data_2022_def Let_def)
    moreover have "reading_2022 lib mem method R ?w' rest"
      by (rule reading_2022_BufferedI [where ps = ps and R = R and pos = 0, OF _ _ o(4)])
         (use base w1 rest * in \<open>simp_all add: base_2022_def\<close>)
    ultimately show ?thesis using * w1 by (simp add: progress_2022_def Let_def)
  qed
qed

lemma step_2022_buffered:
  assumes inv: "reading_2022 lib mem method R w rest" and cap: "0 < remaining"
    and st: "r22_state (d22_reader w) = BufferedChunk pos"
  shows "progress_2022 (reading_2022 lib mem method R) rest w (decrypt_step_2022 lib k rlib now inst remaining w)"
proof -
  let ?r = "d22_reader w"
  from inv st obtain ps c d where base: "base_2022 method w ps" and R: "R c d" "r22_cipher ?r = Some d"
    and pos: "pos \<le> length (r22_buffer ?r)"
    and bytes: "script_bytes (d22_source w) = fst (aead_chunks lib mem c ps)"
    and rest: "rest = drop pos (r22_buffer ?r) @ concat ps"
    by (auto simp: reading_2022_def Let_def)
  show ?thesis
  proof (cases "pos < length (r22_buffer ?r)")
    case True
    define n where "n = min (length (drop pos (r22_buffer ?r))) remaining"
    let ?w' = "w\<lparr>d22_reader := ?r\<lparr>r22_state := BufferedChunk (pos + n)\<rparr>\<rparr>"
    have n: "0 < n" "pos + n \<le> length (r22_buffer ?r)" using True cap by (auto simp: n_def)
    have "decrypt_step_2022 lib k rlib now inst remaining w = (Some (Ready (Ok (take n (drop pos (r22_buffer ?r))))), ?w')"
      using True st by (simp add: decrypt_step_2022_def Let_def n_def)
    moreover have "reading_2022 lib mem method R ?w' (drop (pos + n) (r22_buffer ?r) @ concat ps)"
      by (rule reading_2022_BufferedI [where ps = ps and R = R, OF _ _ R(1)])
         (use base R n bytes in \<open>simp_all add: base_2022_def\<close>)
    moreover have "rest = take n (drop pos (r22_buffer ?r)) @ drop (pos + n) (r22_buffer ?r) @ concat ps"
      unfolding rest by (metis add.commute append_assoc append_take_drop_id drop_drop)
    ultimately show ?thesis using n True by (auto simp: progress_2022_def)
  next
    case False
    let ?w' = "w\<lparr>d22_reader := ?r\<lparr>r22_buffer := [], r22_state := ReadChunkLength\<rparr>\<rparr>"
    have "decrypt_step_2022 lib k rlib now inst remaining w = (None, ?w')"
      using False st by (simp add: decrypt_step_2022_def Let_def)
    moreover have "reading_2022 lib mem method R ?w' rest"
      by (rule reading_2022_LengthI [where ps = ps and R = R, OF _ _ R(1)])
         (use base R False pos bytes rest in \<open>simp_all add: base_2022_def\<close>)
    ultimately show ?thesis by (simp add: progress_2022_def)
  qed
qed

lemma step_2022_progress:
  assumes "cipher_laws lib method R" "reading_2022 lib mem method R w rest" "0 < remaining"
  shows "progress_2022 (reading_2022 lib mem method R) rest w (decrypt_step_2022 lib k rlib now inst remaining w)"
proof (cases "r22_state (d22_reader w)")
  case (ReadHeader key)
  then show ?thesis using assms(2) by (simp add: reading_2022_def Let_def)
next
  case ReadChunkLength
  then show ?thesis by (rule step_2022_read_length [OF assms(1,2)])
next
  case (ReadChunkData n)
  then show ?thesis by (rule step_2022_read_data [OF assms(1,2)])
next
  case (BufferedChunk pos)
  then show ?thesis by (rule step_2022_buffered [OF assms(2,3)])
qed

lemma poll_read_2022_progress:
  assumes laws: "cipher_laws lib method R" and cap: "0 < remaining"
  shows "reading_2022 lib mem method R w rest \<Longrightarrow>
    poll_read_2022 lib k rlib now inst remaining w = (p, w') \<Longrightarrow>
    progress_2022 (reading_2022 lib mem method R) rest w (Some p, w')"
proof (induction "size_2022 w" arbitrary: w rule: less_induct)
  case less
  obtain r w1 where step: "decrypt_step_2022 lib k rlib now inst remaining w = (r, w1)" by force
  have prog: "progress_2022 (reading_2022 lib mem method R) rest w (r, w1)"
    using step_2022_progress [OF laws less.prems(1) cap] step by metis
  note unfold = poll_read_2022.simps [of lib k rlib now inst remaining w]
  show ?case
  proof (cases r)
    case None
    then have "poll_read_2022 lib k rlib now inst remaining w1 = (p, w')" using less.prems(2) step by (simp add: unfold)
    moreover have "reading_2022 lib mem method R w1 rest" "script_pendings (d22_source w1) = script_pendings (d22_source w)"
      using prog None by (simp_all add: progress_2022_def)
    moreover have "size_2022 w1 < size_2022 w" using step None decrypt_step_2022_decreases by blast
    ultimately have "progress_2022 (reading_2022 lib mem method R) rest w1 (Some p, w')"
      using less.hyps by blast
    then show ?thesis using \<open>script_pendings (d22_source w1) = _\<close> by (simp add: progress_2022_def)
  next
    case (Some q)
    then have "q = p" "w1 = w'" using less.prems(2) step by (simp_all add: unfold)
    with prog Some show ?thesis by simp
  qed
qed

text \<open>Polling the reader once for each capacity, and collecting what it delivers.\<close>

fun read_run_2022 ::
    "('c, 'z) cipher_lib_scheme \<Rightarrow> ('d, 'y) tcp_2022_lib_scheme \<Rightarrow> ('b, 's, 'x) replay_lib_scheme \<Rightarrow> u64 \<Rightarrow> nat
     \<Rightarrow> nat list \<Rightarrow> ('c, 'b, 's) rd_2022 \<Rightarrow> bytes \<times> (unit, tcp_2022_error) outcome" where
  "read_run_2022 lib k rlib now inst [] w = ([], Ok ())"
| "read_run_2022 lib k rlib now inst (n # ns) w =
     (case poll_read_2022 lib k rlib now inst n w of
        (Pending, w) \<Rightarrow> read_run_2022 lib k rlib now inst ns w
      | (Ready (Ok d), w) \<Rightarrow> (let (ds, r) = read_run_2022 lib k rlib now inst ns w in (d @ ds, r))
      | (Ready (Err e), w) \<Rightarrow> ([], Err e)
      | (Ready Panic, w) \<Rightarrow> ([], Panic))"

lemma read_run_2022_progress:
  assumes laws: "cipher_laws lib method R"
  shows "reading_2022 lib mem method R w rest \<Longrightarrow> \<forall>n \<in> set ns. 0 < n \<Longrightarrow>
    \<exists>out rest'. read_run_2022 lib k rlib now inst ns w = (out, Ok ()) \<and> rest = out @ rest' \<and>
      (script_pendings (d22_source w) + length rest \<le> length ns \<longrightarrow> rest' = [])"
proof (induction ns arbitrary: w rest)
  case Nil
  then show ?case by simp
next
  case (Cons n ns)
  obtain p w1 where p: "poll_read_2022 lib k rlib now inst n w = (p, w1)" by force
  have "0 < n" using Cons.prems(2) by simp
  note prog = poll_read_2022_progress [OF laws this Cons.prems(1) p]
  have ns: "\<forall>n \<in> set ns. 0 < n" using Cons.prems(2) by simp
  show ?case
  proof (cases p)
    case Pending
    then have "reading_2022 lib mem method R w1 rest" "script_pendings (d22_source w1) < script_pendings (d22_source w)"
      using prog by (simp_all add: progress_2022_def)
    with Cons.IH [of w1 rest] ns show ?thesis by (auto simp: p Pending)
  next
    case (Ready r)
    then obtain d rest1 where r: "r = Ok d" and d: "rest = d @ rest1" "reading_2022 lib mem method R w1 rest1"
      "script_pendings (d22_source w1) = script_pendings (d22_source w)" "d = [] \<longrightarrow> rest = []"
      using prog by (cases r) (auto simp: progress_2022_def)
    from Cons.IH [OF d(2) ns] obtain out rest' where out: "read_run_2022 lib k rlib now inst ns w1 = (out, Ok ())"
      "rest1 = out @ rest'" "script_pendings (d22_source w1) + length rest1 \<le> length ns \<longrightarrow> rest' = []" by blast
    have "script_pendings (d22_source w) + length rest \<le> length (n # ns) \<Longrightarrow> rest' = []"
      using d out by (cases d) auto
    then show ?thesis using d out by (auto simp: p Ready r)
  qed
qed

section \<open>The header\<close>

text \<open>The primitives behind the identity headers, and the keys of the two ends that belong together.\<close>

definition tcp_2022_laws :: "('d, 'y) tcp_2022_lib_scheme \<Rightarrow> bool" where
  "tcp_2022_laws k \<longleftrightarrow>
     (\<forall>v key b. length key = aes_key_len v \<longrightarrow> length b = 16 \<longrightarrow>
        length (aes_encrypt k v key b) = 16 \<and> aes_decrypt k v key (aes_encrypt k v key b) = b) \<and>
     (\<forall>b. length (blake3_hash k b) = 32) \<and> (\<forall>c m. length (blake3_derive_key k c m) = 32)"

definition requires_eih :: "('d, 'y) tcp_2022_lib_scheme \<Rightarrow> cipher_kind \<Rightarrow> user_manager option \<Rightarrow> bool" where
  "requires_eih k method um \<longleftrightarrow> method_support_eih k method \<and> um \<noteq> None"

definition authenticates ::
    "('d, 'y) tcp_2022_lib_scheme \<Rightarrow> cipher_kind \<Rightarrow> user_manager option \<Rightarrow> bytes \<Rightarrow> bytes list \<Rightarrow> bytes \<Rightarrow> bool" where
  "authenticates k method um skey ids ckey \<longleftrightarrow>
     (if requires_eih k method um
      then ids = [skey] \<and> (\<exists>u. get_user_by_hash (the um) (take 16 (blake3_hash k ckey)) = Some u \<and> user_key u = ckey)
      else skey = ckey \<and> (method_support_eih k method \<longrightarrow> ids = []))"

definition eih_wire ::
    "('d, 'y) tcp_2022_lib_scheme \<Rightarrow> cipher_kind \<Rightarrow> user_manager option \<Rightarrow> bytes \<Rightarrow> bytes \<Rightarrow> bytes \<Rightarrow> bytes" where
  "eih_wire k method um skey nonce ckey =
     (if requires_eih k method um then
        let v = the (kind_2022 k method);
            sub = take (aes_key_len v) (blake3_derive_key k AEAD2022_EIH_SUBKEY_CONTEXT (skey @ nonce))
        in aes_encrypt k v sub (take 16 (blake3_hash k ckey))
      else [])"

lemma eih_variant:
  assumes "method_support_eih k method"
  obtains v where "kind_2022 k method = Some v" "v = Aes128Gcm \<or> v = Aes256Gcm"
  using assms by (auto simp: method_support_eih_def)

lemma make_tunnel_eih_Ok:
  assumes "tcp_2022_laws k" "kind_2022 k method = Some v" "v = Aes128Gcm \<or> v = Aes256Gcm"
  shows "make_tunnel_eih k method (blake3_derive_key k c m) key =
      Ok (aes_encrypt k v (take (aes_key_len v) (blake3_derive_key k c m)) (take 16 (blake3_hash k key)))"
  using assms
  by (auto simp: make_tunnel_eih_def Let_def aes_init_def rust_assert_def aes_key_len_def tcp_2022_laws_def)

lemma tunnel_user_hash_Ok:
  assumes "tcp_2022_laws k" "kind_2022 k method = Some v" "v = Aes128Gcm \<or> v = Aes256Gcm"
  shows "tunnel_user_hash k method skey nonce
      (aes_encrypt k v (take (aes_key_len v) (blake3_derive_key k AEAD2022_EIH_SUBKEY_CONTEXT (skey @ nonce)))
        (take 16 (blake3_hash k key))) = Ok (take 16 (blake3_hash k key))"
proof -
  let ?sub = "take (aes_key_len v) (blake3_derive_key k AEAD2022_EIH_SUBKEY_CONTEXT (skey @ nonce))"
  have "length ?sub = aes_key_len v" "length (take 16 (blake3_hash k key)) = 16"
    using assms by (auto simp: tcp_2022_laws_def aes_key_len_def)
  then have "aes_decrypt k v ?sub (aes_encrypt k v ?sub (take 16 (blake3_hash k key))) = take 16 (blake3_hash k key)"
    using assms(1) unfolding tcp_2022_laws_def by blast
  then show ?thesis using assms
    by (auto simp: tunnel_user_hash_def Let_def aes_init_def rust_assert_def aes_key_len_def tcp_2022_laws_def)
qed

lemma length_eih_wire:
  assumes "tcp_2022_laws k"
  shows "length (eih_wire k method um skey nonce ckey) = (if requires_eih k method um then 16 else 0)"
proof (cases "requires_eih k method um")
  case True
  then obtain v where v: "kind_2022 k method = Some v" "v = Aes128Gcm \<or> v = Aes256Gcm"
    using eih_variant by (auto simp: requires_eih_def)
  have "length (take (aes_key_len v) (blake3_derive_key k AEAD2022_EIH_SUBKEY_CONTEXT (skey @ nonce))) = aes_key_len v"
    "length (take 16 (blake3_hash k ckey)) = 16"
    using assms v by (auto simp: tcp_2022_laws_def aes_key_len_def)
  then show ?thesis using assms v True by (simp add: eih_wire_def Let_def tcp_2022_laws_def)
qed (simp add: eih_wire_def)

text \<open>A client's writer starts with the salt and the identity header that the server's reader resolves.\<close>

lemma writer_2022_buffer:
  assumes "tcp_2022_laws k" "authenticates k method um skey ids ckey"
    and "writer_2022_with_identity lib k ClientStream method ckey nonce ids = Ok w"
  shows "w = \<lparr>w22_stream_ty = ClientStream, w22_cipher = cipher_new lib method ckey nonce, w22_method = method,
      w22_buffer = nonce @ eih_wire k method um skey nonce ckey, w22_state = AssembleHeader, w22_salt = nonce,
      w22_request_salt = None\<rparr>"
proof (cases "requires_eih k method um")
  case True
  then obtain v where v: "kind_2022 k method = Some v" "v = Aes128Gcm \<or> v = Aes256Gcm"
    using eih_variant by (auto simp: requires_eih_def)
  have "method_support_eih k method" using True by (simp add: requires_eih_def)
  with v True assms show ?thesis
    by (simp add: writer_2022_with_identity_def authenticates_def eih_wire_def Let_def make_tunnel_eih_Ok [OF assms(1) v])
next
  case False
  with assms show ?thesis
    by (cases "method_support_eih k method")
       (simp_all add: writer_2022_with_identity_def authenticates_def eih_wire_def)
qed

lemma header_cipher_written:
  assumes "tcp_2022_laws k" "authenticates k method um skey ids ckey"
  shows "header_cipher lib k (requires_eih k method um) um method skey nonce (eih_wire k method um skey nonce ckey @ chunk) =
    Ok (cipher_new lib method ckey nonce, if requires_eih k method um then Some ckey else None,
        eih_wire k method um skey nonce ckey, chunk)"
proof (cases "requires_eih k method um")
  case True
  then obtain v users where v: "kind_2022 k method = Some v" "v = Aes128Gcm \<or> v = Aes256Gcm" "um = Some users"
    using eih_variant [of k "method"] unfolding requires_eih_def by (metis option.exhaust)
  have len: "length (eih_wire k method um skey nonce ckey) = 16" using length_eih_wire [OF assms(1)] True by simp
  have eih: "eih_wire k method um skey nonce ckey =
      aes_encrypt k v (take (aes_key_len v) (blake3_derive_key k AEAD2022_EIH_SUBKEY_CONTEXT (skey @ nonce)))
        (take 16 (blake3_hash k ckey))"
    using True v by (simp add: eih_wire_def Let_def)
  have "tunnel_user_hash k method skey nonce (eih_wire k method um skey nonce ckey) =
      (Ok (take 16 (blake3_hash k ckey)) :: (_, tcp_2022_error) outcome)"
    unfolding eih by (rule tunnel_user_hash_Ok [OF assms(1) v(1,2)])
  with True v assms(2) len show ?thesis
    by (auto simp: header_cipher_def Let_def authenticates_def)
next
  case False
  with assms show ?thesis by (simp add: header_cipher_def authenticates_def eih_wire_def)
qed

lemma stream_diff_fresh: "u64_abs_diff now ts > of_nat SERVER_STREAM_TIMESTAMP_MAX_DIFF \<longleftrightarrow> \<not> fresh_timestamp now ts"
  using abs_diff_fresh [of now ts]
  by (simp add: SERVER_STREAM_TIMESTAMP_MAX_DIFF_def SERVER_PACKET_TIMESTAMP_MAX_DIFF_def)

text \<open>The other end's type, and the request salt that a client expects back.\<close>

fun opposite :: "stream_type \<Rightarrow> stream_type" where
  "opposite ClientStream = ServerStream" | "opposite ServerStream = ClientStream"

definition request_salt_fits :: "stream_type \<Rightarrow> bytes option \<Rightarrow> nat \<Rightarrow> bool" where
  "request_salt_fits ty rs n \<longleftrightarrow> (case ty of
     ClientStream \<Rightarrow> (\<exists>s. rs = Some s \<and> length s = n \<and> 0 < n) | ServerStream \<Rightarrow> rs = None \<and> n = 0)"

lemma parse_header_written:
  assumes "fresh_timestamp now ts" "n < 65536" "request_salt_fits ty (w22_request_salt w) rslen"
    and "w22_stream_ty w = opposite ty"
  shows "parse_header_2022 ty now rslen (header_2022_plain ts w n @ tag) = Ok (w22_request_salt w, n)"
proof -
  define data where "data = header_2022_plain ts w n @ tag"
  define s where "s = (case w22_request_salt w of None \<Rightarrow> [] | Some s \<Rightarrow> s)"
  define t :: u8 where "t = (case ty of ClientStream \<Rightarrow> 1 | ServerStream \<Rightarrow> 0)"
  have d: "data = [t] @ to_be 8 ts @ s @ to_be 2 (of_nat n :: u16) @ tag"
    using assms(4) by (cases ty) (simp_all add: data_def header_2022_plain_def s_def t_def)
  have ls: "length s = rslen" using assms(3) by (cases ty) (auto simp: request_salt_fits_def s_def)
  let ?c = "(data, 0) :: cursor"
  have g1: "cur_get 1 ?c = (Ok ([t], cur_adv 1 ?c) :: (_, tcp_2022_error) outcome)"
    by (simp add: cur_get_def d)
  have g2: "cur_get 8 (cur_adv 1 ?c) = (Ok (to_be 8 ts, cur_adv 9 ?c) :: (_, tcp_2022_error) outcome)"
    by (simp add: cur_get_def d)
  have g3: "(if rslen > 0 then and_then (cur_read_exact rslen (cur_adv 9 ?c)) (\<lambda>(salt, cur). Ok (Some salt, cur))
      else Ok (None, cur_adv 9 ?c)) = (Ok (w22_request_salt w, cur_adv (9 + rslen) ?c) :: (_, tcp_2022_error) outcome)"
  proof (cases ty)
    case ClientStream
    then have rs: "w22_request_salt w = Some s" "0 < rslen" using assms(3) by (auto simp: request_salt_fits_def s_def)
    have r: "cur_rest (cur_adv 9 ?c) = s @ to_be 2 (of_nat n :: u16) @ tag" by (simp add: d)
    then have "cur_get rslen (cur_adv 9 ?c) = (Ok (s, cur_adv rslen (cur_adv 9 ?c)) :: (_, tcp_2022_error) outcome)"
      using ls by (intro cur_get_rest)
    moreover have "\<not> cur_remaining (cur_adv 9 ?c) < rslen" unfolding cur_remaining_rest r using ls by simp
    ultimately show ?thesis using rs(2) by (simp only: cur_read_exact_def rs if_True if_False and_then.simps prod.case cur_adv_adv)
  next
    case ServerStream
    then show ?thesis using assms(3) by (auto simp: request_salt_fits_def)
  qed
  have g4: "cur_get 2 (cur_adv (9 + rslen) ?c) =
      (Ok (to_be 2 (of_nat n :: u16), cur_adv (9 + rslen + 2) ?c) :: (_, tcp_2022_error) outcome)"
  proof -
    have "cur_rest (cur_adv rslen (cur_adv 9 ?c)) = to_be 2 (of_nat n :: u16) @ tag"
      using ls by (simp only: cur_rest_adv) (simp add: d)
    then have "cur_get 2 (cur_adv rslen (cur_adv 9 ?c)) =
        (Ok (to_be 2 (of_nat n :: u16), cur_adv 2 (cur_adv rslen (cur_adv 9 ?c))) :: (_, tcp_2022_error) outcome)"
      by (intro cur_get_rest) simp_all
    then show ?thesis by (simp only: cur_adv_adv)
  qed
  have u: "unat (of_nat n :: u16) = n" using assms(2) by (simp add: unat_of_nat take_bit_nat_eq_self)
  have e: "[t] ! 0 \<noteq> (case ty of ClientStream \<Rightarrow> 1 | ServerStream \<Rightarrow> 0) \<longleftrightarrow> False" by (cases ty) (simp_all add: t_def)
  have f: "u64_abs_diff now ts > of_nat SERVER_STREAM_TIMESTAMP_MAX_DIFF \<longleftrightarrow> False"
    using assms(1) stream_diff_fresh by blast
  show ?thesis
    unfolding parse_header_2022_def data_def [symmetric] Let_def
    by (simp only: g1 g2 g3 g4 and_then.simps prod.case e if_False from_be_to_be_64 f) (simp add: u)
qed

text \<open>A whole header as it is on the wire, and a reader that takes it.\<close>

lemma accept_header_written:
  assumes laws: "cipher_laws lib method R" and len: "length nonce = kind_salt_len method" "n < 65536"
    and w: "r22_method (d22_reader w) = method" "r22_stream_ty (d22_reader w) = ty" "r22_user_manager (d22_reader w) = um"
    and hc: "header_cipher lib k (ty = ServerStream \<and> requires_eih k method um) um method key nonce (eih @ out) =
      Ok (cipher_new lib method ckey nonce, uk, eih, out)"
    and out: "aead_seal lib mem (cipher_new lib method ckey nonce) (header_2022_plain ts wr n) = (out, c1)"
    and wr: "w22_stream_ty wr = opposite ty" "request_salt_fits ty (w22_request_salt wr) (if ty = ClientStream then kind_salt_len method else 0)"
    and fresh: "fresh_timestamp now ts"
    and replay: "ty = ServerStream \<longrightarrow> fst (check_nonce_replay rlib (d22_ctx w) inst method nonce) = Ok ()"
  shows "\<exists>w' d1. accept_header_2022 lib k rlib now inst key (nonce @ eih @ out) w = (Ready (Ok (Some n)), w') \<and>
    d22_source w' = d22_source w \<and> r22_method (d22_reader w') = method \<and> r22_cipher (d22_reader w') = Some d1 \<and> R c1 d1 \<and>
    r22_salt (d22_reader w') = Some nonce \<and> (uk \<noteq> None \<longrightarrow> r22_user_key (d22_reader w') = uk) \<and>
    (ty = ClientStream \<longrightarrow> r22_request_salt (d22_reader w') = w22_request_salt wr)"
proof -
  from aead_seal_open [OF laws cipher_laws_new [OF laws] out] obtain tag d1 where
    dec: "cipher_decrypt lib (cipher_new lib method ckey nonce) out = (True, header_2022_plain ts wr n @ tag, d1)"
    and R: "R c1 d1" by blast
  have parse: "parse_header_2022 ty now (if ty = ClientStream then kind_salt_len method else 0)
      (header_2022_plain ts wr n @ tag) = Ok (w22_request_salt wr, n)"
    by (rule parse_header_written [OF fresh len(2) wr(2,1)])
  have rsl: "(case ty of ClientStream \<Rightarrow> kind_salt_len method | ServerStream \<Rightarrow> 0) =
      (if ty = ClientStream then kind_salt_len method else 0)" by (cases ty) simp_all
  have eih: "(ty = ServerStream \<and> method_support_eih k method \<and> um \<noteq> None) =
      (ty = ServerStream \<and> requires_eih k method um)" by (simp add: requires_eih_def)
  have rs: "ty = ClientStream \<Longrightarrow> \<exists>s. w22_request_salt wr = Some s" using wr(2) by (auto simp: request_salt_fits_def)
  obtain ctx' where ctx: "ty = ServerStream \<Longrightarrow> check_nonce_replay rlib (d22_ctx w) inst method nonce = (Ok (), ctx')"
    using replay by (metis prod.collapse)
  show ?thesis
    unfolding accept_header_2022_def Let_def w rsl eih
    using len hc dec parse ctx rs R w
    by (cases ty) (auto simp: split: option.splits)
qed

lemma poll_read_big:
  assumes "n \<le> length d" "0 < n" "clean_script (RdData d # es)"
  shows "\<exists>es'. poll_read n (RdData d # es) = (Ready (Ok (take n d)), es') \<and> clean_script es' \<and>
    script_bytes es' = drop n d @ script_bytes es \<and> script_pendings es' = script_pendings es"
  using assms by auto

lemma read_header_written:
  assumes src: "d22_source w = RdData hb # es" "clean_script (RdData hb # es)"
    and len: "header_2022_len k (r22_stream_ty (d22_reader w)) (r22_method (d22_reader w)) (r22_user_manager (d22_reader w)) = hl"
      "length header = hl" "hl \<le> length hb" "0 < hl"
    and bytes: "hb @ script_bytes es = header @ rst"
    and acc: "\<And>w1. d22_ctx w1 = d22_ctx w \<Longrightarrow>
      r22_method (d22_reader w1) = r22_method (d22_reader w) \<Longrightarrow> r22_stream_ty (d22_reader w1) = r22_stream_ty (d22_reader w) \<Longrightarrow>
      r22_user_manager (d22_reader w1) = r22_user_manager (d22_reader w) \<Longrightarrow>
      \<exists>w'. accept_header_2022 lib k rlib now inst key header w1 = (Ready (Ok (Some n)), w') \<and> d22_source w' = d22_source w1 \<and> P w'"
  shows "\<exists>w'. read_header_2022 lib k rlib now inst key w = (Ready (Ok (Some n)), w') \<and> P w' \<and>
    clean_script (d22_source w') \<and> script_bytes (d22_source w') = rst \<and> script_pendings (d22_source w') = script_pendings es"
proof -
  from poll_read_big [OF len(3,4) src(2)] obtain es' where p: "poll_read hl (RdData hb # es) = (Ready (Ok (take hl hb)), es')"
    "clean_script es'" "script_bytes es' = drop hl hb @ script_bytes es" "script_pendings es' = script_pendings es" by blast
  have h: "take hl hb = header" using bytes len(2,3) by (metis append_eq_conv_conj take_append diff_is_0_eq' take0 append_Nil2)
  have rst: "script_bytes es' = rst" using bytes len(2,3) p(3)
    by (metis append_eq_conv_conj diff_is_0_eq' drop0 drop_append)
  let ?w1 = "w\<lparr>d22_source := es', d22_reader := (d22_reader w)\<lparr>r22_buffer := header @ drop hl
      (r22_buffer (d22_reader w) @ replicate (hl - length (r22_buffer (d22_reader w))) 0)\<rparr>\<rparr>"
  from acc [of ?w1] obtain w' where w': "accept_header_2022 lib k rlib now inst key header ?w1 = (Ready (Ok (Some n)), w')"
    "d22_source w' = es'" "P w'" by auto
  have "header \<noteq> []" using len by auto
  then have "read_header_2022 lib k rlib now inst key w = accept_header_2022 lib k rlib now inst key header ?w1"
    using len(1,2) src(1) p(1) h by (simp add: read_header_2022_def Let_def del: poll_read.simps)
  with w' p rst show ?thesis by (intro exI [of _ w']) simp
qed

section \<open>A tunnel delivers\<close>

lemma read_run_2022_step:
  assumes "decrypt_step_2022 lib k rlib now inst n w = (None, w2)"
  shows "read_run_2022 lib k rlib now inst (n # ns) w = read_run_2022 lib k rlib now inst (n # ns) w2"
  using assms by (simp add: poll_read_2022.simps [of lib k rlib now inst n w])

lemma reader_2022_delivers:
  assumes laws: "cipher_laws lib method R" and tag: "0 < kind_tag_len method"
    and len: "length nonce = kind_salt_len method" "\<forall>b \<in> set (b # bs). length b \<le> MAX_CHUNK_SIZE"
    and r: "r22_state r = ReadHeader key" "r22_method r = method" "r22_stream_ty r = ty" "r22_user_manager r = um"
    and hc: "\<And>out. header_cipher lib k (ty = ServerStream \<and> requires_eih k method um) um method key nonce (eih @ out) =
      Ok (cipher_new lib method ckey nonce, uk, eih, out)"
    and eih: "length eih = (if ty = ServerStream \<and> requires_eih k method um then 16 else 0)"
    and wr: "w22_stream_ty wr = opposite ty" "request_salt_fits ty (w22_request_salt wr) (if ty = ClientStream then kind_salt_len method else 0)"
      "w22_cipher wr = cipher_new lib method ckey nonce" "w22_buffer wr = nonce @ eih"
    and fresh: "fresh_timestamp now ts"
    and replay: "ty = ServerStream \<longrightarrow> fst (check_nonce_replay rlib ctx inst method nonce) = Ok ()"
    and src: "clean_script (RdData hb # es)" "hb @ script_bytes es = wire_2022 lib mem ts wr b bs"
      "header_2022_len k ty method um \<le> length hb" and caps: "\<forall>n \<in> set caps. 0 < n"
  shows "\<exists>out rest. read_run_2022 lib k rlib now inst caps \<lparr>d22_reader = r, d22_source = RdData hb # es, d22_ctx = ctx\<rparr> =
      (out, Ok ()) \<and> concat (b # bs) = out @ rest \<and>
    (script_pendings es + length (concat (b # bs)) \<le> length caps \<longrightarrow> rest = [])"
proof (cases caps)
  case Nil
  then show ?thesis by auto
next
  case (Cons n ns)
  define w where "w = \<lparr>d22_reader = r, d22_source = RdData hb # es, d22_ctx = ctx\<rparr>"
  obtain a c1 where a: "aead_seal lib mem (cipher_new lib method ckey nonce) (header_2022_plain ts wr (length b)) = (a, c1)" by force
  obtain x c2 where x: "aead_seal lib mem c1 b = (x, c2)" by force
  let ?rst = "x @ fst (aead_chunks lib mem c2 bs)"
  have bytes: "hb @ script_bytes es = (nonce @ eih @ a) @ ?rst"
    using src(2) wr(3,4) a x by (simp add: wire_2022_def)
  have lb: "length b < 65536" using len(2) by (simp add: MAX_CHUNK_SIZE_def)
  have rsl: "(case w22_request_salt wr of None \<Rightarrow> 0 | Some s \<Rightarrow> length s) = (if ty = ClientStream then kind_salt_len method else 0)"
    using wr(2) by (cases ty) (auto simp: request_salt_fits_def)
  from aead_seal_open [OF laws cipher_laws_new [OF laws] a] have
    "length a = length (header_2022_plain ts wr (length b)) + kind_tag_len method" by blast
  also have "length (header_2022_plain ts wr (length b)) = 1 + 8 + (if ty = ClientStream then kind_salt_len method else 0) + 2"
    using rsl by (auto simp: header_2022_plain_def split: option.splits)
  finally have hl: "length (nonce @ eih @ a) = header_2022_len k ty method um"
    using len(1) eih by (cases ty) (auto simp: header_2022_len_def Let_def requires_eih_def)
  have acc: "\<exists>w'. accept_header_2022 lib k rlib now inst key (nonce @ eih @ a) w1 = (Ready (Ok (Some (length b))), w') \<and>
      d22_source w' = d22_source w1 \<and> (r22_method (d22_reader w') = method \<and>
        (\<exists>d1. r22_cipher (d22_reader w') = Some d1 \<and> R c1 d1))"
    if "d22_ctx w1 = d22_ctx w" "r22_method (d22_reader w1) = r22_method (d22_reader w)"
      "r22_stream_ty (d22_reader w1) = r22_stream_ty (d22_reader w)"
      "r22_user_manager (d22_reader w1) = r22_user_manager (d22_reader w)" for w1 :: "('a, 'e, 'f) rd_2022"
  proof -
    have w1: "r22_method (d22_reader w1) = method" "r22_stream_ty (d22_reader w1) = ty" "r22_user_manager (d22_reader w1) = um"
      "ty = ServerStream \<longrightarrow> fst (check_nonce_replay rlib (d22_ctx w1) inst method nonce) = Ok ()"
      using that r replay by (simp_all add: w_def)
    from accept_header_written [OF laws len(1) lb w1(1-3) hc a wr(1,2) fresh w1(4)] show ?thesis by blast
  qed
  have h0: "0 < header_2022_len k ty method um" by (simp add: header_2022_len_def Let_def)
  have src': "d22_source w = RdData hb # es" "header_2022_len k (r22_stream_ty (d22_reader w)) (r22_method (d22_reader w))
      (r22_user_manager (d22_reader w)) = header_2022_len k ty method um" using r by (simp_all add: w_def)
  from read_header_written [OF src'(1) src(1) src'(2) hl src(3) h0 bytes acc] obtain w' d1 where
    w': "read_header_2022 lib k rlib now inst key w = (Ready (Ok (Some (length b))), w')"
      "r22_method (d22_reader w') = method" "r22_cipher (d22_reader w') = Some d1" "R c1 d1"
      "clean_script (d22_source w')" "script_bytes (d22_source w') = ?rst" "script_pendings (d22_source w') = script_pendings es"
    by blast
  let ?w2 = "w'\<lparr>d22_reader := (d22_reader w')\<lparr>r22_buffer := [], r22_state := ReadChunkData (length b), r22_handshaked := True\<rparr>\<rparr>"
  have step: "decrypt_step_2022 lib k rlib now inst n w = (None, ?w2)"
    using r(1) w'(1) by (simp add: decrypt_step_2022_def w_def)
  have "reading_2022 lib mem method R ?w2 (concat (b # bs))"
    by (rule reading_2022_DataI [where ps = bs and p = b and R = R, OF _ _ w'(4) _ _ x])
       (use w' tag len(2) in \<open>simp_all add: base_2022_def\<close>)
  from read_run_2022_progress [OF laws this caps, where k = k and rlib = rlib and now = now and inst = inst]
  obtain out rest where o': "read_run_2022 lib k rlib now inst caps ?w2 = (out, Ok ())" "concat (b # bs) = out @ rest"
    "script_pendings (d22_source ?w2) + length (concat (b # bs)) \<le> length caps \<longrightarrow> rest = []" by blast
  have "script_pendings (d22_source ?w2) = script_pendings es" using w'(7) by simp
  note o = o'(1,2) o'(3) [unfolded this]
  have "read_run_2022 lib k rlib now inst caps w = (out, Ok ())"
    using o(1) unfolding Cons read_run_2022_step [OF step] .
  with o show ?thesis unfolding w_def by blast
qed

section \<open>What an accepted header was checked for\<close>

text \<open>
  The request header that the next read of a connection brings: its salt, the first bytes that are read, and the
  text under it, opened with the cipher of the key and the salt, or with the one of the user that the header names.
\<close>

definition request_header ::
    "('c, 'z) cipher_lib_scheme \<Rightarrow> ('d, 'y) tcp_2022_lib_scheme \<Rightarrow> bytes \<Rightarrow> ('c, 'b, 's) rd_2022
     \<Rightarrow> (bytes \<times> bytes) option" where
  "request_header lib k key w =
     (let r = d22_reader w; method = r22_method r; um = r22_user_manager r;
          n = header_2022_len k ServerStream method um
      in case fst (poll_read n (d22_source w)) of
           Ready (Ok hb) \<Rightarrow>
             let salt = take (kind_salt_len method) hb in
             if length hb \<noteq> n then None
             else (case header_cipher lib k (method_support_eih k method \<and> um \<noteq> None) um method key salt
                          (drop (kind_salt_len method) hb) of
                     Ok (cipher, _, _, chunk) \<Rightarrow>
                       let (ok, opened, _) = cipher_decrypt lib cipher chunk in if ok then Some (salt, opened) else None
                   | _ \<Rightarrow> None)
         | _ \<Rightarrow> None)"

lemma parse_header_2022_request:
  assumes "parse_header_2022 ServerStream now 0 data = Ok (rs, len)"
  shows "11 \<le> length data \<and> data ! 0 = 0 \<and> fresh_timestamp now (from_be (take 8 (drop 1 data))) \<and>
    len = unat (from_be (take 2 (drop 9 data)) :: u16)"
proof -
  have d: "11 \<le> length data" "take 1 data ! 0 = 0" "len = unat (from_be (take 2 (drop 9 data)) :: u16)"
      "\<not> u64_abs_diff now (from_be (take 8 (drop 1 data))) > of_nat SERVER_STREAM_TIMESTAMP_MAX_DIFF"
    using assms by (auto simp: parse_header_2022_def outcome_simps Let_def split: if_splits)
  then show ?thesis unfolding stream_diff_fresh by (cases data) simp_all
qed

lemma accept_header_2022_Ok:
  assumes "accept_header_2022 lib k rlib now inst key hb w = (Ready (Ok (Some n)), w')"
    and "r22_stream_ty (d22_reader w) = ServerStream"
  defines "method \<equiv> r22_method (d22_reader w)" and "um \<equiv> r22_user_manager (d22_reader w)"
  defines "salt \<equiv> take (kind_salt_len method) hb"
  shows "\<exists>c uk eih chunk pt c' rs.
    header_cipher lib k (method_support_eih k method \<and> um \<noteq> None) um method key salt
      (drop (kind_salt_len method) hb) = Ok (c, uk, eih, chunk) \<and> cipher_decrypt lib c chunk = (True, pt, c') \<and>
    parse_header_2022 ServerStream now 0 pt = Ok (rs, n) \<and>
    check_nonce_replay rlib (d22_ctx w) inst method salt = (Ok (), d22_ctx w') \<and> r22_salt (d22_reader w') = Some salt"
  using assms(1,2) unfolding accept_header_2022_def Let_def salt_def method_def um_def
  by (auto split: outcome.splits prod.splits if_splits)

lemma read_header_2022_Ok:
  assumes "read_header_2022 lib k rlib now inst key w = (Ready (Ok (Some n)), w')"
    and ty: "r22_stream_ty (d22_reader w) = ServerStream"
  shows "\<exists>salt pt. request_header lib k key w = Some (salt, pt) \<and>
    length salt = kind_salt_len (r22_method (d22_reader w)) \<and> r22_salt (d22_reader w') = Some salt \<and>
    check_nonce_replay rlib (d22_ctx w) inst (r22_method (d22_reader w)) salt = (Ok (), d22_ctx w') \<and>
    11 \<le> length pt \<and> pt ! 0 = 0 \<and> fresh_timestamp now (from_be (take 8 (drop 1 pt))) \<and>
    n = unat (from_be (take 2 (drop 9 pt)) :: u16)"
proof -
  let ?n = "header_2022_len k ServerStream (r22_method (d22_reader w)) (r22_user_manager (d22_reader w))"
  obtain p es where p: "poll_read ?n (d22_source w) = (p, es)" by force
  from assms p obtain hb where h: "p = Ready (Ok hb)" "hb \<noteq> []" "length hb = ?n"
    by (cases p; cases "case p of Ready r \<Rightarrow> r | Pending \<Rightarrow> Panic") (auto simp: read_header_2022_def Let_def split: if_splits)
  with assms p have "accept_header_2022 lib k rlib now inst key hb
      (w\<lparr>d22_source := es, d22_reader := (d22_reader w)\<lparr>r22_buffer := hb @ drop (length hb) (r22_buffer (d22_reader w))\<rparr>\<rparr>) =
      (Ready (Ok (Some n)), w')"
    by (simp add: read_header_2022_def Let_def split: if_splits)
  from accept_header_2022_Ok [OF this] ty obtain c uk eih chunk pt c' rs where
    a: "header_cipher lib k (method_support_eih k (r22_method (d22_reader w)) \<and> r22_user_manager (d22_reader w) \<noteq> None)
        (r22_user_manager (d22_reader w)) (r22_method (d22_reader w)) key
        (take (kind_salt_len (r22_method (d22_reader w))) hb) (drop (kind_salt_len (r22_method (d22_reader w))) hb) =
        Ok (c, uk, eih, chunk)" "cipher_decrypt lib c chunk = (True, pt, c')"
      "parse_header_2022 ServerStream now 0 pt = Ok (rs, n)"
      "check_nonce_replay rlib (d22_ctx w) inst (r22_method (d22_reader w))
        (take (kind_salt_len (r22_method (d22_reader w))) hb) = (Ok (), d22_ctx w')"
      "r22_salt (d22_reader w') = Some (take (kind_salt_len (r22_method (d22_reader w))) hb)" by auto
  have "request_header lib k key w = Some (take (kind_salt_len (r22_method (d22_reader w))) hb, pt)"
    using p h a(1,2) by (simp add: request_header_def Let_def)
  moreover have "kind_salt_len (r22_method (d22_reader w)) \<le> length hb"
    using h(3) by (simp add: header_2022_len_def Let_def)
  ultimately show ?thesis using parse_header_2022_request [OF a(3)] a(4,5) by auto
qed

text \<open>A header that arrives in pieces is refused: it has to be read in one call.\<close>

lemma read_header_2022_fragmented:
  assumes "d22_source w = RdData hb # es" "hb \<noteq> []"
    and "length hb < header_2022_len k (r22_stream_ty (d22_reader w)) (r22_method (d22_reader w)) (r22_user_manager (d22_reader w))"
  shows "\<exists>w' m. read_header_2022 lib k rlib now inst key w = (Ready (Err (Header2022TooShort m (length hb))), w')"
  using assms by (simp add: read_header_2022_def Let_def)

section \<open>A concrete tunnel\<close>

definition sample_tunnel_kind :: cipher_kind where
  "sample_tunnel_kind = \<lparr>kind_category = CatAead2022, kind_is_aead_2022 = True, kind_key_len = 16,
     kind_salt_len = 2, kind_iv_len = 0, kind_tag_len = 1\<rparr>"

definition mask_tunnel_lib :: "unit tcp_2022_lib" where
  "mask_tunnel_lib = \<lparr>kind_2022 = (\<lambda>m. Some Aes128Gcm), blake3_hash = (\<lambda>b. take 32 (b @ replicate 32 0)),
     udp_cipher_new = (\<lambda>m k s. ()), udp_encrypt = (\<lambda>c n m. mask_bytes m), udp_decrypt = (\<lambda>c n m. (True, mask_bytes m)),
     aes_encrypt = (\<lambda>v k b. mask_bytes b), aes_decrypt = (\<lambda>v k b. mask_bytes b),
     chacha_nonce_size = (\<lambda>v. 24), kind_nonce_len = (\<lambda>m. 24),
     blake3_derive_key = (\<lambda>c m. take 32 (m @ replicate 32 0))\<rparr>"

lemma mask_tunnel_laws: "tcp_2022_laws mask_tunnel_lib"
  by (simp add: tcp_2022_laws_def mask_tunnel_lib_def min_def)

definition sample_tunnel_users :: user_manager where
  "sample_tunnel_users = [take 16 (blake3_hash mask_tunnel_lib [2, 2]) \<mapsto> \<lparr>user_name = ''u'', user_key = [2, 2],
     identity_hash = take 16 (blake3_hash mask_tunnel_lib [2, 2])\<rparr>]"

definition sample_tunnel_writer :: "(nat \<times> nat) writer_2022" where
  "sample_tunnel_writer = \<lparr>w22_stream_ty = ClientStream, w22_cipher = cipher_new counter_lib sample_tunnel_kind [2, 2] [9, 8],
     w22_method = sample_tunnel_kind,
     w22_buffer = [9, 8] @ eih_wire mask_tunnel_lib sample_tunnel_kind (Some sample_tunnel_users) [1] [9, 8] [2, 2],
     w22_state = AssembleHeader, w22_salt = [9, 8], w22_request_salt = None\<rparr>"

lemma sample_tunnel_auth:
  "requires_eih mask_tunnel_lib sample_tunnel_kind (Some sample_tunnel_users)"
  "authenticates mask_tunnel_lib sample_tunnel_kind (Some sample_tunnel_users) [1] [[1]] [2, 2]"
  by (simp_all add: requires_eih_def authenticates_def method_support_eih_def mask_tunnel_lib_def
      sample_tunnel_users_def get_user_by_hash_def)

lemma sample_tunnel_writer_new:
  "writer_2022_with_identity counter_lib mask_tunnel_lib ClientStream sample_tunnel_kind [2, 2] [9, 8] [[1]] =
    (Ok sample_tunnel_writer :: (_, unit) outcome)"
proof -
  obtain w where w: "writer_2022_with_identity counter_lib mask_tunnel_lib ClientStream sample_tunnel_kind [2, 2] [9, 8] [[1]] =
      (Ok w :: (_, unit) outcome)"
    by (simp add: writer_2022_with_identity_def make_tunnel_eih_def mask_tunnel_lib_def udp_2022_lib.defs
        aes_init_def method_support_eih_def rust_assert_def aes_key_len_def Let_def)
  from writer_2022_buffer [OF mask_tunnel_laws sample_tunnel_auth(2) this] w show ?thesis
    by (simp add: sample_tunnel_writer_def)
qed

text \<open>A sink that takes everything.\<close>

lemma drain_buffer_all:
  "sink_script s = [] \<Longrightarrow> \<exists>pos' s'. drain_buffer buf pos s = (Ready (Ok ()), pos', s') \<and> sink_script s' = []"
  by (cases "pos < length buf") (simp_all add: drain_buffer.simps [of buf] poll_write_def)

lemma poll_write_2022_all:
  assumes "sink_script s = []"
  shows "\<exists>n w' s'. poll_write_2022 lib mem now buf (w, s) = (Ready (Ok n), w', s') \<and> sink_script s' = []"
proof -
  define w1 where "w1 = (case w22_state w of
        AssembleHeader \<Rightarrow> assemble_2022 lib mem (header_2022_plain now w (length (take MAX_CHUNK_SIZE buf))) (take MAX_CHUNK_SIZE buf) w
      | AssembleChunk \<Rightarrow> assemble_2022 lib mem (to_be 2 (of_nat (length (take MAX_CHUNK_SIZE buf)) :: u16)) (take MAX_CHUNK_SIZE buf) w
      | WritingChunk _ \<Rightarrow> w)"
  obtain pos' s' where d: "drain_buffer (w22_buffer w1) (case w22_state w1 of WritingChunk pos \<Rightarrow> pos | _ \<Rightarrow> 0) s =
      (Ready (Ok ()), pos', s')" "sink_script s' = []" using drain_buffer_all [OF assms] by blast
  have b: "(if length buf > MAX_CHUNK_SIZE then take MAX_CHUNK_SIZE buf else buf) = take MAX_CHUNK_SIZE buf" by simp
  show ?thesis
    using d unfolding poll_write_2022_def b Let_def prod.case w1_def [symmetric] by simp
qed

lemma write_seq_2022_all:
  "sink_script s = [] \<Longrightarrow> \<exists>w' s'. write_seq_2022 lib mem now bufs (w, s) = (Ready (Ok ()), w', s')"
proof (induction bufs arbitrary: w s)
  case (Cons b bs)
  obtain n w' s' where p: "poll_write_2022 lib mem now b (w, s) = (Ready (Ok n), w', s')" "sink_script s' = []"
    using poll_write_2022_all [OF Cons.prems] by blast
  from Cons.IH [OF p(2), of w'] p(1) Cons.prems show ?case by simp
qed simp

lemma sample_tunnel_sent:
  "\<exists>w' s'. write_seq_2022 counter_lib (\<lambda>_. 0) 1000 [[5, 6], [7]] (sample_tunnel_writer, \<lparr>sink_bytes = [], sink_script = []\<rparr>) =
    (Ready (Ok ()), w', s') \<and> sink_bytes s' = wire_2022 counter_lib (\<lambda>_. 0) 1000 sample_tunnel_writer [5, 6] [[7]]"
proof -
  obtain w' s' where r: "write_seq_2022 counter_lib (\<lambda>_. 0) 1000 [[5, 6], [7]]
      (sample_tunnel_writer, \<lparr>sink_bytes = [], sink_script = []\<rparr>) = (Ready (Ok ()), w', s')"
    using write_seq_2022_all [of "\<lparr>sink_bytes = [], sink_script = []\<rparr>"] by fastforce
  have "w22_state sample_tunnel_writer = AssembleHeader" by (simp add: sample_tunnel_writer_def)
  from write_seq_2022_wire [OF r this] r show ?thesis by (simp add: MAX_CHUNK_SIZE_def)
qed

lemma sample_wire_length:
  "header_2022_len mask_tunnel_lib ServerStream sample_tunnel_kind (Some sample_tunnel_users) \<le>
    length (wire_2022 counter_lib (\<lambda>_. 0) 1000 sample_tunnel_writer [5, 6] [[7]])"
  by (simp add: wire_2022_def header_2022_len_def Let_def sample_tunnel_writer_def aead_seal_def counter_lib_def
      sample_tunnel_kind_def header_2022_plain_def length_eih_wire [OF mask_tunnel_laws]
      requires_eih_def)

section \<open>Properties\<close>

text \<open>C4: What a client writes is what the server reads, whatever the wire does after the header: when the keys
  of both ends belong together - one key, or an identity key and the key of a registered user - the header
  arrives in one read, the clocks differ by at most 30 seconds and the salt is not refused, the server's
  reader never fails, returns a prefix of what was written, and all of it after as many polls as there are
  pauses and bytes.\<close>

theorem tcp_2022_request_delivers:
  assumes "cipher_laws lib method R" "tcp_2022_laws k" "authenticates k method um skey ids ckey"
    and "0 < kind_tag_len method" "length nonce = kind_salt_len method" "0 < kind_salt_len method"
    and "writer_2022_with_identity lib k ClientStream method ckey nonce ids = Ok w"
    and sent: "write_seq_2022 lib mem ts (b # bs) (w, \<lparr>sink_bytes = [], sink_script = ss\<rparr>) = (Ready (Ok ()), w', s')"
    and "\<forall>b \<in> set (b # bs). length b \<le> MAX_CHUNK_SIZE" "fresh_timestamp now ts"
    and "fst (check_nonce_replay rlib ctx inst method nonce) = Ok ()"
    and "clean_script (RdData hb # es)" "hb @ script_bytes es = sink_bytes s'"
    and "header_2022_len k ServerStream method um \<le> length hb" "\<forall>n \<in> set caps. 0 < n"
  shows "\<exists>out rest. read_run_2022 lib k rlib now inst caps
      \<lparr>d22_reader = reader_2022_with_user_manager lib ServerStream method skey um, d22_source = RdData hb # es, d22_ctx = ctx\<rparr> =
      (out, Ok ()) \<and> concat (b # bs) = out @ rest \<and>
    (script_pendings es + length (concat (b # bs)) \<le> length caps \<longrightarrow> rest = [])"
proof -
  have w: "w = \<lparr>w22_stream_ty = ClientStream, w22_cipher = cipher_new lib method ckey nonce, w22_method = method,
      w22_buffer = nonce @ eih_wire k method um skey nonce ckey, w22_state = AssembleHeader, w22_salt = nonce,
      w22_request_salt = None\<rparr>" by (rule writer_2022_buffer [OF assms(2,3,7)])
  from write_seq_2022_wire [OF sent] assms(9) have "sink_bytes s' = wire_2022 lib mem ts w b bs" by (simp add: w)
  with assms(13) have src: "hb @ script_bytes es = wire_2022 lib mem ts w b bs" by simp
  show ?thesis
    by (rule reader_2022_delivers [where ty = ServerStream and wr = w and ckey = ckey and key = skey
          and eih = "eih_wire k method um skey nonce ckey", OF assms(1,4,5,9) _ _ _ _ _ _ _ _ _ _ _ _ assms(12) src assms(14,15)])
       (use assms header_cipher_written [OF assms(2,3)] length_eih_wire [OF assms(2)] in
         \<open>simp_all add: w reader_2022_with_user_manager_def request_salt_fits_def\<close>)
qed

theorem tcp_2022_request_delivers_witness:
  "\<exists>out rest. read_run_2022 counter_lib mask_tunnel_lib exact_lib 1010 7 [8, 8, 8]
      \<lparr>d22_reader = reader_2022_with_user_manager counter_lib ServerStream sample_tunnel_kind [1] (Some sample_tunnel_users),
       d22_source = [RdData (wire_2022 counter_lib (\<lambda>_. 0) 1000 sample_tunnel_writer [5, 6] [[7]])],
       d22_ctx = context_new exact_lib Server\<rparr> = (out, Ok ()) \<and> concat [[5, 6], [7]] = out @ rest \<and>
    (script_pendings [] + length (concat [[5, 6], [7 :: u8]]) \<le> length [8, 8, 8 :: nat] \<longrightarrow> rest = [])"
proof -
  obtain w' s' where s: "write_seq_2022 counter_lib (\<lambda>_. 0) 1000 [[5, 6], [7]]
      (sample_tunnel_writer, \<lparr>sink_bytes = [], sink_script = []\<rparr>) = (Ready (Ok ()), w', s')"
      "sink_bytes s' = wire_2022 counter_lib (\<lambda>_. 0) 1000 sample_tunnel_writer [5, 6] [[7]]"
    using sample_tunnel_sent by blast
  have ne: "wire_2022 counter_lib (\<lambda>_. 0) 1000 sample_tunnel_writer [5, 6] [[7]] \<noteq> []"
    using sample_wire_length by (auto simp: header_2022_len_def Let_def)
  have n: "fst (check_nonce_replay exact_lib (context_new exact_lib Server) 7 sample_tunnel_kind [9, 8]) = Ok ()"
    by (simp add: check_nonce_replay_def protector_check_nonce_and_set_def context_new_def replay_protector_new_def
        exact_lib_def sample_tunnel_kind_def)
  show ?thesis
    by (rule tcp_2022_request_delivers [OF counter_laws mask_tunnel_laws sample_tunnel_auth(2) _ _ _ sample_tunnel_writer_new s(1)
          _ _ n _ _ sample_wire_length])
       (use ne s in \<open>simp_all add: sample_tunnel_kind_def MAX_CHUNK_SIZE_def fresh_timestamp_def\<close>)
qed

text \<open>C23: What a server writes back is what the client reads: once the server's writer has the key of the client's
  user and the salt of the request, and the header arrives in one read and in time, the client's reader never
  fails and returns the server's bytes in order, all of them after as many polls as there are pauses and bytes.\<close>

theorem tcp_2022_response_delivers:
  assumes "cipher_laws lib method R" "0 < kind_tag_len method" "length snonce = kind_salt_len method"
    and "length cnonce = kind_salt_len method" "0 < kind_salt_len method"
    and w0: "writer_2022_with_identity lib k ServerStream method skey snonce [] = Ok w0"
    and sent: "write_seq_2022 lib mem ts (b # bs)
      (set_request_salt cnonce (reset_cipher_with_key lib ckey w0), \<lparr>sink_bytes = [], sink_script = ss\<rparr>) = (Ready (Ok ()), w', s')"
    and "\<forall>b \<in> set (b # bs). length b \<le> MAX_CHUNK_SIZE" "fresh_timestamp now ts"
    and "clean_script (RdData hb # es)" "hb @ script_bytes es = sink_bytes s'"
    and "header_2022_len k ClientStream method None \<le> length hb" "\<forall>n \<in> set caps. 0 < n"
  shows "\<exists>out rest. read_run_2022 lib k rlib now inst caps
      \<lparr>d22_reader = reader_2022_new lib ClientStream method ckey, d22_source = RdData hb # es, d22_ctx = ctx\<rparr> =
      (out, Ok ()) \<and> concat (b # bs) = out @ rest \<and>
    (script_pendings es + length (concat (b # bs)) \<le> length caps \<longrightarrow> rest = [])"
proof -
  define w where "w = set_request_salt cnonce (reset_cipher_with_key lib ckey w0)"
  have w: "w22_stream_ty w = ServerStream" "w22_request_salt w = Some cnonce" "w22_cipher w = cipher_new lib method ckey snonce"
    "w22_buffer w = snonce @ []" "w22_state w = AssembleHeader"
    using w0 by (auto simp: w_def set_request_salt_def reset_cipher_with_key_def writer_2022_with_identity_def)
  from write_seq_2022_wire [OF sent [folded w_def] w(5) assms(8)] assms(11)
  have src: "hb @ script_bytes es = wire_2022 lib mem ts w b bs" by simp
  show ?thesis
    by (rule reader_2022_delivers [where ty = ClientStream and wr = w and ckey = ckey and key = ckey and um = None
          and uk = None and eih = "[]", OF assms(1,2,3,8) _ _ _ _ _ _ _ _ w(3,4) _ _ assms(10) src assms(12,13)])
       (use assms(3-5,9) w in \<open>simp_all add: reader_2022_new_def reader_2022_with_user_manager_def
          request_salt_fits_def header_cipher_def\<close>)
qed

theorem tcp_2022_response_delivers_witness:
  "\<exists>hb out rest. read_run_2022 counter_lib mask_tunnel_lib exact_lib 1010 7 [8, 8]
      \<lparr>d22_reader = reader_2022_new counter_lib ClientStream sample_tunnel_kind [2, 2],
       d22_source = [RdData hb], d22_ctx = context_new exact_lib Local\<rparr> = (out, Ok ()) \<and> concat [[5, 6]] = out @ rest \<and>
    (script_pendings [] + length (concat [[5, 6 :: u8]]) \<le> length [8, 8 :: nat] \<longrightarrow> rest = [])"
proof -
  obtain w0 where w0: "writer_2022_with_identity counter_lib mask_tunnel_lib ServerStream sample_tunnel_kind [1] [4, 4] [] =
      (Ok w0 :: (_, unit) outcome)" by (simp add: writer_2022_with_identity_def)
  define w where "w = set_request_salt [9, 8] (reset_cipher_with_key counter_lib [2, 2] w0)"
  have w: "w22_state w = AssembleHeader" "w22_stream_ty w = ServerStream" "w22_request_salt w = Some [9, 8]"
    "w22_cipher w = cipher_new counter_lib sample_tunnel_kind [2, 2] [4, 4]" "w22_buffer w = [4, 4]"
    using w0 by (auto simp: w_def set_request_salt_def reset_cipher_with_key_def writer_2022_with_identity_def)
  obtain w' s' where s: "write_seq_2022 counter_lib (\<lambda>_. 0) 1000 [[5, 6]] (w, \<lparr>sink_bytes = [], sink_script = []\<rparr>) =
      (Ready (Ok ()), w', s')" using write_seq_2022_all [of "\<lparr>sink_bytes = [], sink_script = []\<rparr>"] by fastforce
  from write_seq_2022_wire [OF s w(1)] have b: "sink_bytes s' = wire_2022 counter_lib (\<lambda>_. 0) 1000 w [5, 6] []"
    by (simp add: MAX_CHUNK_SIZE_def)
  have l: "header_2022_len mask_tunnel_lib ClientStream sample_tunnel_kind None \<le> length (sink_bytes s')"
    using w by (simp add: b wire_2022_def header_2022_len_def Let_def aead_seal_def counter_lib_def sample_tunnel_kind_def
        header_2022_plain_def)
  then have ne: "sink_bytes s' \<noteq> []" by (auto simp: header_2022_len_def Let_def)
  show ?thesis
    by (rule exI, rule tcp_2022_response_delivers [OF counter_laws _ _ _ _ w0 s [unfolded w_def] _ _ _ _ l])
       (use ne in \<open>simp_all add: sample_tunnel_kind_def MAX_CHUNK_SIZE_def fresh_timestamp_def\<close>)
qed

text \<open>C8: Two requests that the server accepts within a minute, in whatever context the program has by then, carry
  different salts, whatever their keys, the clocks and the salts checked in between. Each accepted request is the one
  whose header was read from its connection: opened under its salt, it has the type of a client, a timestamp at most
  30 seconds away from the clock it met, and the length that is returned.\<close>

theorem tcp_2022_accepts_once:
  assumes "lru_laws rlib ttl until" "feat_aead_2022 rlib" "kind_is_aead_2022 method" "0 < kind_salt_len method"
    and "r22_stream_ty (d22_reader w1) = ServerStream" "r22_method (d22_reader w1) = method"
    and "r22_stream_ty (d22_reader w2) = ServerStream" "r22_method (d22_reader w2) = method"
    and "context_reached rlib (d22_ctx w1)"
    and "read_header_2022 lib k rlib now1 t1 key1 w1 = (Ready (Ok (Some n1)), w1')"
    and "\<forall>(t, n) \<in> set rs. t1 \<le> t \<and> t < t1 + 60" "t2 < t1 + 60"
    and "d22_ctx w2 = check_run rlib method (d22_ctx w1') rs"
    and "read_header_2022 lib k rlib now2 t2 key2 w2 = (Ready (Ok (Some n2)), w2')"
  shows "\<exists>salt1 pt1 salt2 pt2.
    request_header lib k key1 w1 = Some (salt1, pt1) \<and> request_header lib k key2 w2 = Some (salt2, pt2) \<and>
    salt1 \<noteq> salt2 \<and> r22_salt (d22_reader w1') = Some salt1 \<and> r22_salt (d22_reader w2') = Some salt2 \<and>
    pt1 ! 0 = 0 \<and> fresh_timestamp now1 (from_be (take 8 (drop 1 pt1))) \<and> n1 = unat (from_be (take 2 (drop 9 pt1)) :: u16) \<and>
    pt2 ! 0 = 0 \<and> fresh_timestamp now2 (from_be (take 8 (drop 1 pt2))) \<and> n2 = unat (from_be (take 2 (drop 9 pt2)) :: u16)"
proof -
  from read_header_2022_Ok [OF assms(10,5)] obtain salt1 pt1 where
    r1: "request_header lib k key1 w1 = Some (salt1, pt1)" "r22_salt (d22_reader w1') = Some salt1" "length salt1 = kind_salt_len method"
      "check_nonce_replay rlib (d22_ctx w1) t1 method salt1 = (Ok (), d22_ctx w1')"
      "pt1 ! 0 = 0" "fresh_timestamp now1 (from_be (take 8 (drop 1 pt1)))" "n1 = unat (from_be (take 2 (drop 9 pt1)) :: u16)"
    unfolding assms(6) by blast
  from read_header_2022_Ok [OF assms(14,7)] obtain salt2 pt2 where
    r2: "request_header lib k key2 w2 = Some (salt2, pt2)" "r22_salt (d22_reader w2') = Some salt2"
      "check_nonce_replay rlib (d22_ctx w2) t2 method salt2 = (Ok (), d22_ctx w2')"
      "pt2 ! 0 = 0" "fresh_timestamp now2 (from_be (take 8 (drop 1 pt2)))" "n2 = unat (from_be (take 2 (drop 9 pt2)) :: u16)"
    unfolding assms(8) by blast
  have ne: "salt1 \<noteq> []" using r1(3) assms(4) by auto
  let ?c = "check_run rlib method (d22_ctx w1') rs"
  have "fst (check_nonce_replay rlib (set_replay_attack_policy (replay_policy ?c) ?c) t2 method salt1) = Err OtherError"
    by (rule context_refuses_2022 [OF assms(1-3) ne assms(9) r1(4) assms(11,12)])
  then have "fst (check_nonce_replay rlib (d22_ctx w2) t2 method salt1) = Err OtherError"
    by (simp add: assms(13) set_replay_attack_policy_def)
  with r2(3) have "salt1 \<noteq> salt2" by auto
  with r1 r2 show ?thesis by blast
qed

definition sample_server_rd :: "bytes \<Rightarrow> ('b, 's) ss_context \<Rightarrow> (nat \<times> nat, 'b, 's) rd_2022" where
  "sample_server_rd salt ctx = \<lparr>d22_reader = reader_2022_new counter_lib ServerStream sample_tunnel_kind [1],
     d22_source = [RdData (salt @ [0, 0, 0, 0, 0, 0, 0, 0, 100, 0, 3, 0])], d22_ctx = ctx\<rparr>"

definition sample_header_read :: "bytes \<Rightarrow> nat \<Rightarrow> (bytes list, exact_cache) ss_context
    \<Rightarrow> (nat option, tcp_2022_error) poll \<times> (nat \<times> nat, bytes list, exact_cache) rd_2022" where
  "sample_header_read salt t ctx = read_header_2022 counter_lib mask_tunnel_lib exact_lib 110 t [1] (sample_server_rd salt ctx)"

lemma sample_header_read_Ok:
  assumes "fst (check_nonce_replay exact_lib ctx t sample_tunnel_kind [a, b]) = Ok ()"
  shows "fst (sample_header_read [a, b] t ctx) = Ready (Ok (Some 3)) \<and>
    d22_ctx (snd (sample_header_read [a, b] t ctx)) = snd (check_nonce_replay exact_lib ctx t sample_tunnel_kind [a, b])"
proof -
  obtain ctx' where c: "check_nonce_replay exact_lib ctx t sample_tunnel_kind [a, b] = (Ok (), ctx')"
    using assms by (metis prod.collapse)
  have p: "parse_header_2022 ServerStream 110 0 ([0, 0, 0, 0, 0, 0, 0, 0, 100, 0, 3, 0]) = Ok (None, 3)"
    by (simp add: parse_header_2022_def cur_get_def cur_rest_def cur_adv_def from_be_def u64_abs_diff_def
        SERVER_STREAM_TIMESTAMP_MAX_DIFF_def)
  show ?thesis
    using c p
    by (simp add: sample_header_read_def sample_server_rd_def read_header_2022_def accept_header_2022_def header_2022_len_def
      reader_2022_new_def reader_2022_with_user_manager_def header_cipher_def counter_lib_def Let_def sample_tunnel_kind_def)
qed

theorem tcp_2022_accepts_once_witness:
  "let w1 = snd (sample_header_read [9, 8] 7 (context_new exact_lib Server));
       c2 = check_run exact_lib sample_tunnel_kind (d22_ctx w1) [(20, [3, 3])];
       w2 = snd (sample_header_read [7, 7] 50 c2) in
   \<exists>salt1 pt1 salt2 pt2.
     request_header counter_lib mask_tunnel_lib [1] (sample_server_rd [9, 8] (context_new exact_lib Server)) = Some (salt1, pt1) \<and>
     request_header counter_lib mask_tunnel_lib [1] (sample_server_rd [7, 7] c2) = Some (salt2, pt2) \<and>
     salt1 \<noteq> salt2 \<and> r22_salt (d22_reader w1) = Some salt1 \<and> r22_salt (d22_reader w2) = Some salt2 \<and>
     pt1 ! 0 = 0 \<and> fresh_timestamp 110 (from_be (take 8 (drop 1 pt1))) \<and> 3 = unat (from_be (take 2 (drop 9 pt1)) :: u16) \<and>
     pt2 ! 0 = 0 \<and> fresh_timestamp 110 (from_be (take 8 (drop 1 pt2))) \<and> 3 = unat (from_be (take 2 (drop 9 pt2)) :: u16)"
proof -
  define w1 where "w1 = snd (sample_header_read [9, 8] 7 (context_new exact_lib Server))"
  define c2 where "c2 = check_run exact_lib sample_tunnel_kind (d22_ctx w1) [(20, [3, 3])]"
  define w2 where "w2 = snd (sample_header_read [7, 7] 50 c2)"
  have n1: "fst (check_nonce_replay exact_lib (context_new exact_lib Server) 7 sample_tunnel_kind [9, 8]) = Ok ()"
    by (simp add: check_nonce_replay_def protector_check_nonce_and_set_def context_new_def
        replay_protector_new_def exact_lib_def sample_tunnel_kind_def)
  note h1 = sample_header_read_Ok [OF n1]
  then have r1: "read_header_2022 counter_lib mask_tunnel_lib exact_lib 110 7 [1]
      (sample_server_rd [9, 8] (context_new exact_lib Server)) = (Ready (Ok (Some 3)), w1)"
    by (metis prod.collapse sample_header_read_def w1_def)
  have "d22_ctx w1 = snd (check_nonce_replay exact_lib (context_new exact_lib Server) 7 sample_tunnel_kind [9, 8])"
    using h1 by (simp add: w1_def)
  then have n2: "fst (check_nonce_replay exact_lib c2 50 sample_tunnel_kind [7, 7]) = Ok ()"
    unfolding c2_def by (simp add: check_nonce_replay_def protector_check_nonce_and_set_def context_new_def
        replay_protector_new_def exact_lib_def sample_tunnel_kind_def)
  note h2 = sample_header_read_Ok [OF n2]
  then have r2: "read_header_2022 counter_lib mask_tunnel_lib exact_lib 110 50 [1] (sample_server_rd [7, 7] c2) =
      (Ready (Ok (Some 3)), w2)"
    by (metis prod.collapse sample_header_read_def w2_def)
  have "context_reached exact_lib (d22_ctx (sample_server_rd [9, 8] (context_new exact_lib Server)))"
    by (simp add: sample_server_rd_def reached_new)
  from tcp_2022_accepts_once [OF exact_lru_laws _ _ _ _ _ _ _ this r1 _ _ _ r2, of sample_tunnel_kind "[(20, [3, 3])]"]
  show ?thesis unfolding Let_def w1_def [symmetric] c2_def [symmetric] w2_def [symmetric]
    by (simp add: sample_server_rd_def reader_2022_new_def reader_2022_with_user_manager_def sample_tunnel_kind_def
        exact_lib_def c2_def del: check_run.simps)
qed

end
