(* ===== verification/Sub_Domains.thy ===== *)
theory Sub_Domains
  imports Net_Text "HOL-Library.Finite_Map" "HOL-Library.Sublist"
begin

text \<open>
  The set of domains with their subdomains of the access lists,
  \<open>crates/shadowsocks-service/src/acl/sub_domains_tree.rs\<close>: a trie over the labels of a name from the
  last to the first, cut below every inserted domain. It is specified as the set of names that are
  an inserted domain or end in one.
\<close>

section \<open>ASCII names\<close>

definition ascii_lower :: "char \<Rightarrow> char" where
  "ascii_lower c = (let n = of_char c :: nat in if 65 \<le> n \<and> n \<le> 90 then char_of (n + 32) else c)"

definition to_ascii_lowercase :: "string \<Rightarrow> string" where
  "to_ascii_lowercase s = map ascii_lower s"

definition is_ascii :: "string \<Rightarrow> bool" where
  "is_ascii s \<longleftrightarrow> list_all (\<lambda>c. (of_char c :: nat) < 128) s"

definition trim_end_matches :: "char \<Rightarrow> string \<Rightarrow> string" where
  "trim_end_matches c s = rev (dropWhile (\<lambda>x. x = c) (rev s))"

section \<open>The interface of a set of names\<close>

text \<open>
  A set of rules that matches a name when it \<open>covers\<close> it: what is inserted is matched from then on,
  and nothing else.
\<close>

locale name_set =
  fixes empty_set :: 's and insert_name :: "string \<Rightarrow> 's \<Rightarrow> 's" and matches :: "'s \<Rightarrow> string \<Rightarrow> bool"
    and covers :: "string \<Rightarrow> string \<Rightarrow> bool"
  assumes matches_empty: "\<not> matches empty_set h"
    and matches_insert: "matches (insert_name d s) h \<longleftrightarrow> covers d h \<or> matches s h"
begin

lemma matches_fold: "matches (fold insert_name ds s) h \<longleftrightarrow> (\<exists>d \<in> set ds. covers d h) \<or> matches s h"
  by (induction ds arbitrary: s) (auto simp: matches_insert)

lemma matches_list: "matches (fold insert_name ds empty_set) h \<longleftrightarrow> (\<exists>d \<in> set ds. covers d h)"
  by (simp add: matches_fold matches_empty)

lemma matches_order: "set ds = set es \<Longrightarrow> matches (fold insert_name ds s) h = matches (fold insert_name es s) h"
  by (simp add: matches_fold)

end

section \<open>The tree\<close>

datatype domain_part = DomainPart (included: bool) (children: "(string, domain_part) fmap")

type_synonym sub_domains_tree = "(string, domain_part) fmap"

definition domain_part_new :: domain_part where
  "domain_part_new = DomainPart False fmempty"

definition sub_domains_new :: sub_domains_tree where
  "sub_domains_new = fmempty"

fun insert_parts :: "string list \<Rightarrow> sub_domains_tree \<Rightarrow> sub_domains_tree" where
  "insert_parts [] current_map = current_map"
| "insert_parts (part # parts) current_map =
     (let key = to_ascii_lowercase part;
          entry = (case fmlookup current_map key of Some e \<Rightarrow> e | None \<Rightarrow> domain_part_new)
      in if included entry then current_map
         else if parts = [] then fmupd key (DomainPart True fmempty) current_map
         else fmupd key (DomainPart False (insert_parts parts (children entry))) current_map)"

definition sub_domains_insert :: "string \<Rightarrow> sub_domains_tree \<Rightarrow> sub_domains_tree" where
  "sub_domains_insert v t = insert_parts (rev (split_on CHR ''.'' v)) t"

fun contains_parts :: "sub_domains_tree \<Rightarrow> string list \<Rightarrow> bool" where
  "contains_parts current_map [] = False"
| "contains_parts current_map (part # parts) =
     (case fmlookup current_map part of
        Some el \<Rightarrow> if included el then True else contains_parts (children el) parts
      | None \<Rightarrow> False)"

definition sub_domains_contains :: "sub_domains_tree \<Rightarrow> string \<Rightarrow> bool" where
  "sub_domains_contains t v = contains_parts t (rev (split_on CHR ''.'' v))"

definition sub_domains_is_empty :: "sub_domains_tree \<Rightarrow> bool" where
  "sub_domains_is_empty t \<longleftrightarrow> t = fmempty"

section \<open>What it contains\<close>

lemma contains_parts_empty [simp]: "\<not> contains_parts fmempty xs"
  by (cases xs) simp_all

lemma contains_insert_parts:
  "ps \<noteq> [] \<Longrightarrow>
   contains_parts (insert_parts ps m) xs \<longleftrightarrow> prefix (map to_ascii_lowercase ps) xs \<or> contains_parts m xs"
proof (induction ps arbitrary: m xs)
  case (Cons p ps)
  let ?k = "to_ascii_lowercase p"
  show ?case
  proof (cases xs)
    case (Cons y ys)
    show ?thesis
    proof (cases "fmlookup m ?k")
      case None
      then show ?thesis using Cons Cons.IH
        by (cases "ps = []") (auto simp: domain_part_new_def Let_def)
    next
      case (Some e)
      then show ?thesis using Cons Cons.IH
        by (cases "ps = []") (auto simp: Let_def)
    qed
  qed auto
qed simp

text \<open>Names as labels: the labels of a domain come last exactly in its subdomains.\<close>

lemma join_with_append:
  "ps \<noteq> [] \<Longrightarrow> qs \<noteq> [] \<Longrightarrow> join_with c (ps @ qs) = join_with c ps @ c # join_with c qs"
proof (induction ps rule: list_nonempty_induct)
  case (single p)
  then show ?case by (cases qs) simp_all
next
  case (cons p ps)
  then show ?case by (cases ps) simp_all
qed

lemma join_with_cons: "ps \<noteq> [] \<Longrightarrow> join_with c (p # ps) = p @ c # join_with c ps"
  by (cases ps) simp_all

lemma join_with_cons_char: "join_with c ((x # p) # ps) = x # join_with c (p # ps)"
  by (cases ps) simp_all

lemma join_split: "join_with c (split_on c s) = s"
proof (induction s)
  case (Cons x s)
  obtain p ps where s: "split_on c s = p # ps" by (meson neq_Nil_conv split_on_ne)
  show ?case
  proof (cases "x = c")
    case True
    then have "split_on c (x # s) = [] # split_on c s" by simp
    then show ?thesis using Cons True by (simp only: join_with_cons [OF split_on_ne] append_Nil)
  next
    case False
    then show ?thesis using Cons s by (simp add: join_with_cons_char del: join_with.simps)
  qed
qed simp

lemma split_on_concat: "split_on c (p @ c # s) = split_on c p @ split_on c s"
  by (induction p) (auto split: list.splits)

lemma map_split_on:
  assumes "\<And>x. f x = c \<longleftrightarrow> x = c"
  shows "map (map f) (split_on c s) = split_on c (map f s)"
proof (induction s)
  case (Cons x s)
  obtain p ps where s: "split_on c s = p # ps" by (meson neq_Nil_conv split_on_ne)
  show ?case
  proof (cases "x = c")
    case True
    then have "f x = c" using assms by blast
    then show ?thesis using Cons.IH True by simp
  next
    case False
    then have "f x \<noteq> c" using assms by blast
    then show ?thesis using Cons.IH [symmetric] False s by simp
  qed
qed simp

lemma prefix_rev_split:
  "prefix (rev (split_on c d)) (rev (split_on c h)) \<longleftrightarrow> h = d \<or> (\<exists>p. h = p @ c # d)"
proof
  assume "prefix (rev (split_on c d)) (rev (split_on c h))"
  then obtain zs where "rev (split_on c h) = rev (split_on c d) @ zs" by (auto simp: prefix_def)
  then have s: "split_on c h = rev zs @ split_on c d" by (metis rev_append rev_rev_ident)
  show "h = d \<or> (\<exists>p. h = p @ c # d)"
  proof (cases "zs = []")
    case True
    then have "split_on c h = split_on c d" using s by simp
    then show ?thesis by (metis join_split)
  next
    case False
    then have "h = join_with c (rev zs) @ c # d"
      using join_with_append [of "rev zs" "split_on c d" c] by (metis s join_split split_on_ne rev_is_Nil_conv)
    then show ?thesis by blast
  qed
next
  assume "h = d \<or> (\<exists>p. h = p @ c # d)"
  then show "prefix (rev (split_on c d)) (rev (split_on c h))" by (auto simp: split_on_concat)
qed

lemma ascii_lower_dot: "ascii_lower x = CHR ''.'' \<longleftrightarrow> x = CHR ''.''"
proof (cases "65 \<le> (of_char x :: nat) \<and> (of_char x :: nat) \<le> 90")
  case True
  then have "(of_char (ascii_lower x) :: nat) = of_char x + 32" by (simp add: ascii_lower_def)
  then have "ascii_lower x \<noteq> CHR ''.''" "x \<noteq> CHR ''.''" using True by auto
  then show ?thesis by simp
next
  case False
  then have "ascii_lower x = x" by (auto simp: ascii_lower_def Let_def)
  then show ?thesis by simp
qed

text \<open>A domain covers itself and the names that end in a dot and the domain, in lower case.\<close>

definition covers_domain :: "string \<Rightarrow> string \<Rightarrow> bool" where
  "covers_domain d h \<longleftrightarrow> h = to_ascii_lowercase d \<or> suffix (CHR ''.'' # to_ascii_lowercase d) h"

lemma sub_domains_contains_insert:
  "sub_domains_contains (sub_domains_insert d t) h \<longleftrightarrow> covers_domain d h \<or> sub_domains_contains t h"
proof -
  have "map to_ascii_lowercase (rev (split_on CHR ''.'' d)) = rev (split_on CHR ''.'' (to_ascii_lowercase d))"
    using map_split_on [of ascii_lower "CHR ''.''" d, OF ascii_lower_dot]
    by (simp add: rev_map [symmetric] to_ascii_lowercase_def [abs_def])
  then show ?thesis
    by (simp add: sub_domains_contains_def sub_domains_insert_def contains_insert_parts prefix_rev_split
        covers_domain_def suffix_def)
qed

interpretation sdt: name_set sub_domains_new sub_domains_insert sub_domains_contains covers_domain
proof
  show "\<not> sub_domains_contains sub_domains_new h" for h by (simp add: sub_domains_contains_def sub_domains_new_def)
qed (rule sub_domains_contains_insert)

text \<open>A set of exact names is the other implementation.\<close>

definition exact_insert :: "string \<Rightarrow> string set \<Rightarrow> string set" where
  "exact_insert d s = insert (to_ascii_lowercase d) s"

interpretation ens: name_set "{}" exact_insert "\<lambda>s h. h \<in> s" "\<lambda>d h. h = to_ascii_lowercase d"
  by unfold_locales (auto simp: exact_insert_def)

section \<open>Properties\<close>

text \<open>A tree built from any domains in any order contains exactly the names that are one of them or a
  subdomain of one, whatever was cut from the tree on the way.\<close>

theorem sub_domains_tree_contains:
  "sub_domains_contains (fold sub_domains_insert ds sub_domains_new) h \<longleftrightarrow>
    (\<exists>d \<in> set ds. h = to_ascii_lowercase d \<or> suffix (CHR ''.'' # to_ascii_lowercase d) h)"
  using sdt.matches_list [of ds h] by (simp add: covers_domain_def)

end
