(* ===== verification/Acl_Regex.thy ===== *)
theory Acl_Regex
  imports Sub_Domains
begin

text \<open>
  The pattern by which the access lists recognise regular expressions that only name a domain,
  \<open>TREE_SET_RULE_EQUIV\<close> of \<open>crates/shadowsocks-service/src/acl/mod.rs\<close>. The pattern is a fixed
  literal, kept as the syntax tree of its regular expression; the recogniser that the model of the
  access lists runs is shown to accept and to capture what that expression does.
\<close>

section \<open>The regular expression\<close>

datatype regex_ast =
    Class "char \<Rightarrow> bool"
  | Text string
  | Seq regex_ast regex_ast
  | Alt regex_ast regex_ast
  | Maybe regex_ast
  | Plus regex_ast

inductive regex_matches :: "regex_ast \<Rightarrow> string \<Rightarrow> bool" where
  class_char: "P c \<Longrightarrow> regex_matches (Class P) [c]"
| text_itself: "regex_matches (Text s) s"
| seq_both: "regex_matches r s \<Longrightarrow> regex_matches q t \<Longrightarrow> regex_matches (Seq r q) (s @ t)"
| alt_left: "regex_matches r s \<Longrightarrow> regex_matches (Alt r q) s"
| alt_right: "regex_matches q s \<Longrightarrow> regex_matches (Alt r q) s"
| maybe_not: "regex_matches (Maybe r) []"
| maybe_once: "regex_matches r s \<Longrightarrow> regex_matches (Maybe r) s"
| plus_once: "regex_matches r s \<Longrightarrow> regex_matches (Plus r) s"
| plus_more: "regex_matches r s \<Longrightarrow> regex_matches (Plus r) t \<Longrightarrow> regex_matches (Plus r) (s @ t)"

inductive_simps regex_matches_simps [simp]:
  "regex_matches (Class P) s" "regex_matches (Text t) s" "regex_matches (Seq r q) s"
  "regex_matches (Alt r q) s" "regex_matches (Maybe r) s"

text \<open>The character class \<open>[\w-]\<close> without Unicode, and the escaped dot.\<close>

definition word_or_dash :: "char \<Rightarrow> bool" where
  "word_or_dash c \<longleftrightarrow> (let n = of_char c :: nat in
     48 \<le> n \<and> n \<le> 57 \<or> 65 \<le> n \<and> n \<le> 90 \<or> 97 \<le> n \<and> n \<le> 122 \<or> n = 95 \<or> n = 45)"

definition backslash :: char where "backslash = CHR 0x5C"

definition escaped_dot :: string where "escaped_dot = [backslash, CHR ''.'']"

definition tree_prefix_regex :: regex_ast where
  "tree_prefix_regex =
     Alt (Seq (Text ''('') (Seq (Maybe (Text ''?:'')) (Text (''^|'' @ escaped_dot @ '')''))))
         (Seq (Maybe (Seq (Text ''^.'') (Alt (Text ''+'') (Text ''*'')))) (Text escaped_dot))"

definition rule_body_regex :: regex_ast where
  "rule_body_regex = Plus (Seq (Plus (Class word_or_dash)) (Maybe (Text escaped_dot)))"

definition rule_end_regex :: regex_ast where
  "rule_end_regex = Maybe (Text ''$'')"

text \<open>The two capture groups of the whole pattern, which is anchored at both ends.\<close>

definition captures_tree :: "string \<Rightarrow> string \<Rightarrow> bool" where
  "captures_tree rule b \<longleftrightarrow> (\<exists>p d. rule = p @ b @ d \<and> regex_matches tree_prefix_regex p \<and>
     regex_matches rule_body_regex b \<and> regex_matches rule_end_regex d)"

definition captures_set :: "string \<Rightarrow> string \<Rightarrow> bool" where
  "captures_set rule b \<longleftrightarrow> (\<exists>p d. rule = p @ b @ d \<and> regex_matches (Text ''^'') p \<and>
     regex_matches rule_body_regex b \<and> regex_matches rule_end_regex d)"

section \<open>The recogniser\<close>

fun body_rest :: "bool \<Rightarrow> string \<Rightarrow> bool" where
  "body_rest after_word [] = True"
| "body_rest after_word (c # s) =
     (if word_or_dash c then body_rest True s
      else after_word \<and> c = backslash \<and> (case s of [] \<Rightarrow> False | d # s' \<Rightarrow> d = CHR ''.'' \<and> body_rest False s'))"

definition rule_body :: "string \<Rightarrow> bool" where
  "rule_body s \<longleftrightarrow> s \<noteq> [] \<and> body_rest False s"

definition strip_dollar :: "string \<Rightarrow> string" where
  "strip_dollar s = (if s \<noteq> [] \<and> last s = CHR ''$'' then butlast s else s)"

definition tree_prefixes :: "string list" where
  "tree_prefixes = [''(^|'' @ escaped_dot @ '')'', ''(?:^|'' @ escaped_dot @ '')'',
     ''^.+'' @ escaped_dot, ''^.*'' @ escaped_dot, escaped_dot]"

definition body_after :: "string \<Rightarrow> string \<Rightarrow> bool" where
  "body_after s p \<longleftrightarrow> take (length p) s = p \<and> rule_body (drop (length p) s)"

definition tree_set_rule_equiv :: "string \<Rightarrow> (string + string) option" where
  "tree_set_rule_equiv rule =
     (let s = strip_dollar rule in
      case List.find (body_after s) tree_prefixes of
        Some p \<Rightarrow> Some (Inl (drop (length p) s))
      | None \<Rightarrow> if body_after s ''^'' then Some (Inr (drop 1 s)) else None)"

section \<open>Bodies\<close>

lemma not_word [simp]: "\<not> word_or_dash backslash" "\<not> word_or_dash CHR ''.''" "\<not> word_or_dash CHR ''$''"
  by (simp_all add: word_or_dash_def backslash_def)

lemma not_backslash [simp]: "backslash \<noteq> CHR ''$''" "backslash \<noteq> CHR ''^''" "backslash \<noteq> CHR ''(''"
  "CHR ''$'' \<noteq> backslash"
  by (simp_all add: backslash_def)

lemma matches_words: "regex_matches (Plus (Class P)) w \<longleftrightarrow> w \<noteq> [] \<and> list_all P w"
proof
  show "regex_matches (Plus (Class P)) w \<Longrightarrow> w \<noteq> [] \<and> list_all P w"
    by (induction "Plus (Class P)" w rule: regex_matches.induct) auto
next
  have "w \<noteq> [] \<Longrightarrow> list_all P w \<Longrightarrow> regex_matches (Plus (Class P)) w"
  proof (induction w rule: list_nonempty_induct)
    case (single c)
    then show ?case by (auto intro: plus_once)
  next
    case (cons c w)
    then have "regex_matches (Plus (Class P)) ([c] @ w)" by (intro plus_more) auto
    then show ?case by simp
  qed
  then show "w \<noteq> [] \<and> list_all P w \<Longrightarrow> regex_matches (Plus (Class P)) w" by blast
qed

lemma body_rest_words: "w \<noteq> [] \<Longrightarrow> list_all word_or_dash w \<Longrightarrow> body_rest a (w @ s) = body_rest True s"
proof (induction w arbitrary: a)
  case (Cons c w)
  then show ?case by (cases "w = []") auto
qed simp

lemma body_rest_mono: "body_rest False s \<Longrightarrow> body_rest True s"
  by (cases s) (auto split: if_splits)

lemma matches_body_rest: "regex_matches rule_body_regex b \<Longrightarrow> rule_body b"
  unfolding rule_body_regex_def
proof (induction "Plus (Seq (Plus (Class word_or_dash)) (Maybe (Text escaped_dot)))" b
    rule: regex_matches.induct)
  case (plus_once s)
  then show ?case by (auto simp: rule_body_def matches_words body_rest_words escaped_dot_def
        dest: body_rest_words [of _ False "[]"])
next
  case (plus_more s t)
  then show ?case by (auto simp: rule_body_def matches_words body_rest_words escaped_dot_def body_rest_mono)
qed

text \<open>A body that ends in a word can be continued by another word character.\<close>

definition open_body :: "string \<Rightarrow> bool" where
  "open_body u \<longleftrightarrow> (\<exists>v w. u = v @ w \<and> (v = [] \<or> regex_matches rule_body_regex v) \<and> w \<noteq> [] \<and> list_all word_or_dash w)"

lemma plus_append: "regex_matches (Plus r) s \<Longrightarrow> regex_matches (Plus r) t \<Longrightarrow> regex_matches (Plus r) (s @ t)"
  by (induction "Plus r" s rule: regex_matches.induct) (auto intro: plus_more)

lemma body_append:
  assumes "v = [] \<or> regex_matches rule_body_regex v" "w \<noteq> []" "list_all word_or_dash w" "x = [] \<or> x = escaped_dot"
  shows "regex_matches rule_body_regex (v @ w @ x)"
proof -
  have "regex_matches (Seq (Plus (Class word_or_dash)) (Maybe (Text escaped_dot))) (w @ x)"
    using assms by (auto simp: matches_words)
  then have "regex_matches rule_body_regex (w @ x)" unfolding rule_body_regex_def by (rule plus_once)
  then show ?thesis using assms(1) plus_append unfolding rule_body_regex_def by auto
qed

lemma open_body_body: "open_body u \<Longrightarrow> x = [] \<or> x = escaped_dot \<Longrightarrow> regex_matches rule_body_regex (u @ x)"
  unfolding open_body_def using body_append by (metis append_assoc)

lemma open_body_word:
  assumes "open_body u \<or> u = [] \<or> regex_matches rule_body_regex u" "word_or_dash c"
  shows "open_body (u @ [c])"
proof (cases "open_body u")
  case True
  then obtain v w where "u = v @ w" "v = [] \<or> regex_matches rule_body_regex v" "w \<noteq> []" "list_all word_or_dash w"
    unfolding open_body_def by blast
  then have "u @ [c] = v @ (w @ [c]) \<and> (v = [] \<or> regex_matches rule_body_regex v) \<and> w @ [c] \<noteq> [] \<and>
      list_all word_or_dash (w @ [c])" using assms(2) by simp
  then show ?thesis unfolding open_body_def by blast
next
  case False
  then have "u = [] \<or> regex_matches rule_body_regex u" using assms(1) by blast
  then have "u @ [c] = u @ [c] \<and> (u = [] \<or> regex_matches rule_body_regex u) \<and> [c] \<noteq> [] \<and> list_all word_or_dash [c]"
    using assms(2) by simp
  then show ?thesis unfolding open_body_def by blast
qed

lemma body_rest_matches:
  "body_rest a s \<Longrightarrow> (if a then open_body u else u = [] \<or> regex_matches rule_body_regex u) \<Longrightarrow> u @ s \<noteq> [] \<Longrightarrow>
   regex_matches rule_body_regex (u @ s)"
proof (induction a s arbitrary: u rule: body_rest.induct)
  case (1 a)
  then show ?case using open_body_body [of u "[]"] by (auto split: if_splits)
next
  case (2 a c s)
  show ?case
  proof (cases "word_or_dash c")
    case True
    then have "open_body (u @ [c])" using 2(4) open_body_word by (auto split: if_splits)
    then show ?thesis using 2(1) [OF True, of "u @ [c]"] 2(3) True by simp
  next
    case False
    then obtain s' where s: "s = CHR ''.'' # s'" "a" "c = backslash" "body_rest False s'"
      using 2(3) by (auto split: list.splits)
    then have "regex_matches rule_body_regex (u @ escaped_dot)" using 2(4) open_body_body by auto
    then show ?thesis using 2(2) [OF False, of "CHR ''.''" s' "u @ escaped_dot"] s by (simp add: escaped_dot_def)
  qed
qed

lemma matches_body: "regex_matches rule_body_regex b \<longleftrightarrow> rule_body b"
  using matches_body_rest body_rest_matches [of False b "[]"] by (auto simp: rule_body_def)

section \<open>The recogniser is the expression\<close>

lemma body_rest_no_dollar: "body_rest a s \<Longrightarrow> CHR ''$'' \<notin> set s"
proof (induction a s rule: body_rest.induct)
  case (2 a c s)
  then show ?case by (cases s) (auto split: if_splits)
qed simp

lemma matches_tree_prefix: "regex_matches tree_prefix_regex p \<longleftrightarrow> p \<in> set tree_prefixes"
  by (auto simp: tree_prefix_regex_def tree_prefixes_def)

lemma strip_dollar_body:
  assumes "rule_body b"
  shows "strip_dollar rule = p @ b \<longleftrightarrow> (\<exists>d. rule = p @ b @ d \<and> regex_matches rule_end_regex d)"
proof -
  have b: "b \<noteq> []" "last b \<noteq> CHR ''$''"
    using assms body_rest_no_dollar [of False b] unfolding rule_body_def by (blast, metis last_in_set)
  show ?thesis
  proof
    assume s: "strip_dollar rule = p @ b"
    show "\<exists>d. rule = p @ b @ d \<and> regex_matches rule_end_regex d"
    proof (cases "rule \<noteq> [] \<and> last rule = CHR ''$''")
      case True
      then have "rule = p @ b @ ''$''" using s append_butlast_last_id [of rule] by (simp add: strip_dollar_def)
      then show ?thesis by (auto simp: rule_end_regex_def)
    next
      case False
      then have "rule = p @ b @ []" using s by (auto simp: strip_dollar_def split: if_splits)
      then show ?thesis by (auto simp: rule_end_regex_def simp del: append_Nil2)
    qed
  next
    assume "\<exists>d. rule = p @ b @ d \<and> regex_matches rule_end_regex d"
    then have "rule = p @ b \<or> rule = p @ b @ ''$''" by (auto simp: rule_end_regex_def)
    then show "strip_dollar rule = p @ b" using b by (auto simp: strip_dollar_def butlast_append)
  qed
qed

lemma body_after_iff: "body_after s p \<longleftrightarrow> (\<exists>b. s = p @ b \<and> rule_body b)"
  unfolding body_after_def by (metis append_eq_conv_conj append_take_drop_id)

lemma captures_tree_iff:
  "captures_tree rule b \<longleftrightarrow> rule_body b \<and> (\<exists>p \<in> set tree_prefixes. strip_dollar rule = p @ b)"
  unfolding captures_tree_def matches_tree_prefix matches_body Bex_def by (metis strip_dollar_body)

lemma captures_set_iff: "captures_set rule b \<longleftrightarrow> rule_body b \<and> strip_dollar rule = ''^'' @ b"
  unfolding captures_set_def matches_body using strip_dollar_body [of b rule "''^''"] by auto

lemma body_start: "rule_body (c # s) \<Longrightarrow> word_or_dash c"
  by (auto simp: rule_body_def split: if_splits)

lemma prefixes_comparable:
  "list_all (\<lambda>p. list_all (\<lambda>q. prefix p q \<longrightarrow> p = q \<or> p = ''^'' \<and> take 2 q = ''^.'') (''^'' # tree_prefixes)) (''^'' # tree_prefixes)"
  by code_simp

lemma prefix_disjoint_aux:
  assumes "prefix p q" "p @ b = q @ b'" "rule_body b"
    and "p \<in> set (''^'' # tree_prefixes)" "q \<in> set (''^'' # tree_prefixes)"
  shows "p = q"
proof (rule ccontr)
  assume "p \<noteq> q"
  then have p: "p = ''^''" "take 2 q = ''^.''" using assms(1,4,5) prefixes_comparable by (simp_all add: list_all_iff) blast+
  then obtain r where "q = ''^.'' @ r" by (metis append_take_drop_id)
  with p(1) assms(2) have "b = CHR ''.'' # r @ b'" by simp
  with assms(3) show False using body_start by fastforce
qed

lemma prefixes_disjoint:
  assumes "p @ b = q @ b'" "rule_body b" "rule_body b'"
    and "p \<in> set (''^'' # tree_prefixes)" "q \<in> set (''^'' # tree_prefixes)"
  shows "p = q"
proof -
  from assms(1) have "prefix p q \<or> prefix q p" by (metis prefixI prefix_same_cases)
  then show ?thesis
    using prefix_disjoint_aux [of p q b b'] prefix_disjoint_aux [of q p b' b] assms by metis
qed

lemma tree_set_rule_equiv_group:
  "(tree_set_rule_equiv rule = Some (Inl b)) = captures_tree rule b"
  "(tree_set_rule_equiv rule = Some (Inr b)) = captures_set rule b"
proof -
  have "(tree_set_rule_equiv rule = Some (Inl b)) = captures_tree rule b \<and>
    (tree_set_rule_equiv rule = Some (Inr b)) = captures_set rule b"
  proof (cases "List.find (body_after (strip_dollar rule)) tree_prefixes")
    case None
    then have no: "\<not> captures_tree rule c" for c
      by (auto simp: find_None_iff captures_tree_iff body_after_iff)
    show ?thesis
      using None no by (auto simp: tree_set_rule_equiv_def captures_set_iff body_after_iff Let_def)
  next
    case (Some p)
    then obtain c where p: "p \<in> set tree_prefixes" and c: "strip_dollar rule = p @ c" "rule_body c"
      by (auto simp: find_Some_iff body_after_iff)
    have "captures_tree rule b \<longleftrightarrow> b = c"
      using c p prefixes_disjoint [of p c _ b] by (auto simp: captures_tree_iff)
    moreover have "\<not> captures_set rule b"
      using c p prefixes_disjoint [of p c "''^''" b] by (auto simp: captures_set_iff tree_prefixes_def escaped_dot_def)
    ultimately show ?thesis using Some c by (auto simp: tree_set_rule_equiv_def)
  qed
  then show "(tree_set_rule_equiv rule = Some (Inl b)) = captures_tree rule b"
    "(tree_set_rule_equiv rule = Some (Inr b)) = captures_set rule b" by blast+
qed

text \<open>C29: The recogniser of rules that only name a domain captures what the regular expression of the source
  captures in its first group, for a domain with its subdomains, and in its second, for a domain alone.\<close>

theorem tree_set_rule_equiv_captures:
  "(tree_set_rule_equiv rule = Some (Inl b)) = captures_tree rule b \<and>
   (tree_set_rule_equiv rule = Some (Inr b)) = captures_set rule b"
  by (simp add: tree_set_rule_equiv_group)

end
