(* ===== verification/Acl.thy ===== *)
theory Acl
  imports Socks5 Acl_Regex
begin

text \<open>
  Access lists, \<open>crates/shadowsocks-service/src/acl/mod.rs\<close>: the rules of one section, their
  construction line by line from a file, and the decisions taken from them. Sets of networks, regular
  expressions, the IDNA conversion and the resolver are parameters. Loading is shown to give the
  decisions that the lines of the file, read as a list of rules under section headers, describe.
\<close>

section \<open>Third-party code\<close>

text \<open>The crates \<open>ipnet\<close>, \<open>iprange\<close>, \<open>regex\<close> and \<open>idna\<close>.\<close>

record ('r4, 'r6, 'n4, 'n6, 're) acl_lib =
  range4_new :: 'r4
  range4_add :: "'n4 \<Rightarrow> 'r4 \<Rightarrow> 'r4"
  range4_simplify :: "'r4 \<Rightarrow> 'r4"
  range4_contains :: "'r4 \<Rightarrow> ipv4_addr \<Rightarrow> bool"
  range4_is_empty :: "'r4 \<Rightarrow> bool"
  range6_new :: 'r6
  range6_add :: "'n6 \<Rightarrow> 'r6 \<Rightarrow> 'r6"
  range6_simplify :: "'r6 \<Rightarrow> 'r6"
  range6_contains :: "'r6 \<Rightarrow> ipv6_addr \<Rightarrow> bool"
  range6_is_empty :: "'r6 \<Rightarrow> bool"
  ip_net_from_str :: "string \<Rightarrow> ('n4 + 'n6) option"
  net_of_ipv4 :: "ipv4_addr \<Rightarrow> 'n4"
  net_of_ipv6 :: "ipv6_addr \<Rightarrow> 'n6"
  regex_set_new :: "string list \<Rightarrow> 're option"
  regex_set_is_match :: "'re \<Rightarrow> string \<Rightarrow> bool"
  regex_set_is_empty :: "'re \<Rightarrow> bool"
  domain_to_ascii :: "string \<Rightarrow> string option"

text \<open>
  What they document, for the addresses \<open>in4 n\<close> and \<open>in6 n\<close> of a network and the hosts \<open>rx r\<close> that a
  regular expression matches: a set of networks contains the addresses of the networks added, which
  merging does not change, and a set of expressions matches what one of them matches.
\<close>

definition range_laws :: "('r4, 'r6, 'n4, 'n6, 're, 'z) acl_lib_scheme
    \<Rightarrow> ('n4 \<Rightarrow> ipv4_addr \<Rightarrow> bool) \<Rightarrow> ('n6 \<Rightarrow> ipv6_addr \<Rightarrow> bool) \<Rightarrow> bool" where
  "range_laws lib in4 in6 \<longleftrightarrow>
     (\<forall>a. \<not> range4_contains lib (range4_new lib) a) \<and>
     (\<forall>n r a. range4_contains lib (range4_add lib n r) a \<longleftrightarrow> in4 n a \<or> range4_contains lib r a) \<and>
     (\<forall>r a. range4_contains lib (range4_simplify lib r) a \<longleftrightarrow> range4_contains lib r a) \<and>
     (\<forall>a. \<not> range6_contains lib (range6_new lib) a) \<and>
     (\<forall>n r a. range6_contains lib (range6_add lib n r) a \<longleftrightarrow> in6 n a \<or> range6_contains lib r a) \<and>
     (\<forall>r a. range6_contains lib (range6_simplify lib r) a \<longleftrightarrow> range6_contains lib r a) \<and>
     (\<forall>a b. in4 (net_of_ipv4 lib a) b \<longleftrightarrow> b = a) \<and> (\<forall>a b. in6 (net_of_ipv6 lib a) b \<longleftrightarrow> b = a)"

definition regex_laws :: "('r4, 'r6, 'n4, 'n6, 're, 'z) acl_lib_scheme \<Rightarrow> (string \<Rightarrow> string \<Rightarrow> bool) \<Rightarrow> bool" where
  "regex_laws lib rx \<longleftrightarrow>
     (\<forall>rs re h. regex_set_new lib rs = Some re \<longrightarrow> (regex_set_is_match lib re h \<longleftrightarrow> (\<exists>r \<in> set rs. rx r h)))"

section \<open>Rules\<close>

datatype acl_mode = BlackList | WhiteList

record ('r4, 'r6, 're) rules =
  ipv4 :: 'r4
  ipv6 :: 'r6
  rule_regex :: 're
  rule_set :: "string set"
  rule_tree :: sub_domains_tree

definition rules_new :: "('r4, 'r6, 'n4, 'n6, 're, 'z) acl_lib_scheme \<Rightarrow> 'r4 \<Rightarrow> 'r6 \<Rightarrow> 're \<Rightarrow> string set
    \<Rightarrow> sub_domains_tree \<Rightarrow> ('r4, 'r6, 're) rules" where
  "rules_new lib v4 v6 re st tr =
     \<lparr>ipv4 = range4_simplify lib v4, ipv6 = range6_simplify lib v6, rule_regex = re, rule_set = st, rule_tree = tr\<rparr>"

fun check_ip_matched :: "('r4, 'r6, 'n4, 'n6, 're, 'z) acl_lib_scheme \<Rightarrow> ('r4, 'r6, 're) rules \<Rightarrow> ip_addr \<Rightarrow> bool" where
  "check_ip_matched lib r (IpV4 v4) =
     (if range4_contains lib (ipv4 r) v4 then True
      else range6_contains lib (ipv6 r) (to_ipv6_mapped v4))"
| "check_ip_matched lib r (IpV6 v6) =
     (if range6_contains lib (ipv6 r) v6 then True
      else (case to_ipv4_mapped v6 of
              Some mapped_ipv4 \<Rightarrow> range4_contains lib (ipv4 r) mapped_ipv4
            | None \<Rightarrow> False))"

definition check_host_matched ::
    "('r4, 'r6, 'n4, 'n6, 're, 'z) acl_lib_scheme \<Rightarrow> ('r4, 'r6, 're) rules \<Rightarrow> string \<Rightarrow> bool" where
  "check_host_matched lib r host =
     (let host = trim_end_matches CHR ''.'' host in
      host \<in> rule_set r \<or> sub_domains_contains (rule_tree r) host \<or> regex_set_is_match lib (rule_regex r) host)"

fun check_address_matched ::
    "('r4, 'r6, 'n4, 'n6, 're, 'z) acl_lib_scheme \<Rightarrow> ('r4, 'r6, 're) rules \<Rightarrow> address \<Rightarrow> bool" where
  "check_address_matched lib r (SocketAddress saddr) = check_ip_matched lib r (sock_ip saddr)"
| "check_address_matched lib r (DomainNameAddress domain port) = check_host_matched lib r domain"

definition rules_is_ip_empty :: "('r4, 'r6, 'n4, 'n6, 're, 'z) acl_lib_scheme \<Rightarrow> ('r4, 'r6, 're) rules \<Rightarrow> bool" where
  "rules_is_ip_empty lib r \<longleftrightarrow> range4_is_empty lib (ipv4 r) \<and> range6_is_empty lib (ipv6 r)"

definition rules_is_host_empty :: "('r4, 'r6, 'n4, 'n6, 're, 'z) acl_lib_scheme \<Rightarrow> ('r4, 'r6, 're) rules \<Rightarrow> bool" where
  "rules_is_host_empty lib r \<longleftrightarrow>
     Set.is_empty (rule_set r) \<and> sub_domains_is_empty (rule_tree r) \<and> regex_set_is_empty lib (rule_regex r)"

section \<open>Rules while they are read\<close>

record ('r4, 'r6) parsing_rules =
  pr_name :: string
  pr_ipv4 :: 'r4
  pr_ipv6 :: 'r6
  rules_regex :: "string list"
  rules_set :: "string set"
  rules_tree :: sub_domains_tree

definition parsing_rules_new ::
    "('r4, 'r6, 'n4, 'n6, 're, 'z) acl_lib_scheme \<Rightarrow> string \<Rightarrow> ('r4, 'r6) parsing_rules" where
  "parsing_rules_new lib name =
     \<lparr>pr_name = name, pr_ipv4 = range4_new lib, pr_ipv6 = range6_new lib, rules_regex = [],
      rules_set = {}, rules_tree = sub_domains_new\<rparr>"

definition add_ipv4_rule :: "('r4, 'r6, 'n4, 'n6, 're, 'z) acl_lib_scheme \<Rightarrow> 'n4
    \<Rightarrow> ('r4, 'r6) parsing_rules \<Rightarrow> ('r4, 'r6) parsing_rules" where
  "add_ipv4_rule lib rule p = p\<lparr>pr_ipv4 := range4_add lib rule (pr_ipv4 p)\<rparr>"

definition add_ipv6_rule :: "('r4, 'r6, 'n4, 'n6, 're, 'z) acl_lib_scheme \<Rightarrow> 'n6
    \<Rightarrow> ('r4, 'r6) parsing_rules \<Rightarrow> ('r4, 'r6) parsing_rules" where
  "add_ipv6_rule lib rule p = p\<lparr>pr_ipv6 := range6_add lib rule (pr_ipv6 p)\<rparr>"

definition check_is_ascii :: "string \<Rightarrow> (string, io_kind) outcome" where
  "check_is_ascii s = (if is_ascii s then Ok (trim_end_matches CHR ''.'' s) else Err OtherError)"

definition add_set_rule :: "string \<Rightarrow> ('r4, 'r6) parsing_rules \<Rightarrow> (('r4, 'r6) parsing_rules, io_kind) outcome" where
  "add_set_rule rule p =
     and_then (check_is_ascii rule) (\<lambda>s. Ok (p\<lparr>rules_set := insert (to_ascii_lowercase s) (rules_set p)\<rparr>))"

definition add_tree_rule :: "string \<Rightarrow> ('r4, 'r6) parsing_rules \<Rightarrow> (('r4, 'r6) parsing_rules, io_kind) outcome" where
  "add_tree_rule rule p =
     and_then (check_is_ascii rule) (\<lambda>s. Ok (p\<lparr>rules_tree := sub_domains_insert s (rules_tree p)\<rparr>))"

text \<open>\<open>rule.replace("\\.", ".")\<close>.\<close>

fun unescape_dots :: "string \<Rightarrow> string" where
  "unescape_dots (c # d # s) =
     (if c = backslash \<and> d = CHR ''.'' then CHR ''.'' # unescape_dots s else c # unescape_dots (d # s))"
| "unescape_dots s = s"

definition add_regex_rule :: "string \<Rightarrow> ('r4, 'r6) parsing_rules \<Rightarrow> ('r4, 'r6) parsing_rules" where
  "add_regex_rule rule p =
     (let normal = p\<lparr>rules_regex := rules_regex p @ [to_ascii_lowercase rule]\<rparr> in
      case tree_set_rule_equiv rule of
        Some (Inl tree_rule) \<Rightarrow>
          (case add_tree_rule (unescape_dots tree_rule) p of Ok p' \<Rightarrow> p' | _ \<Rightarrow> normal)
      | Some (Inr set_rule) \<Rightarrow>
          (case add_set_rule (unescape_dots set_rule) p of Ok p' \<Rightarrow> p' | _ \<Rightarrow> normal)
      | None \<Rightarrow> normal)"

definition into_rules :: "('r4, 'r6, 'n4, 'n6, 're, 'z) acl_lib_scheme \<Rightarrow> ('r4, 'r6) parsing_rules
    \<Rightarrow> (('r4, 'r6, 're) rules, io_kind) outcome" where
  "into_rules lib p =
     (case regex_set_new lib (rules_regex p) of
        None \<Rightarrow> Err OtherError
      | Some re \<Rightarrow> Ok (rules_new lib (pr_ipv4 p) (pr_ipv6 p) re (rules_set p) (rules_tree p)))"

section \<open>Loading a file\<close>

record ('r4, 'r6, 're) access_control =
  outbound_block :: "('r4, 'r6, 're) rules"
  black_list :: "('r4, 'r6, 're) rules"
  white_list :: "('r4, 'r6, 're) rules"
  acl_mode :: acl_mode
  file_path :: string

text \<open>
  \<open>BufRead::lines\<close> on the contents of the file: lines end in a newline, which is removed with a
  carriage return before it, and have to be UTF-8.
\<close>

definition InvalidData :: io_kind where "InvalidData = IoKind 21"

definition strip_cr :: "string \<Rightarrow> string" where
  "strip_cr s = (if s \<noteq> [] \<and> last s = CHR 0x0D then butlast s else s)"

definition utf8_line :: "string \<Rightarrow> (string, io_kind) outcome" where
  "utf8_line s = (if valid_str s then Ok s else Err InvalidData)"

definition buf_lines :: "reader \<Rightarrow> (string, io_kind) outcome list" where
  "buf_lines r =
     (let parts = split_on CHR 0x0A (of_bytes (fst r)); rest = last parts in
      map (\<lambda>s. map_outcome strip_cr id (utf8_line s)) (butlast parts) @
      (case snd r of
         Eof \<Rightarrow> if rest = [] then [] else [utf8_line rest]
       | Fail k \<Rightarrow> [Err k]))"

text \<open>The three groups of rules, one of which \<open>curr\<close> points to.\<close>

datatype acl_section = OutboundBlock | Bypass | Proxy

record ('r4, 'r6) load_state =
  ld_mode :: acl_mode
  ld_rules :: "acl_section \<Rightarrow> ('r4, 'r6) parsing_rules"
  curr :: acl_section

definition load_init :: "('r4, 'r6, 'n4, 'n6, 're, 'z) acl_lib_scheme \<Rightarrow> ('r4, 'r6) load_state" where
  "load_init lib =
     \<lparr>ld_mode = BlackList,
      ld_rules = (\<lambda>s. parsing_rules_new lib (case s of
         OutboundBlock \<Rightarrow> ''[outbound_block_list]''
       | Bypass \<Rightarrow> ''[black_list] or [bypass_list]''
       | Proxy \<Rightarrow> ''[white_list] or [proxy_list]'')),
      curr = Bypass\<rparr>"

definition set_curr :: "('r4, 'r6) load_state \<Rightarrow> ('r4, 'r6) parsing_rules \<Rightarrow> ('r4, 'r6) load_state" where
  "set_curr st p = st\<lparr>ld_rules := (ld_rules st)(curr st := p)\<rparr>"

definition strip_prefix :: "string \<Rightarrow> string \<Rightarrow> string option" where
  "strip_prefix p s = (if take (length p) s = p then Some (drop (length p) s) else None)"

text \<open>The lines that select the mode and the section.\<close>

definition mode_line :: "string \<Rightarrow> acl_mode option" where
  "mode_line line =
     (if line = ''[reject_all]'' \<or> line = ''[bypass_all]'' then Some WhiteList
      else if line = ''[accept_all]'' \<or> line = ''[proxy_all]'' then Some BlackList else None)"

definition section_line :: "string \<Rightarrow> acl_section option" where
  "section_line line =
     (if line = ''[outbound_block_list]'' then Some OutboundBlock
      else if line = ''[black_list]'' \<or> line = ''[bypass_list]'' then Some Bypass
      else if line = ''[white_list]'' \<or> line = ''[proxy_list]'' then Some Proxy else None)"

definition add_network_or_regex :: "('r4, 'r6, 'n4, 'n6, 're, 'z) acl_lib_scheme \<Rightarrow> string
    \<Rightarrow> ('r4, 'r6) parsing_rules \<Rightarrow> ('r4, 'r6) parsing_rules" where
  "add_network_or_regex lib line p =
     (case ip_net_from_str lib line of
        Some (Inl v4) \<Rightarrow> add_ipv4_rule lib v4 p
      | Some (Inr v6) \<Rightarrow> add_ipv6_rule lib v6 p
      | None \<Rightarrow>
          (case ip_addr_from_str line of
             Some (IpV4 v4) \<Rightarrow> add_ipv4_rule lib (net_of_ipv4 lib v4) p
           | Some (IpV6 v6) \<Rightarrow> add_ipv6_rule lib (net_of_ipv6 lib v6) p
           | None \<Rightarrow> add_regex_rule line p))"

definition load_line :: "('r4, 'r6, 'n4, 'n6, 're, 'z) acl_lib_scheme \<Rightarrow> string
    \<Rightarrow> ('r4, 'r6) load_state \<Rightarrow> (('r4, 'r6) load_state, io_kind) outcome" where
  "load_line lib line st =
     (if line = [] then Ok st
      else if hd line = CHR ''#'' then Ok st
      else
        let line = trim_str line; cur = ld_rules st (curr st) in
        if \<not> is_ascii line then Ok st
        else (case strip_prefix ''||'' line of
          Some rule \<Rightarrow> and_then (add_tree_rule rule cur) (\<lambda>p. Ok (set_curr st p))
        | None \<Rightarrow>
       (case strip_prefix ''|'' line of
          Some rule \<Rightarrow> and_then (add_set_rule rule cur) (\<lambda>p. Ok (set_curr st p))
        | None \<Rightarrow>
       (case mode_line line of
          Some m \<Rightarrow> Ok (st\<lparr>ld_mode := m\<rparr>)
        | None \<Rightarrow>
       (case section_line line of
          Some s \<Rightarrow> Ok (st\<lparr>curr := s\<rparr>)
        | None \<Rightarrow> Ok (set_curr st (add_network_or_regex lib line cur)))))))"

fun load_lines :: "('r4, 'r6, 'n4, 'n6, 're, 'z) acl_lib_scheme \<Rightarrow> (string, io_kind) outcome list
    \<Rightarrow> ('r4, 'r6) load_state \<Rightarrow> (('r4, 'r6) load_state, io_kind) outcome" where
  "load_lines lib [] st = Ok st"
| "load_lines lib (l # ls) st = and_then l (\<lambda>line. and_then (load_line lib line st) (load_lines lib ls))"

definition load_from_file :: "('r4, 'r6, 'n4, 'n6, 're, 'z) acl_lib_scheme \<Rightarrow> string \<Rightarrow> (reader, io_kind) outcome
    \<Rightarrow> (('r4, 'r6, 're) access_control, io_kind) outcome" where
  "load_from_file lib path opened =
     and_then opened (\<lambda>r.
     and_then (load_lines lib (buf_lines r) (load_init lib)) (\<lambda>st.
     and_then (into_rules lib (ld_rules st OutboundBlock)) (\<lambda>ob.
     and_then (into_rules lib (ld_rules st Bypass)) (\<lambda>bl.
     and_then (into_rules lib (ld_rules st Proxy)) (\<lambda>wl.
       Ok \<lparr>outbound_block = ob, black_list = bl, white_list = wl, acl_mode = ld_mode st, file_path = path\<rparr>)))))"

section \<open>Decisions\<close>

definition convert_to_ascii :: "('r4, 'r6, 'n4, 'n6, 're, 'z) acl_lib_scheme \<Rightarrow> string \<Rightarrow> string" where
  "convert_to_ascii lib host = (case domain_to_ascii lib host of Some s \<Rightarrow> s | None \<Rightarrow> host)"

definition check_ascii_host_in_proxy_list :: "('r4, 'r6, 'n4, 'n6, 're, 'z) acl_lib_scheme
    \<Rightarrow> ('r4, 'r6, 're) access_control \<Rightarrow> string \<Rightarrow> bool option" where
  "check_ascii_host_in_proxy_list lib acl host =
     (if check_host_matched lib (white_list acl) host then Some True
      else if check_host_matched lib (black_list acl) host then Some False
      else None)"

definition check_host_in_proxy_list :: "('r4, 'r6, 'n4, 'n6, 're, 'z) acl_lib_scheme
    \<Rightarrow> ('r4, 'r6, 're) access_control \<Rightarrow> string \<Rightarrow> bool option" where
  "check_host_in_proxy_list lib acl host = check_ascii_host_in_proxy_list lib acl (convert_to_ascii lib host)"

definition acl_is_ip_empty :: "('r4, 'r6, 'n4, 'n6, 're, 'z) acl_lib_scheme
    \<Rightarrow> ('r4, 'r6, 're) access_control \<Rightarrow> bool" where
  "acl_is_ip_empty lib acl =
     (case acl_mode acl of
        BlackList \<Rightarrow> rules_is_ip_empty lib (black_list acl)
      | WhiteList \<Rightarrow> rules_is_ip_empty lib (white_list acl))"

definition acl_is_host_empty :: "('r4, 'r6, 'n4, 'n6, 're, 'z) acl_lib_scheme
    \<Rightarrow> ('r4, 'r6, 're) access_control \<Rightarrow> bool" where
  "acl_is_host_empty lib acl \<longleftrightarrow> rules_is_host_empty lib (black_list acl) \<and> rules_is_host_empty lib (white_list acl)"

definition check_ip_in_proxy_list :: "('r4, 'r6, 'n4, 'n6, 're, 'z) acl_lib_scheme
    \<Rightarrow> ('r4, 'r6, 're) access_control \<Rightarrow> ip_addr \<Rightarrow> bool" where
  "check_ip_in_proxy_list lib acl ip =
     (case acl_mode acl of
        BlackList \<Rightarrow> \<not> check_ip_matched lib (black_list acl) ip
      | WhiteList \<Rightarrow> check_ip_matched lib (white_list acl) ip)"

definition is_default_in_proxy_list :: "('r4, 'r6, 're) access_control \<Rightarrow> bool" where
  "is_default_in_proxy_list acl = (case acl_mode acl of BlackList \<Rightarrow> True | WhiteList \<Rightarrow> False)"

fun check_target_bypassed :: "('r4, 'r6, 'n4, 'n6, 're, 'z) acl_lib_scheme
    \<Rightarrow> (string \<Rightarrow> u16 \<Rightarrow> (socket_addr list, io_kind) outcome) \<Rightarrow> ('r4, 'r6, 're) access_control \<Rightarrow> address \<Rightarrow> bool" where
  "check_target_bypassed lib dns_resolve acl (SocketAddress saddr) =
     (\<not> check_ip_in_proxy_list lib acl (sock_ip saddr))"
| "check_target_bypassed lib dns_resolve acl (DomainNameAddress host port) =
     (case check_host_in_proxy_list lib acl host of
        Some v \<Rightarrow> \<not> v
      | None \<Rightarrow>
          if acl_is_ip_empty lib acl then \<not> is_default_in_proxy_list acl
          else (case dns_resolve host port of
                  Ok vaddr \<Rightarrow> list_ex (\<lambda>a. \<not> check_ip_in_proxy_list lib acl (sock_ip a)) vaddr
                | _ \<Rightarrow> False))"

definition check_client_blocked :: "('r4, 'r6, 'n4, 'n6, 're, 'z) acl_lib_scheme
    \<Rightarrow> ('r4, 'r6, 're) access_control \<Rightarrow> socket_addr \<Rightarrow> bool" where
  "check_client_blocked lib acl addr =
     (case acl_mode acl of
        BlackList \<Rightarrow> check_ip_matched lib (black_list acl) (sock_ip addr)
      | WhiteList \<Rightarrow> \<not> check_ip_matched lib (white_list acl) (sock_ip addr))"

fun check_outbound_blocked :: "('r4, 'r6, 'n4, 'n6, 're, 'z) acl_lib_scheme
    \<Rightarrow> (string \<Rightarrow> u16 \<Rightarrow> (socket_addr list, io_kind) outcome) \<Rightarrow> ('r4, 'r6, 're) access_control \<Rightarrow> address \<Rightarrow> bool" where
  "check_outbound_blocked lib dns_resolve acl (SocketAddress saddr) =
     check_ip_matched lib (outbound_block acl) (sock_ip saddr)"
| "check_outbound_blocked lib dns_resolve acl (DomainNameAddress host port) =
     (if check_host_matched lib (outbound_block acl) (convert_to_ascii lib host) then True
      else (case dns_resolve host port of
              Ok vaddr \<Rightarrow> list_ex (\<lambda>a. check_ip_matched lib (outbound_block acl) (sock_ip a)) vaddr
            | _ \<Rightarrow> False))"

section \<open>A file as a list of rules\<close>

text \<open>
  The lines that count, the rule that a line states, and the rules that stand under the headers of a
  section. A domain rule is in lower case only after insertion, a regular expression here already.
\<close>

datatype ('n4, 'n6) acl_rule =
  TreeRule string | SetRule string | RegexRule string | NetRule4 'n4 | NetRule6 'n6 | NoRule

definition rule_lines :: "string list \<Rightarrow> string list" where
  "rule_lines ls = filter is_ascii (map trim_str (filter (\<lambda>l. l \<noteq> [] \<and> hd l \<noteq> CHR ''#'') ls))"

definition classify :: "('r4, 'r6, 'n4, 'n6, 're, 'z) acl_lib_scheme \<Rightarrow> string \<Rightarrow> ('n4, 'n6) acl_rule" where
  "classify lib line =
     (case strip_prefix ''||'' line of Some d \<Rightarrow> TreeRule (trim_end_matches CHR ''.'' d) | None \<Rightarrow>
     (case strip_prefix ''|'' line of Some d \<Rightarrow> SetRule (trim_end_matches CHR ''.'' d) | None \<Rightarrow>
     if mode_line line \<noteq> None \<or> section_line line \<noteq> None then NoRule
     else (case ip_net_from_str lib line of
        Some (Inl n) \<Rightarrow> NetRule4 n | Some (Inr n) \<Rightarrow> NetRule6 n | None \<Rightarrow>
     (case ip_addr_from_str line of
        Some (IpV4 a) \<Rightarrow> NetRule4 (net_of_ipv4 lib a) | Some (IpV6 a) \<Rightarrow> NetRule6 (net_of_ipv6 lib a) | None \<Rightarrow>
     (case tree_set_rule_equiv line of
        Some (Inl d) \<Rightarrow> TreeRule (trim_end_matches CHR ''.'' (unescape_dots d))
      | Some (Inr d) \<Rightarrow> SetRule (trim_end_matches CHR ''.'' (unescape_dots d))
      | None \<Rightarrow> RegexRule (to_ascii_lowercase line))))))"

fun section_rules :: "('r4, 'r6, 'n4, 'n6, 're, 'z) acl_lib_scheme \<Rightarrow> acl_section \<Rightarrow> acl_section
    \<Rightarrow> string list \<Rightarrow> ('n4, 'n6) acl_rule list" where
  "section_rules lib sec cur [] = []"
| "section_rules lib sec cur (l # ls) =
     (case section_line l of
        Some s \<Rightarrow> section_rules lib sec s ls
      | None \<Rightarrow> (if cur = sec then [classify lib l] else []) @ section_rules lib sec cur ls)"

text \<open>A file starts in the section of the bypass list.\<close>

definition file_rules :: "('r4, 'r6, 'n4, 'n6, 're, 'z) acl_lib_scheme \<Rightarrow> acl_section \<Rightarrow> string list
    \<Rightarrow> ('n4, 'n6) acl_rule list" where
  "file_rules lib sec ls = section_rules lib sec Bypass (rule_lines ls)"

fun last_mode :: "acl_mode \<Rightarrow> string list \<Rightarrow> acl_mode" where
  "last_mode m [] = m"
| "last_mode m (l # ls) = last_mode (case mode_line l of Some m' \<Rightarrow> m' | None \<Rightarrow> m) ls"

fun host_covered :: "(string \<Rightarrow> string \<Rightarrow> bool) \<Rightarrow> string \<Rightarrow> ('n4, 'n6) acl_rule \<Rightarrow> bool" where
  "host_covered rx h (TreeRule d) = covers_domain d h"
| "host_covered rx h (SetRule d) = (h = to_ascii_lowercase d)"
| "host_covered rx h (RegexRule r) = rx r h"
| "host_covered rx h _ = False"

fun as_ipv4 :: "ip_addr \<Rightarrow> ipv4_addr option" where
  "as_ipv4 (IpV4 a) = Some a" | "as_ipv4 (IpV6 a) = to_ipv4_mapped a"

fun as_ipv6 :: "ip_addr \<Rightarrow> ipv6_addr" where
  "as_ipv6 (IpV4 a) = to_ipv6_mapped a" | "as_ipv6 (IpV6 a) = a"

fun ip_covered :: "('n4 \<Rightarrow> ipv4_addr \<Rightarrow> bool) \<Rightarrow> ('n6 \<Rightarrow> ipv6_addr \<Rightarrow> bool) \<Rightarrow> ip_addr \<Rightarrow> ('n4, 'n6) acl_rule \<Rightarrow> bool" where
  "ip_covered in4 in6 ip (NetRule4 n) = (case as_ipv4 ip of Some a \<Rightarrow> in4 n a | None \<Rightarrow> False)"
| "ip_covered in4 in6 ip (NetRule6 n) = in6 n (as_ipv6 ip)"
| "ip_covered in4 in6 ip _ = False"

fun regex_source :: "('n4, 'n6) acl_rule \<Rightarrow> string list" where
  "regex_source (RegexRule r) = [r]" | "regex_source _ = []"

section \<open>Loading adds the rules\<close>

fun apply_rule :: "('r4, 'r6, 'n4, 'n6, 're, 'z) acl_lib_scheme \<Rightarrow> ('n4, 'n6) acl_rule
    \<Rightarrow> ('r4, 'r6) parsing_rules \<Rightarrow> ('r4, 'r6) parsing_rules" where
  "apply_rule lib (TreeRule d) p = p\<lparr>rules_tree := sub_domains_insert d (rules_tree p)\<rparr>"
| "apply_rule lib (SetRule d) p = p\<lparr>rules_set := exact_insert d (rules_set p)\<rparr>"
| "apply_rule lib (RegexRule r) p = p\<lparr>rules_regex := rules_regex p @ [r]\<rparr>"
| "apply_rule lib (NetRule4 n) p = add_ipv4_rule lib n p"
| "apply_rule lib (NetRule6 n) p = add_ipv6_rule lib n p"
| "apply_rule lib NoRule p = p"

lemma is_ascii_subset: "is_ascii s \<Longrightarrow> set t \<subseteq> set s \<Longrightarrow> is_ascii t"
  by (auto simp: is_ascii_def list_all_iff)

lemma strip_prefix_Some: "strip_prefix p s = Some t \<longleftrightarrow> s = p @ t"
  by (auto simp: strip_prefix_def) (metis append_take_drop_id)

lemma set_unescape_dots: "set (unescape_dots s) \<subseteq> set s"
  by (induction s rule: unescape_dots.induct) auto

lemma rule_parts_ascii:
  assumes "is_ascii line"
  shows "strip_prefix p line = Some d \<Longrightarrow> is_ascii d"
    and "tree_set_rule_equiv line = Some (Inl b) \<Longrightarrow> is_ascii (unescape_dots b)"
    and "tree_set_rule_equiv line = Some (Inr b) \<Longrightarrow> is_ascii (unescape_dots b)"
proof -
  have sub: "is_ascii t" if "line = p @ t @ q" for p t q
    using assms is_ascii_subset [of line t] that by auto
  show "strip_prefix p line = Some d \<Longrightarrow> is_ascii d" using sub [of p d "[]"] by (simp add: strip_prefix_Some)
  have un: "is_ascii (unescape_dots b)" if "line = p @ b @ q" for p q
    using sub [OF that] is_ascii_subset set_unescape_dots by blast
  show "is_ascii (unescape_dots b)" if t: "tree_set_rule_equiv line = Some (Inl b)"
  proof -
    obtain p q where "line = p @ b @ q" using t tree_set_rule_equiv_group(1) unfolding captures_tree_def by blast
    then show ?thesis by (rule un)
  qed
  show "is_ascii (unescape_dots b)" if t: "tree_set_rule_equiv line = Some (Inr b)"
  proof -
    obtain p q where "line = p @ b @ q" using t tree_set_rule_equiv_group(2) unfolding captures_set_def by blast
    then show ?thesis by (rule un)
  qed
qed

lemma bar_not_header: "line = CHR ''|'' # t \<Longrightarrow> mode_line line = None \<and> section_line line = None"
  by (simp add: mode_line_def section_line_def)

lemma header_not_both: "mode_line line = Some m \<Longrightarrow> section_line line = None"
  by (auto simp: mode_line_def section_line_def split: if_splits)

lemma add_rules_ascii:
  "is_ascii d \<Longrightarrow> add_tree_rule d p = Ok (apply_rule lib (TreeRule (trim_end_matches CHR ''.'' d)) p)"
  "is_ascii d \<Longrightarrow> add_set_rule d p = Ok (apply_rule lib (SetRule (trim_end_matches CHR ''.'' d)) p)"
  by (simp_all add: add_tree_rule_def add_set_rule_def check_is_ascii_def exact_insert_def)

lemma add_regex_rule_apply:
  assumes "is_ascii line"
  shows "add_regex_rule line p = apply_rule lib
     (case tree_set_rule_equiv line of
        Some (Inl d) \<Rightarrow> TreeRule (trim_end_matches CHR ''.'' (unescape_dots d))
      | Some (Inr d) \<Rightarrow> SetRule (trim_end_matches CHR ''.'' (unescape_dots d))
      | None \<Rightarrow> RegexRule (to_ascii_lowercase line)) p"
  using rule_parts_ascii [OF assms]
  by (auto simp: add_regex_rule_def add_rules_ascii [of _ _ lib] split: option.splits sum.splits)

text \<open>What a line does once it is trimmed and known to be ASCII: no line fails.\<close>

definition line_effect :: "('r4, 'r6, 'n4, 'n6, 're, 'z) acl_lib_scheme \<Rightarrow> string
    \<Rightarrow> ('r4, 'r6) load_state \<Rightarrow> ('r4, 'r6) load_state" where
  "line_effect lib l st =
     (case section_line l of
        Some s \<Rightarrow> st\<lparr>curr := s\<rparr>
      | None \<Rightarrow> (set_curr st (apply_rule lib (classify lib l) (ld_rules st (curr st))))
                 \<lparr>ld_mode := (case mode_line l of Some m \<Rightarrow> m | None \<Rightarrow> ld_mode st)\<rparr>)"

lemma set_curr_same [simp]: "set_curr st (ld_rules st (curr st)) = st"
  by (simp add: set_curr_def)

lemma set_curr_simps [simp]:
  "ld_mode (set_curr st p) = ld_mode st" "curr (set_curr st p) = curr st"
  "ld_rules (set_curr st p) sec = (if sec = curr st then p else ld_rules st sec)"
  "(set_curr st p)\<lparr>ld_mode := ld_mode st\<rparr> = set_curr st p"
  by (simp_all add: set_curr_def)

lemma add_network_or_regex_apply:
  assumes "is_ascii l" "strip_prefix ''||'' l = None" "strip_prefix ''|'' l = None" "mode_line l = None" "section_line l = None"
  shows "add_network_or_regex lib l p = apply_rule lib (classify lib l) p"
  using assms
  by (auto simp: add_network_or_regex_def classify_def add_regex_rule_apply [of _ _ lib]
      split: option.splits sum.splits ip_addr.splits)

lemma load_line_effect:
  "load_line lib line st =
     Ok (if line = [] \<or> hd line = CHR ''#'' \<or> \<not> is_ascii (trim_str line) then st else line_effect lib (trim_str line) st)"
proof (cases "line = [] \<or> hd line = CHR ''#'' \<or> \<not> is_ascii (trim_str line)")
  case False
  define l where "l = trim_str line"
  with False have a: "is_ascii l" by blast
  show ?thesis
  proof (cases "strip_prefix ''|'' l")
    case (Some t)
    then have h: "mode_line l = None" "section_line l = None" using bar_not_header by (auto simp: strip_prefix_Some)
    show ?thesis
    proof (cases "strip_prefix ''||'' l")
      case None
      then show ?thesis
        using False Some h rule_parts_ascii(1) [OF a Some]
        by (simp add: load_line_def Let_def line_effect_def l_def [symmetric] classify_def add_rules_ascii [of _ _ lib])
    next
      case s: (Some t)
      then show ?thesis
        using False h rule_parts_ascii(1) [OF a s]
        by (simp add: load_line_def Let_def line_effect_def l_def [symmetric] classify_def add_rules_ascii [of _ _ lib])
    qed
  next
    case None
    then have n: "strip_prefix ''||'' l = None"
    proof (cases "strip_prefix ''||'' l")
      case (Some t)
      then have "strip_prefix ''|'' l = Some (CHR ''|'' # t)" by (simp add: strip_prefix_Some)
      then show ?thesis using None by simp
    qed simp
    show ?thesis
    proof (cases "mode_line l")
      case (Some m)
      then have "section_line l = None" "classify lib l = NoRule"
        using None n header_not_both by (auto simp: classify_def)
      then show ?thesis using False None n Some
        by (simp add: load_line_def Let_def line_effect_def l_def [symmetric])
    next
      case m: None
      show ?thesis
      proof (cases "section_line l")
        case (Some s)
        then show ?thesis using False None n m
          by (simp add: load_line_def Let_def line_effect_def l_def [symmetric])
      next
        case s: None
        then show ?thesis using False None n m
          by (simp add: add_network_or_regex_apply [OF a n None m s] load_line_def Let_def line_effect_def l_def [symmetric])
      qed
    qed
  qed
qed (auto simp: load_line_def)

lemma load_lines_effect:
  "load_lines lib (map Ok ls) st = Ok (fold (line_effect lib) (rule_lines ls) st)"
  by (induction ls arbitrary: st) (auto simp: load_line_effect rule_lines_def)

lemma load_lines_Ok_iff:
  "load_lines lib ols st = Ok st' \<longleftrightarrow> (\<exists>ls. ols = map Ok ls \<and> st' = fold (line_effect lib) (rule_lines ls) st)"
proof -
  have ex: "load_lines lib ols st = Ok st' \<Longrightarrow> \<exists>ls. ols = map Ok ls" for st
  proof (induction ols arbitrary: st)
    case (Cons l ols)
    then obtain line st1 where "l = Ok line" "load_lines lib ols st1 = Ok st'" by (auto simp: outcome_simps)
    moreover from this Cons.IH obtain ls where "ols = map Ok ls" by blast
    ultimately have "l # ols = map Ok (line # ls)" by simp
    then show ?case by (rule exI)
  qed simp
  show ?thesis
  proof
    assume l: "load_lines lib ols st = Ok st'"
    then obtain ls where ls: "ols = map Ok ls" using ex by blast
    then have "st' = fold (line_effect lib) (rule_lines ls) st" using l by (simp add: load_lines_effect)
    with ls show "\<exists>ls. ols = map Ok ls \<and> st' = fold (line_effect lib) (rule_lines ls) st"
      by (intro exI [of _ ls] conjI)
  qed (auto simp: load_lines_effect)
qed

lemma fold_line_effect:
  "ld_rules (fold (line_effect lib) ls st) sec = fold (apply_rule lib) (section_rules lib sec (curr st) ls) (ld_rules st sec) \<and>
   ld_mode (fold (line_effect lib) ls st) = last_mode (ld_mode st) ls"
proof (induction ls arbitrary: st)
  case (Cons l ls)
  show ?case
  proof (cases "section_line l")
    case None
    then show ?thesis using Cons.IH [of "line_effect lib l st"] by (auto simp: line_effect_def split: option.splits)
  next
    case (Some s)
    then have "mode_line l = None" using header_not_both by (cases "mode_line l") auto
    then show ?thesis using Cons.IH [of "line_effect lib l st"] Some by (simp add: line_effect_def)
  qed
qed simp

section \<open>The rules that were added decide\<close>

definition pr_host :: "(string \<Rightarrow> string \<Rightarrow> bool) \<Rightarrow> ('r4, 'r6) parsing_rules \<Rightarrow> string \<Rightarrow> bool" where
  "pr_host rx p h \<longleftrightarrow> h \<in> rules_set p \<or> sub_domains_contains (rules_tree p) h \<or> (\<exists>r \<in> set (rules_regex p). rx r h)"

definition pr_ip :: "('r4, 'r6, 'n4, 'n6, 're, 'z) acl_lib_scheme \<Rightarrow> ('r4, 'r6) parsing_rules \<Rightarrow> ip_addr \<Rightarrow> bool" where
  "pr_ip lib p ip \<longleftrightarrow> (case as_ipv4 ip of Some a \<Rightarrow> range4_contains lib (pr_ipv4 p) a | None \<Rightarrow> False) \<or>
     range6_contains lib (pr_ipv6 p) (as_ipv6 ip)"

lemma pr_host_apply: "pr_host rx (apply_rule lib r p) h \<longleftrightarrow> host_covered rx h r \<or> pr_host rx p h"
  by (cases r) (auto simp: pr_host_def sdt.matches_insert ens.matches_insert add_ipv4_rule_def add_ipv6_rule_def)

lemma pr_host_fold: "pr_host rx (fold (apply_rule lib) rs p) h \<longleftrightarrow> (\<exists>r \<in> set rs. host_covered rx h r) \<or> pr_host rx p h"
  by (induction rs arbitrary: p) (auto simp: pr_host_apply)

lemma pr_ip_apply:
  "range_laws lib in4 in6 \<Longrightarrow> pr_ip lib (apply_rule lib r p) ip \<longleftrightarrow> ip_covered in4 in6 ip r \<or> pr_ip lib p ip"
  by (cases r) (auto simp: pr_ip_def range_laws_def add_ipv4_rule_def add_ipv6_rule_def split: option.splits)

lemma pr_ip_fold:
  "range_laws lib in4 in6 \<Longrightarrow>
   pr_ip lib (fold (apply_rule lib) rs p) ip \<longleftrightarrow> (\<exists>r \<in> set rs. ip_covered in4 in6 ip r) \<or> pr_ip lib p ip"
  by (induction rs arbitrary: p) (auto simp: pr_ip_apply)

lemma rules_regex_fold: "rules_regex (fold (apply_rule lib) rs p) = rules_regex p @ concat (map regex_source rs)"
proof (induction rs arbitrary: p)
  case (Cons r rs)
  then show ?case by (cases r) (simp_all add: add_ipv4_rule_def add_ipv6_rule_def)
qed simp

lemma into_rules_Ok_iff:
  "into_rules lib p = Ok r \<longleftrightarrow>
    (\<exists>re. regex_set_new lib (rules_regex p) = Some re \<and> r = rules_new lib (pr_ipv4 p) (pr_ipv6 p) re (rules_set p) (rules_tree p))"
  by (auto simp: into_rules_def split: option.splits)

lemma into_rules_host:
  "regex_laws lib rx \<Longrightarrow> into_rules lib p = Ok r \<Longrightarrow>
   check_host_matched lib r h \<longleftrightarrow> pr_host rx p (trim_end_matches CHR ''.'' h)"
  by (auto simp: into_rules_Ok_iff rules_new_def check_host_matched_def pr_host_def regex_laws_def Let_def)

lemma to_ipv6_mapped_of: "to_ipv4_mapped b = Some a \<Longrightarrow> to_ipv6_mapped a = b"
  by (simp add: to_ipv4_mapped_Some)

lemma into_rules_ip:
  "range_laws lib in4 in6 \<Longrightarrow> into_rules lib p = Ok r \<Longrightarrow> check_ip_matched lib r ip \<longleftrightarrow> pr_ip lib p ip"
  by (cases ip) (auto simp: into_rules_Ok_iff rules_new_def pr_ip_def range_laws_def split: option.splits)

lemma pr_empty:
  "\<not> pr_host rx (parsing_rules_new lib nm) h"
  "range_laws lib in4 in6 \<Longrightarrow> \<not> pr_ip lib (parsing_rules_new lib nm) ip"
  using sdt.matches_empty
  by (auto simp: pr_host_def pr_ip_def parsing_rules_new_def range_laws_def split: option.splits)

text \<open>The three groups of rules of a loaded list.\<close>

fun acl_rules :: "acl_section \<Rightarrow> ('r4, 'r6, 're) access_control \<Rightarrow> ('r4, 'r6, 're) rules" where
  "acl_rules OutboundBlock acl = outbound_block acl"
| "acl_rules Bypass acl = black_list acl"
| "acl_rules Proxy acl = white_list acl"

definition section_parsed :: "('r4, 'r6, 'n4, 'n6, 're, 'z) acl_lib_scheme \<Rightarrow> string list \<Rightarrow> acl_section
    \<Rightarrow> ('r4, 'r6) parsing_rules" where
  "section_parsed lib ls sec = fold (apply_rule lib) (file_rules lib sec ls) (ld_rules (load_init lib) sec)"

lemma load_final:
  "ld_rules (fold (line_effect lib) (rule_lines ls) (load_init lib)) = section_parsed lib ls"
  "ld_mode (fold (line_effect lib) (rule_lines ls) (load_init lib)) = last_mode BlackList (rule_lines ls)"
  by (auto simp: fold_line_effect section_parsed_def file_rules_def load_init_def)

lemma load_from_file_Ok_iff:
  "load_from_file lib path (Ok r) = Ok acl \<longleftrightarrow>
    (\<exists>ls. buf_lines r = map Ok ls \<and> (\<forall>sec. into_rules lib (section_parsed lib ls sec) = Ok (acl_rules sec acl)) \<and>
      acl = \<lparr>outbound_block = outbound_block acl, black_list = black_list acl, white_list = white_list acl,
        acl_mode = last_mode BlackList (rule_lines ls), file_path = path\<rparr>)"
proof -
  have all: "(\<forall>sec. P sec) \<longleftrightarrow> P OutboundBlock \<and> P Bypass \<and> P Proxy" for P
    by (metis acl_section.exhaust)
  show ?thesis
    unfolding load_from_file_def all
    by (auto simp: outcome_simps load_lines_Ok_iff load_final)
qed

lemma section_parsed_host:
  "pr_host rx (section_parsed lib ls sec) h \<longleftrightarrow> (\<exists>r \<in> set (file_rules lib sec ls). host_covered rx h r)"
  by (simp add: section_parsed_def pr_host_fold load_init_def pr_empty)

lemma section_parsed_ip:
  "range_laws lib in4 in6 \<Longrightarrow>
   pr_ip lib (section_parsed lib ls sec) ip \<longleftrightarrow> (\<exists>r \<in> set (file_rules lib sec ls). ip_covered in4 in6 ip r)"
  by (simp add: section_parsed_def pr_ip_fold load_init_def pr_empty)

lemma section_parsed_regex:
  "rules_regex (section_parsed lib ls sec) = concat (map regex_source (file_rules lib sec ls))"
  by (simp add: section_parsed_def rules_regex_fold load_init_def parsing_rules_new_def)

lemma loaded:
  assumes "load_from_file lib path (Ok r) = Ok acl" "buf_lines r = map Ok ls"
  shows "into_rules lib (section_parsed lib ls sec) = Ok (acl_rules sec acl)"
    and "acl_mode acl = last_mode BlackList (rule_lines ls)"
proof -
  obtain ls' where ls': "buf_lines r = map Ok ls'" "\<forall>sec. into_rules lib (section_parsed lib ls' sec) = Ok (acl_rules sec acl)"
      "acl = \<lparr>outbound_block = outbound_block acl, black_list = black_list acl, white_list = white_list acl,
        acl_mode = last_mode BlackList (rule_lines ls'), file_path = path\<rparr>"
    using assms(1) unfolding load_from_file_Ok_iff by blast
  then have "ls' = ls" using assms(2) by (simp add: inj_map_eq_map inj_def)
  then show "into_rules lib (section_parsed lib ls sec) = Ok (acl_rules sec acl)" using ls' by simp
  show "acl_mode acl = last_mode BlackList (rule_lines ls)"
    by (subst ls'(3)) (simp add: \<open>ls' = ls\<close>)
qed

lemma loaded_host:
  assumes "regex_laws lib rx" "load_from_file lib path (Ok r) = Ok acl" "buf_lines r = map Ok ls"
  shows "check_host_matched lib (acl_rules sec acl) host \<longleftrightarrow>
    (\<exists>rule \<in> set (file_rules lib sec ls). host_covered rx (trim_end_matches CHR ''.'' host) rule)"
  using into_rules_host [OF assms(1) loaded(1) [OF assms(2,3)]] by (simp add: section_parsed_host)

lemma loaded_ip:
  assumes "range_laws lib in4 in6" "load_from_file lib path (Ok r) = Ok acl" "buf_lines r = map Ok ls"
  shows "check_ip_matched lib (acl_rules sec acl) ip \<longleftrightarrow>
    (\<exists>rule \<in> set (file_rules lib sec ls). ip_covered in4 in6 ip rule)"
  using into_rules_ip [OF assms(1) loaded(1) [OF assms(2,3)]] section_parsed_ip [OF assms(1)] by simp

section \<open>A concrete instance of the parameters\<close>

definition sample_in4 :: "ipv4_addr \<times> nat \<Rightarrow> ipv4_addr \<Rightarrow> bool" where
  "sample_in4 n a \<longleftrightarrow> drop_bit (32 - snd n) a = drop_bit (32 - snd n) (fst n)"

definition sample_in6 :: "ipv6_addr \<times> nat \<Rightarrow> ipv6_addr \<Rightarrow> bool" where
  "sample_in6 n a \<longleftrightarrow> drop_bit (128 - snd n) a = drop_bit (128 - snd n) (fst n)"

definition sample_ip_net :: "string \<Rightarrow> (ipv4_addr \<times> nat + ipv6_addr \<times> nat) option" where
  "sample_ip_net s = (if s = ''10.0.0.0/8'' then Some (Inl (0x0A000000, 8))
     else if s = ''::1/128'' then Some (Inr (1, 128)) else None)"

definition literal_search :: "string \<Rightarrow> string \<Rightarrow> bool" where
  "literal_search r h = list_ex (\<lambda>t. take (length r) t = r) (suffixes h)"

definition sample_acl_lib :: "((ipv4_addr \<times> nat) list, (ipv6_addr \<times> nat) list, ipv4_addr \<times> nat, ipv6_addr \<times> nat, string list) acl_lib" where
  "sample_acl_lib =
     \<lparr>range4_new = [], range4_add = (#), range4_simplify = remdups,
      range4_contains = (\<lambda>r a. list_ex (\<lambda>n. sample_in4 n a) r), range4_is_empty = (\<lambda>r. r = []),
      range6_new = [], range6_add = (#), range6_simplify = remdups,
      range6_contains = (\<lambda>r a. list_ex (\<lambda>n. sample_in6 n a) r), range6_is_empty = (\<lambda>r. r = []),
      ip_net_from_str = sample_ip_net, net_of_ipv4 = (\<lambda>a. (a, 32)), net_of_ipv6 = (\<lambda>a. (a, 128)),
      regex_set_new = (\<lambda>rs. Some rs), regex_set_is_match = (\<lambda>rs h. list_ex (\<lambda>r. literal_search r h) rs),
      regex_set_is_empty = (\<lambda>rs. rs = []), domain_to_ascii = (\<lambda>s. Some (to_ascii_lowercase s))\<rparr>"

lemma sample_acl_laws: "range_laws sample_acl_lib sample_in4 sample_in6" "regex_laws sample_acl_lib literal_search"
  by (auto simp: range_laws_def regex_laws_def sample_acl_lib_def list_ex_iff sample_in4_def sample_in6_def)

definition sample_acl_lines :: "string list" where
  "sample_acl_lines = [''[proxy_list]'', ''||ab'', ''[bypass_list]'', ''|x.ab'', ''10.0.0.0/8'']"

definition sample_acl_file :: reader where
  "sample_acl_file = (as_bytes (join_with CHR 0x0A sample_acl_lines), Eof)"

lemma sample_acl_read: "buf_lines sample_acl_file = map Ok sample_acl_lines"
  by code_simp

lemma sample_acl_lines_used: "rule_lines sample_acl_lines = sample_acl_lines"
  by code_simp

lemma sample_acl_rules:
  "file_rules sample_acl_lib Proxy sample_acl_lines = [TreeRule ''ab'']"
  "file_rules sample_acl_lib Bypass sample_acl_lines = [SetRule ''x.ab'', NetRule4 (0x0A000000, 8)]"
  "file_rules sample_acl_lib OutboundBlock sample_acl_lines = []"
  "last_mode BlackList (rule_lines sample_acl_lines) = BlackList"
  unfolding file_rules_def sample_acl_lines_used by code_simp+

lemma load_succeeds:
  "(\<exists>acl. load_from_file lib path opened = Ok acl) \<longleftrightarrow>
    (\<exists>r ls. opened = Ok r \<and> buf_lines r = map Ok ls \<and>
       (\<forall>sec. regex_set_new lib (concat (map regex_source (file_rules lib sec ls))) \<noteq> None))"
proof (cases opened)
  case (Ok r)
  have "(\<exists>acl. load_from_file lib path (Ok r) = Ok acl) \<longleftrightarrow>
      (\<exists>ls. buf_lines r = map Ok ls \<and> (\<forall>sec. \<exists>rl. into_rules lib (section_parsed lib ls sec) = Ok rl))"
  proof
    assume "\<exists>ls. buf_lines r = map Ok ls \<and> (\<forall>sec. \<exists>rl. into_rules lib (section_parsed lib ls sec) = Ok rl)"
    then obtain ls f where "buf_lines r = map Ok ls" "\<forall>sec. into_rules lib (section_parsed lib ls sec) = Ok (f sec)" by metis
    then show "\<exists>acl. load_from_file lib path (Ok r) = Ok acl"
      by (simp add: load_from_file_def load_lines_Ok_iff load_lines_effect load_final)
  qed (auto simp: load_from_file_Ok_iff)
  then show ?thesis using Ok by (auto simp: into_rules_Ok_iff section_parsed_regex)
qed (auto simp: load_from_file_def)

lemma sample_acl_loads: "\<exists>acl. load_from_file sample_acl_lib ''acl'' (Ok sample_acl_file) = Ok acl"
  unfolding load_succeeds using sample_acl_read
  by (intro exI [of _ sample_acl_file] exI [of _ sample_acl_lines]) (simp add: sample_acl_lib_def)

section \<open>Properties\<close>

text \<open>C10: A host is proxied, bypassed or left to the default exactly as the lines of the file say: it is proxied
  when a rule that stands under a proxy or white list header covers it, otherwise bypassed when a rule under
  a bypass or black list header or before any header covers it, and undecided otherwise. The order of the
  lines and the data structures they end up in do not matter.\<close>

theorem acl_host_decision:
  assumes "regex_laws lib rx" "load_from_file lib path (Ok r) = Ok acl" "buf_lines r = map Ok ls"
  shows "check_host_in_proxy_list lib acl host =
    (let covered = (\<lambda>sec. \<exists>rule \<in> set (file_rules lib sec ls).
                       host_covered rx (trim_end_matches CHR ''.'' (convert_to_ascii lib host)) rule)
     in if covered Proxy then Some True else if covered Bypass then Some False else None)"
  using loaded_host [OF assms, of Proxy] loaded_host [OF assms, of Bypass]
  by (simp add: check_host_in_proxy_list_def check_ascii_host_in_proxy_list_def)

theorem acl_host_decision_witness:
  "\<exists>acl. load_from_file sample_acl_lib ''acl'' (Ok sample_acl_file) = Ok acl \<and>
    check_host_in_proxy_list sample_acl_lib acl ''x.AB.'' = Some True"
proof -
  obtain acl where acl: "load_from_file sample_acl_lib ''acl'' (Ok sample_acl_file) = Ok acl"
    using sample_acl_loads by blast
  have "trim_end_matches CHR ''.'' (convert_to_ascii sample_acl_lib ''x.AB.'') = ''x.ab''" by code_simp
  moreover have "covers_domain ''ab'' ''x.ab''" by code_simp
  ultimately have "check_host_in_proxy_list sample_acl_lib acl ''x.AB.'' = Some True"
    using acl_host_decision [OF sample_acl_laws(2) acl sample_acl_read, of "''x.AB.''"]
    by (simp add: sample_acl_rules)
  with acl show ?thesis by blast
qed

text \<open>C26: An IP address is decided by the networks and addresses of the file in the mode that its last mode
  line selects: in black list mode it is proxied unless a rule of the bypass section covers it, in white
  list mode only when a rule of the proxy section does; servers block clients by the same rule. An IPv4
  address and its IPv4-mapped IPv6 address are covered by the same rules.\<close>

theorem acl_ip_decision:
  assumes "range_laws lib in4 in6" "load_from_file lib path (Ok r) = Ok acl" "buf_lines r = map Ok ls"
  shows "check_ip_in_proxy_list lib acl ip =
      (let covered = (\<lambda>sec. \<exists>rule \<in> set (file_rules lib sec ls). ip_covered in4 in6 ip rule)
       in case last_mode BlackList (rule_lines ls) of BlackList \<Rightarrow> \<not> covered Bypass | WhiteList \<Rightarrow> covered Proxy) \<and>
    check_client_blocked lib acl (SockV4 a port) = (\<not> check_ip_in_proxy_list lib acl (IpV4 a)) \<and>
    check_ip_in_proxy_list lib acl (IpV6 (to_ipv6_mapped a)) = check_ip_in_proxy_list lib acl (IpV4 a)"
  using loaded(2) [OF assms(2,3)] loaded_ip [OF assms, of Proxy] loaded_ip [OF assms, of Bypass]
  by (auto simp: check_ip_in_proxy_list_def check_client_blocked_def split: acl_mode.splits)

theorem acl_ip_decision_witness:
  "\<exists>acl. load_from_file sample_acl_lib ''acl'' (Ok sample_acl_file) = Ok acl \<and>
    \<not> check_ip_in_proxy_list sample_acl_lib acl (IpV6 (to_ipv6_mapped 0x0A010203))"
proof -
  obtain acl where acl: "load_from_file sample_acl_lib ''acl'' (Ok sample_acl_file) = Ok acl"
    using sample_acl_loads by blast
  have "sample_in4 (0x0A000000, 8) 0x0A010203" by (simp add: sample_in4_def)
  then have "\<not> check_ip_in_proxy_list sample_acl_lib acl (IpV6 (to_ipv6_mapped 0x0A010203))"
    using acl_ip_decision [OF sample_acl_laws(1) acl sample_acl_read, of "IpV4 0x0A010203" "0x0A010203" 0]
    by (simp add: sample_acl_rules)
  with acl show ?thesis by blast
qed

text \<open>Loading succeeds exactly for a file that can be opened and read to its end, is UTF-8, and whose
  remaining regular expressions compile; no rule is refused for its own sake, and nothing panics.\<close>

theorem acl_load_succeeds_exactly:
  "(\<exists>acl. load_from_file lib path opened = Ok acl) =
    (\<exists>r ls. opened = Ok r \<and> buf_lines r = map Ok ls \<and>
       (\<forall>sec. regex_set_new lib (concat (map regex_source (file_rules lib sec ls))) \<noteq> None)) \<and>
   (opened \<noteq> Panic) = (load_from_file lib path opened \<noteq> Panic)"
proof -
  have lines: "load_lines lib ols st \<noteq> Panic" if "Panic \<notin> set ols" for ols st
    using that by (induction ols arbitrary: st) (auto simp: outcome_simps load_line_effect)
  have "Panic \<notin> set (buf_lines r)" for r
    by (auto simp: buf_lines_def Let_def utf8_line_def split: if_splits rd_end.splits)
  moreover have "into_rules lib p \<noteq> Panic" for p by (simp add: into_rules_def split: option.splits)
  ultimately have "(opened \<noteq> Panic) = (load_from_file lib path opened \<noteq> Panic)"
    using lines by (cases opened) (auto simp: load_from_file_def outcome_simps)
  then show ?thesis by (simp add: load_succeeds)
qed

end
