(* ===== verification/Tcp_Crypto.thy ===== *)
theory Tcp_Crypto
  imports Tcp_Stream Tcp_Aead_2022
begin

text \<open>
  The encrypted stream of \<open>relay/tcprelay/crypto_io.rs\<close>: a connection with the reader and the writer
  that the category of the method calls for. When the reader has finished the handshake and found out
  which user it talks to, the writer changes to that user's key.
\<close>

section \<open>Errors\<close>

datatype protocol_error =
    IoProtocolError io_kind
  | StreamProtocolError stream_error
  | AeadProtocolError aead_error
  | Aead2022ProtocolError tcp_2022_error

fun protocol_error_into_io :: "protocol_error \<Rightarrow> io_kind" where
  "protocol_error_into_io (IoProtocolError err) = err"
| "protocol_error_into_io (StreamProtocolError err) = stream_error_into_io err"
| "protocol_error_into_io (AeadProtocolError err) = aead_error_into_io err"
| "protocol_error_into_io (Aead2022ProtocolError err) = tcp_2022_error_into_io err"

section \<open>The world of a call\<close>

text \<open>
  The third-party libraries, the content of unwritten memory, the system time of AEAD-2022 headers and
  the monotonic clock of the salt cache.
\<close>

record ('c, 'd, 'b, 's) tcp_env =
  te_cipher :: "'c cipher_lib"
  te_2022 :: "'d tcp_2022_lib"
  te_replay :: "('b, 's) replay_lib"
  te_mem :: "nat \<Rightarrow> u8"
  te_now :: u64
  te_inst :: nat

section \<open>The reader\<close>

datatype 'c decrypted_reader =
    DecNone
  | DecAead "'c aead_reader"
  | DecStream "'c stream_reader"
  | DecAead2022 "'c reader_2022"

definition dec_with_user_manager ::
    "('c, 'd, 'b, 's) tcp_env \<Rightarrow> stream_type \<Rightarrow> cipher_kind \<Rightarrow> bytes \<Rightarrow> user_manager option \<Rightarrow> 'c decrypted_reader" where
  "dec_with_user_manager env stream_ty method key um =
     (case kind_category method of
        CatStream \<Rightarrow> DecStream (stream_reader_new (te_cipher env) method key)
      | CatAead \<Rightarrow> DecAead (aead_reader_new (te_cipher env) method key)
      | CatNone \<Rightarrow> DecNone
      | CatAead2022 \<Rightarrow> DecAead2022 (reader_2022_with_user_manager (te_cipher env) stream_ty method key um))"

definition dec_new ::
    "('c, 'd, 'b, 's) tcp_env \<Rightarrow> stream_type \<Rightarrow> cipher_kind \<Rightarrow> bytes \<Rightarrow> 'c decrypted_reader" where
  "dec_new env stream_ty method key = dec_with_user_manager env stream_ty method key None"

text \<open>The readers of the components carry their source and the context; here both are threaded through.\<close>

fun dec_poll_read ::
    "('c, 'd, 'b, 's) tcp_env \<Rightarrow> nat \<Rightarrow> 'c decrypted_reader \<times> rd_script \<times> ('b, 's) ss_context
     \<Rightarrow> (bytes, protocol_error) poll \<times> 'c decrypted_reader \<times> rd_script \<times> ('b, 's) ss_context" where
  "dec_poll_read env remaining (DecStream r, es, ctx) =
     (let (p, w) = stream_poll_read (te_cipher env) (te_replay env) (te_inst env) remaining
                     \<lparr>sd_reader = r, sd_source = es, sd_ctx = ctx\<rparr>
      in poll_map_err StreamProtocolError (p, DecStream (sd_reader w), sd_source w, sd_ctx w))"
| "dec_poll_read env remaining (DecAead r, es, ctx) =
     (let (p, w) = aead_poll_read (te_cipher env) (te_replay env) (te_inst env) remaining
                     \<lparr>rd_reader = r, rd_source = es, rd_ctx = ctx\<rparr>
      in poll_map_err AeadProtocolError (p, DecAead (rd_reader w), rd_source w, rd_ctx w))"
| "dec_poll_read env remaining (DecNone, es, ctx) =
     (let (p, es) = poll_read remaining es in poll_map_err IoProtocolError (p, DecNone, es, ctx))"
| "dec_poll_read env remaining (DecAead2022 r, es, ctx) =
     (let (p, w) = poll_read_2022 (te_cipher env) (te_2022 env) (te_replay env) (te_now env) (te_inst env) remaining
                     \<lparr>d22_reader = r, d22_source = es, d22_ctx = ctx\<rparr>
      in poll_map_err Aead2022ProtocolError (p, DecAead2022 (d22_reader w), d22_source w, d22_ctx w))"

fun dec_nonce :: "'c decrypted_reader \<Rightarrow> bytes option" where
  "dec_nonce (DecStream r) = sr_iv r"
| "dec_nonce (DecAead r) = ar_salt r"
| "dec_nonce DecNone = None"
| "dec_nonce (DecAead2022 r) = r22_salt r"

fun dec_request_nonce :: "'c decrypted_reader \<Rightarrow> bytes option" where
  "dec_request_nonce (DecAead2022 r) = r22_request_salt r"
| "dec_request_nonce _ = None"

fun dec_user_key :: "'c decrypted_reader \<Rightarrow> bytes option" where
  "dec_user_key (DecAead2022 r) = r22_user_key r"
| "dec_user_key _ = None"

fun dec_handshaked :: "'c decrypted_reader \<Rightarrow> bool" where
  "dec_handshaked (DecStream r) = sr_handshaked r"
| "dec_handshaked (DecAead r) = ar_handshaked r"
| "dec_handshaked DecNone = True"
| "dec_handshaked (DecAead2022 r) = r22_handshaked r"

section \<open>The writer\<close>

datatype 'c encrypted_writer =
    EncNone
  | EncAead "'c aead_writer"
  | EncStream "'c stream_writer"
  | EncAead2022 "'c writer_2022"

definition enc_with_identity ::
    "('c, 'd, 'b, 's) tcp_env \<Rightarrow> stream_type \<Rightarrow> cipher_kind \<Rightarrow> bytes \<Rightarrow> bytes \<Rightarrow> bytes list
     \<Rightarrow> ('c encrypted_writer, 'e) outcome" where
  "enc_with_identity env stream_ty method key nonce identity_keys =
     (case kind_category method of
        CatStream \<Rightarrow> Ok (EncStream (stream_writer_new (te_cipher env) method key nonce))
      | CatAead \<Rightarrow> Ok (EncAead (aead_writer_new (te_cipher env) method key nonce))
      | CatNone \<Rightarrow> Ok EncNone
      | CatAead2022 \<Rightarrow>
          and_then (writer_2022_with_identity (te_cipher env) (te_2022 env) stream_ty method key nonce identity_keys)
            (\<lambda>w. Ok (EncAead2022 w)))"

definition enc_new ::
    "('c, 'd, 'b, 's) tcp_env \<Rightarrow> stream_type \<Rightarrow> cipher_kind \<Rightarrow> bytes \<Rightarrow> bytes \<Rightarrow> ('c encrypted_writer, 'e) outcome" where
  "enc_new env stream_ty method key nonce =
     (case kind_category method of
        CatStream \<Rightarrow> Ok (EncStream (stream_writer_new (te_cipher env) method key nonce))
      | CatAead \<Rightarrow> Ok (EncAead (aead_writer_new (te_cipher env) method key nonce))
      | CatNone \<Rightarrow> Ok EncNone
      | CatAead2022 \<Rightarrow>
          and_then (writer_2022_new (te_cipher env) (te_2022 env) stream_ty method key nonce) (\<lambda>w. Ok (EncAead2022 w)))"

fun enc_poll_write ::
    "('c, 'd, 'b, 's) tcp_env \<Rightarrow> bytes \<Rightarrow> 'c encrypted_writer \<times> sink
     \<Rightarrow> (nat, protocol_error) poll \<times> 'c encrypted_writer \<times> sink" where
  "enc_poll_write env buf (EncStream w, s) =
     (let (p, w, s) = stream_poll_write (te_cipher env) buf (w, s)
      in poll_map_err StreamProtocolError (p, EncStream w, s))"
| "enc_poll_write env buf (EncAead w, s) =
     (let (p, w, s) = aead_poll_write (te_cipher env) (te_mem env) buf (w, s)
      in poll_map_err (AeadProtocolError \<circ> AeadIoError) (p, EncAead w, s))"
| "enc_poll_write env buf (EncNone, s) =
     (let (p, s) = poll_write buf s in poll_map_err IoProtocolError (p, EncNone, s))"
| "enc_poll_write env buf (EncAead2022 w, s) =
     (let (p, w, s) = poll_write_2022 (te_cipher env) (te_mem env) (te_now env) buf (w, s)
      in poll_map_err (Aead2022ProtocolError \<circ> Tcp2022IoError) (p, EncAead2022 w, s))"

fun enc_nonce :: "'c encrypted_writer \<Rightarrow> bytes" where
  "enc_nonce (EncStream w) = sw_iv w"
| "enc_nonce (EncAead w) = aw_salt w"
| "enc_nonce EncNone = []"
| "enc_nonce (EncAead2022 w) = w22_salt w"

fun enc_set_request_nonce :: "bytes \<Rightarrow> 'c encrypted_writer \<Rightarrow> ('c encrypted_writer, 'e) outcome" where
  "enc_set_request_nonce request_nonce (EncAead2022 w) = Ok (EncAead2022 (set_request_salt request_nonce w))"
| "enc_set_request_nonce request_nonce _ = Panic"

fun enc_reset_cipher_with_key ::
    "('c, 'd, 'b, 's) tcp_env \<Rightarrow> bytes \<Rightarrow> 'c encrypted_writer \<Rightarrow> ('c encrypted_writer, 'e) outcome" where
  "enc_reset_cipher_with_key env key (EncAead2022 w) = Ok (EncAead2022 (reset_cipher_with_key (te_cipher env) key w))"
| "enc_reset_cipher_with_key env key _ = Panic"

section \<open>The stream\<close>

text \<open>
  A connection is a source and a sink, and whether its writing half was shut down. Flushing and
  shutting down are pending or fail when the sink's script says so.
\<close>

record tcp_socket =
  so_source :: rd_script
  so_sink :: sink
  so_shut :: bool

definition sink_poll :: "sink \<Rightarrow> (unit, io_kind) poll \<times> sink" where
  "sink_poll s =
     (case sink_script s of
        WrPending # es \<Rightarrow> (Pending, s\<lparr>sink_script := es\<rparr>)
      | WrError e # es \<Rightarrow> (Ready (Err e), s\<lparr>sink_script := es\<rparr>)
      | _ \<Rightarrow> (Ready (Ok ()), s))"

definition socket_poll_read :: "nat \<Rightarrow> tcp_socket \<Rightarrow> (bytes, io_kind) poll \<times> tcp_socket" where
  "socket_poll_read k so = (let (p, es) = poll_read k (so_source so) in (p, so\<lparr>so_source := es\<rparr>))"

definition socket_poll_write :: "bytes \<Rightarrow> tcp_socket \<Rightarrow> (nat, io_kind) poll \<times> tcp_socket" where
  "socket_poll_write bs so = (let (p, s) = poll_write bs (so_sink so) in (p, so\<lparr>so_sink := s\<rparr>))"

definition socket_poll_flush :: "tcp_socket \<Rightarrow> (unit, io_kind) poll \<times> tcp_socket" where
  "socket_poll_flush so = (let (p, s) = sink_poll (so_sink so) in (p, so\<lparr>so_sink := s\<rparr>))"

definition socket_poll_shutdown :: "tcp_socket \<Rightarrow> (unit, io_kind) poll \<times> tcp_socket" where
  "socket_poll_shutdown so =
     (let (p, s) = sink_poll (so_sink so) in
      (p, so\<lparr>so_sink := s, so_shut := so_shut so \<or> p = Ready (Ok ())\<rparr>))"

text \<open>The encrypted stream over a connection; the shared context stands beside it.\<close>

record 'c crypto_stream =
  cs_stream :: tcp_socket
  cs_dec :: "'c decrypted_reader"
  cs_enc :: "'c encrypted_writer"
  cs_method :: cipher_kind
  cs_has_handshaked :: bool

definition crypto_new_none :: "tcp_socket \<Rightarrow> cipher_kind \<Rightarrow> 'c crypto_stream" where
  "crypto_new_none stream method =
     \<lparr>cs_stream = stream, cs_dec = DecNone, cs_enc = EncNone, cs_method = method,
      cs_has_handshaked = False\<rparr>"

text \<open>
  The outer option is the loop of \<open>generate_nonce\<close>: \<open>None\<close> when it has rejected all of \<open>draws\<close>. The salt
  of an AEAD-2022 stream is not looked up in the context.
\<close>

definition from_stream_with_identity ::
    "('c, 'd, 'b, 's) tcp_env \<Rightarrow> ('b, 's) ss_context \<Rightarrow> tcp_socket \<Rightarrow> stream_type \<Rightarrow> cipher_kind \<Rightarrow> bytes
     \<Rightarrow> bytes list \<Rightarrow> user_manager option \<Rightarrow> (nat \<times> bytes) list
     \<Rightarrow> ('c crypto_stream \<times> ('b, 's) ss_context, 'e) outcome option" where
  "from_stream_with_identity env ctx stream stream_ty method key identity_keys um draws =
     (let category = kind_category method in
      if category = CatNone then Some (Ok (crypto_new_none stream method, ctx))
      else
        let prev_len = (case category of
                          CatStream \<Rightarrow> kind_iv_len method
                        | CatAead \<Rightarrow> kind_salt_len method
                        | CatNone \<Rightarrow> 0
                        | CatAead2022 \<Rightarrow> kind_salt_len method);
            unique = (category \<noteq> CatAead2022)
        in case generate_nonce (te_replay env) ctx method prev_len unique draws of
             None \<Rightarrow> None
           | Some (iv, ctx) \<Rightarrow> Some
               (and_then (enc_with_identity env stream_ty method key iv identity_keys) (\<lambda>enc.
                Ok (\<lparr>cs_stream = stream,
                     cs_dec = dec_with_user_manager env stream_ty method key um,
                     cs_enc = enc, cs_method = method, cs_has_handshaked = False\<rparr>, ctx))))"

definition from_stream ::
    "('c, 'd, 'b, 's) tcp_env \<Rightarrow> ('b, 's) ss_context \<Rightarrow> tcp_socket \<Rightarrow> stream_type \<Rightarrow> cipher_kind \<Rightarrow> bytes
     \<Rightarrow> (nat \<times> bytes) list \<Rightarrow> ('c crypto_stream \<times> ('b, 's) ss_context, 'e) outcome option" where
  "from_stream env ctx stream stream_ty method key draws =
     from_stream_with_identity env ctx stream stream_ty method key [] None draws"

definition received_nonce :: "'c crypto_stream \<Rightarrow> bytes option" where
  "received_nonce cs = dec_nonce (cs_dec cs)"

definition sent_nonce :: "'c crypto_stream \<Rightarrow> bytes" where
  "sent_nonce cs = enc_nonce (cs_enc cs)"

definition received_request_nonce :: "'c crypto_stream \<Rightarrow> bytes option" where
  "received_request_nonce cs = dec_request_nonce (cs_dec cs)"

definition crypto_set_request_nonce :: "bytes \<Rightarrow> 'c crypto_stream \<Rightarrow> ('c crypto_stream, 'e) outcome" where
  "crypto_set_request_nonce request_nonce cs =
     and_then (enc_set_request_nonce request_nonce (cs_enc cs)) (\<lambda>enc. Ok (cs\<lparr>cs_enc := enc\<rparr>))"

definition set_request_nonce_with_received :: "'c crypto_stream \<Rightarrow> (bool \<times> 'c crypto_stream, 'e) outcome" where
  "set_request_nonce_with_received cs =
     (case dec_nonce (cs_dec cs) of
        None \<Rightarrow> Ok (False, cs)
      | Some nonce \<Rightarrow>
          and_then (enc_set_request_nonce nonce (cs_enc cs)) (\<lambda>enc. Ok (True, cs\<lparr>cs_enc := enc\<rparr>)))"

definition crypto_current_data_chunk_remaining :: "'c crypto_stream \<Rightarrow> (u64 \<times> nat, 'e) outcome" where
  "crypto_current_data_chunk_remaining cs =
     (case cs_dec cs of DecAead2022 dec \<Rightarrow> Ok (current_data_chunk_remaining dec) | _ \<Rightarrow> Panic)"

definition crypto_poll_read ::
    "('c, 'd, 'b, 's) tcp_env \<Rightarrow> nat \<Rightarrow> 'c crypto_stream \<times> ('b, 's) ss_context
     \<Rightarrow> (bytes, protocol_error) poll \<times> 'c crypto_stream \<times> ('b, 's) ss_context" where
  "crypto_poll_read env remaining w =
     (let (cs, ctx) = w;
          (p, dec, es, ctx) = dec_poll_read env remaining (cs_dec cs, so_source (cs_stream cs), ctx)
      in poll_bind (p, cs\<lparr>cs_dec := dec, cs_stream := (cs_stream cs)\<lparr>so_source := es\<rparr>\<rparr>, ctx) (\<lambda>data w.
        let (cs, ctx) = w in
        if \<not> cs_has_handshaked cs \<and> dec_handshaked dec then
          let cs = cs\<lparr>cs_has_handshaked := True\<rparr> in
          case dec_user_key dec of
            None \<Rightarrow> (Ready (Ok data), cs, ctx)
          | Some ukey \<Rightarrow>
              (case enc_reset_cipher_with_key env ukey (cs_enc cs) of
                 Ok enc \<Rightarrow> (Ready (Ok data), cs\<lparr>cs_enc := enc\<rparr>, ctx)
               | Err e \<Rightarrow> (Ready (Err e), cs, ctx)
               | Panic \<Rightarrow> (Ready Panic, cs, ctx))
        else (Ready (Ok data), cs, ctx)))"

definition crypto_poll_write ::
    "('c, 'd, 'b, 's) tcp_env \<Rightarrow> bytes \<Rightarrow> 'c crypto_stream
     \<Rightarrow> (nat, protocol_error) poll \<times> 'c crypto_stream" where
  "crypto_poll_write env buf cs =
     (let (p, enc, s) = enc_poll_write env buf (cs_enc cs, so_sink (cs_stream cs))
      in (p, cs\<lparr>cs_enc := enc, cs_stream := (cs_stream cs)\<lparr>so_sink := s\<rparr>\<rparr>))"

definition crypto_poll_flush :: "'c crypto_stream \<Rightarrow> (unit, protocol_error) poll \<times> 'c crypto_stream" where
  "crypto_poll_flush cs =
     (let (p, so) = socket_poll_flush (cs_stream cs)
      in poll_map_err IoProtocolError (p, cs\<lparr>cs_stream := so\<rparr>))"

definition crypto_poll_shutdown :: "'c crypto_stream \<Rightarrow> (unit, protocol_error) poll \<times> 'c crypto_stream" where
  "crypto_poll_shutdown cs =
     (let (p, so) = socket_poll_shutdown (cs_stream cs)
      in poll_map_err IoProtocolError (p, cs\<lparr>cs_stream := so\<rparr>))"

end
