(* ===== verification/Tcp_Copy.thy ===== *)
theory Tcp_Copy
  imports Tcp_Crypto
begin

text \<open>
  The relay loops of \<open>relay/tcprelay/utils.rs\<close>: \<open>CopyBuffer\<close> copies one direction, \<open>CopyBidirectional\<close>
  both. They know their streams only through \<open>AsyncRead\<close> and \<open>AsyncWrite\<close>, so that the locale \<open>duplex\<close>
  says what they rely on, and what they deliver is proved from it once, for every pair of streams.
\<close>

section \<open>Streams\<close>

text \<open>What the generic code knows of a stream: the methods of \<open>AsyncRead\<close> and \<open>AsyncWrite\<close>.\<close>

record 's async_stream =
  as_read :: "nat \<Rightarrow> 's \<Rightarrow> (bytes, io_kind) poll \<times> 's"
  as_write :: "bytes \<Rightarrow> 's \<Rightarrow> (nat, io_kind) poll \<times> 's"
  as_flush :: "'s \<Rightarrow> (unit, io_kind) poll \<times> 's"
  as_shutdown :: "'s \<Rightarrow> (unit, io_kind) poll \<times> 's"

definition socket_ops :: "tcp_socket async_stream" where
  "socket_ops = \<lparr>as_read = socket_poll_read, as_write = socket_poll_write,
     as_flush = socket_poll_flush, as_shutdown = socket_poll_shutdown\<rparr>"

section \<open>Copying in one direction\<close>

record copy_buffer =
  cb_read_done :: bool
  cb_pos :: nat
  cb_cap :: nat
  cb_amt :: u64
  cb_buf :: bytes

definition copy_buffer_new :: "nat \<Rightarrow> copy_buffer" where
  "copy_buffer_new buffer_size =
     \<lparr>cb_read_done = False, cb_pos = 0, cb_cap = 0, cb_amt = 0, cb_buf = replicate buffer_size 0\<rparr>"

text \<open>Reading when the buffer is empty.\<close>

definition copy_fill ::
    "'r async_stream \<Rightarrow> copy_buffer \<Rightarrow> 'r \<Rightarrow> (unit, io_kind) poll \<times> copy_buffer \<times> 'r" where
  "copy_fill rs cb r =
     (if cb_pos cb = cb_cap cb \<and> \<not> cb_read_done cb then
        let (p, r) = as_read rs (length (cb_buf cb)) r in
        poll_bind (p, cb, r) (\<lambda>data (cb, r).
          let cb = cb\<lparr>cb_buf := data @ drop (length data) (cb_buf cb)\<rparr>; n = length data in
          (Ready (Ok ()),
           if n = 0 then cb\<lparr>cb_read_done := True\<rparr> else cb\<lparr>cb_pos := 0, cb_cap := n\<rparr>, r))
      else (Ready (Ok ()), cb, r))"

text \<open>The loop that writes the buffer out.\<close>

function copy_drain ::
    "'w async_stream \<Rightarrow> copy_buffer \<Rightarrow> 'w \<Rightarrow> (unit, io_kind) poll \<times> copy_buffer \<times> 'w" where
  "copy_drain ws cb w =
     (if cb_pos cb < cb_cap cb then
        (case as_write ws (drop (cb_pos cb) (take (cb_cap cb) (cb_buf cb))) w of
           (Pending, w) \<Rightarrow> (Pending, cb, w)
         | (Ready (Err e), w) \<Rightarrow> (Ready (Err e), cb, w)
         | (Ready Panic, w) \<Rightarrow> (Ready Panic, cb, w)
         | (Ready (Ok i), w) \<Rightarrow>
             if i = 0 then (Ready (Err WriteZero), cb, w)
             else copy_drain ws (cb\<lparr>cb_pos := cb_pos cb + i, cb_amt := cb_amt cb + of_nat i\<rparr>) w)
      else (Ready (Ok ()), cb, w))"
  by pat_completeness auto
termination
  by (relation "measure (\<lambda>(ws, cb, w). cb_cap cb - cb_pos cb)") auto

declare copy_drain.simps [simp del]

text \<open>One turn of the loop of \<open>poll_copy\<close>; \<open>None\<close> goes round again.\<close>

definition copy_step ::
    "'r async_stream \<Rightarrow> 'w async_stream \<Rightarrow> copy_buffer \<times> 'r \<times> 'w
     \<Rightarrow> (u64, io_kind) poll option \<times> copy_buffer \<times> 'r \<times> 'w" where
  "copy_step rs ws st =
     (let (cb, r, w) = st; (p, cb, r) = copy_fill rs cb r in
      step_done (p, cb, r, w) (\<lambda>_ (cb, r, w).
        let (p, cb, w) = copy_drain ws cb w in
        step_done (p, cb, r, w) (\<lambda>_ (cb, r, w).
          if cb_pos cb = cb_cap cb \<and> cb_read_done cb then
            let (p, w) = as_flush ws w in
            step_done (p, cb, r, w) (\<lambda>_ (cb, r, w). (Some (Ready (Ok (cb_amt cb))), cb, r, w))
          else (None, cb, r, w))))"

text \<open>A reader that always has data keeps a poll from returning: then the result is \<open>None\<close>.\<close>

partial_function (option) poll_copy ::
    "'r async_stream \<Rightarrow> 'w async_stream \<Rightarrow> copy_buffer \<times> 'r \<times> 'w
     \<Rightarrow> ((u64, io_kind) poll \<times> copy_buffer \<times> 'r \<times> 'w) option" where
  "poll_copy rs ws st =
     (case copy_step rs ws st of
        (Some p, st) \<Rightarrow> Some (p, st)
      | (None, st) \<Rightarrow> poll_copy rs ws st)"

definition plain_read_buffer_size :: "cipher_kind \<Rightarrow> nat" where
  "plain_read_buffer_size method =
     (case kind_category method of
        CatAead \<Rightarrow> MAX_PACKET_SIZE
      | CatStream \<Rightarrow> 2 ^ 14
      | CatNone \<Rightarrow> 2 ^ 14
      | CatAead2022 \<Rightarrow> MAX_CHUNK_SIZE)"

section \<open>Copying in both directions\<close>

datatype transfer_state = Running copy_buffer | ShuttingDown u64 | Transferred u64

definition finish_transfer ::
    "'w async_stream \<Rightarrow> u64 \<Rightarrow> 'r \<times> 'w \<Rightarrow> (u64, io_kind) poll \<times> transfer_state \<times> 'r \<times> 'w" where
  "finish_transfer ws count rw =
     (let (r, w) = rw; (p, w) = as_shutdown ws w in
      poll_bind (p, ShuttingDown count, r, w) (\<lambda>_ (_, r, w). (Ready (Ok count), Transferred count, r, w)))"

definition transfer_one_direction ::
    "'r async_stream \<Rightarrow> 'w async_stream \<Rightarrow> transfer_state \<times> 'r \<times> 'w
     \<Rightarrow> ((u64, io_kind) poll \<times> transfer_state \<times> 'r \<times> 'w) option" where
  "transfer_one_direction rs ws st =
     (case st of
        (Running buf, r, w) \<Rightarrow>
          (case poll_copy rs ws (buf, r, w) of
             None \<Rightarrow> None
           | Some (p, buf, r, w) \<Rightarrow>
               Some (poll_bind (p, Running buf, r, w) (\<lambda>count (_, r, w). finish_transfer ws count (r, w))))
      | (ShuttingDown count, r, w) \<Rightarrow> Some (finish_transfer ws count (r, w))
      | (Transferred count, r, w) \<Rightarrow> Some (Ready (Ok count), Transferred count, r, w))"

record ('a, 'b) copy_bidirectional =
  bi_a :: 'a
  bi_b :: 'b
  bi_a_to_b :: transfer_state
  bi_b_to_a :: transfer_state

text \<open>Both directions are polled; an error of the first is returned before the second is tried.\<close>

definition poll_impl ::
    "'a async_stream \<Rightarrow> 'b async_stream \<Rightarrow> ('a, 'b) copy_bidirectional
     \<Rightarrow> ((u64 \<times> u64, io_kind) poll \<times> ('a, 'b) copy_bidirectional) option" where
  "poll_impl as bs st =
     (case transfer_one_direction as bs (bi_a_to_b st, bi_a st, bi_b st) of
        None \<Rightarrow> None
      | Some (p1, ab, a, b) \<Rightarrow>
          let st = st\<lparr>bi_a_to_b := ab, bi_a := a, bi_b := b\<rparr> in
          (case p1 of
             Ready (Err e) \<Rightarrow> Some (Ready (Err e), st)
           | Ready Panic \<Rightarrow> Some (Ready Panic, st)
           | _ \<Rightarrow>
               (case transfer_one_direction bs as (bi_b_to_a st, bi_b st, bi_a st) of
                  None \<Rightarrow> None
                | Some (p2, ba, b, a) \<Rightarrow>
                    let st = st\<lparr>bi_b_to_a := ba, bi_a := a, bi_b := b\<rparr> in
                    (case p2 of
                       Ready (Err e) \<Rightarrow> Some (Ready (Err e), st)
                     | Ready Panic \<Rightarrow> Some (Ready Panic, st)
                     | _ \<Rightarrow> Some
                         (poll_bind (p1, st) (\<lambda>n1 st. poll_bind (p2, st) (\<lambda>n2 st. (Ready (Ok (n1, n2)), st))))))))"

definition copy_bidirectional_new :: "nat \<Rightarrow> nat \<Rightarrow> 'a \<Rightarrow> 'b \<Rightarrow> ('a, 'b) copy_bidirectional" where
  "copy_bidirectional_new n m a b =
     \<lparr>bi_a = a, bi_b = b, bi_a_to_b = Running (copy_buffer_new n), bi_b_to_a = Running (copy_buffer_new m)\<rparr>"

definition copy_bidirectional :: "'a \<Rightarrow> 'b \<Rightarrow> ('a, 'b) copy_bidirectional" where
  "copy_bidirectional a b = copy_bidirectional_new 8192 8192 a b"

definition copy_encrypted_bidirectional :: "cipher_kind \<Rightarrow> 'e \<Rightarrow> 'p \<Rightarrow> ('e, 'p) copy_bidirectional" where
  "copy_encrypted_bidirectional method encrypted plain =
     copy_bidirectional_new (plain_read_buffer_size method) (plain_read_buffer_size method) encrypted plain"

text \<open>Awaiting a future: it is polled again until it is ready.\<close>

fun await_times :: "nat \<Rightarrow> ('w \<Rightarrow> (('a, 'e) poll \<times> 'w) option) \<Rightarrow> 'w \<Rightarrow> (('a, 'e) poll \<times> 'w) option" where
  "await_times 0 f w = Some (Pending, w)"
| "await_times (Suc n) f w =
     (case f w of
        None \<Rightarrow> None
      | Some (Pending, w) \<Rightarrow> await_times n f w
      | Some (Ready r, w) \<Rightarrow> Some (Ready r, w))"

section \<open>What a relay relies on\<close>

text \<open>
  One call of a stream: pending, it has used up one of the waits of the stream; otherwise it succeeds.
  A stream that was shut down stays so.
\<close>

definition duplex_law ::
    "('s \<Rightarrow> nat) \<Rightarrow> ('s \<Rightarrow> bool) \<Rightarrow> 's \<Rightarrow> ('a, io_kind) poll \<times> 's \<Rightarrow> ('s \<Rightarrow> bool) \<Rightarrow> ('a \<Rightarrow> 's \<Rightarrow> bool) \<Rightarrow> bool" where
  "duplex_law waits shut s res again finished \<longleftrightarrow>
     (let s' = snd res in
      (shut s \<longrightarrow> shut s') \<and>
      (case fst res of
         Pending \<Rightarrow> again s' \<and> waits s' < waits s
       | Ready (Ok x) \<Rightarrow> finished x s' \<and> waits s' \<le> waits s
       | _ \<Rightarrow> False))"

lemma duplex_lawE:
  assumes "duplex_law waits shut s (p, s') again finished"
  obtains (again) "p = Pending" "again s'" "waits s' < waits s" "shut s \<longrightarrow> shut s'"
  | (finished) x where "p = Ready (Ok x)" "finished x s'" "waits s' \<le> waits s" "shut s \<longrightarrow> shut s'"
  using assms by (auto simp: duplex_law_def Let_def split: poll.splits outcome.splits)

text \<open>
  Reads deliver at most \<open>deliver\<close> bytes at a time to buffers of at most \<open>room\<close> bytes, and writes take
  buffers of at most \<open>accept\<close> bytes. \<open>dx s d t q\<close>: the stream \<open>s\<close> will still deliver \<open>d\<close>, has taken \<open>t\<close> and is in the middle of taking
  the buffer \<open>q\<close>, which has to be offered again. Neither half disturbs the other.
\<close>

locale duplex =
  fixes ops :: "'s async_stream"
    and dx :: "'s \<Rightarrow> bytes \<Rightarrow> bytes \<Rightarrow> bytes option \<Rightarrow> bool"
    and waits :: "'s \<Rightarrow> nat"
    and shut :: "'s \<Rightarrow> bool"
    and deliver accept room :: nat
  assumes reads: "dx s d t q \<Longrightarrow> 0 < k \<Longrightarrow> k \<le> room \<Longrightarrow>
      duplex_law waits shut s (as_read ops k s) (\<lambda>s. dx s d t q)
        (\<lambda>x s. \<exists>d'. d = x @ d' \<and> length x \<le> k \<and> length x \<le> deliver \<and> (x = [] \<longrightarrow> d = []) \<and> dx s d' t q)"
    and writes: "dx s d t q \<Longrightarrow> q = None \<or> q = Some b \<Longrightarrow> b \<noteq> [] \<Longrightarrow> length b \<le> accept \<Longrightarrow>
      duplex_law waits shut s (as_write ops b s) (\<lambda>s. dx s d t (Some b))
        (\<lambda>n s. 0 < n \<and> n \<le> length b \<and> dx s d (t @ take n b) None)"
    and flushes: "dx s d t None \<Longrightarrow> duplex_law waits shut s (as_flush ops s) (\<lambda>s. dx s d t None) (\<lambda>_ s. dx s d t None)"
    and shuts: "dx s d t None \<Longrightarrow>
      duplex_law waits shut s (as_shutdown ops s) (\<lambda>s. dx s d t None) (\<lambda>_ s. dx s d t None \<and> shut s)"

text \<open>
  The state of a copy of the text \<open>T\<close>: what was taken, what is in the buffer, and what is still to come.
\<close>

definition buffered :: "copy_buffer \<Rightarrow> bytes" where
  "buffered cb = drop (cb_pos cb) (take (cb_cap cb) (cb_buf cb))"

definition copying :: "nat \<Rightarrow> nat \<Rightarrow> bytes \<Rightarrow> copy_buffer \<Rightarrow> bytes \<Rightarrow> bytes \<Rightarrow> bytes option \<Rightarrow> bool" where
  "copying chunk room T cb d t q \<longleftrightarrow>
     cb_pos cb \<le> cb_cap cb \<and> cb_cap cb \<le> length (cb_buf cb) \<and> 0 < length (cb_buf cb) \<and>
     length (cb_buf cb) \<le> room \<and> length (buffered cb) \<le> chunk \<and> cb_amt cb = of_nat (length t) \<and>
     (q = None \<or> q = Some (buffered cb) \<and> buffered cb \<noteq> []) \<and> (cb_read_done cb \<longrightarrow> d = []) \<and>
     T = t @ buffered cb @ d"

lemma copying_new: "0 < n \<Longrightarrow> n \<le> room \<Longrightarrow> copying chunk room T (copy_buffer_new n) T [] None"
  by (simp add: copying_def copy_buffer_new_def buffered_def)

lemma buffered_Nil: "copying chunk room T cb d t q \<Longrightarrow> cb_pos cb = cb_cap cb \<longleftrightarrow> buffered cb = []"
  by (auto simp: copying_def buffered_def)

locale relay = a: duplex as da wa sa chunk aa room + b: duplex bs db wb sb ob ab room
  for as :: "'a async_stream" and da wa sa chunk aa room and bs :: "'b async_stream" and db wb sb ob ab +
  assumes fits: "chunk \<le> ab"
begin

lemma fill:
  assumes "da a d u qa" "copying chunk room T cb d t q" "copy_fill as cb a = (p, cb', a')"
  obtains (again) "p = Pending" "cb' = cb" "da a' d u qa" "wa a' < wa a" "sa a \<longrightarrow> sa a'"
  | (finished) d' where "p = Ready (Ok ())" "da a' d' u qa" "wa a' \<le> wa a" "sa a \<longrightarrow> sa a'"
      "copying chunk room T cb' d' t q" "cb_pos cb' = cb_cap cb' \<longrightarrow> cb_read_done cb'"
      "cb_read_done cb' \<or> length d' < length d \<or> length d' = length d \<and> cb_pos cb \<noteq> cb_cap cb"
proof (cases "cb_pos cb = cb_cap cb \<and> \<not> cb_read_done cb")
  case False
  then have "p = Ready (Ok ())" "cb' = cb" "a' = a" using assms(3) by (auto simp: copy_fill_def)
  with False show ?thesis using finished [of d] assms(1,2) by auto
next
  case True
  obtain q1 a1 where r: "as_read as (length (cb_buf cb)) a = (q1, a1)" by force
  have k: "0 < length (cb_buf cb)" "length (cb_buf cb) \<le> room" using assms(2) by (simp_all add: copying_def)
  from a.reads [OF assms(1) k] r have
    "duplex_law wa sa a (q1, a1) (\<lambda>s. da s d u qa)
        (\<lambda>x s. \<exists>d'. d = x @ d' \<and> length x \<le> length (cb_buf cb) \<and> length x \<le> chunk \<and> (x = [] \<longrightarrow> d = []) \<and> da s d' u qa)"
    by simp
  then show ?thesis
  proof (cases rule: duplex_lawE)
    case again
    then show ?thesis using that(1) assms(3) True r by (simp add: copy_fill_def)
  next
    case (finished x)
    then obtain d' where d': "d = x @ d'" "length x \<le> length (cb_buf cb)" "length x \<le> chunk" "x = [] \<longrightarrow> d = []" "da a1 d' u qa"
      by blast
    let ?cb = "cb\<lparr>cb_buf := x @ drop (length x) (cb_buf cb)\<rparr>"
    have e: "p = Ready (Ok ())" "a' = a1"
      "cb' = (if x = [] then ?cb\<lparr>cb_read_done := True\<rparr> else ?cb\<lparr>cb_pos := 0, cb_cap := length x\<rparr>)"
      using assms(3) True r finished by (auto simp: copy_fill_def Let_def split: if_splits)
    have "buffered cb = []" using True by (simp add: buffered_def)
    with assms(2) d' e have "copying chunk room T cb' d' t q" by (auto simp: copying_def buffered_def)
    with d' e finished show ?thesis using that(2) [of d'] True by auto
  qed
qed

lemma drain:
  assumes "db b e t q" "copying chunk room T cb d t q" "copy_drain bs cb b = (p, cb', b')"
  shows "cb_read_done cb' = cb_read_done cb \<and> (sb b \<longrightarrow> sb b') \<and>
    (\<exists>t' q'. db b' e t' q' \<and> copying chunk room T cb' d t' q' \<and>
      (p = Pending \<and> wb b' < wb b \<or>
       p = Ready (Ok ()) \<and> wb b' \<le> wb b \<and> cb_pos cb' = cb_cap cb' \<and> q' = None))"
  using assms
proof (induction "cb_cap cb - cb_pos cb" arbitrary: cb b t q rule: less_induct)
  case less
  note unfold = copy_drain.simps [of bs cb b]
  show ?case
  proof (cases "cb_pos cb < cb_cap cb")
    case False
    then have "cb_pos cb = cb_cap cb" using less.prems(2) by (simp add: copying_def)
    moreover from this have "buffered cb = []" by (simp add: buffered_def)
    with less.prems(2) have "q = None" by (auto simp: copying_def)
    ultimately show ?thesis using less.prems False
      by (intro conjI exI [of _ t] exI [of _ q]) (auto simp: unfold)
  next
    case True
    let ?x = "buffered cb"
    obtain q1 b1 where w: "as_write bs ?x b = (q1, b1)" by force
    have x: "?x \<noteq> []" using True less.prems(2) by (auto simp: buffered_def copying_def)
    have "duplex_law wb sb b (q1, b1) (\<lambda>s. db s e t (Some ?x)) (\<lambda>n s. 0 < n \<and> n \<le> length ?x \<and> db s e (t @ take n ?x) None)"
      using b.writes [OF less.prems(1) _ x] less.prems(2) w fits by (fastforce simp: copying_def)
    then show ?thesis
    proof (cases rule: duplex_lawE)
      case again
      with less.prems(3) True w have e: "p = Pending" "cb' = cb" "b' = b1"
        by (simp_all add: unfold buffered_def)
      have "copying chunk room T cb' d t (Some ?x)" using less.prems(2) x e by (simp add: copying_def)
      with again e show ?thesis by (intro conjI exI [of _ t] exI [of _ "Some ?x"]) auto
    next
      case (finished n)
      let ?cb = "cb\<lparr>cb_pos := cb_pos cb + n, cb_amt := cb_amt cb + of_nat n\<rparr>"
      have n: "0 < n" "n \<le> length ?x" "db b1 e (t @ take n ?x) None" using finished by auto
      have d: "copy_drain bs ?cb b1 = (p, cb', b')"
        using less.prems(3) True w finished(1) n(1) by (simp add: unfold buffered_def)
      have bx: "buffered ?cb = drop n ?x" by (simp add: buffered_def add.commute)
      have len: "length ?x = cb_cap cb - cb_pos cb" using less.prems(2) by (simp add: copying_def buffered_def)
      have c: "copying chunk room T ?cb d (t @ take n ?x) None"
        using less.prems(2) n(2) unfolding copying_def bx len by (auto simp: len)
      have "cb_cap ?cb - cb_pos ?cb < cb_cap cb - cb_pos cb" using n(1) True by simp
      note IH = less.hyps [OF this n(3) c d]
      then obtain t' q' where "db b' e t' q'" "copying chunk room T cb' d t' q'"
        "p = Pending \<and> wb b' < wb b1 \<or> p = Ready (Ok ()) \<and> wb b' \<le> wb b1 \<and> cb_pos cb' = cb_cap cb' \<and> q' = None" by blast
      with IH finished show ?thesis by (intro conjI exI [of _ t'] exI [of _ q']) auto
    qed
  qed
qed

text \<open>
  A poll returns: pending with the copy still consistent, or, once everything was taken, with the length of
  the text.
\<close>

definition polled ::
    "bytes \<Rightarrow> bytes \<Rightarrow> bytes \<Rightarrow> bytes option \<Rightarrow> 'a \<Rightarrow> 'b \<Rightarrow> (u64, io_kind) poll \<times> copy_buffer \<times> 'a \<times> 'b \<Rightarrow> bool" where
  "polled T e u qa a b res \<longleftrightarrow>
     (let (p, cb', a', b') = res in
      (sa a \<longrightarrow> sa a') \<and> (sb b \<longrightarrow> sb b') \<and>
      (\<exists>d' t' q'. da a' d' u qa \<and> db b' e t' q' \<and>
        (p = Pending \<and> copying chunk room T cb' d' t' q' \<and> wa a' + wb b' < wa a + wb b \<or>
         p = Ready (Ok (of_nat (length T))) \<and> d' = [] \<and> t' = T \<and> q' = None \<and> wa a' + wb b' \<le> wa a + wb b)))"

lemma polledI:
  assumes "da a' d' u qa" "db b' e t' q'" "sa a \<longrightarrow> sa a'" "sb b \<longrightarrow> sb b'"
    and "p = Pending \<and> copying chunk room T cb' d' t' q' \<and> wa a' + wb b' < wa a + wb b \<or>
      p = Ready (Ok (of_nat (length T))) \<and> d' = [] \<and> t' = T \<and> q' = None \<and> wa a' + wb b' \<le> wa a + wb b"
  shows "polled T e u qa a b (p, cb', a', b')"
  unfolding polled_def Let_def prod.case using assms by blast

lemma polled_mono:
  assumes "polled T e u qa a1 b1 res" "sa a \<longrightarrow> sa a1" "sb b \<longrightarrow> sb b1" "wa a1 \<le> wa a" "wb b1 \<le> wb b"
  shows "polled T e u qa a b res"
proof -
  obtain p cb' a' b' where res: "res = (p, cb', a', b')" by (metis prod.collapse)
  from assms(1) obtain d' t' q' where x: "da a' d' u qa" "db b' e t' q'" "sa a1 \<longrightarrow> sa a'" "sb b1 \<longrightarrow> sb b'"
    and y: "p = Pending \<and> copying chunk room T cb' d' t' q' \<and> wa a' + wb b' < wa a1 + wb b1 \<or>
      p = Ready (Ok (of_nat (length T))) \<and> d' = [] \<and> t' = T \<and> q' = None \<and> wa a' + wb b' \<le> wa a1 + wb b1"
    unfolding polled_def Let_def res prod.case by blast
  show ?thesis unfolding res by (rule polledI [OF x(1,2)]) (use x(3,4) y assms(2-5) in linarith)+
qed

lemma step:
  assumes "da a d u qa" "db b e t q" "copying chunk room T cb d t q"
  obtains (returns) res where "copy_step as bs (cb, a, b) = (Some (fst res), snd res)" "polled T e u qa a b res"
  | (again) cb' a' b' d' t' where "copy_step as bs (cb, a, b) = (None, cb', a', b')"
      "da a' d' u qa" "db b' e t' None" "copying chunk room T cb' d' t' None" "sa a \<longrightarrow> sa a'" "sb b \<longrightarrow> sb b'"
      "wa a' \<le> wa a" "wb b' \<le> wb b" "cb_pos cb' = cb_cap cb'"
      "length d' < length d \<or> length d' = length d \<and> cb_pos cb \<noteq> cb_cap cb"
proof -
  obtain p cb1 a1 where f: "copy_fill as cb a = (p, cb1, a1)" by (metis prod.collapse)
  from assms(1,3) f show ?thesis
  proof (cases rule: fill)
    case again
    then have "copy_step as bs (cb, a, b) = (Some Pending, cb, a1, b)" using f by (simp add: copy_step_def)
    moreover have "polled T e u qa a b (Pending, cb, a1, b)"
      using again assms by (intro polledI [of _ d _ _ _ _ t q]) auto
    ultimately show ?thesis using returns [of "(Pending, cb, a1, b)"] by simp
  next
    case (finished d1)
    obtain p2 cb2 b2 where dr: "copy_drain bs cb1 b = (p2, cb2, b2)" by (metis prod.collapse)
    from drain [OF assms(2) finished(5) dr] obtain t2 q2 where
      r: "cb_read_done cb2 = cb_read_done cb1" "sb b \<longrightarrow> sb b2" "db b2 e t2 q2" "copying chunk room T cb2 d1 t2 q2" and
      c: "p2 = Pending \<and> wb b2 < wb b \<or> p2 = Ready (Ok ()) \<and> wb b2 \<le> wb b \<and> cb_pos cb2 = cb_cap cb2 \<and> q2 = None"
      by blast
    from c show ?thesis
    proof (elim disjE conjE)
      assume p2: "p2 = Pending" "wb b2 < wb b"
      then have "copy_step as bs (cb, a, b) = (Some Pending, cb2, a1, b2)"
        using f dr finished by (simp add: copy_step_def)
      moreover have "polled T e u qa a b (Pending, cb2, a1, b2)"
        by (rule polledI [OF finished(2) r(3) finished(4) r(2)]) (use p2 r(4) finished(3) in simp)
      ultimately show ?thesis using returns [of "(Pending, cb2, a1, b2)"] by simp
    next
      assume p2: "p2 = Ready (Ok ())" "wb b2 \<le> wb b" "cb_pos cb2 = cb_cap cb2" "q2 = None"
      show ?thesis
      proof (cases "cb_read_done cb2")
        case False
        then have s: "copy_step as bs (cb, a, b) = (None, cb2, a1, b2)"
          using f dr finished p2 by (simp add: copy_step_def)
        have "length d1 < length d \<or> length d1 = length d \<and> cb_pos cb \<noteq> cb_cap cb" using finished r(1) False by auto
        with s show ?thesis using again [OF s finished(2) _ _ finished(4) r(2) finished(3) p2(2,3)] r p2(4) by simp
      next
        case True
        obtain p3 b3 where fl: "as_flush bs b2 = (p3, b3)" by force
        have T: "d1 = []" "t2 = T" "cb_amt cb2 = of_nat (length T)"
          using r(4) True p2(3) by (auto simp: copying_def buffered_def)
        have "duplex_law wb sb b2 (p3, b3) (\<lambda>s. db s e t2 None) (\<lambda>_ s. db s e t2 None)"
          using b.flushes r(3) p2(4) fl by fastforce
        then show ?thesis
        proof (cases rule: duplex_lawE)
          case again
          then have "copy_step as bs (cb, a, b) = (Some Pending, cb2, a1, b3)"
            using f dr fl finished p2 True by (simp add: copy_step_def)
          moreover have "polled T e u qa a b (Pending, cb2, a1, b3)"
            by (rule polledI [OF finished(2) again(2) finished(4)]) (use again r p2 finished(3) in auto)
          ultimately show ?thesis using returns [of "(Pending, cb2, a1, b3)"] by simp
        next
          case f3: (finished x)
          then have "copy_step as bs (cb, a, b) = (Some (Ready (Ok (of_nat (length T)))), cb2, a1, b3)"
            using f dr fl finished p2 True T by (simp add: copy_step_def)
          moreover have "polled T e u qa a b (Ready (Ok (of_nat (length T))), cb2, a1, b3)"
            by (rule polledI [OF finished(2) f3(2) finished(4)]) (use f3 r p2 finished(3) T in auto)
          ultimately show ?thesis using returns [of "(Ready (Ok (of_nat (length T))), cb2, a1, b3)"] by simp
        qed
      qed
    qed
  qed
qed

lemma copies:
  assumes "da a d u qa" "db b e t q" "copying chunk room T cb d t q"
  shows "\<exists>res. poll_copy as bs (cb, a, b) = Some res \<and> polled T e u qa a b res"
  using assms
proof (induction "2 * length d + (if cb_pos cb = cb_cap cb then 0 else 1)" arbitrary: a b cb d t q rule: less_induct)
  case less
  note unfold = poll_copy.simps [of as bs "(cb, a, b)"]
  from less.prems show ?case
  proof (cases rule: step)
    case (returns res)
    then show ?thesis by (intro exI [of _ res]) (simp add: unfold)
  next
    case (again cb' a' b' d' t')
    have "2 * length d' + (if cb_pos cb' = cb_cap cb' then 0 else 1) < 2 * length d + (if cb_pos cb = cb_cap cb then 0 else 1)"
      using again by auto
    from less.hyps [OF this again(2-4)] obtain res where
      "poll_copy as bs (cb', a', b') = Some res" "polled T e u qa a' b' res" by blast
    with again show ?thesis by (intro exI [of _ res]) (auto simp: unfold intro: polled_mono)
  qed
qed

text \<open>The states of one direction, and a poll of it.\<close>

definition transferring ::
    "bytes \<Rightarrow> transfer_state \<Rightarrow> 'b \<Rightarrow> bytes \<Rightarrow> bytes \<Rightarrow> bytes option \<Rightarrow> bool" where
  "transferring T st b d t q \<longleftrightarrow>
     (case st of
        Running cb \<Rightarrow> copying chunk room T cb d t q
      | ShuttingDown n \<Rightarrow> n = of_nat (length T) \<and> d = [] \<and> t = T \<and> q = None
      | Transferred n \<Rightarrow> n = of_nat (length T) \<and> d = [] \<and> t = T \<and> q = None \<and> sb b)"

lemma finishes:
  assumes "da a [] u qa" "db b e T None"
  obtains p st a' b' where "finish_transfer bs (of_nat (length T)) (a, b) = (p, st, a', b')"
    "da a' [] u qa" "db b' e T None" "sa a \<longrightarrow> sa a'" "sb b \<longrightarrow> sb b'" "transferring T st b' [] T None"
    "p = Pending \<and> wa a' + wb b' < wa a + wb b \<or>
     p = Ready (Ok (of_nat (length T))) \<and> st = Transferred (of_nat (length T)) \<and> wa a' + wb b' \<le> wa a + wb b"
proof -
  obtain p b1 where s: "as_shutdown bs b = (p, b1)" by force
  have "duplex_law wb sb b (p, b1) (\<lambda>s. db s e T None) (\<lambda>_ s. db s e T None \<and> sb s)"
    using b.shuts assms(2) s by fastforce
  then show ?thesis
  proof (cases rule: duplex_lawE)
    case again
    then show ?thesis using that [of Pending "ShuttingDown (of_nat (length T))" a b1] s assms
      by (simp add: finish_transfer_def transferring_def)
  next
    case (finished x)
    then show ?thesis using that [of "Ready (Ok (of_nat (length T)))" "Transferred (of_nat (length T))" a b1] s assms
      by (simp add: finish_transfer_def transferring_def)
  qed
qed

lemma transfers:
  assumes "da a d u qa" "db b e t q" "transferring T st b d t q"
  obtains p st' a' b' d' t' q' where "transfer_one_direction as bs (st, a, b) = Some (p, st', a', b')"
    "da a' d' u qa" "db b' e t' q'" "sa a \<longrightarrow> sa a'" "sb b \<longrightarrow> sb b'" "transferring T st' b' d' t' q'"
    "p = Pending \<and> wa a' + wb b' < wa a + wb b \<or>
     p = Ready (Ok (of_nat (length T))) \<and> st' = Transferred (of_nat (length T)) \<and> wa a' + wb b' \<le> wa a + wb b"
proof (cases st)
  case (Running cb)
  then have c: "copying chunk room T cb d t q" using assms(3) by (simp add: transferring_def)
  from copies [OF assms(1,2) c] obtain p cb' a1 b1 where
    pc: "poll_copy as bs (cb, a, b) = Some (p, cb', a1, b1)" "polled T e u qa a b (p, cb', a1, b1)" by fastforce
  then obtain d' t' q' where x: "da a1 d' u qa" "db b1 e t' q'" "sa a \<longrightarrow> sa a1" "sb b \<longrightarrow> sb b1"
    and y: "p = Pending \<and> copying chunk room T cb' d' t' q' \<and> wa a1 + wb b1 < wa a + wb b \<or>
      p = Ready (Ok (of_nat (length T))) \<and> d' = [] \<and> t' = T \<and> q' = None \<and> wa a1 + wb b1 \<le> wa a + wb b"
    unfolding polled_def Let_def prod.case by blast
  from y show ?thesis
  proof (elim disjE conjE)
    assume "p = Pending" "copying chunk room T cb' d' t' q'" "wa a1 + wb b1 < wa a + wb b"
    with x pc(1) Running show ?thesis
      using that [of Pending "Running cb'" a1 b1 d' t' q'] by (simp add: transfer_one_direction_def transferring_def)
  next
    assume p: "p = Ready (Ok (of_nat (length T)))" "d' = []" "t' = T" "q' = None" "wa a1 + wb b1 \<le> wa a + wb b"
    with x have "da a1 [] u qa" "db b1 e T None" by simp_all
    then obtain p2 st2 a2 b2 where f: "finish_transfer bs (of_nat (length T)) (a1, b1) = (p2, st2, a2, b2)"
      "da a2 [] u qa" "db b2 e T None" "sa a1 \<longrightarrow> sa a2" "sb b1 \<longrightarrow> sb b2" "transferring T st2 b2 [] T None"
      "p2 = Pending \<and> wa a2 + wb b2 < wa a1 + wb b1 \<or>
       p2 = Ready (Ok (of_nat (length T))) \<and> st2 = Transferred (of_nat (length T)) \<and> wa a2 + wb b2 \<le> wa a1 + wb b1"
      by (rule finishes)
    have "transfer_one_direction as bs (st, a, b) = Some (p2, st2, a2, b2)"
      using pc(1) p(1) f(1) Running by (simp add: transfer_one_direction_def)
    from that [OF this f(2,3) _ _ f(6)] f(4,5,7) x(3,4) p(5) show ?thesis by linarith
  qed
next
  case (ShuttingDown n)
  with assms have "n = of_nat (length T)" "da a [] u qa" "db b e T None" by (simp_all add: transferring_def)
  note n = this
  from n(2,3) obtain p2 st2 a2 b2 where f: "finish_transfer bs (of_nat (length T)) (a, b) = (p2, st2, a2, b2)"
    "da a2 [] u qa" "db b2 e T None" "sa a \<longrightarrow> sa a2" "sb b \<longrightarrow> sb b2" "transferring T st2 b2 [] T None"
    "p2 = Pending \<and> wa a2 + wb b2 < wa a + wb b \<or>
     p2 = Ready (Ok (of_nat (length T))) \<and> st2 = Transferred (of_nat (length T)) \<and> wa a2 + wb b2 \<le> wa a + wb b"
    by (rule finishes)
  have "transfer_one_direction as bs (st, a, b) = Some (p2, st2, a2, b2)"
    using ShuttingDown n(1) f(1) by (simp add: transfer_one_direction_def)
  then show ?thesis using f(2-7) by (rule that)
next
  case (Transferred n)
  then show ?thesis using that [of "Ready (Ok n)" st a b d t q] assms
    by (simp add: transfer_one_direction_def transferring_def)
qed

end

text \<open>Both directions between the same two streams.\<close>

locale bidirectional =
    ab: relay as da wa sa oa ia room bs db wb sb ob ib + ba: relay bs db wb sb ob ib room as da wa sa oa ia
  for as :: "'a async_stream" and da wa sa oa ia room and bs :: "'b async_stream" and db wb sb ob ib
begin

definition relaying :: "bytes \<Rightarrow> bytes \<Rightarrow> ('a, 'b) copy_bidirectional \<Rightarrow> bool" where
  "relaying T1 T2 st \<longleftrightarrow>
     (\<exists>d u qa e t q. da (bi_a st) d u qa \<and> db (bi_b st) e t q \<and>
        ab.transferring T1 (bi_a_to_b st) (bi_b st) d t q \<and> ba.transferring T2 (bi_b_to_a st) (bi_a st) e u qa)"

definition relay_waits :: "('a, 'b) copy_bidirectional \<Rightarrow> nat" where
  "relay_waits st = wa (bi_a st) + wb (bi_b st)"

definition relayed :: "bytes \<Rightarrow> bytes \<Rightarrow> ('a, 'b) copy_bidirectional \<Rightarrow> bool" where
  "relayed T1 T2 st \<longleftrightarrow> da (bi_a st) [] T2 None \<and> db (bi_b st) [] T1 None \<and> sa (bi_a st) \<and> sb (bi_b st)"

lemma transferring_shut:
  "ab.transferring T st b d t q \<Longrightarrow> sb b \<longrightarrow> sb b' \<Longrightarrow> ab.transferring T st b' d t q"
  "ba.transferring T st2 a d t q \<Longrightarrow> sa a \<longrightarrow> sa a' \<Longrightarrow> ba.transferring T st2 a' d t q"
  by (auto simp: ab.transferring_def ba.transferring_def split: transfer_state.splits)

lemma polls:
  assumes "relaying T1 T2 st"
  shows "\<exists>p st'. poll_impl as bs st = Some (p, st') \<and>
    (p = Pending \<and> relaying T1 T2 st' \<and> relay_waits st' < relay_waits st \<or>
     p = Ready (Ok (of_nat (length T1), of_nat (length T2))) \<and> relayed T1 T2 st')"
proof -
  from assms obtain d u qa e t q where x: "da (bi_a st) d u qa" "db (bi_b st) e t q"
    "ab.transferring T1 (bi_a_to_b st) (bi_b st) d t q" and ba: "ba.transferring T2 (bi_b_to_a st) (bi_a st) e u qa"
    unfolding relaying_def by blast
  from x obtain p1 s1 a1 b1 d1 t1 q1 where r1: "transfer_one_direction as bs (bi_a_to_b st, bi_a st, bi_b st) = Some (p1, s1, a1, b1)"
    "da a1 d1 u qa" "db b1 e t1 q1" "sa (bi_a st) \<longrightarrow> sa a1" "sb (bi_b st) \<longrightarrow> sb b1" "ab.transferring T1 s1 b1 d1 t1 q1"
    and p1: "p1 = Pending \<and> wa a1 + wb b1 < wa (bi_a st) + wb (bi_b st) \<or>
     p1 = Ready (Ok (of_nat (length T1))) \<and> s1 = Transferred (of_nat (length T1)) \<and> wa a1 + wb b1 \<le> wa (bi_a st) + wb (bi_b st)"
    by (rule ab.transfers)
  have "ba.transferring T2 (bi_b_to_a st) a1 e u qa" using transferring_shut(2) [OF ba r1(4)] .
  from r1(3,2) this obtain p2 s2 b2 a2 e2 u2 qa2 where r2: "transfer_one_direction bs as (bi_b_to_a st, b1, a1) = Some (p2, s2, b2, a2)"
    "db b2 e2 t1 q1" "da a2 d1 u2 qa2" "sb b1 \<longrightarrow> sb b2" "sa a1 \<longrightarrow> sa a2" "ba.transferring T2 s2 a2 e2 u2 qa2"
    and p2: "p2 = Pending \<and> wb b2 + wa a2 < wb b1 + wa a1 \<or>
     p2 = Ready (Ok (of_nat (length T2))) \<and> s2 = Transferred (of_nat (length T2)) \<and> wb b2 + wa a2 \<le> wb b1 + wa a1"
    by (rule ba.transfers)
  let ?st = "st\<lparr>bi_a_to_b := s1, bi_b_to_a := s2, bi_a := a2, bi_b := b2\<rparr>"
  have ab: "ab.transferring T1 s1 b2 d1 t1 q1" using transferring_shut(1) [OF r1(6) r2(4)] .
  have rel: "relaying T1 T2 ?st" unfolding relaying_def
    by (intro exI [of _ d1] exI [of _ u2] exI [of _ qa2] exI [of _ e2] exI [of _ t1] exI [of _ q1] conjI)
       (use r2 ab in simp_all)
  have e: "poll_impl as bs st = Some (fst (poll_bind (p1, ?st) (\<lambda>n1 st. poll_bind (p2, st) (\<lambda>n2 st. (Ready (Ok (n1, n2)), st)))), ?st)"
    using r1(1) r2(1) p1 p2 by (auto simp: poll_impl_def Let_def)
  show ?thesis
  proof (cases "p1 = Pending \<or> p2 = Pending")
    case True
    then have "poll_impl as bs st = Some (Pending, ?st)" using e p1 p2 by auto
    moreover have "relay_waits ?st < relay_waits st" using True p1 p2 by (auto simp: relay_waits_def)
    ultimately show ?thesis using rel by blast
  next
    case False
    then have f: "s1 = Transferred (of_nat (length T1))" "s2 = Transferred (of_nat (length T2))"
      "poll_impl as bs st = Some (Ready (Ok (of_nat (length T1), of_nat (length T2))), ?st)"
      using e p1 p2 by auto
    have "relayed T1 T2 ?st" using ab r2 f by (simp add: relayed_def ab.transferring_def ba.transferring_def)
    with f(3) show ?thesis by blast
  qed
qed

lemma relays:
  assumes "relaying T1 T2 st" "relay_waits st < n"
  shows "\<exists>st'. await_times n (poll_impl as bs) st = Some (Ready (Ok (of_nat (length T1), of_nat (length T2))), st') \<and>
    relayed T1 T2 st'"
  using assms
proof (induction n arbitrary: st)
  case (Suc n)
  from polls [OF Suc.prems(1)] obtain p st1 where p: "poll_impl as bs st = Some (p, st1)"
    "p = Pending \<and> relaying T1 T2 st1 \<and> relay_waits st1 < relay_waits st \<or>
     p = Ready (Ok (of_nat (length T1), of_nat (length T2))) \<and> relayed T1 T2 st1" by blast
  then show ?case using Suc.IH [of st1] Suc.prems(2) by auto
qed simp

lemma relaying_new:
  assumes "da a T1 [] None" "db b T2 [] None" "0 < n" "n \<le> room" "0 < m" "m \<le> room"
  shows "relaying T1 T2 (copy_bidirectional_new n m a b)"
  unfolding relaying_def
  by (intro exI [of _ T1] exI [of _ "[]"] exI [of _ None] exI [of _ T2] conjI)
     (use assms in \<open>simp_all add: copy_bidirectional_new_def ab.transferring_def ba.transferring_def copying_new\<close>)

end

section \<open>Plain sockets\<close>

text \<open>
  A socket without I/O errors, whose sink takes at least a byte whenever it is ready, and whose chunks
  are at most \<open>m\<close> bytes, unless no reader offers more room than that anyway.
\<close>

fun sink_clean :: "wr_event list \<Rightarrow> bool" where
  "sink_clean [] = True"
| "sink_clean (WrPending # es) = sink_clean es"
| "sink_clean (WrAccept n # es) = (0 < n \<and> sink_clean es)"
| "sink_clean (WrError _ # es) = False"

fun chunks_within :: "nat \<Rightarrow> rd_script \<Rightarrow> bool" where
  "chunks_within m [] = True"
| "chunks_within m (RdData bs # es) = (length bs \<le> m \<and> chunks_within m es)"
| "chunks_within m (_ # es) = chunks_within m es"

fun sink_waits :: "wr_event list \<Rightarrow> nat" where
  "sink_waits [] = 0"
| "sink_waits (WrPending # es) = Suc (sink_waits es)"
| "sink_waits (_ # es) = sink_waits es"

definition socket_clean :: "nat \<Rightarrow> nat \<Rightarrow> tcp_socket \<Rightarrow> bool" where
  "socket_clean m room so \<longleftrightarrow> clean_script (so_source so) \<and> (chunks_within m (so_source so) \<or> room \<le> m) \<and>
     sink_clean (sink_script (so_sink so))"

definition socket_dx :: "nat \<Rightarrow> nat \<Rightarrow> tcp_socket \<Rightarrow> bytes \<Rightarrow> bytes \<Rightarrow> bytes option \<Rightarrow> bool" where
  "socket_dx m room so d t q \<longleftrightarrow>
     socket_clean m room so \<and> script_bytes (so_source so) = d \<and> sink_bytes (so_sink so) = t"

definition socket_waits :: "tcp_socket \<Rightarrow> nat" where
  "socket_waits so = script_pendings (so_source so) + sink_waits (sink_script (so_sink so))"

lemma poll_read_law:
  assumes "clean_script es" "0 < k" "poll_read k es = (p, es')"
  shows "clean_script es' \<and> (chunks_within m es \<longrightarrow> chunks_within m es') \<and>
    (p = Pending \<and> script_bytes es' = script_bytes es \<and> script_pendings es' < script_pendings es \<or>
     (\<exists>x. p = Ready (Ok x) \<and> script_bytes es = x @ script_bytes es' \<and> length x \<le> k \<and> (chunks_within m es \<longrightarrow> length x \<le> m) \<and>
        (x = [] \<longrightarrow> script_bytes es = []) \<and> script_pendings es' \<le> script_pendings es))"
  using assms by (cases "(k, es)" rule: poll_read.cases) (auto split: if_splits)

lemma poll_write_law:
  assumes "sink_clean (sink_script s)" "b \<noteq> []" "poll_write b s = (p, s')"
  shows "sink_clean (sink_script s') \<and>
    (p = Pending \<and> sink_bytes s' = sink_bytes s \<and> sink_waits (sink_script s') < sink_waits (sink_script s) \<or>
     (\<exists>n. p = Ready (Ok n) \<and> 0 < n \<and> n \<le> length b \<and> sink_bytes s' = sink_bytes s @ take n b \<and>
        sink_waits (sink_script s') \<le> sink_waits (sink_script s)))"
  using assms by (auto simp: poll_write_def Let_def split: list.splits wr_event.splits)

lemma sink_poll_law:
  assumes "sink_clean (sink_script s)" "sink_poll s = (p, s')"
  shows "sink_clean (sink_script s') \<and> sink_bytes s' = sink_bytes s \<and>
    (p = Pending \<and> sink_waits (sink_script s') < sink_waits (sink_script s) \<or>
     p = Ready (Ok ()) \<and> sink_waits (sink_script s') \<le> sink_waits (sink_script s))"
  using assms by (auto simp: sink_poll_def split: list.splits wr_event.splits)

interpretation sk: duplex socket_ops "socket_dx m room" socket_waits so_shut m n room for m n room
proof
  fix s d t q k
  assume "socket_dx m room s d t q" "(0::nat) < k" "k \<le> room"
  moreover obtain p es where p: "poll_read k (so_source s) = (p, es)" by force
  ultimately show "duplex_law socket_waits so_shut s (as_read socket_ops k s) (\<lambda>s. socket_dx m room s d t q)
      (\<lambda>x s. \<exists>d'. d = x @ d' \<and> length x \<le> k \<and> length x \<le> m \<and> (x = [] \<longrightarrow> d = []) \<and> socket_dx m room s d' t q)"
    using poll_read_law [OF _ _ p, of m]
    by (auto simp: p duplex_law_def socket_dx_def socket_clean_def socket_waits_def socket_ops_def socket_poll_read_def
        Let_def split: prod.splits)
next
  fix s d t q and b :: bytes
  assume "socket_dx m room s d t q" "b \<noteq> []"
  then show "duplex_law socket_waits so_shut s (as_write socket_ops b s) (\<lambda>s. socket_dx m room s d t (Some b))
      (\<lambda>n s. 0 < n \<and> n \<le> length b \<and> socket_dx m room s d (t @ take n b) None)"
    using poll_write_law [of "so_sink s" b "fst (poll_write b (so_sink s))" "snd (poll_write b (so_sink s))"]
    by (auto simp: duplex_law_def socket_dx_def socket_clean_def socket_waits_def socket_ops_def socket_poll_write_def
        Let_def split: prod.splits)
next
  fix s d t
  assume d: "socket_dx m room s d t None"
  then show "duplex_law socket_waits so_shut s (as_flush socket_ops s) (\<lambda>s. socket_dx m room s d t None)
      (\<lambda>_ s. socket_dx m room s d t None)"
    using sink_poll_law [of "so_sink s" "fst (sink_poll (so_sink s))" "snd (sink_poll (so_sink s))"]
    by (auto simp: duplex_law_def socket_dx_def socket_clean_def socket_waits_def socket_ops_def socket_poll_flush_def
        Let_def split: prod.splits)
  show "duplex_law socket_waits so_shut s (as_shutdown socket_ops s) (\<lambda>s. socket_dx m room s d t None)
      (\<lambda>_ s. socket_dx m room s d t None \<and> so_shut s)"
    using d sink_poll_law [of "so_sink s" "fst (sink_poll (so_sink s))" "snd (sink_poll (so_sink s))"]
    by (auto simp: duplex_law_def socket_dx_def socket_clean_def socket_waits_def socket_ops_def socket_poll_shutdown_def
        Let_def split: prod.splits)
qed

interpretation sks: relay socket_ops "socket_dx m room" socket_waits so_shut m m room
    socket_ops "socket_dx m room" socket_waits so_shut m m for m room
  by unfold_locales simp

interpretation skb: bidirectional socket_ops "socket_dx m room" socket_waits so_shut m m room
    socket_ops "socket_dx m room" socket_waits so_shut m m for m room ..

section \<open>Properties\<close>

text \<open>C7: Two connections without I/O errors are relayed completely: the copy returns after at most one poll
  more than there are pauses, each side has received exactly what the other one sent, in order, both are
  shut down, and the two counts are the lengths of the texts.\<close>

theorem copy_bidirectional_delivers:
  assumes "clean_script (so_source a)" "sink_clean (sink_script (so_sink a))" "sink_bytes (so_sink a) = []"
    and "clean_script (so_source b)" "sink_clean (sink_script (so_sink b))" "sink_bytes (so_sink b) = []"
    and "socket_waits a + socket_waits b < n"
  shows "\<exists>st. await_times n (poll_impl socket_ops socket_ops) (copy_bidirectional a b) =
      Some (Ready (Ok (of_nat (length (script_bytes (so_source a))), of_nat (length (script_bytes (so_source b))))), st) \<and>
    sink_bytes (so_sink (bi_b st)) = script_bytes (so_source a) \<and>
    sink_bytes (so_sink (bi_a st)) = script_bytes (so_source b) \<and> so_shut (bi_a st) \<and> so_shut (bi_b st)"
proof -
  let ?m = "8192"
  have "socket_dx ?m ?m a (script_bytes (so_source a)) [] None" "socket_dx ?m ?m b (script_bytes (so_source b)) [] None"
    using assms by (simp_all add: socket_dx_def socket_clean_def)
  then have "skb.relaying ?m ?m (script_bytes (so_source a)) (script_bytes (so_source b)) (copy_bidirectional a b)"
    unfolding copy_bidirectional_def by (rule skb.relaying_new) simp_all
  moreover have "skb.relay_waits (copy_bidirectional a b) < n"
    using assms(7) by (simp add: skb.relay_waits_def copy_bidirectional_def copy_bidirectional_new_def)
  ultimately obtain st where "await_times n (poll_impl socket_ops socket_ops) (copy_bidirectional a b) =
      Some (Ready (Ok (of_nat (length (script_bytes (so_source a))), of_nat (length (script_bytes (so_source b))))), st)"
    "skb.relayed ?m ?m (script_bytes (so_source a)) (script_bytes (so_source b)) st"
    using skb.relays by blast
  then show ?thesis by (intro exI [of _ st]) (simp add: skb.relayed_def socket_dx_def)
qed

definition sample_socket_a :: tcp_socket where
  "sample_socket_a = \<lparr>so_source = [RdData [1, 2], RdPending, RdData [3]],
     so_sink = \<lparr>sink_bytes = [], sink_script = [WrAccept 1, WrPending]\<rparr>, so_shut = False\<rparr>"

definition sample_socket_b :: tcp_socket where
  "sample_socket_b = \<lparr>so_source = [RdPending, RdData [7, 8]],
     so_sink = \<lparr>sink_bytes = [], sink_script = [WrPending]\<rparr>, so_shut = False\<rparr>"

theorem copy_bidirectional_delivers_witness:
  "\<exists>st. await_times 5 (poll_impl socket_ops socket_ops) (copy_bidirectional sample_socket_a sample_socket_b) =
      Some (Ready (Ok (3, 2)), st) \<and>
    sink_bytes (so_sink (bi_b st)) = [1, 2, 3] \<and> sink_bytes (so_sink (bi_a st)) = [7, 8] \<and>
    so_shut (bi_a st) \<and> so_shut (bi_b st)"
  using copy_bidirectional_delivers [of sample_socket_a sample_socket_b 5]
  by (simp add: sample_socket_a_def sample_socket_b_def socket_waits_def)

end
