(* ===== verification/Async_Header.thy ===== *)
theory Async_Header
  imports Tcp_Copy Tcp_Protocol
begin

text \<open>
  The request header as the server really reads it, \<open>TcpRequestHeader::read_from(..).await\<close>: reads that
  may be pending, on a stream known only through \<open>AsyncRead\<close>. On every stream that keeps the laws of
  \<open>duplex\<close> the asynchronous readers implement the blocking ones of \<open>Socks5\<close> and \<open>Tcp_Protocol\<close>.
\<close>

section \<open>Awaiting\<close>

text \<open>
  The result of an \<open>async fn\<close> on a stream: \<open>None\<close> when it is never ready. \<open>await_bind\<close> is \<open>.await?\<close>.
\<close>

type_synonym ('a, 'e, 's) await = "'s \<Rightarrow> (('a, 'e) outcome \<times> 's) option"

definition await_ok :: "'a \<Rightarrow> ('a, 'e, 's) await" where
  "await_ok x s = Some (Ok x, s)"

definition await_err :: "'e \<Rightarrow> ('a, 'e, 's) await" where
  "await_err e s = Some (Err e, s)"

definition await_bind :: "('a, 'e, 's) await \<Rightarrow> ('a \<Rightarrow> ('b, 'e, 's) await) \<Rightarrow> ('b, 'e, 's) await" where
  "await_bind m f s =
     (case m s of
        None \<Rightarrow> None
      | Some (Ok x, s) \<Rightarrow> f x s
      | Some (Err e, s) \<Rightarrow> Some (Err e, s)
      | Some (Panic, s) \<Rightarrow> Some (Panic, s))"

definition await_map_err :: "('e \<Rightarrow> 'f) \<Rightarrow> ('a, 'e, 's) await \<Rightarrow> ('a, 'f, 's) await" where
  "await_map_err g m s = (case m s of None \<Rightarrow> None | Some (r, s) \<Rightarrow> Some (map_err g r, s))"

text \<open>\<open>AsyncReadExt::read_exact\<close> into a buffer of \<open>n\<close> bytes of which \<open>acc\<close> is filled.\<close>

partial_function (option) await_read_exact ::
    "'s async_stream \<Rightarrow> nat \<Rightarrow> bytes \<Rightarrow> 's \<Rightarrow> ((bytes, io_kind) outcome \<times> 's) option" where
  "await_read_exact ops n acc s =
     (if length acc < n then
        (case as_read ops (n - length acc) s of
           (Pending, s) \<Rightarrow> await_read_exact ops n acc s
         | (Ready (Err e), s) \<Rightarrow> Some (Err e, s)
         | (Ready Panic, s) \<Rightarrow> Some (Panic, s)
         | (Ready (Ok d), s) \<Rightarrow> if d = [] then Some (Err UnexpectedEof, s) else await_read_exact ops n (acc @ d) s)
      else Some (Ok acc, s))"

text \<open>The loop over \<open>reader.take(n).read(&mut [0u8; 64])\<close>.\<close>

partial_function (option) await_skip ::
    "'s async_stream \<Rightarrow> nat \<Rightarrow> 's \<Rightarrow> ((unit, io_kind) outcome \<times> 's) option" where
  "await_skip ops n s =
     (if n = 0 then Some (Ok (), s)
      else
        (case as_read ops (min 64 n) s of
           (Pending, s) \<Rightarrow> await_skip ops n s
         | (Ready (Err e), s) \<Rightarrow> Some (Err e, s)
         | (Ready Panic, s) \<Rightarrow> Some (Panic, s)
         | (Ready (Ok d), s) \<Rightarrow> if d = [] then Some (Ok (), s) else await_skip ops (n - length d) s))"

section \<open>Reading the header\<close>

definition await_exact :: "'s async_stream \<Rightarrow> nat \<Rightarrow> (bytes, error, 's) await" where
  "await_exact ops n = await_map_err IoError (await_read_exact ops n [])"

definition await_address :: "'s async_stream \<Rightarrow> (address, error, 's) await" where
  "await_address ops =
     await_bind (await_exact ops 1) (\<lambda>addr_type_buf.
       let addr_type = addr_type_buf ! 0 in
       if addr_type = 0x01 then
         await_bind (await_exact ops 6) (\<lambda>buf.
           await_ok (SocketAddress (SockV4 (ipv4_new (buf ! 0) (buf ! 1) (buf ! 2) (buf ! 3))
                                           (from_be [buf ! 4, buf ! 5]))))
       else if addr_type = 0x04 then
         await_bind (await_exact ops 18) (\<lambda>bytes_buf.
           let buf = map (\<lambda>i. from_be (take 2 (drop (2 * i) bytes_buf)) :: u16) [0..<9] in
           await_ok (SocketAddress (SockV6 (ipv6_new (take 8 buf)) (buf ! 8) 0 0)))
       else if addr_type = 0x03 then
         await_bind (await_exact ops 1) (\<lambda>length_buf.
           let length = unat (length_buf ! 0); buf_length = length + 2 in
           await_bind (await_exact ops buf_length) (\<lambda>raw_addr.
             let raw_port = drop length raw_addr; port = from_be [raw_port ! 0, raw_port ! 1] in
             (case from_utf8 (take length raw_addr) of
                Some addr \<Rightarrow> await_ok (DomainNameAddress addr port)
              | None \<Rightarrow> await_err AddressDomainInvalidEncoding)))
       else await_err (AddressTypeNotSupported addr_type))"

definition await_v1 :: "'s async_stream \<Rightarrow> (stream_tcp_header, io_kind, 's) await" where
  "await_v1 ops = await_bind (await_map_err error_into_io (await_address ops)) (\<lambda>a. await_ok \<lparr>v1_addr = a\<rparr>)"

definition await_v2 :: "'s async_stream \<Rightarrow> (aead2022_tcp_header, io_kind, 's) await" where
  "await_v2 ops =
     await_bind (await_map_err error_into_io (await_address ops)) (\<lambda>a.
     await_bind (await_read_exact ops 2 []) (\<lambda>padding_size_buffer.
       let padding_size = from_be padding_size_buffer in
       await_bind (if padding_size > 0 then await_skip ops (unat padding_size) else await_ok ()) (\<lambda>_.
         await_ok \<lparr>v2_addr = a, v2_padding_size = padding_size\<rparr>)))"

definition await_tcp_header :: "'s async_stream \<Rightarrow> cipher_kind \<Rightarrow> (tcp_header, io_kind, 's) await" where
  "await_tcp_header ops method =
     (case kind_category method of
        CatAead2022 \<Rightarrow> await_bind (await_v2 ops) (\<lambda>h. await_ok (Aead2022Header h))
      | _ \<Rightarrow> await_bind (await_v1 ops) (\<lambda>h. await_ok (StreamHeader h)))"

section \<open>The asynchronous readers implement the blocking ones\<close>

context duplex
begin

text \<open>
  \<open>f\<close> does on every stream what the blocking reader \<open>g\<close> does on the text that the stream still delivers,
  and leaves the rest to be read.
\<close>

definition implements :: "('a, 'e, 's) await \<Rightarrow> (reader \<Rightarrow> ('a \<times> reader, 'e) outcome) \<Rightarrow> bool" where
  "implements f g \<longleftrightarrow>
     (\<forall>s d t q. dx s d t q \<longrightarrow>
        (case g (d, Eof) of
           Ok (x, r) \<Rightarrow> \<exists>s'. f s = Some (Ok x, s') \<and> dx s' (fst r) t q \<and> snd r = Eof \<and> waits s' \<le> waits s \<and> (shut s \<longrightarrow> shut s')
         | Err e \<Rightarrow> \<exists>s'. f s = Some (Err e, s')
         | Panic \<Rightarrow> \<exists>s'. f s = Some (Panic, s')))"

lemma implements_Ok:
  assumes "implements f g" "dx s d t q" "g (d, Eof) = Ok (x, r)"
  obtains s' where "f s = Some (Ok x, s')" "dx s' (fst r) t q" "r = (fst r, Eof)" "waits s' \<le> waits s" "shut s \<longrightarrow> shut s'"
  using assms unfolding implements_def by (cases r) fastforce

lemma implements_bind:
  assumes "implements f g" "\<And>x. implements (f' x) (g' x)"
  shows "implements (await_bind f f') (\<lambda>r. and_then (g r) (\<lambda>(x, r). g' x r))"
  unfolding implements_def
proof (intro allI impI)
  fix s d t q
  assume dx: "dx s d t q"
  show "case and_then (g (d, Eof)) (\<lambda>(x, r). g' x r) of
      Ok (x, r) \<Rightarrow> \<exists>s'. await_bind f f' s = Some (Ok x, s') \<and> dx s' (fst r) t q \<and> snd r = Eof \<and> waits s' \<le> waits s \<and> (shut s \<longrightarrow> shut s')
    | Err e \<Rightarrow> \<exists>s'. await_bind f f' s = Some (Err e, s')
    | Panic \<Rightarrow> \<exists>s'. await_bind f f' s = Some (Panic, s')"
  proof (cases "g (d, Eof)")
    case (Ok xr)
    obtain x r where xr: "xr = (x, r)" by (cases xr)
    obtain s1 where s1: "f s = Some (Ok x, s1)" "dx s1 (fst r) t q" "r = (fst r, Eof)" "waits s1 \<le> waits s" "shut s \<longrightarrow> shut s1"
      by (rule implements_Ok [OF assms(1) dx Ok [unfolded xr]])
    show ?thesis
    proof (cases "g' x r")
      case (Ok yr)
      obtain y r2 where yr: "yr = (y, r2)" by (cases yr)
      have "g' x (fst r, Eof) = Ok (y, r2)" using Ok yr s1(3) by simp
      from implements_Ok [OF assms(2) s1(2) this] obtain s2 where "f' x s1 = Some (Ok y, s2)" "dx s2 (fst r2) t q"
        "r2 = (fst r2, Eof)" "waits s2 \<le> waits s1" "shut s1 \<longrightarrow> shut s2" by blast
      then show ?thesis using s1 Ok yr \<open>g (d, Eof) = _\<close> xr by (auto simp: await_bind_def prod_eq_iff)
    next
      case (Err e)
      then have "g' x (fst r, Eof) = Err e" using s1(3) by simp
      then have "\<exists>s2. f' x s1 = Some (Err e, s2)" using assms(2) [of x] s1(2) unfolding implements_def by fastforce
      then show ?thesis using s1 Err \<open>g (d, Eof) = _\<close> xr by (auto simp: await_bind_def)
    next
      case Panic
      then have "g' x (fst r, Eof) = Panic" using s1(3) by simp
      then have "\<exists>s2. f' x s1 = Some (Panic, s2)" using assms(2) [of x] s1(2) unfolding implements_def by fastforce
      then show ?thesis using s1 Panic \<open>g (d, Eof) = _\<close> xr by (auto simp: await_bind_def)
    qed
  next
    case (Err e)
    then have "\<exists>s1. f s = Some (Err e, s1)" using assms(1) dx unfolding implements_def by fastforce
    then show ?thesis using Err by (auto simp: await_bind_def)
  next
    case Panic
    then have "\<exists>s1. f s = Some (Panic, s1)" using assms(1) dx unfolding implements_def by fastforce
    then show ?thesis using Panic by (auto simp: await_bind_def)
  qed
qed

lemma implements_ok: "implements (await_ok x) (\<lambda>r. Ok (x, r))"
  by (auto simp: implements_def await_ok_def)

lemma implements_err: "implements (await_err e) (\<lambda>r. Err e)"
  by (auto simp: implements_def await_err_def)

lemma implements_map_err:
  assumes "implements f g"
  shows "implements (await_map_err h f) (\<lambda>r. map_err h (g r))"
  using assms unfolding implements_def await_map_err_def by (fastforce split: outcome.splits)

lemma await_read_exact:
  assumes "dx s d t q" "length acc \<le> n" "n \<le> room"
  shows "(n \<le> length acc + length d \<longrightarrow>
      (\<exists>s'. await_read_exact ops n acc s = Some (Ok (acc @ take (n - length acc) d), s') \<and>
         dx s' (drop (n - length acc) d) t q \<and> waits s' \<le> waits s \<and> (shut s \<longrightarrow> shut s'))) \<and>
    (length acc + length d < n \<longrightarrow> (\<exists>s'. await_read_exact ops n acc s = Some (Err UnexpectedEof, s')))"
  using assms
proof (induction "waits s + length d" arbitrary: s d acc rule: less_induct)
  case less
  note unfold = await_read_exact.simps [of ops n acc s]
  show ?case
  proof (cases "length acc < n")
    case False
    then show ?thesis using less.prems by (auto simp: unfold)
  next
    case True
    obtain p s1 where r: "as_read ops (n - length acc) s = (p, s1)" by force
    have "duplex_law waits shut s (p, s1) (\<lambda>s. dx s d t q)
        (\<lambda>x s. \<exists>d'. d = x @ d' \<and> length x \<le> n - length acc \<and> length x \<le> deliver \<and> (x = [] \<longrightarrow> d = []) \<and> dx s d' t q)"
      using reads [OF less.prems(1), of "n - length acc"] True less.prems(3) r by simp
    then show ?thesis
    proof (cases rule: duplex_lawE)
      case again
      have "await_read_exact ops n acc s = await_read_exact ops n acc s1" using True r again by (simp add: unfold)
      then show ?thesis using less.hyps [OF _ again(2) less.prems(2,3)] again(3,4) by fastforce
    next
      case (finished x)
      then obtain d' where d': "d = x @ d'" "length x \<le> n - length acc" "x = [] \<longrightarrow> d = []" "dx s1 d' t q" by blast
      show ?thesis
      proof (cases "x = []")
        case empty: True
        then show ?thesis using d' True r finished by (simp add: unfold)
      next
        case False
        have e: "await_read_exact ops n acc s = await_read_exact ops n (acc @ x) s1"
          using True r finished False by (simp add: unfold)
        have l: "length (acc @ x) \<le> n" "waits s1 + length d' < waits s + length d"
          using d' True finished False by (auto simp: neq_Nil_conv)
        from less.hyps [OF l(2) d'(4) l(1) less.prems(3)] show ?thesis
          unfolding e using d'(1,2) finished(3,4) by auto
      qed
    qed
  qed
qed

lemma await_skip:
  assumes "dx s d t q" "64 \<le> room"
  shows "\<exists>s'. await_skip ops n s = Some (Ok (), s') \<and> dx s' (drop n d) t q \<and> waits s' \<le> waits s \<and> (shut s \<longrightarrow> shut s')"
  using assms
proof (induction "waits s + length d" arbitrary: s d n rule: less_induct)
  case less
  note unfold = await_skip.simps [of ops n s]
  show ?case
  proof (cases "n = 0")
    case True
    then have "await_skip ops n s = Some (Ok (), s)" using await_skip.simps [of ops 0 s] by simp
    with True less.prems(1) show ?thesis by simp
  next
    case False
    obtain p s1 where r: "as_read ops (min 64 n) s = (p, s1)" by force
    have "duplex_law waits shut s (p, s1) (\<lambda>s. dx s d t q)
        (\<lambda>x s. \<exists>d'. d = x @ d' \<and> length x \<le> min 64 n \<and> length x \<le> deliver \<and> (x = [] \<longrightarrow> d = []) \<and> dx s d' t q)"
      using reads [OF less.prems(1), of "min 64 n"] False less.prems(2) r by simp
    then show ?thesis
    proof (cases rule: duplex_lawE)
      case again
      have "await_skip ops n s = await_skip ops n s1" using False r again by (simp add: unfold)
      then show ?thesis using less.hyps [OF _ again(2) less.prems(2), of n] again(3,4) by fastforce
    next
      case (finished x)
      then obtain d' where d': "d = x @ d'" "length x \<le> min 64 n" "x = [] \<longrightarrow> d = []" "dx s1 d' t q" by blast
      show ?thesis
      proof (cases "x = []")
        case True
        then have "d = []" "d' = []" using d' by auto
        then show ?thesis using True d'(4) False r finished by (auto simp: unfold)
      next
        case ne: False
        have e: "await_skip ops n s = await_skip ops (n - length x) s1" using False r finished ne by (simp add: unfold)
        have l: "waits s1 + length d' < waits s + length d" using d' finished ne by (auto simp: neq_Nil_conv)
        from less.hyps [OF l d'(4) less.prems(2), of "n - length x"] show ?thesis
          unfolding e using d'(1,2) finished(3,4) by auto
      qed
    qed
  qed
qed

lemma implements_read_exact: "n \<le> room \<Longrightarrow> implements (await_read_exact ops n []) (read_exact n)"
  using await_read_exact [where acc = "[]" and n = n] by (auto simp: implements_def read_exact_def)

lemma implements_exact: "n \<le> room \<Longrightarrow> implements (await_exact ops n) (read_exact5 n)"
  unfolding await_exact_def read_exact5_def [abs_def] by (intro implements_map_err implements_read_exact)

lemma skip_padding_Eof: "skip_padding n (d, Eof) = Ok (drop n d, Eof)"
proof (cases "n \<le> length d")
  case True
  then show ?thesis using skip_padding_append [of "take n d" n "drop n d"] by simp
next
  case False
  then show ?thesis using skip_padding_short [of d n Eof] by simp
qed

lemma implements_skip:
  assumes "64 \<le> room"
  shows "implements (await_skip ops n) (\<lambda>r. and_then (skip_padding n r) (\<lambda>r. Ok ((), r)))"
  unfolding implements_def
proof (intro allI impI)
  fix s d t q
  assume "dx s d t q"
  from await_skip [OF this assms, of n] show "case and_then (skip_padding n (d, Eof)) (\<lambda>r. Ok ((), r)) of
      Ok (x, r) \<Rightarrow> \<exists>s'. await_skip ops n s = Some (Ok x, s') \<and> dx s' (fst r) t q \<and> snd r = Eof \<and> waits s' \<le> waits s \<and> (shut s \<longrightarrow> shut s')
    | Err e \<Rightarrow> \<exists>s'. await_skip ops n s = Some (Err e, s')
    | Panic \<Rightarrow> \<exists>s'. await_skip ops n s = Some (Panic, s')" by (simp add: skip_padding_Eof)
qed

lemma implements_if:
  "(b \<Longrightarrow> implements f g) \<Longrightarrow> (\<not> b \<Longrightarrow> implements f' g') \<Longrightarrow>
    implements (if b then f else f') (\<lambda>r. if b then g r else g' r)"
  by (cases b) auto

lemma implements_option:
  "implements f g \<Longrightarrow> (\<And>x. implements (f' x) (g' x)) \<Longrightarrow>
    implements (case z of None \<Rightarrow> f | Some x \<Rightarrow> f' x) (\<lambda>r. case z of None \<Rightarrow> g r | Some x \<Rightarrow> g' x r)"
  by (cases z) auto

lemma unat_u8_less: "unat (x :: u8) < 256"
  using unsigned_less [of x] by simp

lemma implements_address:
  assumes "257 \<le> room"
  shows "implements (await_address ops) address_read_from"
proof -
  have l: "unat (x :: u8) + 2 \<le> room" for x using unat_u8_less [of x] assms by linarith
  show ?thesis
    unfolding await_address_def address_read_from_def [abs_def] Let_def
    by (intro implements_bind implements_if implements_ok implements_err implements_exact implements_option l)
       (use assms in simp_all)
qed

lemma implements_v1: "257 \<le> room \<Longrightarrow> implements (await_v1 ops) v1_read_from"
  unfolding await_v1_def v1_read_from_def [abs_def]
  by (intro implements_bind implements_map_err implements_address implements_ok)

lemma v2_read_from_alt:
  "v2_read_from = (\<lambda>r. and_then (map_err error_into_io (address_read_from r)) (\<lambda>(a, r).
     and_then (read_exact 2 r) (\<lambda>(b, r).
       and_then (if from_be b > (0 :: u16) then and_then (skip_padding (unat (from_be b :: u16)) r) (\<lambda>r. Ok ((), r)) else Ok ((), r))
         (\<lambda>(_, r). Ok (\<lparr>v2_addr = a, v2_padding_size = from_be b\<rparr>, r)))))"
  proof (rule ext)
  fix r
  have e: "and_then (if c then skip_padding n r else Ok r) f =
      and_then (if c then and_then (skip_padding n r) (\<lambda>r. Ok ((), r)) else Ok ((), r)) (\<lambda>(_, r). f r)"
    for c n r and f :: "reader \<Rightarrow> (aead2022_tcp_header \<times> reader, io_kind) outcome"
    by (cases "skip_padding n r") auto
  show "v2_read_from r = and_then (map_err error_into_io (address_read_from r)) (\<lambda>(a, r).
     and_then (read_exact 2 r) (\<lambda>(b, r).
       and_then (if from_be b > (0 :: u16) then and_then (skip_padding (unat (from_be b :: u16)) r) (\<lambda>r. Ok ((), r)) else Ok ((), r))
         (\<lambda>(_, r). Ok (\<lparr>v2_addr = a, v2_padding_size = from_be b\<rparr>, r))))"
    unfolding v2_read_from_def Let_def e ..
qed

lemma implements_v2: "257 \<le> room \<Longrightarrow> implements (await_v2 ops) v2_read_from"
  unfolding await_v2_def v2_read_from_alt Let_def
  by (intro implements_bind implements_map_err implements_address implements_ok implements_read_exact implements_if
      implements_skip) simp_all

text \<open>The header reader of the server.\<close>

lemma implements_header: "257 \<le> room \<Longrightarrow> implements (await_tcp_header ops method) (tcp_header_read_from method)"
  unfolding await_tcp_header_def tcp_header_read_from_def [abs_def]
  by (cases "kind_category method"; simp only: cipher_category.case;
      intro implements_bind implements_v1 implements_v2 implements_ok)

end

end
