(* ===== verification/Proxy_Stream.thy ===== *)
theory Proxy_Stream
  imports Async_Header
begin

text \<open>
  The two ends of a tunnel, \<open>relay/tcprelay/proxy_stream/client.rs\<close> and \<open>server.rs\<close>: the client puts the
  target address in front of the first buffer it writes, the server reads it in its handshake; both check
  what ties an AEAD-2022 response to its request.
\<close>

section \<open>The client\<close>

datatype client_write_state = Connect address | Connecting bytes | Connected

datatype client_read_state = CheckRequestNonce | ClientEstablished

record 'c client_stream =
  pc_stream :: "'c crypto_stream"
  pc_writer_state :: client_write_state
  pc_reader_state :: client_read_state

text \<open>The streams stand beside the shared context that their reads check salts in.\<close>

definition client_from_stream ::
    "('c, 'd, 'b, 's) tcp_env \<Rightarrow> ('b, 's) ss_context \<Rightarrow> tcp_socket \<Rightarrow> 'w server_config \<Rightarrow> address \<Rightarrow> (nat \<times> bytes) list
     \<Rightarrow> ('c client_stream \<times> ('b, 's) ss_context, 'e) outcome option" where
  "client_from_stream env ctx stream svr_cfg addr draws =
     (case from_stream_with_identity env ctx stream ClientStream (svr_method svr_cfg) (svr_enc_key svr_cfg)
             (svr_identity_keys svr_cfg) None draws of
        None \<Rightarrow> None
      | Some r \<Rightarrow> Some (and_then r (\<lambda>(cs, ctx).
          Ok (\<lparr>pc_stream = cs, pc_writer_state = Connect addr,
               pc_reader_state = (if kind_is_aead_2022 (svr_method svr_cfg) then CheckRequestNonce else ClientEstablished)\<rparr>,
              ctx))))"

text \<open>
  \<open>connect_with_opts_map\<close>: \<open>attempt\<close> is what connecting to the server's address will come to, and the
  time it takes.
\<close>

definition client_connect ::
    "('c, 'd, 'b, 's) tcp_env \<Rightarrow> ('b, 's) ss_context \<Rightarrow> (server_addr \<Rightarrow> nat \<times> (tcp_socket, io_kind) outcome)
     \<Rightarrow> 'w server_config \<Rightarrow> address \<Rightarrow> (nat \<times> bytes) list
     \<Rightarrow> ('c client_stream \<times> ('b, 's) ss_context, io_kind) outcome option" where
  "client_connect env ctx attempt svr_cfg addr draws =
     (let (elapsed, r) = attempt (tcp_external_addr svr_cfg);
          r = (case svr_timeout svr_cfg of
                 Some d \<Rightarrow> if d < elapsed then Err TimedOut else r
               | None \<Rightarrow> r)
      in case r of
           Ok stream \<Rightarrow> client_from_stream env ctx stream svr_cfg addr draws
         | Err e \<Rightarrow> Some (Err e)
         | Panic \<Rightarrow> Some Panic)"

definition client_poll_read ::
    "('c, 'd, 'b, 's) tcp_env \<Rightarrow> nat \<Rightarrow> 'c client_stream \<times> ('b, 's) ss_context
     \<Rightarrow> (bytes, io_kind) poll \<times> 'c client_stream \<times> ('b, 's) ss_context" where
  "client_poll_read env remaining w =
     (let (ps, ctx) = w;
          (p, cs, ctx) = crypto_poll_read env remaining (pc_stream ps, ctx);
          res = poll_map_err protocol_error_into_io (p, ps\<lparr>pc_stream := cs\<rparr>, ctx)
      in case pc_reader_state ps of
           ClientEstablished \<Rightarrow> res
         | CheckRequestNonce \<Rightarrow> poll_bind res (\<lambda>data (ps, ctx).
             (case crypto_current_data_chunk_remaining (pc_stream ps) of
                Ok (data_chunk_count, _) \<Rightarrow>
                  if data_chunk_count > 0 then
                    let nonce = sent_nonce (pc_stream ps);
                        nonce = (if nonce = [] then None else Some nonce)
                    in if nonce \<noteq> received_request_nonce (pc_stream ps) then (Ready (Err OtherError), ps, ctx)
                       else (Ready (Ok data), ps\<lparr>pc_reader_state := ClientEstablished\<rparr>, ctx)
                  else (Ready (Ok data), ps, ctx)
              | Err e \<Rightarrow> (Ready (Err e), ps, ctx)
              | Panic \<Rightarrow> (Ready Panic, ps, ctx))))"

text \<open>Sending the first packet; the number of bytes that the tunnel took is not looked at.\<close>

definition client_write_first ::
    "('c, 'd, 'b, 's) tcp_env \<Rightarrow> bytes \<Rightarrow> bytes \<Rightarrow> 'c client_stream
     \<Rightarrow> (nat, io_kind) poll \<times> 'c client_stream" where
  "client_write_first env buffer buf ps =
     (let (p, cs) = crypto_poll_write env buffer (pc_stream ps)
      in poll_bind (poll_map_err protocol_error_into_io (p, ps\<lparr>pc_stream := cs\<rparr>)) (\<lambda>n ps.
           (Ready (Ok (length buf)), ps\<lparr>pc_writer_state := Connected\<rparr>)))"

definition client_poll_write ::
    "('c, 'd, 'b, 's) tcp_env \<Rightarrow> nat \<Rightarrow> bytes \<Rightarrow> 'c client_stream
     \<Rightarrow> (nat, io_kind) poll \<times> 'c client_stream" where
  "client_poll_write env rnd buf ps =
     (case pc_writer_state ps of
        Connect addr \<Rightarrow>
          (case make_first_packet_buffer rnd (te_mem env) (cs_method (pc_stream ps)) addr buf of
             Ok buffer \<Rightarrow> client_write_first env buffer buf (ps\<lparr>pc_writer_state := Connecting buffer\<rparr>)
           | Err e \<Rightarrow> (Ready (Err e), ps)
           | Panic \<Rightarrow> (Ready Panic, ps))
      | Connecting buffer \<Rightarrow> client_write_first env buffer buf ps
      | Connected \<Rightarrow>
          let (p, cs) = crypto_poll_write env buf (pc_stream ps)
          in poll_map_err protocol_error_into_io (p, ps\<lparr>pc_stream := cs\<rparr>))"

definition client_poll_flush :: "'c client_stream \<Rightarrow> (unit, io_kind) poll \<times> 'c client_stream" where
  "client_poll_flush ps =
     (let (p, cs) = crypto_poll_flush (pc_stream ps)
      in poll_map_err protocol_error_into_io (p, ps\<lparr>pc_stream := cs\<rparr>))"

definition client_poll_shutdown :: "'c client_stream \<Rightarrow> (unit, io_kind) poll \<times> 'c client_stream" where
  "client_poll_shutdown ps =
     (let (p, cs) = crypto_poll_shutdown (pc_stream ps)
      in poll_map_err protocol_error_into_io (p, ps\<lparr>pc_stream := cs\<rparr>))"

text \<open>A stream without the context, as a stream with it.\<close>

definition beside :: "('s \<Rightarrow> 'p \<times> 's) \<Rightarrow> 's \<times> 'x \<Rightarrow> 'p \<times> 's \<times> 'x" where
  "beside f w = (let (s, x) = w; (p, s) = f s in (p, s, x))"

definition client_ops ::
    "('c, 'd, 'b, 's) tcp_env \<Rightarrow> nat \<Rightarrow> ('c client_stream \<times> ('b, 's) ss_context) async_stream" where
  "client_ops env rnd =
     \<lparr>as_read = client_poll_read env, as_write = \<lambda>b. beside (client_poll_write env rnd b),
      as_flush = beside client_poll_flush, as_shutdown = beside client_poll_shutdown\<rparr>"

section \<open>The server\<close>

datatype server_write_state = PrepareHeader | ServerEstablished

record 'c server_stream =
  ps_stream :: "'c crypto_stream"
  ps_writer_state :: server_write_state
  ps_has_handshaked :: bool

definition server_from_stream ::
    "('c, 'd, 'b, 's) tcp_env \<Rightarrow> ('b, 's) ss_context \<Rightarrow> tcp_socket \<Rightarrow> cipher_kind \<Rightarrow> bytes \<Rightarrow> user_manager option
     \<Rightarrow> (nat \<times> bytes) list \<Rightarrow> ('c server_stream \<times> ('b, 's) ss_context, 'e) outcome option" where
  "server_from_stream env ctx stream method key um draws =
     (case from_stream_with_identity env ctx stream ServerStream method key [] um draws of
        None \<Rightarrow> None
      | Some r \<Rightarrow> Some (and_then r (\<lambda>(cs, ctx).
          Ok (\<lparr>ps_stream = cs,
               ps_writer_state = (if kind_is_aead_2022 method then PrepareHeader else ServerEstablished),
               ps_has_handshaked = False\<rparr>, ctx))))"

definition server_poll_read ::
    "('c, 'd, 'b, 's) tcp_env \<Rightarrow> nat \<Rightarrow> 'c server_stream \<times> ('b, 's) ss_context
     \<Rightarrow> (bytes, io_kind) poll \<times> 'c server_stream \<times> ('b, 's) ss_context" where
  "server_poll_read env remaining w =
     (let (ps, ctx) = w in
      if \<not> ps_has_handshaked ps then (Ready (Err OtherError), ps, ctx)
      else
        let (p, cs, ctx) = crypto_poll_read env remaining (ps_stream ps, ctx)
        in poll_map_err protocol_error_into_io (p, ps\<lparr>ps_stream := cs\<rparr>, ctx))"

text \<open>A writer that waits for the salt of the request is pending; the reader wakes it.\<close>

definition server_poll_write ::
    "('c, 'd, 'b, 's) tcp_env \<Rightarrow> bytes \<Rightarrow> 'c server_stream
     \<Rightarrow> (nat, io_kind) poll \<times> 'c server_stream" where
  "server_poll_write env buf ps =
     (let established = (\<lambda>ps.
            let (p, cs) = crypto_poll_write env buf (ps_stream ps)
            in poll_map_err protocol_error_into_io (p, ps\<lparr>ps_stream := cs\<rparr>))
      in case ps_writer_state ps of
           ServerEstablished \<Rightarrow> established ps
         | PrepareHeader \<Rightarrow>
             (case set_request_nonce_with_received (ps_stream ps) of
                Ok (True, cs) \<Rightarrow> established (ps\<lparr>ps_stream := cs, ps_writer_state := ServerEstablished\<rparr>)
              | Ok (False, cs) \<Rightarrow> (Pending, ps)
              | Err e \<Rightarrow> (Ready (Err e), ps)
              | Panic \<Rightarrow> (Ready Panic, ps)))"

definition server_poll_flush :: "'c server_stream \<Rightarrow> (unit, io_kind) poll \<times> 'c server_stream" where
  "server_poll_flush ps =
     (let (p, cs) = crypto_poll_flush (ps_stream ps)
      in poll_map_err protocol_error_into_io (p, ps\<lparr>ps_stream := cs\<rparr>))"

definition server_poll_shutdown :: "'c server_stream \<Rightarrow> (unit, io_kind) poll \<times> 'c server_stream" where
  "server_poll_shutdown ps =
     (let (p, cs) = crypto_poll_shutdown (ps_stream ps)
      in poll_map_err protocol_error_into_io (p, ps\<lparr>ps_stream := cs\<rparr>))"

definition server_ops ::
    "('c, 'd, 'b, 's) tcp_env \<Rightarrow> ('c server_stream \<times> ('b, 's) ss_context) async_stream" where
  "server_ops env =
     \<lparr>as_read = server_poll_read env, as_write = \<lambda>b. beside (server_poll_write env b),
      as_flush = beside server_poll_flush, as_shutdown = beside server_poll_shutdown\<rparr>"

text \<open>
  \<open>handshake\<close>: the header is read through the stream itself, once. An AEAD-2022 client that sends
  neither payload nor padding with its header is turned away.
\<close>

definition handshake ::
    "('c, 'd, 'b, 's) tcp_env \<Rightarrow> (address, io_kind, 'c server_stream \<times> ('b, 's) ss_context) await" where
  "handshake env w =
     (let (ps, ctx) = w in
      if ps_has_handshaked ps then Some (Err OtherError, w)
      else
        await_bind (await_tcp_header (server_ops env) (cs_method (ps_stream ps))) (\<lambda>header (ps, ctx).
          (case header of
             Aead2022Header h \<Rightarrow>
               if v2_padding_size h = 0 then
                 (case crypto_current_data_chunk_remaining (ps_stream ps) of
                    Ok (chunk_count, chunk_remaining) \<Rightarrow>
                      if chunk_count = 1 \<and> chunk_remaining = 0 then Some (Err OtherError, ps, ctx)
                      else Some (Ok (tcp_header_addr header), ps, ctx)
                  | Err e \<Rightarrow> Some (Err e, ps, ctx)
                  | Panic \<Rightarrow> Some (Panic, ps, ctx))
               else Some (Ok (tcp_header_addr header), ps, ctx)
           | StreamHeader _ \<Rightarrow> Some (Ok (tcp_header_addr header), ps, ctx)))
          (ps\<lparr>ps_has_handshaked := True\<rparr>, ctx))"

end
