(* ===== verification/Proxy_Aead.thy ===== *)
theory Proxy_Aead
  imports Proxy_Stream
begin

text \<open>
  The proxy with an AEAD method: both ends of the tunnel keep the laws of \<open>duplex\<close>, so that the relay
  loops work between them and plain sockets, and a request arrives at the target that the client names.
\<close>

section \<open>The AEAD tunnel as a stream\<close>

lemma aead_chunks_append:
  "aead_chunks lib mem c (xs @ ys) =
     (fst (aead_chunks lib mem c xs) @ fst (aead_chunks lib mem (snd (aead_chunks lib mem c xs)) ys),
      snd (aead_chunks lib mem (snd (aead_chunks lib mem c xs)) ys))"
  by (induction xs arbitrary: c) (auto split: prod.splits)

lemma aead_decrypt_step_size:
  "aead_decrypt_step lib rlib now k w = (Some (Ready (Ok x)), w') \<Longrightarrow> length x \<le> k"
  by (auto simp: aead_decrypt_step_def Let_def split: aead_read_state.splits if_splits option.splits elim!: step_done_cases)

lemma aead_poll_read_size:
  "aead_poll_read lib rlib now k w = (Ready (Ok x), w') \<Longrightarrow> length x \<le> k"
proof (induction "aead_rd_size w" arbitrary: w rule: less_induct)
  case less
  obtain r w1 where step: "aead_decrypt_step lib rlib now k w = (r, w1)" by force
  show ?case
  proof (cases r)
    case None
    then have "aead_poll_read lib rlib now k w1 = (Ready (Ok x), w')"
      using less.prems step by (simp add: aead_poll_read.simps [of lib rlib now k w])
    then show ?thesis using less.hyps aead_decrypt_step_decreases step None by blast
  next
    case (Some q)
    then have "q = Ready (Ok x)" using less.prems step by (simp add: aead_poll_read.simps [of lib rlib now k w])
    then show ?thesis using aead_decrypt_step_size step Some by blast
  qed
qed

text \<open>On a clean sink draining the buffer never fails.\<close>

lemma drain_buffer_clean:
  assumes "drain_buffer buf pos s = (p, pos', s')" "sink_clean (sink_script s)"
  shows "sink_clean (sink_script s') \<and>
    (p = Pending \<and> sink_waits (sink_script s') < sink_waits (sink_script s) \<or>
     p = Ready (Ok ()) \<and> sink_waits (sink_script s') \<le> sink_waits (sink_script s))"
  using assms
proof (induction buf pos s rule: drain_buffer.induct)
  case (1 buf pos s)
  note unfold = drain_buffer.simps [of buf pos s]
  show ?case
  proof (cases "pos < length buf")
    case False
    then show ?thesis using 1(2,3) by (simp add: unfold)
  next
    case True
    obtain q s1 where q: "poll_write (drop pos buf) s = (q, s1)" by force
    have "drop pos buf \<noteq> []" using True by simp
    from poll_write_law [OF 1(3) this q] consider
      (pend) "q = Pending" "sink_clean (sink_script s1)" "sink_waits (sink_script s1) < sink_waits (sink_script s)"
      | (took) n where "q = Ready (Ok n)" "0 < n" "sink_clean (sink_script s1)" "sink_waits (sink_script s1) \<le> sink_waits (sink_script s)"
      by blast
    then show ?thesis
    proof cases
      case pend
      then show ?thesis using 1(2) True q by (simp add: unfold)
    next
      case (took n)
      then have "drain_buffer buf (pos + n) s1 = (p, pos', s')" using 1(2) True q by (simp add: unfold)
      from 1(1) [OF True q [symmetric] took(1) refl _ this took(3)] took show ?thesis by auto
    qed
  qed
qed

text \<open>
  A writer that has taken the text \<open>T\<close> in some buffers, with \<open>pre\<close> before their packets, and is in the
  middle of taking \<open>q\<close>.
\<close>

definition aead_taken ::
    "('c, 'z) cipher_lib_scheme \<Rightarrow> (nat \<Rightarrow> u8) \<Rightarrow> 'c \<Rightarrow> bytes \<Rightarrow> 'c aead_writer \<times> sink \<Rightarrow> bytes \<Rightarrow> bytes option \<Rightarrow> bool" where
  "aead_taken lib mem c pre ws T q \<longleftrightarrow>
     (let (w, s) = ws in
      sink_clean (sink_script s) \<and> aead_writer_ok (w, s) \<and>
      (\<exists>bufs. (\<forall>b \<in> set bufs. length b \<le> MAX_PACKET_SIZE) \<and> concat bufs = T \<and>
        (case q of
           None \<Rightarrow> aw_state w = AssemblePacket \<and> (bufs \<noteq> [] \<longrightarrow> aw_buffer w = []) \<and>
             aw_cipher w = snd (aead_chunks lib mem c bufs) \<and>
             aead_sent (w, s) = pre @ fst (aead_chunks lib mem c bufs)
         | Some b \<Rightarrow> aw_state w \<noteq> AssemblePacket \<and> length b \<le> MAX_PACKET_SIZE \<and>
             aw_cipher w = snd (aead_chunks lib mem c (bufs @ [b])) \<and>
             aead_sent (w, s) = pre @ fst (aead_chunks lib mem c (bufs @ [b])))))"

lemma aead_poll_write_taken:
  assumes t: "aead_taken lib mem c pre (w, s) T q" and q: "q = None \<or> q = Some b" and b: "length b \<le> MAX_PACKET_SIZE"
    and poll: "aead_poll_write lib mem b (w, s) = (p, w', s')"
  shows "p = Pending \<and> aead_taken lib mem c pre (w', s') T (Some b) \<and> sink_waits (sink_script s') < sink_waits (sink_script s) \<or>
    p = Ready (Ok (length b)) \<and> aead_taken lib mem c pre (w', s') (T @ b) None \<and>
      sink_waits (sink_script s') \<le> sink_waits (sink_script s)"
proof -
  from t obtain bufs where bufs: "sink_clean (sink_script s)" "aead_writer_ok (w, s)" "\<forall>b \<in> set bufs. length b \<le> MAX_PACKET_SIZE"
    "concat bufs = T" and st: "case q of
           None \<Rightarrow> aw_state w = AssemblePacket \<and> (bufs \<noteq> [] \<longrightarrow> aw_buffer w = []) \<and>
             aw_cipher w = snd (aead_chunks lib mem c bufs) \<and> aead_sent (w, s) = pre @ fst (aead_chunks lib mem c bufs)
         | Some b \<Rightarrow> aw_state w \<noteq> AssemblePacket \<and> length b \<le> MAX_PACKET_SIZE \<and>
             aw_cipher w = snd (aead_chunks lib mem c (bufs @ [b])) \<and>
             aead_sent (w, s) = pre @ fst (aead_chunks lib mem c (bufs @ [b]))"
    unfolding aead_taken_def Let_def prod.case by blast
  note sent = aead_poll_write_sent [OF poll bufs(2) b]
  have wire: "aw_cipher w' = snd (aead_chunks lib mem c (bufs @ [b]))"
    "aead_sent (w', s') = pre @ fst (aead_chunks lib mem c (bufs @ [b]))"
    using sent st q by (auto simp: aead_chunks_append split: aead_write_state.splits option.splits simp del: aead_sent.simps)
  obtain pos pos' buf d where d: "drain_buffer buf pos s = (d, pos', s')" and
    p: "p = (case d of Ready (Ok _) \<Rightarrow> Ready (Ok (length b)) | Ready (Err e) \<Rightarrow> Ready (Err e) | Ready Panic \<Rightarrow> Ready Panic | Pending \<Rightarrow> Pending)"
    using poll b by (auto simp: aead_poll_write_def Let_def split: prod.splits poll.splits outcome.splits if_splits)
  from drain_buffer_clean [OF d bufs(1)] show ?thesis
  proof (elim conjE disjE)
    assume "sink_clean (sink_script s')" "d = Pending" "sink_waits (sink_script s') < sink_waits (sink_script s)"
    moreover from this sent p have "aw_state w' \<noteq> AssemblePacket" "aead_writer_ok (w', s')" by auto
    ultimately show ?thesis using wire bufs p b
      unfolding aead_taken_def Let_def prod.case by (auto simp del: aead_sent.simps aead_writer_ok.simps)
  next
    assume "sink_clean (sink_script s')" "d = Ready (Ok ())" "sink_waits (sink_script s') \<le> sink_waits (sink_script s)"
    moreover from this sent p have "aw_state w' = AssemblePacket" "aw_buffer w' = []" "aead_writer_ok (w', s')" by auto
    moreover have "aead_taken lib mem c pre (w', s') (T @ b) None"
      unfolding aead_taken_def Let_def prod.case option.case
      by (intro conjI exI [of _ "bufs @ [b]"]) (use calculation wire bufs b in \<open>auto simp del: aead_sent.simps aead_writer_ok.simps\<close>)
    ultimately show ?thesis using p by simp
  qed
qed

text \<open>What was taken is on the wire once the writer is idle.\<close>

lemma aead_taken_wire:
  assumes "aead_taken lib mem c pre (w, s) T None" "T \<noteq> []"
  obtains bufs where "\<forall>b \<in> set bufs. length b \<le> MAX_PACKET_SIZE" "concat bufs = T"
    "sink_bytes s = pre @ fst (aead_chunks lib mem c bufs)"
  using assms unfolding aead_taken_def Let_def prod.case by auto

text \<open>An encrypted stream that still delivers \<open>d\<close> and has taken \<open>t\<close>; \<open>pmem\<close> is the unwritten memory of its peer.\<close>

definition aead_dx ::
    "('c, 'd, 'b, 's) tcp_env \<Rightarrow> cipher_kind \<Rightarrow> ('c \<Rightarrow> 'c \<Rightarrow> bool) \<Rightarrow> (nat \<Rightarrow> u8) \<Rightarrow> 'c \<Rightarrow> bytes
     \<Rightarrow> 'c crypto_stream \<times> ('b, 's) ss_context \<Rightarrow> bytes \<Rightarrow> bytes \<Rightarrow> bytes option \<Rightarrow> bool" where
  "aead_dx env kind R pmem c pre w d t q \<longleftrightarrow>
     (let (cs, ctx) = w in
      cs_method cs = kind \<and>
      (\<exists>r w. cs_dec cs = DecAead r \<and> cs_enc cs = EncAead w \<and>
         aead_reading (te_cipher env) (te_replay env) pmem kind R
           \<lparr>rd_reader = r, rd_source = so_source (cs_stream cs), rd_ctx = ctx\<rparr> d \<and>
         aead_taken (te_cipher env) (te_mem env) c pre (w, so_sink (cs_stream cs)) t q))"

lemma aead_dx_read:
  assumes laws: "cipher_laws (te_cipher env) kind R" and dx: "aead_dx env kind R pmem c pre (cs, ctx) d t q"
    and k: "0 < k" and poll: "crypto_poll_read env k (cs, ctx) = (p, cs', ctx')"
  shows "so_shut (cs_stream cs') = so_shut (cs_stream cs) \<and>
    (p = Pending \<and> aead_dx env kind R pmem c pre (cs', ctx') d t q \<and> socket_waits (cs_stream cs') < socket_waits (cs_stream cs) \<or>
     (\<exists>x d'. p = Ready (Ok x) \<and> d = x @ d' \<and> length x \<le> k \<and> (x = [] \<longrightarrow> d = []) \<and>
        aead_dx env kind R pmem c pre (cs', ctx') d' t q \<and> socket_waits (cs_stream cs') \<le> socket_waits (cs_stream cs)))"
proof -
  from dx obtain r w where x: "cs_method cs = kind" "cs_dec cs = DecAead r" "cs_enc cs = EncAead w"
    and rd: "aead_reading (te_cipher env) (te_replay env) pmem kind R \<lparr>rd_reader = r, rd_source = so_source (cs_stream cs), rd_ctx = ctx\<rparr> d"
    and tk: "aead_taken (te_cipher env) (te_mem env) c pre (w, so_sink (cs_stream cs)) t q"
    unfolding aead_dx_def Let_def prod.case by blast
  obtain p1 v where v: "aead_poll_read (te_cipher env) (te_replay env) (te_inst env) k
      \<lparr>rd_reader = r, rd_source = so_source (cs_stream cs), rd_ctx = ctx\<rparr> = (p1, v)" by force
  note prog = aead_poll_read_progress [OF laws k rd v]
  have eq: "\<lparr>rd_reader = rd_reader v, rd_source = rd_source v, rd_ctx = rd_ctx v\<rparr> = v" by (cases v) simp
  show ?thesis
  proof (cases p1)
    case Pending
    then have "aead_reading (te_cipher env) (te_replay env) pmem kind R v d"
      "script_pendings (rd_source v) < script_pendings (so_source (cs_stream cs))"
      using prog by (simp_all add: aead_progress_def)
    moreover have "p = Pending" "cs' = cs\<lparr>cs_dec := DecAead (rd_reader v), cs_stream := (cs_stream cs)\<lparr>so_source := rd_source v\<rparr>\<rparr>"
      "ctx' = rd_ctx v"
      using poll x v Pending by (simp_all add: crypto_poll_read_def)
    ultimately show ?thesis using x tk by (auto simp: aead_dx_def socket_waits_def eq)
  next
    case (Ready o1)
    then obtain data d' where o: "o1 = Ok data" "d = data @ d'" "aead_reading (te_cipher env) (te_replay env) pmem kind R v d'"
      "script_pendings (rd_source v) = script_pendings (so_source (cs_stream cs))" "data = [] \<longrightarrow> d = []"
      using prog by (cases o1) (auto simp: aead_progress_def)
    have len: "length data \<le> k" using aead_poll_read_size v Ready o(1) by blast
    have "p = Ready (Ok data)" "cs_method cs' = kind" "cs_dec cs' = DecAead (rd_reader v)" "cs_enc cs' = EncAead w"
      "cs_stream cs' = (cs_stream cs)\<lparr>so_source := rd_source v\<rparr>" "ctx' = rd_ctx v"
      using poll x v Ready o(1) by (auto simp: crypto_poll_read_def Let_def split: if_splits)
    then show ?thesis using o tk len by (auto simp: aead_dx_def socket_waits_def eq)
  qed
qed

lemma aead_dx_write:
  assumes dx: "aead_dx env kind R pmem c pre (cs, ctx) d t q" and q: "q = None \<or> q = Some b"
    and b: "length b \<le> MAX_PACKET_SIZE" and poll: "crypto_poll_write env b cs = (p, cs')"
  shows "so_shut (cs_stream cs') = so_shut (cs_stream cs) \<and>
    (p = Pending \<and> aead_dx env kind R pmem c pre (cs', ctx) d t (Some b) \<and>
       socket_waits (cs_stream cs') < socket_waits (cs_stream cs) \<or>
     p = Ready (Ok (length b)) \<and> aead_dx env kind R pmem c pre (cs', ctx) d (t @ b) None \<and>
       socket_waits (cs_stream cs') \<le> socket_waits (cs_stream cs))"
proof -
  from dx obtain r w where x: "cs_method cs = kind" "cs_dec cs = DecAead r" "cs_enc cs = EncAead w"
    and rd: "aead_reading (te_cipher env) (te_replay env) pmem kind R \<lparr>rd_reader = r, rd_source = so_source (cs_stream cs), rd_ctx = ctx\<rparr> d"
    and tk: "aead_taken (te_cipher env) (te_mem env) c pre (w, so_sink (cs_stream cs)) t q"
    unfolding aead_dx_def Let_def prod.case by blast
  obtain p1 w1 s1 where w1: "aead_poll_write (te_cipher env) (te_mem env) b (w, so_sink (cs_stream cs)) = (p1, w1, s1)"
    by (metis prod.collapse)
  have cs': "cs' = cs\<lparr>cs_enc := EncAead w1, cs_stream := (cs_stream cs)\<lparr>so_sink := s1\<rparr>\<rparr>"
    "p = fst (poll_map_err (AeadProtocolError \<circ> AeadIoError) (p1, ()))"
    using poll x w1 by (cases "(AeadProtocolError \<circ> AeadIoError, p1, ())" rule: poll_map_err.cases;
        simp add: crypto_poll_write_def)+
  from aead_poll_write_taken [OF tk q b w1] show ?thesis
    using cs' x rd by (elim disjE) (auto simp: aead_dx_def socket_waits_def)
qed

lemma aead_dx_sink:
  assumes dx: "aead_dx env kind R pmem c pre (cs, ctx) d t None"
    and s: "sink_clean (sink_script s)" "sink_bytes s = sink_bytes (so_sink (cs_stream cs))"
  shows "aead_dx env kind R pmem c pre (cs\<lparr>cs_stream := (cs_stream cs)\<lparr>so_sink := s\<rparr>\<rparr>, ctx) d t None"
  using dx s by (auto simp: aead_dx_def aead_taken_def)

lemma aead_dx_sink_clean: "aead_dx env kind R pmem c pre (cs, ctx) d t q \<Longrightarrow> sink_clean (sink_script (so_sink (cs_stream cs)))"
  by (auto simp: aead_dx_def aead_taken_def)

lemma aead_dx_flush:
  assumes dx: "aead_dx env kind R pmem c pre (cs, ctx) d t None" and poll: "crypto_poll_flush cs = (p, cs')"
  shows "so_shut (cs_stream cs') = so_shut (cs_stream cs) \<and> aead_dx env kind R pmem c pre (cs', ctx) d t None \<and>
    (p = Pending \<and> socket_waits (cs_stream cs') < socket_waits (cs_stream cs) \<or>
     p = Ready (Ok ()) \<and> socket_waits (cs_stream cs') \<le> socket_waits (cs_stream cs))"
proof -
  obtain p1 s where s: "sink_poll (so_sink (cs_stream cs)) = (p1, s)" by force
  from sink_poll_law [OF aead_dx_sink_clean [OF dx] s] have l: "sink_clean (sink_script s)" "sink_bytes s = sink_bytes (so_sink (cs_stream cs))"
    and c: "p1 = Pending \<and> sink_waits (sink_script s) < sink_waits (sink_script (so_sink (cs_stream cs))) \<or>
     p1 = Ready (Ok ()) \<and> sink_waits (sink_script s) \<le> sink_waits (sink_script (so_sink (cs_stream cs)))" by auto
  show ?thesis using poll s c aead_dx_sink [OF dx l]
    by (auto simp: crypto_poll_flush_def socket_poll_flush_def socket_waits_def)
qed

lemma aead_dx_shutdown:
  assumes dx: "aead_dx env kind R pmem c pre (cs, ctx) d t None" and poll: "crypto_poll_shutdown cs = (p, cs')"
  shows "(so_shut (cs_stream cs) \<longrightarrow> so_shut (cs_stream cs')) \<and> aead_dx env kind R pmem c pre (cs', ctx) d t None \<and>
    (p = Pending \<and> socket_waits (cs_stream cs') < socket_waits (cs_stream cs) \<or>
     p = Ready (Ok ()) \<and> so_shut (cs_stream cs') \<and> socket_waits (cs_stream cs') \<le> socket_waits (cs_stream cs))"
proof -
  obtain p1 s where s: "sink_poll (so_sink (cs_stream cs)) = (p1, s)" by force
  from sink_poll_law [OF aead_dx_sink_clean [OF dx] s] have l: "sink_clean (sink_script s)" "sink_bytes s = sink_bytes (so_sink (cs_stream cs))"
    and c: "p1 = Pending \<and> sink_waits (sink_script s) < sink_waits (sink_script (so_sink (cs_stream cs))) \<or>
     p1 = Ready (Ok ()) \<and> sink_waits (sink_script s) \<le> sink_waits (sink_script (so_sink (cs_stream cs)))" by auto
  have sh: "aead_dx env kind R pmem c pre (cs\<lparr>cs_stream := (cs_stream cs)\<lparr>so_sink := s, so_shut := x\<rparr>\<rparr>, ctx) d t None" for x
    using aead_dx_sink [OF dx l] by (simp add: aead_dx_def)
  show ?thesis using poll s c sh aead_dx_sink [OF dx l]
    by (auto simp: crypto_poll_shutdown_def socket_poll_shutdown_def socket_waits_def)
qed

section \<open>The two ends as streams\<close>

text \<open>
  The server after its handshake. The client is in the state \<open>Connect\<close> until it is written to, and then
  has taken the address \<open>ab\<close> with the first buffer.
\<close>

definition server_dx ::
    "('c, 'd, 'b, 's) tcp_env \<Rightarrow> cipher_kind \<Rightarrow> ('c \<Rightarrow> 'c \<Rightarrow> bool) \<Rightarrow> (nat \<Rightarrow> u8) \<Rightarrow> 'c \<Rightarrow> bytes
     \<Rightarrow> 'c server_stream \<times> ('b, 's) ss_context \<Rightarrow> bytes \<Rightarrow> bytes \<Rightarrow> bytes option \<Rightarrow> bool" where
  "server_dx env kind R pmem c pre w d t q \<longleftrightarrow>
     ps_has_handshaked (fst w) \<and> ps_writer_state (fst w) = ServerEstablished \<and>
     cipher_laws (te_cipher env) kind R \<and> aead_dx env kind R pmem c pre (ps_stream (fst w), snd w) d t q"

definition client_dx ::
    "('c, 'd, 'b, 's) tcp_env \<Rightarrow> cipher_kind \<Rightarrow> ('c \<Rightarrow> 'c \<Rightarrow> bool) \<Rightarrow> (nat \<Rightarrow> u8) \<Rightarrow> 'c \<Rightarrow> bytes \<Rightarrow> address \<Rightarrow> bytes
     \<Rightarrow> 'c client_stream \<times> ('b, 's) ss_context \<Rightarrow> bytes \<Rightarrow> bytes \<Rightarrow> bytes option \<Rightarrow> bool" where
  "client_dx env kind R pmem c pre addr ab w d t q \<longleftrightarrow>
     pc_reader_state (fst w) = ClientEstablished \<and> cipher_laws (te_cipher env) kind R \<and>
     \<not> kind_is_aead_2022 kind \<and> address_write_to_buf addr = (Ok ab :: (bytes, io_kind) outcome) \<and>
     (case pc_writer_state (fst w) of
        Connect a \<Rightarrow> a = addr \<and> t = [] \<and> q = None \<and> aead_dx env kind R pmem c pre (pc_stream (fst w), snd w) d [] None
      | Connecting buffer \<Rightarrow> \<exists>b. q = Some b \<and> t = [] \<and> buffer = ab @ b \<and>
          aead_dx env kind R pmem c pre (pc_stream (fst w), snd w) d [] (Some buffer)
      | Connected \<Rightarrow> aead_dx env kind R pmem c pre (pc_stream (fst w), snd w) d (ab @ t) q)"

definition server_waits :: "'c server_stream \<times> ('b, 's) ss_context \<Rightarrow> nat" where
  "server_waits w = socket_waits (cs_stream (ps_stream (fst w)))"

definition server_shut :: "'c server_stream \<times> ('b, 's) ss_context \<Rightarrow> bool" where
  "server_shut w = so_shut (cs_stream (ps_stream (fst w)))"

definition client_waits :: "'c client_stream \<times> ('b, 's) ss_context \<Rightarrow> nat" where
  "client_waits w = socket_waits (cs_stream (pc_stream (fst w)))"

definition client_shut :: "'c client_stream \<times> ('b, 's) ss_context \<Rightarrow> bool" where
  "client_shut w = so_shut (cs_stream (pc_stream (fst w)))"

interpretation sv: duplex "server_ops env" "server_dx env kind R pmem c pre" server_waits server_shut
    MAX_PACKET_SIZE MAX_PACKET_SIZE MAX_PACKET_SIZE
  for env :: "('c, 'd, 'b, 's) tcp_env" and kind R pmem c pre
proof
  fix s :: "'c server_stream \<times> ('b, 's) ss_context" and d t q k
  assume a: "server_dx env kind R pmem c pre s d t q" "(0::nat) < k" "k \<le> MAX_PACKET_SIZE"
  obtain ps ctx where s: "s = (ps, ctx)" by force
  obtain p cs ctx' where r: "crypto_poll_read env k (ps_stream ps, ctx) = (p, cs, ctx')" by (metis prod.collapse)
  from a s have h: "ps_has_handshaked ps" "ps_writer_state ps = ServerEstablished" "cipher_laws (te_cipher env) kind R"
    "aead_dx env kind R pmem c pre (ps_stream ps, ctx) d t q" by (simp_all add: server_dx_def)
  from aead_dx_read [OF h(3,4) a(2) r] h a(3) show "duplex_law server_waits server_shut s (as_read (server_ops env) k s)
      (\<lambda>s. server_dx env kind R pmem c pre s d t q)
      (\<lambda>x s. \<exists>d'. d = x @ d' \<and> length x \<le> k \<and> length x \<le> MAX_PACKET_SIZE \<and> (x = [] \<longrightarrow> d = []) \<and>
        server_dx env kind R pmem c pre s d' t q)"
    by (auto simp: duplex_law_def s server_ops_def server_poll_read_def r server_dx_def server_waits_def server_shut_def)
next
  fix s :: "'c server_stream \<times> ('b, 's) ss_context" and d t q and b :: bytes
  assume a: "server_dx env kind R pmem c pre s d t q" "q = None \<or> q = Some b" "b \<noteq> []" "length b \<le> MAX_PACKET_SIZE"
  obtain ps ctx where s: "s = (ps, ctx)" by force
  obtain p cs where r: "crypto_poll_write env b (ps_stream ps) = (p, cs)" by force
  from a s have h: "ps_has_handshaked ps" "ps_writer_state ps = ServerEstablished" "cipher_laws (te_cipher env) kind R"
    "aead_dx env kind R pmem c pre (ps_stream ps, ctx) d t q" by (simp_all add: server_dx_def)
  from aead_dx_write [OF h(4) a(2,4) r] h a(3) show "duplex_law server_waits server_shut s (as_write (server_ops env) b s)
      (\<lambda>s. server_dx env kind R pmem c pre s d t (Some b))
      (\<lambda>n s. 0 < n \<and> n \<le> length b \<and> server_dx env kind R pmem c pre s d (t @ take n b) None)"
    by (auto simp: duplex_law_def s server_ops_def server_poll_write_def beside_def r server_dx_def server_waits_def server_shut_def)
next
  fix s :: "'c server_stream \<times> ('b, 's) ss_context" and d t
  assume a: "server_dx env kind R pmem c pre s d t None"
  obtain ps ctx where s: "s = (ps, ctx)" by force
  obtain p cs where r: "crypto_poll_flush (ps_stream ps) = (p, cs)" by force
  obtain p2 cs2 where r2: "crypto_poll_shutdown (ps_stream ps) = (p2, cs2)" by force
  from a s have h: "ps_has_handshaked ps" "ps_writer_state ps = ServerEstablished" "cipher_laws (te_cipher env) kind R"
    "aead_dx env kind R pmem c pre (ps_stream ps, ctx) d t None" by (simp_all add: server_dx_def)
  from aead_dx_flush [OF h(4) r] h show "duplex_law server_waits server_shut s (as_flush (server_ops env) s)
      (\<lambda>s. server_dx env kind R pmem c pre s d t None) (\<lambda>_ s. server_dx env kind R pmem c pre s d t None)"
    by (auto simp: duplex_law_def s server_ops_def server_poll_flush_def beside_def r server_dx_def server_waits_def server_shut_def)
  from aead_dx_shutdown [OF h(4) r2] h show "duplex_law server_waits server_shut s (as_shutdown (server_ops env) s)
      (\<lambda>s. server_dx env kind R pmem c pre s d t None) (\<lambda>_ s. server_dx env kind R pmem c pre s d t None \<and> server_shut s)"
    by (auto simp: duplex_law_def s server_ops_def server_poll_shutdown_def beside_def r2 server_dx_def server_waits_def server_shut_def)
qed

lemma make_first_aead:
  assumes "\<not> kind_is_aead_2022 kind" "address_write_to_buf addr = (Ok ab :: (bytes, io_kind) outcome)"
  shows "make_first_packet_buffer rnd mem kind addr b = (Ok (ab @ b) :: (bytes, io_kind) outcome)"
  using assms by (simp add: make_first_packet_buffer_def Let_def)

lemma aead_dx_method: "aead_dx env kind R pmem c pre (cs, ctx) d t q \<Longrightarrow> cs_method cs = kind"
  by (simp add: aead_dx_def)

interpretation cl: duplex "client_ops env rnd" "client_dx env kind R pmem c pre addr ab" client_waits client_shut
    MAX_PACKET_SIZE "MAX_PACKET_SIZE - length ab" MAX_PACKET_SIZE
  for env :: "('c, 'd, 'b, 's) tcp_env" and rnd kind R pmem c pre addr ab
proof
  fix s :: "'c client_stream \<times> ('b, 's) ss_context" and d t q k
  assume a: "client_dx env kind R pmem c pre addr ab s d t q" "(0::nat) < k" "k \<le> MAX_PACKET_SIZE"
  obtain ps ctx where s: "s = (ps, ctx)" by force
  obtain p cs ctx' where r: "crypto_poll_read env k (pc_stream ps, ctx) = (p, cs, ctx')" by (metis prod.collapse)
  from a s have h: "pc_reader_state ps = ClientEstablished" "cipher_laws (te_cipher env) kind R" "\<not> kind_is_aead_2022 kind"
    "address_write_to_buf addr = (Ok ab :: (bytes, io_kind) outcome)" by (simp_all add: client_dx_def)
  note rd = aead_dx_read [OF h(2) _ a(2) r]
  show "duplex_law client_waits client_shut s (as_read (client_ops env rnd) k s)
      (\<lambda>s. client_dx env kind R pmem c pre addr ab s d t q)
      (\<lambda>x s. \<exists>d'. d = x @ d' \<and> length x \<le> k \<and> length x \<le> MAX_PACKET_SIZE \<and> (x = [] \<longrightarrow> d = []) \<and>
        client_dx env kind R pmem c pre addr ab s d' t q)"
  proof (cases "pc_writer_state ps")
    case (Connect x)
    with a s rd [of pmem c pre d "[]" None] h show ?thesis
      by (auto simp: duplex_law_def client_ops_def client_poll_read_def r client_dx_def client_waits_def client_shut_def)
  next
    case (Connecting x)
    with a s rd [of pmem c pre d "[]" "Some x"] h show ?thesis
      by (auto simp: duplex_law_def client_ops_def client_poll_read_def r client_dx_def client_waits_def client_shut_def)
  next
    case Connected
    with a s rd [of pmem c pre d "ab @ t" q] h show ?thesis
      by (auto simp: duplex_law_def client_ops_def client_poll_read_def r client_dx_def client_waits_def client_shut_def)
  qed
next
  fix s :: "'c client_stream \<times> ('b, 's) ss_context" and d t q and b :: bytes
  assume a: "client_dx env kind R pmem c pre addr ab s d t q" "q = None \<or> q = Some b" "b \<noteq> []"
    "length b \<le> MAX_PACKET_SIZE - length ab"
  obtain ps ctx where s: "s = (ps, ctx)" by force
  from a s have h: "pc_reader_state ps = ClientEstablished" "cipher_laws (te_cipher env) kind R" "\<not> kind_is_aead_2022 kind"
    "address_write_to_buf addr = (Ok ab :: (bytes, io_kind) outcome)" by (simp_all add: client_dx_def)
  have len: "length b \<le> MAX_PACKET_SIZE" "length (ab @ b) \<le> MAX_PACKET_SIZE" using a(3,4) by (cases b; simp)+
  show "duplex_law client_waits client_shut s (as_write (client_ops env rnd) b s)
      (\<lambda>s. client_dx env kind R pmem c pre addr ab s d t (Some b))
      (\<lambda>n s. 0 < n \<and> n \<le> length b \<and> client_dx env kind R pmem c pre addr ab s d (t @ take n b) None)"
  proof (cases "pc_writer_state ps")
    case (Connect x)
    then have dx: "aead_dx env kind R pmem c pre (pc_stream ps, ctx) d [] None" "x = addr" "t = []"
      using a s by (simp_all add: client_dx_def)
    obtain p cs where r: "crypto_poll_write env (ab @ b) (pc_stream ps) = (p, cs)" by force
    have m: "make_first_packet_buffer rnd (te_mem env) (cs_method (pc_stream ps)) addr b = (Ok (ab @ b) :: (bytes, io_kind) outcome)"
      using make_first_aead [OF h(3,4)] aead_dx_method [OF dx(1)] by simp
    from aead_dx_write [OF dx(1) _ len(2) r] dx Connect a(3) h show ?thesis
      by (auto simp: s duplex_law_def client_ops_def client_poll_write_def client_write_first_def beside_def m r client_dx_def
          client_waits_def client_shut_def)
  next
    case (Connecting x)
    then have dx: "aead_dx env kind R pmem c pre (pc_stream ps, ctx) d [] (Some (ab @ b))" "x = ab @ b" "t = []"
      using a s by (auto simp: client_dx_def)
    obtain p cs where r: "crypto_poll_write env (ab @ b) (pc_stream ps) = (p, cs)" by force
    from aead_dx_write [OF dx(1) _ len(2) r] dx Connecting a(3) h show ?thesis
      by (auto simp: s duplex_law_def client_ops_def client_poll_write_def client_write_first_def beside_def r client_dx_def
          client_waits_def client_shut_def)
  next
    case Connected
    then have dx: "aead_dx env kind R pmem c pre (pc_stream ps, ctx) d (ab @ t) q" using a s by (simp add: client_dx_def)
    obtain p cs where r: "crypto_poll_write env b (pc_stream ps) = (p, cs)" by force
    from aead_dx_write [OF dx a(2) len(1) r] Connected a(3) h show ?thesis
      by (auto simp: s duplex_law_def client_ops_def client_poll_write_def beside_def r client_dx_def
          client_waits_def client_shut_def)
  qed
next
  fix s :: "'c client_stream \<times> ('b, 's) ss_context" and d t
  assume a: "client_dx env kind R pmem c pre addr ab s d t None"
  obtain ps ctx where s: "s = (ps, ctx)" by force
  obtain p cs where r: "crypto_poll_flush (pc_stream ps) = (p, cs)" by force
  obtain p2 cs2 where r2: "crypto_poll_shutdown (pc_stream ps) = (p2, cs2)" by force
  have dx: "\<exists>t'. aead_dx env kind R pmem c pre (pc_stream ps, ctx) d t' None \<and> pc_reader_state ps = ClientEstablished \<and>
      (pc_writer_state ps = Connect addr \<and> t' = [] \<and> t = [] \<or> pc_writer_state ps = Connected \<and> t' = ab @ t)"
    using a s by (auto simp: client_dx_def split: client_write_state.splits)
  then obtain t' where dx: "aead_dx env kind R pmem c pre (pc_stream ps, ctx) d t' None" and
    st: "pc_writer_state ps = Connect addr \<and> t' = [] \<and> t = [] \<or> pc_writer_state ps = Connected \<and> t' = ab @ t" by blast
  from aead_dx_flush [OF dx r] st a show "duplex_law client_waits client_shut s (as_flush (client_ops env rnd) s)
      (\<lambda>s. client_dx env kind R pmem c pre addr ab s d t None) (\<lambda>_ s. client_dx env kind R pmem c pre addr ab s d t None)"
    by (auto simp: duplex_law_def s client_ops_def client_poll_flush_def beside_def r client_dx_def client_waits_def client_shut_def)
  from aead_dx_shutdown [OF dx r2] st a show "duplex_law client_waits client_shut s (as_shutdown (client_ops env rnd) s)
      (\<lambda>s. client_dx env kind R pmem c pre addr ab s d t None)
      (\<lambda>_ s. client_dx env kind R pmem c pre addr ab s d t None \<and> client_shut s)"
    by (auto simp: duplex_law_def s client_ops_def client_poll_shutdown_def beside_def r2 client_dx_def client_waits_def client_shut_def)
qed

section \<open>The relays of the proxy\<close>

interpretation lo: bidirectional
    "client_ops env rnd" "client_dx env kind R pmem c pre addr ab" client_waits client_shut
    MAX_PACKET_SIZE "MAX_PACKET_SIZE - length ab" MAX_PACKET_SIZE
    socket_ops "socket_dx (MAX_PACKET_SIZE - length ab) MAX_PACKET_SIZE" socket_waits so_shut
    "MAX_PACKET_SIZE - length ab" MAX_PACKET_SIZE
  for env :: "('c, 'd, 'b, 's) tcp_env" and rnd kind R pmem c pre addr ab
  by unfold_locales simp_all

interpretation re: bidirectional
    "server_ops env" "server_dx env kind R pmem c pre" server_waits server_shut
    MAX_PACKET_SIZE MAX_PACKET_SIZE MAX_PACKET_SIZE
    socket_ops "socket_dx MAX_PACKET_SIZE MAX_PACKET_SIZE" socket_waits so_shut MAX_PACKET_SIZE MAX_PACKET_SIZE
  for env :: "('c, 'd, 'b, 's) tcp_env" and kind R pmem c pre
  by unfold_locales simp_all

text \<open>What a wire carries: a salt, and the packets of a text that was written in some buffers.\<close>

definition aead_wire ::
    "('c, 'z) cipher_lib_scheme \<Rightarrow> cipher_kind \<Rightarrow> bytes \<Rightarrow> (nat \<Rightarrow> u8) \<Rightarrow> bytes \<Rightarrow> bytes \<Rightarrow> bool" where
  "aead_wire lib kind key mem T W \<longleftrightarrow>
     (\<exists>salt bufs. length salt = kind_salt_len kind \<and> (\<forall>b \<in> set bufs. length b \<le> MAX_PACKET_SIZE) \<and> concat bufs = T \<and>
        W = salt @ fst (aead_chunks lib mem (cipher_new lib kind key salt) bufs))"

text \<open>An AEAD method with ciphers that decrypt what they encrypt.\<close>

definition aead_method :: "('c, 'z) cipher_lib_scheme \<Rightarrow> cipher_kind \<Rightarrow> ('c \<Rightarrow> 'c \<Rightarrow> bool) \<Rightarrow> bool" where
  "aead_method lib kind R \<longleftrightarrow> cipher_laws lib kind R \<and> kind_category kind = CatAead \<and>
     \<not> kind_is_aead_2022 kind \<and> 0 < kind_tag_len kind \<and> 0 < kind_salt_len kind"

lemma generate_nonce_Some:
  assumes "generate_nonce lib ctx kind n unique draws = Some (nonce, ctx')" "0 < n"
  shows "(\<exists>t. (t, nonce) \<in> set draws) \<and> replay_policy ctx' = replay_policy ctx"
  using assms
proof (induction lib ctx kind n unique draws rule: generate_nonce.induct)
  case (3 lib ctx kind n unique now nonce0 draws)
  have pol: "context_check_nonce_and_set lib ctx now kind nonce0 = (hit, ctx1) \<Longrightarrow> replay_policy ctx1 = replay_policy ctx" for hit ctx1
    by (auto simp: context_check_nonce_and_set_def Let_def split: if_splits prod.splits)
  obtain hit ctx1 where c: "context_check_nonce_and_set lib ctx now kind nonce0 = (hit, ctx1)" by force
  show ?case
  proof (cases "unique \<and> hit")
    case True
    then have "generate_nonce lib ctx1 kind (Suc n) unique draws = Some (nonce, ctx')" using 3(2) c by simp
    from 3(1) [OF _ c [symmetric] refl] True this pol [OF c] show ?thesis by auto
  next
    case False
    then show ?thesis using 3(2) c pol [OF c] by (auto split: if_splits)
  qed
qed auto

text \<open>A fresh stream over a connection whose source carries \<open>T\<close>.\<close>

lemma aead_dx_new:
  assumes m: "aead_method (te_cipher env) kind R" and pol: "replay_policy ctx \<noteq> PolicyReject"
    and draws: "\<forall>(t, n) \<in> set draws. length n = kind_salt_len kind"
    and src: "clean_script (so_source so)" "aead_wire (te_cipher env) kind key pmem T (script_bytes (so_source so))"
    and snk: "sink_clean (sink_script (so_sink so))" "sink_bytes (so_sink so) = []"
    and new: "from_stream_with_identity env ctx so ty kind key ids um draws = Some (Ok (cs, ctx'))"
  obtains salt where "length salt = kind_salt_len kind" "cs_stream cs = so" "replay_policy ctx' = replay_policy ctx"
    "aead_dx env kind R pmem (cipher_new (te_cipher env) kind key salt) salt (cs, ctx') T [] None"
proof -
  from m have k: "kind_category kind = CatAead" "cipher_laws (te_cipher env) kind R" "\<not> kind_is_aead_2022 kind"
    "0 < kind_tag_len kind" "0 < kind_salt_len kind" by (simp_all add: aead_method_def)
  from new k(1) obtain salt where g: "generate_nonce (te_replay env) ctx kind (kind_salt_len kind) True draws = Some (salt, ctx')"
    and cs: "cs = \<lparr>cs_stream = so, cs_dec = DecAead (aead_reader_new (te_cipher env) kind key),
        cs_enc = EncAead (aead_writer_new (te_cipher env) kind key salt), cs_method = kind, cs_has_handshaked = False\<rparr>"
    by (auto simp: from_stream_with_identity_def Let_def enc_with_identity_def dec_with_user_manager_def split: option.splits)
  from generate_nonce_Some [OF g k(5)] draws have salt: "length salt = kind_salt_len kind" "replay_policy ctx' = replay_policy ctx" by auto
  from src(2) obtain psalt bufs where w: "length psalt = kind_salt_len kind" "\<forall>b \<in> set bufs. length b \<le> MAX_PACKET_SIZE"
    "concat bufs = T" "script_bytes (so_source so) = psalt @ fst (aead_chunks (te_cipher env) pmem (cipher_new (te_cipher env) kind key psalt) bufs)"
    unfolding aead_wire_def by blast
  have "aead_reading (te_cipher env) (te_replay env) pmem kind R
      \<lparr>rd_reader = aead_reader_new (te_cipher env) kind key, rd_source = so_source so, rd_ctx = ctx'\<rparr> (concat bufs)"
    using pol salt(2) by (intro aead_reading_new [OF k(2,3,4,5) w(1) _ src(1) w(4,2)]) simp
  moreover have "aead_taken (te_cipher env) (te_mem env) (cipher_new (te_cipher env) kind key salt) salt
      (aead_writer_new (te_cipher env) kind key salt, so_sink so) [] None"
    using snk by (auto simp: aead_taken_def aead_writer_new_def intro!: exI [of _ "[]"])
  ultimately have "aead_dx env kind R pmem (cipher_new (te_cipher env) kind key salt) salt (cs, ctx') T [] None"
    by (simp add: aead_dx_def cs w(3))
  then show ?thesis using that salt cs by simp
qed

text \<open>What an idle stream has put on its wire.\<close>

lemma aead_dx_wire:
  assumes "aead_dx env kind R pmem (cipher_new (te_cipher env) kind key salt) salt (cs, ctx) d t None"
    and "length salt = kind_salt_len kind" "t \<noteq> []"
  shows "aead_wire (te_cipher env) kind key (te_mem env) t (sink_bytes (so_sink (cs_stream cs)))"
proof -
  from assms(1) obtain w where "aead_taken (te_cipher env) (te_mem env) (cipher_new (te_cipher env) kind key salt) salt
      (w, so_sink (cs_stream cs)) t None" unfolding aead_dx_def Let_def prod.case by blast
  from aead_taken_wire [OF this assms(3)] assms(2) show ?thesis unfolding aead_wire_def by metis
qed

section \<open>The client's relay\<close>

lemma local_relay:
  fixes env :: "('c, 'd, 'b, 's) tcp_env"
  assumes m: "aead_method (te_cipher env) (svr_method cfg) R" and pol: "replay_policy ctx \<noteq> PolicyReject"
    and draws: "\<forall>(t, n) \<in> set draws. length n = kind_salt_len (svr_method cfg)"
    and addr: "address_write_to_buf addr = (Ok ab :: (bytes, io_kind) outcome)"
    and src: "clean_script (so_source so)" "aead_wire (te_cipher env) (svr_method cfg) (svr_enc_key cfg) pmem T2 (script_bytes (so_source so))"
    and snk: "sink_clean (sink_script (so_sink so))" "sink_bytes (so_sink so) = []"
    and new: "client_from_stream env ctx so cfg addr draws = Some (Ok client :: (_, 'e) outcome)"
    and plain: "clean_script (so_source plain)" "chunks_within (MAX_PACKET_SIZE - length ab) (so_source plain)"
      "script_bytes (so_source plain) \<noteq> []" "sink_clean (sink_script (so_sink plain))" "sink_bytes (so_sink plain) = []"
    and n: "socket_waits so + socket_waits plain < n"
  shows "\<exists>st. await_times n (poll_impl (client_ops env rnd) socket_ops)
        (copy_encrypted_bidirectional (svr_method cfg) client plain) =
      Some (Ready (Ok (of_nat (length T2), of_nat (length (script_bytes (so_source plain))))), st) \<and>
    sink_bytes (so_sink (bi_b st)) = T2 \<and>
    aead_wire (te_cipher env) (svr_method cfg) (svr_enc_key cfg) (te_mem env) (ab @ script_bytes (so_source plain))
      (sink_bytes (so_sink (cs_stream (pc_stream (fst (bi_a st)))))) \<and>
    client_shut (bi_a st) \<and> so_shut (bi_b st)"
proof -
  let ?kind = "svr_method cfg" and ?T1 = "script_bytes (so_source plain)"
  from m have k: "kind_category ?kind = CatAead" "cipher_laws (te_cipher env) ?kind R" "\<not> kind_is_aead_2022 ?kind"
    by (simp_all add: aead_method_def)
  from new obtain cs ctx' where f: "from_stream_with_identity env ctx so ClientStream ?kind (svr_enc_key cfg)
      (svr_identity_keys cfg) None draws = Some (Ok (cs, ctx') :: (_, 'e) outcome)"
    and cl: "client = (\<lparr>pc_stream = cs, pc_writer_state = Connect addr, pc_reader_state = ClientEstablished\<rparr>, ctx')"
    using k(3) by (auto simp: client_from_stream_def and_then_Ok_iff split: option.splits)
  obtain salt where s: "length salt = kind_salt_len ?kind" "cs_stream cs = so"
    "aead_dx env ?kind R pmem (cipher_new (te_cipher env) ?kind (svr_enc_key cfg) salt) salt (cs, ctx') T2 [] None"
    by (rule aead_dx_new [OF m pol draws src snk f])
  let ?c = "cipher_new (te_cipher env) ?kind (svr_enc_key cfg) salt"
  have a: "client_dx env ?kind R pmem ?c salt addr ab client T2 [] None" using s k addr by (simp add: client_dx_def cl)
  have b: "socket_dx (MAX_PACKET_SIZE - length ab) MAX_PACKET_SIZE plain ?T1 [] None"
    using plain by (simp add: socket_dx_def socket_clean_def)
  have size: "plain_read_buffer_size ?kind = MAX_PACKET_SIZE" using k(1) by (simp add: plain_read_buffer_size_def)
  have rel: "lo.relaying TYPE('d) env ?kind R pmem ?c salt addr ab T2 ?T1 (copy_encrypted_bidirectional ?kind client plain)"
    unfolding copy_encrypted_bidirectional_def size by (rule lo.relaying_new [OF a b]) (simp_all add: MAX_PACKET_SIZE_def)
  have wt: "lo.relay_waits (copy_encrypted_bidirectional ?kind client plain) < n"
    using n s(2) by (simp add: lo.relay_waits_def copy_encrypted_bidirectional_def copy_bidirectional_new_def client_waits_def cl)
  obtain st where st: "await_times n (poll_impl (client_ops env rnd) socket_ops)
      (copy_encrypted_bidirectional ?kind client plain) = Some (Ready (Ok (of_nat (length T2), of_nat (length ?T1))), st)"
    "lo.relayed TYPE('d) env ?kind R pmem ?c salt addr ab T2 ?T1 st"
    using lo.relays [OF rel wt] by blast
  from st(2) have fin: "client_dx env ?kind R pmem ?c salt addr ab (bi_a st) [] ?T1 None"
    "socket_dx (MAX_PACKET_SIZE - length ab) MAX_PACKET_SIZE (bi_b st) [] T2 None" "client_shut (bi_a st)" "so_shut (bi_b st)"
    by (simp_all add: lo.relayed_def)
  have "pc_writer_state (fst (bi_a st)) = Connected"
    using fin(1) plain(3) by (auto simp: client_dx_def split: client_write_state.splits)
  then have "aead_dx env ?kind R pmem ?c salt (pc_stream (fst (bi_a st)), snd (bi_a st)) [] (ab @ ?T1) None"
    using fin(1) by (simp add: client_dx_def)
  from aead_dx_wire [OF this s(1)] plain(3) st(1) fin show ?thesis
    by (intro exI [of _ st]) (simp add: socket_dx_def)
qed

section \<open>The server's relay\<close>

lemma remote_relay:
  fixes env :: "('c, 'd, 'b, 's) tcp_env"
  assumes m: "aead_method (te_cipher env) kind R" and pol: "replay_policy ctx \<noteq> PolicyReject"
    and draws: "\<forall>(t, n) \<in> set draws. length n = kind_salt_len kind"
    and addr: "wf_address addr" "address_write_to_buf addr = (Ok ab :: (bytes, io_kind) outcome)"
    and src: "clean_script (so_source so)" "aead_wire (te_cipher env) kind key pmem (ab @ T1) (script_bytes (so_source so))"
    and snk: "sink_clean (sink_script (so_sink so))" "sink_bytes (so_sink so) = []"
    and new: "server_from_stream env ctx so kind key um draws = Some (Ok server :: (_, 'e) outcome)"
    and plain: "clean_script (so_source plain)" "script_bytes (so_source plain) \<noteq> []"
      "sink_clean (sink_script (so_sink plain))" "sink_bytes (so_sink plain) = []"
    and n: "socket_waits so + socket_waits plain < n"
  shows "\<exists>server' st. handshake env server = Some (Ok addr, server') \<and>
    await_times n (poll_impl (server_ops env) socket_ops) (copy_encrypted_bidirectional kind server' plain) =
      Some (Ready (Ok (of_nat (length T1), of_nat (length (script_bytes (so_source plain))))), st) \<and>
    sink_bytes (so_sink (bi_b st)) = T1 \<and>
    aead_wire (te_cipher env) kind key (te_mem env) (script_bytes (so_source plain))
      (sink_bytes (so_sink (cs_stream (ps_stream (fst (bi_a st)))))) \<and>
    server_shut (bi_a st) \<and> so_shut (bi_b st)"
proof -
  let ?T2 = "script_bytes (so_source plain)"
  from m have k: "kind_category kind = CatAead" "cipher_laws (te_cipher env) kind R" "\<not> kind_is_aead_2022 kind"
    by (simp_all add: aead_method_def)
  from new obtain cs ctx' where f: "from_stream_with_identity env ctx so ServerStream kind key [] um draws =
      Some (Ok (cs, ctx') :: (_, 'e) outcome)"
    and sv: "server = (\<lparr>ps_stream = cs, ps_writer_state = ServerEstablished, ps_has_handshaked = False\<rparr>, ctx')"
    using k(3) by (auto simp: server_from_stream_def and_then_Ok_iff split: option.splits)
  obtain salt where s: "length salt = kind_salt_len kind" "cs_stream cs = so"
    "aead_dx env kind R pmem (cipher_new (te_cipher env) kind key salt) salt (cs, ctx') (ab @ T1) [] None"
    by (rule aead_dx_new [OF m pol draws src snk f])
  let ?c = "cipher_new (te_cipher env) kind key salt"
  let ?s1 = "(\<lparr>ps_stream = cs, ps_writer_state = ServerEstablished, ps_has_handshaked = True\<rparr>, ctx')"
  have dx1: "server_dx env kind R pmem ?c salt ?s1 (ab @ T1) [] None" using s(3) k by (simp add: server_dx_def)
  have "address_read_from (ab @ T1, Eof) = Ok (addr, (T1, Eof))"
    by (rule address_read_from_write [OF addr])
  then have hd: "tcp_header_read_from kind (ab @ T1, Eof) = Ok (StreamHeader \<lparr>v1_addr = addr\<rparr>, (T1, Eof))"
    using k(1) by (simp add: tcp_header_read_from_def v1_read_from_def)
  have "sv.implements TYPE('d) env kind R pmem ?c salt (await_tcp_header (server_ops env) kind) (tcp_header_read_from kind)"
    by (rule sv.implements_header) (simp add: MAX_PACKET_SIZE_def)
  from sv.implements_Ok [OF this dx1 hd] obtain s2 where s2: "await_tcp_header (server_ops env) kind ?s1 =
      Some (Ok (StreamHeader \<lparr>v1_addr = addr\<rparr>), s2)" "server_dx env kind R pmem ?c salt s2 T1 [] None"
    "server_waits s2 \<le> server_waits ?s1" by (metis fst_conv)
  have "cs_method cs = kind" using s(3) by (simp add: aead_dx_def)
  then have hs: "handshake env server = Some (Ok addr, s2)"
    using s2(1) by (simp add: handshake_def sv await_bind_def split: prod.splits)
  have b: "socket_dx MAX_PACKET_SIZE MAX_PACKET_SIZE plain ?T2 [] None"
    using plain by (simp add: socket_dx_def socket_clean_def)
  have size: "plain_read_buffer_size kind = MAX_PACKET_SIZE" using k(1) by (simp add: plain_read_buffer_size_def)
  have rel: "re.relaying TYPE('d) env kind R pmem ?c salt T1 ?T2 (copy_encrypted_bidirectional kind s2 plain)"
    unfolding copy_encrypted_bidirectional_def size by (rule re.relaying_new [OF s2(2) b]) (simp_all add: MAX_PACKET_SIZE_def)
  have wt: "re.relay_waits (copy_encrypted_bidirectional kind s2 plain) < n"
    using n s(2) s2(3) by (simp add: re.relay_waits_def copy_encrypted_bidirectional_def copy_bidirectional_new_def server_waits_def)
  obtain st where st: "await_times n (poll_impl (server_ops env) socket_ops)
      (copy_encrypted_bidirectional kind s2 plain) = Some (Ready (Ok (of_nat (length T1), of_nat (length ?T2))), st)"
    "re.relayed TYPE('d) env kind R pmem ?c salt T1 ?T2 st"
    using re.relays [OF rel wt] by blast
  from st(2) have fin: "server_dx env kind R pmem ?c salt (bi_a st) [] ?T2 None"
    "socket_dx MAX_PACKET_SIZE MAX_PACKET_SIZE (bi_b st) [] T1 None" "server_shut (bi_a st)" "so_shut (bi_b st)"
    by (simp_all add: re.relayed_def)
  then have "aead_dx env kind R pmem ?c salt (ps_stream (fst (bi_a st)), snd (bi_a st)) [] ?T2 None" by (simp add: server_dx_def)
  from aead_dx_wire [OF this s(1) plain(2)] hs st(1) fin show ?thesis
    by (intro exI [of _ s2] exI [of _ st]) (simp add: socket_dx_def)
qed

section \<open>A concrete proxy\<close>

definition sample_proxy_env :: "(nat \<times> nat, unit, bytes list, exact_cache) tcp_env" where
  "sample_proxy_env = \<lparr>te_cipher = counter_lib, te_2022 = mask_tunnel_lib, te_replay = exact_lib, te_mem = \<lambda>_. 0,
     te_now = 1000, te_inst = 7\<rparr>"

definition sample_proxy_config :: "unit server_config" where
  "sample_proxy_config = \<lparr>svr_addr = ServerDomainName ''a'' 1, svr_password = ''p'', svr_method = sample_aead_kind,
     svr_enc_key = [1, 2, 3, 4], svr_timeout = None, svr_identity_keys = [], svr_user_manager = None, svr_plugin = None,
     svr_plugin_addr = None, svr_remarks = None, svr_id = None, svr_mode = TcpOnly, svr_weight = ()\<rparr>"

definition sample_target :: address where
  "sample_target = SocketAddress (SockV4 0x7F000001 80)"

definition sample_plain :: "bytes \<Rightarrow> tcp_socket" where
  "sample_plain bs = \<lparr>so_source = [RdData bs], so_sink = \<lparr>sink_bytes = [], sink_script = [WrPending]\<rparr>, so_shut = False\<rparr>"

lemma sample_aead_method: "aead_method counter_lib sample_aead_kind (\<lambda>c d. c = d \<and> fst c = kind_tag_len sample_aead_kind)"
  using counter_laws [of sample_aead_kind] by (simp add: aead_method_def sample_aead_kind_def)

lemma sample_proxy_client:
  "\<exists>client. client_from_stream sample_proxy_env (context_new exact_lib Local) so sample_proxy_config sample_target [(0, [9, 9])] =
    Some (Ok client :: (_, 'e) outcome)"
  by (simp add: client_from_stream_def from_stream_with_identity_def sample_proxy_config_def sample_aead_kind_def
      sample_proxy_env_def enc_with_identity_def context_new_def replay_protector_new_def context_check_nonce_and_set_def
      protector_check_nonce_and_set_def ppbloom_new_def ppbloom_check_and_set_def exact_lib_def numeral_2_eq_2)

lemma sample_proxy_server:
  "\<exists>server. server_from_stream sample_proxy_env (context_new exact_lib Server) so sample_aead_kind [1, 2, 3, 4] None [(0, [8, 8])] =
    Some (Ok server :: (_, unit) outcome)"
  by (simp add: server_from_stream_def from_stream_with_identity_def sample_aead_kind_def
      sample_proxy_env_def enc_with_identity_def context_new_def replay_protector_new_def context_check_nonce_and_set_def
      protector_check_nonce_and_set_def ppbloom_new_def ppbloom_check_and_set_def exact_lib_def numeral_2_eq_2)

lemma sample_response_wire:
  "aead_wire counter_lib sample_aead_kind [1, 2, 3, 4] (\<lambda>_. 0) [5] [9, 9, 0, 1, 0, 5, 1]"
proof -
  have "[9, 9, 0, 1, 0, 5, 1] = [9, 9] @ fst (aead_chunks counter_lib (\<lambda>_. 0) (cipher_new counter_lib sample_aead_kind [1, 2, 3, 4] [9, 9]) [[5]])"
    by code_simp
  then show ?thesis unfolding aead_wire_def
    by (intro exI [of _ "[9, 9]"] exI [of _ "[[5]]"]) (simp add: sample_aead_kind_def MAX_PACKET_SIZE_def)
qed

section \<open>Properties\<close>

text \<open>C1: A proxied request is delivered, with an AEAD method: when a client relays a plain connection with
  the text \<open>T1\<close> over a new tunnel to the address \<open>addr\<close>, and a server is given, in any fragments, the
  bytes that the client's relay put on its connection, then the server's handshake returns \<open>addr\<close>, its
  relay hands \<open>T1\<close> to the target and puts the target's reply on its connection for the client; the client
  has handed the reply \<open>T2\<close> on its own connection to the plain side. All relays return, within as many
  polls as their connections have pauses and one more, with the lengths of the texts, and shut both sides
  down. The buffers that the plain side delivers must leave room for the address in the first packet.\<close>

theorem proxied_request_delivers:
  fixes env senv :: "('c, 'd, 'b, 's) tcp_env"
  assumes m: "aead_method (te_cipher env) (svr_method cfg) R" "te_cipher senv = te_cipher env"
    and pol: "replay_policy ctx \<noteq> PolicyReject" "replay_policy sctx \<noteq> PolicyReject"
    and draws: "\<forall>(t, n) \<in> set (draws @ sdraws). length n = kind_salt_len (svr_method cfg)"
    and addr: "wf_address addr" "address_write_to_buf addr = (Ok ab :: (bytes, io_kind) outcome)"
    and conn: "clean_script (so_source so)" "sink_clean (sink_script (so_sink so))" "sink_bytes (so_sink so) = []"
    and reply: "aead_wire (te_cipher env) (svr_method cfg) (svr_enc_key cfg) pmem T2 (script_bytes (so_source so))"
    and client: "client_from_stream env ctx so cfg addr draws = Some (Ok client :: (_, 'e) outcome)"
    and plain: "clean_script (so_source plain)" "chunks_within (MAX_PACKET_SIZE - length ab) (so_source plain)"
      "script_bytes (so_source plain) = T1" "T1 \<noteq> []" "sink_clean (sink_script (so_sink plain))" "sink_bytes (so_sink plain) = []"
    and n: "socket_waits so + socket_waits plain < n"
    and run: "await_times n (poll_impl (client_ops env rnd) socket_ops)
        (copy_encrypted_bidirectional (svr_method cfg) client plain) = Some (r, st)"
    and sconn: "clean_script (so_source sso)" "script_bytes (so_source sso) = sink_bytes (so_sink (cs_stream (pc_stream (fst (bi_a st)))))"
      "sink_clean (sink_script (so_sink sso))" "sink_bytes (so_sink sso) = []"
    and server: "server_from_stream senv sctx sso (svr_method cfg) (svr_enc_key cfg) um sdraws = Some (Ok server :: (_, 'e) outcome)"
    and target: "clean_script (so_source target)" "script_bytes (so_source target) = T3" "T3 \<noteq> []"
      "sink_clean (sink_script (so_sink target))" "sink_bytes (so_sink target) = []"
    and sn: "socket_waits sso + socket_waits target < sn"
  shows "r = Ready (Ok (of_nat (length T2), of_nat (length T1))) \<and> sink_bytes (so_sink (bi_b st)) = T2 \<and>
    client_shut (bi_a st) \<and> so_shut (bi_b st) \<and>
    (\<exists>server' sst. handshake senv server = Some (Ok addr, server') \<and>
      await_times sn (poll_impl (server_ops senv) socket_ops) (copy_encrypted_bidirectional (svr_method cfg) server' target) =
        Some (Ready (Ok (of_nat (length T1), of_nat (length T3))), sst) \<and>
      sink_bytes (so_sink (bi_b sst)) = T1 \<and> server_shut (bi_a sst) \<and> so_shut (bi_b sst) \<and>
      aead_wire (te_cipher senv) (svr_method cfg) (svr_enc_key cfg) (te_mem senv) T3
        (sink_bytes (so_sink (cs_stream (ps_stream (fst (bi_a sst)))))))"
proof -
  have dr: "\<forall>(t, n) \<in> set draws. length n = kind_salt_len (svr_method cfg)"
    "\<forall>(t, n) \<in> set sdraws. length n = kind_salt_len (svr_method cfg)" using draws by auto
  have sm: "aead_method (te_cipher senv) (svr_method cfg) R" using m by simp
  have ne: "script_bytes (so_source plain) \<noteq> []" "script_bytes (so_source target) \<noteq> []" using plain(3,4) target(2,3) by simp_all
  have loc: "r = Ready (Ok (of_nat (length T2), of_nat (length T1)))" "sink_bytes (so_sink (bi_b st)) = T2"
    "aead_wire (te_cipher env) (svr_method cfg) (svr_enc_key cfg) (te_mem env) (ab @ T1)
      (sink_bytes (so_sink (cs_stream (pc_stream (fst (bi_a st))))))" "client_shut (bi_a st)" "so_shut (bi_b st)"
    using local_relay [OF m(1) pol(1) dr(1) addr(2) conn(1) reply conn(2,3) client plain(1,2) ne(1) plain(5,6) n, of rnd] run plain(3)
    by auto
  have wire: "aead_wire (te_cipher senv) (svr_method cfg) (svr_enc_key cfg) (te_mem env) (ab @ T1) (script_bytes (so_source sso))"
    using loc(3) sconn(2) m(2) by simp
  from remote_relay [OF sm pol(2) dr(2) addr sconn(1) wire sconn(3,4) server target(1) ne(2) target(4,5) sn] target(2) loc
  show ?thesis by (auto simp only:)
qed

theorem proxied_request_delivers_witness:
  "\<exists>client st server server' sst.
    client_from_stream sample_proxy_env (context_new exact_lib Local) (sample_plain [9, 9, 0, 1, 0, 5, 1]) sample_proxy_config
      sample_target [(0, [9, 9])] = Some (Ok client :: (_, unit) outcome) \<and>
    await_times 3 (poll_impl (client_ops sample_proxy_env 0) socket_ops)
      (copy_encrypted_bidirectional sample_aead_kind client (sample_plain [1, 2])) = Some (Ready (Ok (1, 2)), st) \<and>
    sink_bytes (so_sink (bi_b st)) = [5] \<and>
    handshake sample_proxy_env server = Some (Ok sample_target, server') \<and>
    await_times 2 (poll_impl (server_ops sample_proxy_env) socket_ops)
      (copy_encrypted_bidirectional sample_aead_kind server' (sample_plain [6])) = Some (Ready (Ok (2, 1)), sst) \<and>
    sink_bytes (so_sink (bi_b sst)) = [1, 2]"
proof -
  let ?so = "sample_plain [9, 9, 0, 1, 0, 5, 1]"
  have ab: "address_write_to_buf sample_target = (Ok [1, 127, 0, 0, 1, 0, 80] :: (bytes, io_kind) outcome)"
    by (simp add: sample_target_def, code_simp)
  have so: "clean_script (so_source ?so)" "sink_clean (sink_script (so_sink ?so))" "sink_bytes (so_sink ?so) = []"
    "script_bytes (so_source ?so) = [9, 9, 0, 1, 0, 5, 1]" by (simp_all add: sample_plain_def)
  obtain client where cl: "client_from_stream sample_proxy_env (context_new exact_lib Local) ?so sample_proxy_config
      sample_target [(0, [9, 9])] = Some (Ok client :: (_, unit) outcome)" using sample_proxy_client by blast
  have env: "te_cipher sample_proxy_env = counter_lib" "svr_method sample_proxy_config = sample_aead_kind"
    "svr_enc_key sample_proxy_config = [1, 2, 3, 4]" by (simp_all add: sample_proxy_env_def sample_proxy_config_def)
  have c2: "replay_policy (context_new exact_lib ty) \<noteq> PolicyReject" for ty by (simp add: context_new_def)
  have salt: "kind_salt_len sample_aead_kind = 2" by (simp add: sample_aead_kind_def)
  obtain st where run: "await_times 3 (poll_impl (client_ops sample_proxy_env 0) socket_ops)
      (copy_encrypted_bidirectional sample_aead_kind client (sample_plain [1, 2])) = Some (Ready (Ok (1, 2)), st)"
    using local_relay [where env = sample_proxy_env and cfg = sample_proxy_config and draws = "[(0, [9, 9])]" and ab = "[1, 127, 0, 0, 1, 0, 80]"
        and ?T2.0 = "[5]" and plain = "sample_plain [1, 2]" and n = 3 and rnd = 0 and so = ?so and pmem = "\<lambda>_. 0",
        unfolded env so(4), OF sample_aead_method c2 _ ab so(1) sample_response_wire so(2,3) cl] so
    by (auto simp: salt sample_plain_def socket_waits_def MAX_PACKET_SIZE_def)
  define W where "W = sink_bytes (so_sink (cs_stream (pc_stream (fst (bi_a st)))))"
  define sso where "sso = \<lparr>so_source = (if W = [] then [] else [RdData W]), so_sink = \<lparr>sink_bytes = [], sink_script = []\<rparr>, so_shut = False\<rparr>"
  have sso: "clean_script (so_source sso)" "script_bytes (so_source sso) = W" "sink_clean (sink_script (so_sink sso))"
    "sink_bytes (so_sink sso) = []" "socket_waits sso = 0" by (simp_all add: sso_def socket_waits_def)
  obtain server where sv: "server_from_stream sample_proxy_env (context_new exact_lib Server) sso sample_aead_kind [1, 2, 3, 4] None [(0, [8, 8])] =
    Some (Ok server :: (_, unit) outcome)" using sample_proxy_server by blast
  have plain: "clean_script (so_source (sample_plain [6]))" "script_bytes (so_source (sample_plain [6])) = [6]"
    "chunks_within (MAX_PACKET_SIZE - length [1, 127, 0, 0, 1, 0, 80 :: u8]) (so_source (sample_plain [1, 2]))"
    "clean_script (so_source (sample_plain [1, 2]))" "script_bytes (so_source (sample_plain [1, 2])) = [1, 2]"
    "sink_clean (sink_script (so_sink (sample_plain x)))" "sink_bytes (so_sink (sample_plain x)) = []"
    "socket_waits (sample_plain x) = 1" "socket_waits ?so = 1" for x
    by (simp_all add: sample_plain_def socket_waits_def MAX_PACKET_SIZE_def)
  have waits: "socket_waits ?so + socket_waits (sample_plain [1, 2]) < 3" "socket_waits sso + socket_waits (sample_plain [6]) < 2"
    using plain sso by simp_all
  have wf: "wf_address sample_target" by (simp add: sample_target_def)
  have dr: "\<forall>(t, n) \<in> set ([(0, [9, 9])] @ [(0, [8, 8])]). length n = kind_salt_len sample_aead_kind" by (simp add: salt)
  have rep: "aead_wire counter_lib sample_aead_kind [1, 2, 3, 4] (\<lambda>_. 0) [5] (script_bytes (so_source ?so))"
    using sample_response_wire so(4) by simp
  have wire: "script_bytes (so_source sso) = sink_bytes (so_sink (cs_stream (pc_stream (fst (bi_a st)))))" using sso(2) W_def by simp
  have ne: "[1, 2 :: u8] \<noteq> []" "[6 :: u8] \<noteq> []" by simp_all
  have fin: "sink_bytes (so_sink (bi_b st)) = [5]" "\<exists>server' sst. handshake sample_proxy_env server = Some (Ok sample_target, server') \<and>
      await_times 2 (poll_impl (server_ops sample_proxy_env) socket_ops) (copy_encrypted_bidirectional sample_aead_kind server' (sample_plain [6])) =
        Some (Ready (Ok (of_nat (length [1, 2 :: u8]), of_nat (length [6 :: u8]))), sst) \<and>
      sink_bytes (so_sink (bi_b sst)) = [1, 2]"
    using proxied_request_delivers [where env = sample_proxy_env and senv = sample_proxy_env and cfg = sample_proxy_config, unfolded env,
        OF sample_aead_method refl c2 c2 dr wf ab so(1,2,3) rep cl plain(4,3,5) ne(1) plain(6,7) waits(1) run sso(1) wire sso(3,4) sv plain(1,2) ne(2) plain(6,7) waits(2)]
    by blast+
  obtain server' sst where fin2: "handshake sample_proxy_env server = Some (Ok sample_target, server')"
      "await_times 2 (poll_impl (server_ops sample_proxy_env) socket_ops) (copy_encrypted_bidirectional sample_aead_kind server' (sample_plain [6])) =
        Some (Ready (Ok (2, 1)), sst)" "sink_bytes (so_sink (bi_b sst)) = [1, 2]"
    using fin(2) by auto
  show ?thesis
    by (intro exI [of _ client] exI [of _ st] exI [of _ server] exI [of _ server'] exI [of _ sst] conjI cl run fin(1) fin2)
qed

lemma aead_poll_write_cut:
  "aead_poll_write lib mem (take MAX_PACKET_SIZE buf) ws = aead_poll_write lib mem buf ws"
  by (simp add: aead_poll_write_def)

lemma client_write_first_cut:
  assumes enc: "cs_enc (pc_stream ps) = EncAead w" and room: "length ab + k = MAX_PACKET_SIZE" "k < length buf"
    and run: "client_write_first env (ab @ buf) buf (ps\<lparr>pc_writer_state := Connecting (ab @ buf)\<rparr>) = (Ready (Ok n), ps')"
  shows "n = length buf \<and> client_write_first env (ab @ take k buf) (take k buf)
      (ps\<lparr>pc_writer_state := Connecting (ab @ take k buf)\<rparr>) = (Ready (Ok k), ps')"
proof -
  have "take MAX_PACKET_SIZE (ab @ buf) = ab @ take k buf" using room by (simp flip: room(1))
  then have "aead_poll_write (te_cipher env) (te_mem env) (ab @ take k buf) ws = aead_poll_write (te_cipher env) (te_mem env) (ab @ buf) ws" for ws
    using aead_poll_write_cut by metis
  then have eq: "crypto_poll_write env (ab @ take k buf) (pc_stream ps) = crypto_poll_write env (ab @ buf) (pc_stream ps)"
    using enc by (simp add: crypto_poll_write_def)
  obtain p cs where r: "crypto_poll_write env (ab @ buf) (pc_stream ps) = (p, cs)" by force
  from run room r eq show ?thesis
  proof (cases p)
    case (Ready q)
    with run room r eq show ?thesis by (cases q) (auto simp: client_write_first_def)
  qed (auto simp: client_write_first_def)
qed

text \<open>C13: The first packet of an AEAD tunnel can lose data: when the address and the first buffer do not fit
  into one packet, a write that returns reports the whole buffer as taken, but leaves the stream, and with
  it the wire, exactly as the write of only that part of the buffer that fits behind the address.\<close>

theorem first_packet_cut:
  fixes ps :: "'c client_stream"
  assumes st: "pc_writer_state ps = Connect addr" "cs_enc (pc_stream ps) = EncAead w" "\<not> kind_is_aead_2022 (cs_method (pc_stream ps))"
    and ab: "address_write_to_buf addr = (Ok ab :: (bytes, io_kind) outcome)"
    and room: "length ab + k = MAX_PACKET_SIZE" "k < length buf"
    and run: "client_poll_write env rnd buf ps = (Ready (Ok n), ps')"
  shows "n = length buf \<and> client_poll_write env rnd (take k buf) ps = (Ready (Ok k), ps')"
  using run client_write_first_cut [OF st(2) room, of env n ps'] st(1)
  by (simp add: client_poll_write_def make_first_aead [OF st(3) ab])

lemma aead_poll_write_open:
  assumes "sink_script s = []" "aw_state w = AssemblePacket"
  shows "\<exists>x w' s'. aead_poll_write lib mem b (w, s) = (Ready (Ok x), w', s')"
proof -
  have d: "\<exists>pos' s'. drain_buffer b 0 s = (Ready (Ok ()), pos', s')" for b
    using assms(1) by (cases b) (simp_all add: drain_buffer.simps [of "[]"] drain_buffer.simps [of "_ # _"] poll_write_def)
  define B where "B = (if MAX_PACKET_SIZE < length b then take MAX_PACKET_SIZE b else b)"
  have w: "aw_state (aead_assemble lib mem B w) = Writing 0" by (simp add: aead_assemble_def split: prod.splits)
  obtain pos' s' where "drain_buffer (aw_buffer (aead_assemble lib mem B w)) 0 s = (Ready (Ok ()), pos', s')" using d by blast
  then show ?thesis by (simp add: aead_poll_write_def assms(2) w flip: B_def)
qed

definition sample_idle_client :: "(nat \<times> nat) client_stream" where
  "sample_idle_client = \<lparr>pc_stream = \<lparr>cs_stream = \<lparr>so_source = [], so_sink = \<lparr>sink_bytes = [], sink_script = []\<rparr>, so_shut = False\<rparr>,
       cs_dec = DecNone, cs_enc = EncAead (aead_writer_new counter_lib sample_aead_kind [1, 2, 3, 4] [9, 9]),
       cs_method = sample_aead_kind, cs_has_handshaked = False\<rparr>,
     pc_writer_state = Connect sample_target, pc_reader_state = ClientEstablished\<rparr>"

theorem first_packet_cut_witness:
  "\<exists>w ps'. client_poll_write sample_proxy_env 0 (replicate 20000 1) sample_idle_client = (Ready (Ok 20000), ps') \<and>
    client_poll_write sample_proxy_env 0 (take 16376 (replicate 20000 1)) sample_idle_client = (Ready (Ok 16376), ps')"
proof -
  let ?ps = sample_idle_client and ?buf = "replicate 20000 1 :: bytes"
  have ab: "address_write_to_buf sample_target = (Ok [1, 127, 0, 0, 1, 0, 80] :: (bytes, io_kind) outcome)"
    by (simp add: sample_target_def, code_simp)
  have st: "pc_writer_state ?ps = Connect sample_target" "\<not> kind_is_aead_2022 (cs_method (pc_stream ?ps))"
    "cs_enc (pc_stream ?ps) = EncAead (aead_writer_new counter_lib sample_aead_kind [1, 2, 3, 4] [9, 9])"
    by (simp_all add: sample_idle_client_def sample_aead_kind_def)
  have sk: "so_sink (cs_stream (pc_stream ?ps)) = \<lparr>sink_bytes = [], sink_script = []\<rparr>" "te_cipher sample_proxy_env = counter_lib"
    by (simp_all add: sample_idle_client_def sample_proxy_env_def)
  obtain n ps' where run: "client_poll_write sample_proxy_env 0 ?buf ?ps = (Ready (Ok n), ps')"
  proof -
    have "\<exists>x cs. crypto_poll_write sample_proxy_env ([1, 127, 0, 0, 1, 0, 80] @ ?buf) (pc_stream ?ps) = (Ready (Ok x), cs)"
      using aead_poll_write_open [of "\<lparr>sink_bytes = [], sink_script = []\<rparr>" "aead_writer_new counter_lib sample_aead_kind [1, 2, 3, 4] [9, 9]"
          counter_lib "te_mem sample_proxy_env" "[1, 127, 0, 0, 1, 0, 80] @ ?buf"]
      by (auto simp: crypto_poll_write_def st sk aead_writer_new_def simp del: append.simps)
    then obtain x cs where "crypto_poll_write sample_proxy_env ([1, 127, 0, 0, 1, 0, 80] @ ?buf) (pc_stream ?ps) = (Ready (Ok x), cs)" by blast
    then show thesis using that
      by (simp add: client_poll_write_def client_write_first_def st make_first_aead [OF st(2) ab] del: append.simps)
  qed
  from first_packet_cut [OF st(1,3,2) ab _ _ run, of 16376] run show ?thesis by (simp add: MAX_PACKET_SIZE_def)
qed

end
