(* ===== verification/Local_Context.thy ===== *)
theory Local_Context
  imports Acl
begin

text \<open>
  The context of the local services, \<open>crates/shadowsocks-service/src/local/context.rs\<close>: the access list
  and the reverse lookup cache, in which the DNS relay notes the addresses whose names are to be treated
  other than the access list treats the address itself. The cache keeps exactly such exceptions.
\<close>

section \<open>The cache\<close>

text \<open>
  \<open>LruCache\<close> of the crate \<open>lru_time_cache\<close>: \<open>get\<close> and \<open>get_mut\<close> also drop what has expired and note the
  use; \<open>rev_set\<close> assigns through the reference that \<open>get_mut\<close> returned.
\<close>

record 'q rev_lib =
  rev_get :: "ip_addr \<Rightarrow> 'q \<Rightarrow> bool option \<times> 'q"
  rev_set :: "ip_addr \<Rightarrow> bool \<Rightarrow> 'q \<Rightarrow> 'q"
  rev_insert :: "ip_addr \<Rightarrow> bool \<Rightarrow> 'q \<Rightarrow> 'q"
  rev_remove :: "ip_addr \<Rightarrow> 'q \<Rightarrow> 'q"

text \<open>
  What it documents, in terms of what the cache holds at an instant: an insertion may push other entries
  out, but only above its capacity, and does not change them.
\<close>

definition rev_laws :: "('q, 'z) rev_lib_scheme \<Rightarrow> ('q \<Rightarrow> ip_addr \<Rightarrow> bool option) \<Rightarrow> nat \<Rightarrow> bool" where
  "rev_laws rl held cap \<longleftrightarrow>
     (\<forall>q. finite (dom (held q))) \<and>
     (\<forall>a q. fst (rev_get rl a q) = held q a \<and> held (snd (rev_get rl a q)) = held q) \<and>
     (\<forall>a v q. held q a \<noteq> None \<longrightarrow> held (rev_set rl a v q) = (held q)(a \<mapsto> v)) \<and>
     (\<forall>a v q. held (rev_insert rl a v q) a = Some v \<and>
        (\<forall>b. b \<noteq> a \<longrightarrow> held (rev_insert rl a v q) b = None \<or> held (rev_insert rl a v q) b = held q b) \<and>
        (card (dom (held q)) < cap \<longrightarrow> held (rev_insert rl a v q) = (held q)(a \<mapsto> v))) \<and>
     (\<forall>a q. held (rev_remove rl a q) = (held q)(a := None))"

lemma rev_lawsD:
  assumes "rev_laws rl held cap"
  shows "rev_get rl a q = (held q a, snd (rev_get rl a q))" "held (snd (rev_get rl a q)) = held q"
    "held q a \<noteq> None \<Longrightarrow> held (rev_set rl a v q) = (held q)(a \<mapsto> v)"
    "held (rev_insert rl a v q) a = Some v"
    "b \<noteq> a \<Longrightarrow> held (rev_insert rl a v q) b = None \<or> held (rev_insert rl a v q) b = held q b"
    "held (rev_remove rl a q) = (held q)(a := None)"
    "card (dom (held q)) < cap \<Longrightarrow> held (rev_insert rl a v q) = (held q)(a \<mapsto> v)" "finite (dom (held q))"
  using assms unfolding rev_laws_def by (simp_all add: prod_eq_iff)

section \<open>The context\<close>

record ('r4, 'r6, 're, 'q) service_context =
  sc_acl :: "('r4, 'r6, 're) access_control option"
  sc_cache :: 'q

definition context_check_bypassed ::
    "('r4, 'r6, 'n4, 'n6, 're, 'z) acl_lib_scheme \<Rightarrow> ('q, 'y) rev_lib_scheme
     \<Rightarrow> (string \<Rightarrow> u16 \<Rightarrow> (socket_addr list, io_kind) outcome) \<Rightarrow> address
     \<Rightarrow> ('r4, 'r6, 're, 'q) service_context \<Rightarrow> bool \<times> ('r4, 'r6, 're, 'q) service_context" where
  "context_check_bypassed lib rl dns_resolve addr sc =
     (case sc_acl sc of
        None \<Rightarrow> (False, sc)
      | Some acl \<Rightarrow>
          (case addr of
             SocketAddress saddr \<Rightarrow>
               let (found, q) = rev_get rl (sock_ip saddr) (sc_cache sc); sc = sc\<lparr>sc_cache := q\<rparr> in
               (case found of
                  Some forward \<Rightarrow> (\<not> forward, sc)
                | None \<Rightarrow> (check_target_bypassed lib dns_resolve acl addr, sc))
           | DomainNameAddress _ _ \<Rightarrow> (check_target_bypassed lib dns_resolve acl addr, sc)))"

definition add_to_reverse_lookup_cache ::
    "('r4, 'r6, 'n4, 'n6, 're, 'z) acl_lib_scheme \<Rightarrow> ('q, 'y) rev_lib_scheme \<Rightarrow> ip_addr \<Rightarrow> bool
     \<Rightarrow> ('r4, 'r6, 're, 'q) service_context \<Rightarrow> ('r4, 'r6, 're, 'q) service_context" where
  "add_to_reverse_lookup_cache lib rl addr forward sc =
     (let is_exception = forward \<noteq> (case sc_acl sc of None \<Rightarrow> True | Some a \<Rightarrow> check_ip_in_proxy_list lib a addr);
          (found, q) = rev_get rl addr (sc_cache sc)
      in case found of
           Some _ \<Rightarrow> sc\<lparr>sc_cache := if is_exception then rev_set rl addr forward q else rev_remove rl addr q\<rparr>
         | None \<Rightarrow> sc\<lparr>sc_cache := if is_exception then rev_insert rl addr forward q else q\<rparr>)"

section \<open>The cache holds exceptions\<close>

definition exceptions_only ::
    "('r4, 'r6, 'n4, 'n6, 're, 'z) acl_lib_scheme \<Rightarrow> ('q \<Rightarrow> ip_addr \<Rightarrow> bool option)
     \<Rightarrow> ('r4, 'r6, 're, 'q) service_context \<Rightarrow> bool" where
  "exceptions_only lib held sc \<longleftrightarrow>
     (\<forall>a f. held (sc_cache sc) a = Some f \<longrightarrow>
        f \<noteq> (case sc_acl sc of None \<Rightarrow> True | Some acl \<Rightarrow> check_ip_in_proxy_list lib acl a))"

lemma add_keeps_acl [simp]: "sc_acl (add_to_reverse_lookup_cache lib rl a f sc) = sc_acl sc"
  by (simp add: add_to_reverse_lookup_cache_def Let_def split: prod.splits option.splits)

text \<open>What is held afterwards for the address: the exception, or nothing when there is none.\<close>

lemma add_held:
  assumes "rev_laws rl held cap"
  shows "held (sc_cache (add_to_reverse_lookup_cache lib rl a f sc)) a =
    (if f \<noteq> (case sc_acl sc of None \<Rightarrow> True | Some acl \<Rightarrow> check_ip_in_proxy_list lib acl a) then Some f else None)"
proof -
  note r = rev_lawsD [OF assms]
  obtain q where g: "rev_get rl a (sc_cache sc) = (held (sc_cache sc) a, q)" "held q = held (sc_cache sc)"
    using r(1,2) by metis
  show ?thesis
    by (cases "held (sc_cache sc) a")
       (auto simp: add_to_reverse_lookup_cache_def Let_def g r(3,4,6) split: option.splits)
qed

lemma add_others:
  assumes "rev_laws rl held cap" "b \<noteq> a"
  shows "held (sc_cache (add_to_reverse_lookup_cache lib rl a f sc)) b = None \<or>
    held (sc_cache (add_to_reverse_lookup_cache lib rl a f sc)) b = held (sc_cache sc) b"
proof -
  note r = rev_lawsD [OF assms(1)]
  obtain q where g: "rev_get rl a (sc_cache sc) = (held (sc_cache sc) a, q)" "held q = held (sc_cache sc)"
    using r(1,2) by metis
  show ?thesis
    by (cases "held (sc_cache sc) a")
       (use r(5) [OF assms(2), of f q] in \<open>auto simp: add_to_reverse_lookup_cache_def Let_def g r(3,6) assms(2) split: option.splits\<close>)
qed

lemma exceptions_only_add:
  assumes "rev_laws rl held cap" "exceptions_only lib held sc"
  shows "exceptions_only lib held (add_to_reverse_lookup_cache lib rl a f sc)"
  unfolding exceptions_only_def add_keeps_acl
proof (intro allI impI)
  fix b g
  assume h: "held (sc_cache (add_to_reverse_lookup_cache lib rl a f sc)) b = Some g"
  show "g \<noteq> (case sc_acl sc of None \<Rightarrow> True | Some acl \<Rightarrow> check_ip_in_proxy_list lib acl b)"
  proof (cases "b = a")
    case True
    show ?thesis using h [unfolded True] unfolding True by (simp add: add_held [OF assms(1)] split: if_splits)
  next
    case False
    then have "held (sc_cache sc) b = Some g" using h add_others [OF assms(1) False, of lib f sc] by simp
    then show ?thesis using assms(2) by (simp add: exceptions_only_def)
  qed
qed

text \<open>With an access list, the cache and the list together decide an address as the cache was told last.\<close>

lemma bypassed_held:
  assumes "rev_laws rl held cap" "sc_acl sc = Some acl" "sock_ip saddr = a"
  shows "fst (context_check_bypassed lib rl dns_resolve (SocketAddress saddr) sc) =
    (case held (sc_cache sc) a of Some f \<Rightarrow> \<not> f | None \<Rightarrow> \<not> check_ip_in_proxy_list lib acl a)"
proof -
  obtain q where g: "rev_get rl a (sc_cache sc) = (held (sc_cache sc) a, q)"
    using rev_lawsD(1) [OF assms(1)] by metis
  show ?thesis using assms(2,3) by (simp add: context_check_bypassed_def Let_def g split: option.splits)
qed

lemma bypassed_after_add:
  assumes "rev_laws rl held cap" "sc_acl sc = Some acl" "sock_ip saddr = a"
  shows "fst (context_check_bypassed lib rl dns_resolve (SocketAddress saddr) (add_to_reverse_lookup_cache lib rl a f sc)) = (\<not> f)"
  by (simp add: bypassed_held [OF assms(1) _ assms(3)] assms(2) add_held [OF assms(1)])

text \<open>A lookup changes neither the list nor what is held.\<close>

lemma check_bypassed_state:
  assumes "rev_laws rl held cap"
  shows "sc_acl (snd (context_check_bypassed lib rl dns_resolve addr sc)) = sc_acl sc"
    "held (sc_cache (snd (context_check_bypassed lib rl dns_resolve addr sc))) = held (sc_cache sc)"
  using rev_lawsD(2) [OF assms]
  by (auto simp: context_check_bypassed_def Let_def split: option.splits address.splits prod.splits) (metis snd_conv)+

text \<open>Below the capacity an addition is an update, and takes at most one more place.\<close>

lemma add_update:
  assumes "rev_laws rl held cap" "card (dom (held (sc_cache sc))) < cap"
  shows "held (sc_cache (add_to_reverse_lookup_cache lib rl a f sc)) = (held (sc_cache sc))(a :=
      (if f \<noteq> (case sc_acl sc of None \<Rightarrow> True | Some acl \<Rightarrow> check_ip_in_proxy_list lib acl a) then Some f else None))"
proof -
  note r = rev_lawsD [OF assms(1)]
  obtain q where g: "rev_get rl a (sc_cache sc) = (held (sc_cache sc) a, q)" "held q = held (sc_cache sc)"
    using r(1,2) by metis
  show ?thesis
    by (cases "held (sc_cache sc) a")
       (use assms(2) in \<open>auto simp: add_to_reverse_lookup_cache_def Let_def g r(3,6,7) fun_upd_idem_iff split: option.splits\<close>)
qed

lemma add_card:
  assumes "rev_laws rl held cap" "card (dom (held (sc_cache sc))) < cap"
  shows "card (dom (held (sc_cache (add_to_reverse_lookup_cache lib rl a f sc)))) \<le> Suc (card (dom (held (sc_cache sc))))"
proof -
  have fin: "finite (dom (held (sc_cache sc)))" by (rule rev_lawsD(8) [OF assms(1)])
  have "dom (held (sc_cache (add_to_reverse_lookup_cache lib rl a f sc))) \<subseteq> insert a (dom (held (sc_cache sc)))"
    unfolding add_update [OF assms] by (auto split: if_splits)
  then have "card (dom (held (sc_cache (add_to_reverse_lookup_cache lib rl a f sc)))) \<le> card (insert a (dom (held (sc_cache sc))))"
    using fin by (intro card_mono) auto
  also have "\<dots> \<le> Suc (card (dom (held (sc_cache sc))))" using fin by (simp add: card_insert_if)
  finally show ?thesis .
qed

end
