(* ===== verification/Async_Socks.thy ===== *)
theory Async_Socks
  imports Async_Header Local_Context
begin

text \<open>
  Awaiting on the connection of a SOCKS client: writing messages, reading them, and what the awaited
  readers have in common with the blocking ones. On a connection that keeps the laws of \<open>duplex\<close> they
  implement them; on any connection at all a message that was read is one that the blocking reader finds
  at the start of what the connection delivers.
\<close>

section \<open>Awaiting\<close>

definition await_panic :: "('a, 'e, 's) await" where
  "await_panic s = Some (Panic, s)"

text \<open>The result of \<open>f\<close> is dropped.\<close>

definition await_ignore :: "('a, 'e, 's) await \<Rightarrow> (unit, 'f, 's) await" where
  "await_ignore f s =
     (case f s of
        None \<Rightarrow> None
      | Some (Panic, s) \<Rightarrow> Some (Panic, s)
      | Some (_, s) \<Rightarrow> Some (Ok (), s))"

text \<open>A match on the result of \<open>f\<close>.\<close>

definition await_match ::
    "('a, 'e, 's) await \<Rightarrow> ('a \<Rightarrow> ('b, 'f, 's) await) \<Rightarrow> ('e \<Rightarrow> ('b, 'f, 's) await) \<Rightarrow> ('b, 'f, 's) await" where
  "await_match f on_ok on_err s =
     (case f s of
        None \<Rightarrow> None
      | Some (Ok x, s) \<Rightarrow> on_ok x s
      | Some (Err e, s) \<Rightarrow> on_err e s
      | Some (Panic, s) \<Rightarrow> Some (Panic, s))"

text \<open>\<open>AsyncReadExt::read\<close>, \<open>AsyncWriteExt::write\<close> and \<open>write_all\<close>.\<close>

partial_function (option) await_read :: "'s async_stream \<Rightarrow> nat \<Rightarrow> 's \<Rightarrow> ((bytes, io_kind) outcome \<times> 's) option" where
  "await_read ops k s =
     (case as_read ops k s of
        (Pending, s) \<Rightarrow> await_read ops k s
      | (Ready r, s) \<Rightarrow> Some (r, s))"

partial_function (option) await_write :: "'s async_stream \<Rightarrow> bytes \<Rightarrow> 's \<Rightarrow> ((nat, io_kind) outcome \<times> 's) option" where
  "await_write ops bs s =
     (case as_write ops bs s of
        (Pending, s) \<Rightarrow> await_write ops bs s
      | (Ready r, s) \<Rightarrow> Some (r, s))"

partial_function (option) await_write_all :: "'s async_stream \<Rightarrow> bytes \<Rightarrow> 's \<Rightarrow> ((unit, io_kind) outcome \<times> 's) option" where
  "await_write_all ops bs s =
     (if bs = [] then Some (Ok (), s)
      else (case as_write ops bs s of
         (Pending, s) \<Rightarrow> await_write_all ops bs s
       | (Ready (Err e), s) \<Rightarrow> Some (Err e, s)
       | (Ready Panic, s) \<Rightarrow> Some (Panic, s)
       | (Ready (Ok n), s) \<Rightarrow> if n = 0 then Some (Err WriteZero, s) else await_write_all ops (drop n bs) s))"

text \<open>Awaiting a future that is polled on a state; \<open>timeout\<close> gives up after \<open>patience\<close> polls.\<close>

partial_function (option) await_poll :: "('w \<Rightarrow> (('a, 'e) poll \<times> 'w) option) \<Rightarrow> 'w \<Rightarrow> (('a, 'e) outcome \<times> 'w) option" where
  "await_poll f w =
     (case f w of
        None \<Rightarrow> None
      | Some (Pending, w) \<Rightarrow> await_poll f w
      | Some (Ready r, w) \<Rightarrow> Some (r, w))"

fun read_timeout :: "'s async_stream \<Rightarrow> nat \<Rightarrow> nat \<Rightarrow> 's \<Rightarrow> (bytes, io_kind) outcome option \<times> 's" where
  "read_timeout ops 0 k s = (None, s)"
| "read_timeout ops (Suc patience) k s =
     (case as_read ops k s of
        (Pending, s) \<Rightarrow> read_timeout ops patience k s
      | (Ready r, s) \<Rightarrow> (Some r, s))"

text \<open>A message that could be put into a buffer is written.\<close>

definition await_send :: "'s async_stream \<Rightarrow> (bytes, io_kind) outcome \<Rightarrow> (unit, io_kind, 's) await" where
  "await_send ops buf = (case buf of Ok bs \<Rightarrow> await_write_all ops bs | Err e \<Rightarrow> await_err e | Panic \<Rightarrow> await_panic)"

section \<open>Reading the messages of a client\<close>

definition await_handshake_request :: "'s async_stream \<Rightarrow> (handshake_request, error, 's) await" where
  "await_handshake_request ops =
     await_bind (await_exact ops 2) (\<lambda>buf.
       let ver = buf ! 0; nmet = buf ! 1 in
       if ver \<noteq> SOCKS5_VERSION then await_err (UnsupportedSocksVersion ver)
       else await_bind (await_exact ops (unat nmet)) (\<lambda>ms. await_ok \<lparr>methods = ms\<rparr>))"

definition await_passwd_auth_request :: "'s async_stream \<Rightarrow> (passwd_auth_request, error, 's) await" where
  "await_passwd_auth_request ops =
     await_bind (await_exact ops 1) (\<lambda>ver_buf.
       if ver_buf ! 0 \<noteq> 0x01 then await_err (UnsupportedPasswdAuthVersion (ver_buf ! 0))
       else await_bind (await_exact ops 1) (\<lambda>ulen_buf.
         let ulen = unat (ulen_buf ! 0) in
         if ulen = 0 then await_err PasswdAuthInvalidRequest
         else await_bind (await_exact ops ulen) (\<lambda>u.
           await_bind (await_exact ops 1) (\<lambda>plen_buf.
             let plen = unat (plen_buf ! 0) in
             if plen = 0 then await_err PasswdAuthInvalidRequest
             else await_bind (await_exact ops plen) (\<lambda>p. await_ok \<lparr>uname = u, passwd = p\<rparr>)))))"

definition await_tcp_request :: "'s async_stream \<Rightarrow> (tcp_request_header, error, 's) await" where
  "await_tcp_request ops =
     await_bind (await_exact ops 3) (\<lambda>buf.
       let ver = buf ! 0 in
       if ver \<noteq> SOCKS5_VERSION then await_err (UnsupportedSocksVersion ver)
       else let cmd = buf ! 1 in
         (case command_from_u8 cmd of
            None \<Rightarrow> await_err (UnsupportedCommand cmd)
          | Some c \<Rightarrow> await_bind (await_address ops) (\<lambda>a. await_ok \<lparr>req_command = c, req_address = a\<rparr>)))"

section \<open>On streams that keep the laws\<close>

context duplex
begin

lemma implements_handshake: "257 \<le> room \<Longrightarrow> implements (await_handshake_request ops) handshake_request_read_from"
proof -
  assume "257 \<le> room"
  moreover from this have "unat (x :: u8) \<le> room" for x using unat_u8_less [of x] by linarith
  ultimately show ?thesis unfolding await_handshake_request_def handshake_request_read_from_def [abs_def] Let_def
    by (intro implements_bind implements_if implements_ok implements_err implements_exact) simp_all
qed

lemma implements_passwd: "257 \<le> room \<Longrightarrow> implements (await_passwd_auth_request ops) passwd_auth_request_read_from"
proof -
  assume "257 \<le> room"
  moreover from this have "unat (x :: u8) \<le> room" for x using unat_u8_less [of x] by linarith
  ultimately show ?thesis unfolding await_passwd_auth_request_def passwd_auth_request_read_from_def [abs_def] Let_def
    by (intro implements_bind implements_if implements_ok implements_err implements_exact) simp_all
qed

lemma implements_tcp_request: "257 \<le> room \<Longrightarrow> implements (await_tcp_request ops) tcp_request_read_from"
  unfolding await_tcp_request_def tcp_request_read_from_def [abs_def] Let_def
  by (intro implements_bind implements_if implements_ok implements_err implements_exact implements_option implements_address) simp_all

lemma await_write_all_takes:
  assumes "dx s d t q" "q = None \<or> q = Some bs" "bs = [] \<longrightarrow> q = None" "length bs \<le> accept"
  shows "\<exists>s'. await_write_all ops bs s = Some (Ok (), s') \<and> dx s' d (t @ bs) None \<and> waits s' \<le> waits s \<and> (shut s \<longrightarrow> shut s')"
  using assms
proof (induction "waits s + length bs" arbitrary: s t bs q rule: less_induct)
  case less
  note unfold = await_write_all.simps [of ops bs s]
  show ?case
  proof (cases "bs = []")
    case True
    then show ?thesis using less.prems await_write_all.simps [of ops "[]" s] by auto
  next
    case ne: False
    obtain p s1 where r: "as_write ops bs s = (p, s1)" by force
    have "duplex_law waits shut s (p, s1) (\<lambda>s. dx s d t (Some bs)) (\<lambda>n s. 0 < n \<and> n \<le> length bs \<and> dx s d (t @ take n bs) None)"
      using writes [OF less.prems(1,2) ne less.prems(4)] r by simp
    then show ?thesis
    proof (cases rule: duplex_lawE)
      case again
      have "await_write_all ops bs s = await_write_all ops bs s1" using ne r again by (simp add: unfold)
      then show ?thesis using less.hyps [OF _ again(2) _ _ less.prems(4)] ne again(3,4) by fastforce
    next
      case (finished n)
      have e: "await_write_all ops bs s = await_write_all ops (drop n bs) s1" using ne r finished by (simp add: unfold)
      have l: "waits s1 + length (drop n bs) < waits s + length bs" 
      proof -
        have "0 < n" "n \<le> length bs" "waits s1 \<le> waits s" using finished by simp_all
        then show ?thesis by simp
      qed
      have "dx s1 d (t @ take n bs) None" "length (drop n bs) \<le> accept" using finished(2) less.prems(4) by auto
      from less.hyps [OF l this(1) _ _ this(2)] show ?thesis unfolding e using finished(3,4) by auto
    qed
  qed
qed

lemma await_read_delivers:
  assumes "dx s d t q" "0 < k" "k \<le> room"
  shows "\<exists>x s' d'. await_read ops k s = Some (Ok x, s') \<and> d = x @ d' \<and> length x \<le> k \<and> (x = [] \<longrightarrow> d = []) \<and>
    dx s' d' t q \<and> waits s' \<le> waits s \<and> (shut s \<longrightarrow> shut s')"
  using assms(1)
proof (induction "waits s" arbitrary: s rule: less_induct)
  case less
  note unfold = await_read.simps [of ops k s]
  obtain p s1 where r: "as_read ops k s = (p, s1)" by force
  from reads [OF less.prems assms(2,3)] r have "duplex_law waits shut s (p, s1) (\<lambda>s. dx s d t q)
      (\<lambda>x s. \<exists>d'. d = x @ d' \<and> length x \<le> k \<and> length x \<le> deliver \<and> (x = [] \<longrightarrow> d = []) \<and> dx s d' t q)" by simp
  then show ?case
  proof (cases rule: duplex_lawE)
    case again
    have "await_read ops k s = await_read ops k s1" using r again by (simp add: unfold)
    then show ?thesis using less.hyps [OF again(3,2)] again(3,4) by fastforce
  next
    case (finished x)
    then show ?thesis using r by (auto simp: unfold)
  qed
qed

text \<open>A read with a timeout delivers, or leaves the text to be delivered.\<close>

lemma read_timeout_delivers:
  assumes "dx s d t q" "0 < k" "k \<le> room" "read_timeout ops n k s = (r, s')"
  shows "(\<exists>x d'. r = Some (Ok x) \<and> d = x @ d' \<and> length x \<le> k \<and> (x = [] \<longrightarrow> d = []) \<and> dx s' d' t q \<or> r = None \<and> dx s' d t q) \<and>
    waits s' \<le> waits s \<and> (shut s \<longrightarrow> shut s')"
  using assms(1,4)
proof (induction n arbitrary: s)
  case (Suc n)
  obtain p s1 where p: "as_read ops k s = (p, s1)" by force
  from reads [OF Suc.prems(1) assms(2,3)] p have "duplex_law waits shut s (p, s1) (\<lambda>s. dx s d t q)
      (\<lambda>x s. \<exists>d'. d = x @ d' \<and> length x \<le> k \<and> length x \<le> deliver \<and> (x = [] \<longrightarrow> d = []) \<and> dx s d' t q)" by simp
  then show ?case
  proof (cases rule: duplex_lawE)
    case again
    then have "read_timeout ops n k s1 = (r, s')" using Suc.prems(2) p by simp
    from Suc.IH [OF again(2) this] again(3,4) show ?thesis by auto
  next
    case (finished x)
    then show ?thesis using Suc.prems(2) p by auto
  qed
qed simp

text \<open>A stream that has taken something is a stream that keeps the laws for what it takes from now on.\<close>

lemma shifted: "duplex ops (\<lambda>s d t q. dx s d (u @ t) q) waits shut deliver accept room"
proof
  show "dx s d (u @ t) q \<Longrightarrow> 0 < k \<Longrightarrow> k \<le> room \<Longrightarrow>
      duplex_law waits shut s (as_read ops k s) (\<lambda>s. dx s d (u @ t) q)
        (\<lambda>x s. \<exists>d'. d = x @ d' \<and> length x \<le> k \<and> length x \<le> deliver \<and> (x = [] \<longrightarrow> d = []) \<and> dx s d' (u @ t) q)" for s d t q k
    by (rule reads)
  show "dx s d (u @ t) q \<Longrightarrow> q = None \<or> q = Some b \<Longrightarrow> b \<noteq> [] \<Longrightarrow> length b \<le> accept \<Longrightarrow>
      duplex_law waits shut s (as_write ops b s) (\<lambda>s. dx s d (u @ t) (Some b))
        (\<lambda>n s. 0 < n \<and> n \<le> length b \<and> dx s d (u @ t @ take n b) None)" for s d t q b
    using writes [of s d "u @ t" q b] by simp
  show "dx s d (u @ t) None \<Longrightarrow> duplex_law waits shut s (as_flush ops s) (\<lambda>s. dx s d (u @ t) None) (\<lambda>_ s. dx s d (u @ t) None)" for s d t
    by (rule flushes)
  show "dx s d (u @ t) None \<Longrightarrow>
      duplex_law waits shut s (as_shutdown ops s) (\<lambda>s. dx s d (u @ t) None) (\<lambda>_ s. dx s d (u @ t) None \<and> shut s)" for s d t
    by (rule shuts)
qed

end

lemma await_poll_times: "await_times n f w = Some (Ready r, w') \<Longrightarrow> await_poll f w = Some (r, w')"
proof (induction n arbitrary: w)
  case (Suc n)
  then show ?case by (subst await_poll.simps) (auto split: option.splits poll.splits)
qed simp

section \<open>On any connection\<close>

text \<open>
  When the awaited reader returns a value, so does the blocking reader on the bytes of the connection, and
  leaves the same bytes.
\<close>

definition sound :: "('a, 'e, tcp_socket) await \<Rightarrow> (reader \<Rightarrow> ('a \<times> reader, 'e) outcome) \<Rightarrow> bool" where
  "sound f g \<longleftrightarrow> (\<forall>s x s'. f s = Some (Ok x, s') \<longrightarrow>
     g (script_bytes (so_source s), Eof) = Ok (x, (script_bytes (so_source s'), Eof)))"

lemma soundD: "sound f g \<Longrightarrow> f s = Some (Ok x, s') \<Longrightarrow>
    g (script_bytes (so_source s), Eof) = Ok (x, (script_bytes (so_source s'), Eof))"
  by (simp add: sound_def)

lemma sound_bind: "sound f g \<Longrightarrow> (\<And>x. sound (f' x) (g' x)) \<Longrightarrow>
    sound (await_bind f f') (\<lambda>r. and_then (g r) (\<lambda>(x, r). g' x r))"
  by (fastforce simp: sound_def await_bind_def split: option.splits outcome.splits)

lemma sound_ok: "sound (await_ok x) (\<lambda>r. Ok (x, r))"
  by (simp add: sound_def await_ok_def)

lemma sound_err: "sound (await_err e) g"
  by (simp add: sound_def await_err_def)

lemma sound_if: "(b \<Longrightarrow> sound f g) \<Longrightarrow> (\<not> b \<Longrightarrow> sound f' g') \<Longrightarrow> sound (if b then f else f') (\<lambda>r. if b then g r else g' r)"
  by (cases b) auto

lemma sound_option: "sound f g \<Longrightarrow> (\<And>x. sound (f' x) (g' x)) \<Longrightarrow>
    sound (case z of None \<Rightarrow> f | Some x \<Rightarrow> f' x) (\<lambda>r. case z of None \<Rightarrow> g r | Some x \<Rightarrow> g' x r)"
  by (cases z) auto

lemma sound_map_err: "sound f g \<Longrightarrow> sound (await_map_err h f) (\<lambda>r. map_err h (g r))"
  by (auto simp: sound_def await_map_err_def outcome_simps split: option.splits)

lemma socket_read_bytes:
  "as_read socket_ops k s = (p, s') \<Longrightarrow> script_bytes (so_source s) = poll_data p @ script_bytes (so_source s')"
  by (auto simp: socket_ops_def socket_poll_read_def dest: poll_read_bytes split: prod.splits)

lemma socket_read_size: "as_read socket_ops k s = (Ready (Ok x), s') \<Longrightarrow> length x \<le> k"
  by (cases "(k, so_source s)" rule: poll_read.cases)
     (auto simp: socket_ops_def socket_poll_read_def split: prod.splits if_splits)

lemma await_read_exact_sound:
  assumes "await_read_exact socket_ops n acc s = Some (Ok x, s')" "length acc \<le> n"
  shows "length x = n \<and> acc @ script_bytes (so_source s) = x @ script_bytes (so_source s')"
proof -
  let ?P = "\<lambda>ops n acc s r. ops = socket_ops \<longrightarrow> length acc \<le> n \<longrightarrow>
    (\<forall>x s'. r = (Ok x :: (_, io_kind) outcome, s') \<longrightarrow> length x = n \<and> acc @ script_bytes (so_source s) = x @ script_bytes (so_source (s' :: tcp_socket)))"
  have "?P socket_ops n acc s (Ok x, s')"
  proof (rule await_read_exact.raw_induct [OF _ assms(1), where P = ?P], intro impI, goal_cases)
    case (1 rec ops n acc s r)
    note IH = 1(1) [THEN mp, OF _ refl]
    obtain p s1 where p: "as_read socket_ops (n - length acc) s = (p, s1)" by force
    from socket_read_bytes [OF p] have b: "script_bytes (so_source s) = poll_data p @ script_bytes (so_source s1)" .
    have step: "(if length acc < n then (case (p, s1) of
          (Pending, s) \<Rightarrow> rec socket_ops n acc s
        | (Ready (Err e), s) \<Rightarrow> Some (Err e, s)
        | (Ready Panic, s) \<Rightarrow> Some (Panic, s)
        | (Ready (Ok d), s) \<Rightarrow> if d = [] then Some (Err UnexpectedEof, s) else rec socket_ops n (acc @ d) s)
      else Some (Ok acc, s)) = Some r" using 1(2) p by (simp only: 1(3) prod.case)
    show ?case
    proof (cases "length acc < n")
      case False
      then show ?thesis using step 1(4) by auto
    next
      case True
      show ?thesis
      proof (cases p)
        case Pending
        then have "rec socket_ops n acc s1 = Some r" using step True by simp
        from IH [OF this] True show ?thesis using b Pending by auto
      next
        case (Ready o1)
        then show ?thesis
        proof (cases o1)
          case (Ok d)
          have len: "length d \<le> n - length acc" using socket_read_size p Ready Ok by blast
          show ?thesis
          proof (cases "d = []")
            case True
            then show ?thesis using step \<open>length acc < n\<close> Ready Ok by auto
          next
            case False
            then have rc: "rec socket_ops n (acc @ d) s1 = Some r" using step True Ready Ok by simp
            have "acc @ script_bytes (so_source s) = (acc @ d) @ script_bytes (so_source s1)" using b Ready Ok by simp
            moreover have "length (acc @ d) \<le> n" using len True by simp
            ultimately show ?thesis using IH [OF rc] by (simp only: simp_thms)
          qed
        qed (use step True Ready in auto)
      qed
    qed
  qed
  then show ?thesis using assms(2) by simp
qed

lemma sound_exact: "sound (await_exact socket_ops n) (read_exact5 n)"
  unfolding await_exact_def read_exact5_def [abs_def]
proof (rule sound_map_err)
  show "sound (await_read_exact socket_ops n []) (read_exact n)"
    using await_read_exact_sound [of n "[]"] by (force simp: sound_def read_exact_def)
qed

lemma sound_address: "sound (await_address socket_ops) address_read_from"
  unfolding await_address_def address_read_from_def [abs_def] Let_def
  by (intro sound_bind sound_if sound_ok sound_err sound_exact sound_option)

lemma sound_handshake: "sound (await_handshake_request socket_ops) handshake_request_read_from"
  unfolding await_handshake_request_def handshake_request_read_from_def [abs_def] Let_def
  by (intro sound_bind sound_if sound_ok sound_err sound_exact)

lemma sound_passwd: "sound (await_passwd_auth_request socket_ops) passwd_auth_request_read_from"
  unfolding await_passwd_auth_request_def passwd_auth_request_read_from_def [abs_def] Let_def
  by (intro sound_bind sound_if sound_ok sound_err sound_exact)

lemma sound_tcp_request: "sound (await_tcp_request socket_ops) tcp_request_read_from"
  unfolding await_tcp_request_def tcp_request_read_from_def [abs_def] Let_def
  by (intro sound_bind sound_if sound_ok sound_err sound_exact sound_option sound_address)

text \<open>Writing leaves what is to be read.\<close>

lemma await_write_all_source:
  assumes "await_write_all socket_ops bs s = Some (r, s')"
  shows "so_source s' = so_source s"
proof -
  let ?P = "\<lambda>ops bs s r. ops = socket_ops \<longrightarrow> so_source (snd r) = so_source (s :: tcp_socket)"
  have "?P socket_ops bs s (r, s')"
  proof (rule await_write_all.raw_induct [OF _ assms(1), where P = ?P], intro impI, goal_cases)
    case (1 rec ops bs s r)
    note IH = 1(1) [THEN mp, OF _ refl]
    obtain p w where w: "poll_write bs (so_sink s) = (p, w)" by force
    then have p: "as_write socket_ops bs s = (p, s\<lparr>so_sink := w\<rparr>)" by (simp add: socket_ops_def socket_poll_write_def)
    show ?case
      using 1(2,3) p by (auto split: if_splits poll.splits outcome.splits dest!: IH)
  qed
  then show ?thesis by simp
qed

lemma await_send_source: "await_send socket_ops buf s = Some (r, s') \<Longrightarrow> so_source s' = so_source s"
  by (auto simp: await_send_def await_err_def await_panic_def dest: await_write_all_source split: outcome.splits)

end
