(* ===== verification/Local_Tunnel.thy ===== *)
theory Local_Tunnel
  imports Async_Socks Proxy_Aead
begin

text \<open>
  The way of a local connection to its target: \<open>local/net/tcp/auto_proxy_stream.rs\<close>, a stream that goes
  through a proxy server or past it, and \<open>local/utils.rs\<close>, which waits a moment for what the client has
  to say, sends it with the request, and relays.
\<close>

section \<open>The stream to the target\<close>

datatype 'c auto_stream = AutoProxied "'c client_stream" | AutoBypassed tcp_socket

fun is_proxied :: "'c auto_stream \<Rightarrow> bool" where
  "is_proxied (AutoProxied _) = True"
| "is_proxied (AutoBypassed _) = False"

text \<open>Each operation is handed to the stream inside; the shared context stands beside it.\<close>

definition auto_call ::
    "('c client_stream \<times> 'x \<Rightarrow> 'p \<times> 'c client_stream \<times> 'x) \<Rightarrow> (tcp_socket \<Rightarrow> 'p \<times> tcp_socket)
     \<Rightarrow> 'c auto_stream \<times> 'x \<Rightarrow> 'p \<times> 'c auto_stream \<times> 'x" where
  "auto_call proxied bypassed w =
     (case w of
        (AutoProxied ps, x) \<Rightarrow> let (p, ps, x) = proxied (ps, x) in (p, AutoProxied ps, x)
      | (AutoBypassed so, x) \<Rightarrow> let (p, so) = bypassed so in (p, AutoBypassed so, x))"

definition auto_ops ::
    "('c, 'd, 'b, 's) tcp_env \<Rightarrow> nat \<Rightarrow> ('c auto_stream \<times> ('b, 's) ss_context) async_stream" where
  "auto_ops env rnd =
     \<lparr>as_read = \<lambda>k. auto_call (as_read (client_ops env rnd) k) (as_read socket_ops k),
      as_write = \<lambda>b. auto_call (as_write (client_ops env rnd) b) (as_write socket_ops b),
      as_flush = auto_call (as_flush (client_ops env rnd)) (as_flush socket_ops),
      as_shutdown = auto_call (as_shutdown (client_ops env rnd)) (as_shutdown socket_ops)\<rparr>"

section \<open>The environment and the state of a front end\<close>

text \<open>
  What a front end is given: the ciphers, the access list library, the reverse lookup cache, the resolver,
  the results of connecting directly and to a server, the local address of a connection, the random
  draws, \<open>tokio\<close>'s \<open>copy_bidirectional\<close>, and for how many polls 500 ms last.
\<close>

record ('c, 'd, 'b, 's, 'r4, 'r6, 'n4, 'n6, 're, 'q) local_env =
  le_tcp :: "('c, 'd, 'b, 's) tcp_env"
  le_acl :: "('r4, 'r6, 'n4, 'n6, 're) acl_lib"
  le_rev :: "'q rev_lib"
  le_dns :: "string \<Rightarrow> u16 \<Rightarrow> (socket_addr list, io_kind) outcome"
  le_direct :: "address \<Rightarrow> (tcp_socket, io_kind) outcome"
  le_attempt :: "server_addr \<Rightarrow> nat \<times> (tcp_socket, io_kind) outcome"
  le_local_addr :: "(socket_addr, io_kind) outcome"
  le_rnd :: nat
  le_draws :: "(nat \<times> bytes) list"
  le_copy :: "(u64 \<times> u64, io_kind, tcp_socket \<times> 'c auto_stream \<times> ('b, 's) ss_context) await"
  le_patience :: nat

text \<open>
  The connection of the client, with the unread part of the buffer that SOCKS4 puts over it; the two
  contexts; the stream to the target, once connected; the failures reported to the load balancer.
\<close>

record ('c, 'b, 's, 'r4, 'r6, 're, 'q) local_world =
  lw_client :: tcp_socket
  lw_buf :: bytes
  lw_ctx :: "('b, 's) ss_context"
  lw_sc :: "('r4, 'r6, 're, 'q) service_context"
  lw_remote :: "'c auto_stream option"
  lw_failures :: nat

section \<open>Connecting\<close>

definition connect_bypassed ::
    "('c, 'd, 'b, 's, 'r4, 'r6, 'n4, 'n6, 're, 'q) local_env \<Rightarrow> address
     \<Rightarrow> (unit, io_kind, ('c, 'b, 's, 'r4, 'r6, 're, 'q) local_world) await" where
  "connect_bypassed env addr w =
     (case le_direct env addr of
        Ok so \<Rightarrow> Some (Ok (), w\<lparr>lw_remote := Some (AutoBypassed so)\<rparr>)
      | Err e \<Rightarrow> Some (Err e, w)
      | Panic \<Rightarrow> Some (Panic, w))"

definition connect_proxied ::
    "('c, 'd, 'b, 's, 'r4, 'r6, 'n4, 'n6, 're, 'q) local_env \<Rightarrow> 'w server_config \<Rightarrow> address
     \<Rightarrow> (unit, io_kind, ('c, 'b, 's, 'r4, 'r6, 're, 'q) local_world) await" where
  "connect_proxied env server addr w =
     (case client_connect (le_tcp env) (lw_ctx w) (le_attempt env) server addr (le_draws env) of
        None \<Rightarrow> None
      | Some (Ok (ps, ctx)) \<Rightarrow> Some (Ok (), w\<lparr>lw_ctx := ctx, lw_remote := Some (AutoProxied ps)\<rparr>)
      | Some (Err e) \<Rightarrow> Some (Err e, w\<lparr>lw_failures := Suc (lw_failures w)\<rparr>)
      | Some Panic \<Rightarrow> Some (Panic, w))"

definition auto_connect ::
    "('c, 'd, 'b, 's, 'r4, 'r6, 'n4, 'n6, 're, 'q) local_env \<Rightarrow> 'w server_config \<Rightarrow> address
     \<Rightarrow> (unit, io_kind, ('c, 'b, 's, 'r4, 'r6, 're, 'q) local_world) await" where
  "auto_connect env server addr w =
     (let (bypassed, sc) = context_check_bypassed (le_acl env) (le_rev env) (le_dns env) addr (lw_sc w);
          w = w\<lparr>lw_sc := sc\<rparr>
      in if bypassed then connect_bypassed env addr w else connect_proxied env server addr w)"

section \<open>The tunnel\<close>

definition tunnel_copy ::
    "'p async_stream \<Rightarrow> 's async_stream \<Rightarrow> cipher_kind \<Rightarrow> (u64 \<times> u64, io_kind, 'p \<times> 's) await" where
  "tunnel_copy pops sops method w =
     (let (plain, shadow) = w in
      case await_poll (poll_impl sops pops) (copy_encrypted_bidirectional method shadow plain) of
        None \<Rightarrow> None
      | Some (r, st) \<Rightarrow> Some (r, bi_b st, bi_a st))"

definition on_shadow :: "('a, 'e, 's) await \<Rightarrow> ('a, 'e, 'p \<times> 's) await" where
  "on_shadow f w =
     (let (plain, shadow) = w in case f shadow of None \<Rightarrow> None | Some (r, shadow) \<Rightarrow> Some (r, plain, shadow))"

definition establish_tcp_tunnel_bypassed ::
    "(u64 \<times> u64, io_kind, 'p \<times> 's) await \<Rightarrow> (unit, io_kind, 'p \<times> 's) await" where
  "establish_tcp_tunnel_bypassed copy = await_ignore copy"

text \<open>
  Nothing to read at the end of the connection: the tunnel is given up. An error of the relay itself is
  only logged.
\<close>

definition establish_tcp_tunnel ::
    "'p async_stream \<Rightarrow> 's async_stream \<Rightarrow> ('s \<Rightarrow> bool) \<Rightarrow> (u64 \<times> u64, io_kind, 'p \<times> 's) await \<Rightarrow> nat \<Rightarrow> cipher_kind
     \<Rightarrow> (unit, io_kind, 'p \<times> 's) await" where
  "establish_tcp_tunnel pops sops proxied copy patience method w =
     (let (plain, shadow) = w in
      if \<not> proxied shadow then establish_tcp_tunnel_bypassed copy w
      else
        (case read_timeout pops patience 8192 plain of
           (Some (Ok buffer), plain) \<Rightarrow>
             if buffer = [] then Some (Ok (), plain, shadow)
             else await_bind (on_shadow (await_write_all sops buffer))
                    (\<lambda>_. await_ignore (tunnel_copy pops sops method)) (plain, shadow)
         | (Some (Err e), plain) \<Rightarrow> Some (Err e, plain, shadow)
         | (Some Panic, plain) \<Rightarrow> Some (Panic, plain, shadow)
         | (None, plain) \<Rightarrow>
             await_bind (on_shadow (await_write sops []))
               (\<lambda>_. await_ignore (tunnel_copy pops sops method)) (plain, shadow)))"

text \<open>The tunnel of a front end between its client and the stream that it connected.\<close>

definition local_tunnel ::
    "('c, 'd, 'b, 's, 'r4, 'r6, 'n4, 'n6, 're, 'q) local_env \<Rightarrow> 'w server_config option
     \<Rightarrow> (unit, io_kind, ('c, 'b, 's, 'r4, 'r6, 're, 'q) local_world) await" where
  "local_tunnel env server w =
     (case lw_remote w of
        None \<Rightarrow> Some (Panic, w)
      | Some remote \<Rightarrow>
          (case (case server of
                   Some cfg \<Rightarrow> establish_tcp_tunnel socket_ops (auto_ops (le_tcp env) (le_rnd env)) (\<lambda>s. is_proxied (fst s))
                     (le_copy env) (le_patience env) (svr_method cfg)
                 | None \<Rightarrow> establish_tcp_tunnel_bypassed (le_copy env)) (lw_client w, remote, lw_ctx w) of
             None \<Rightarrow> None
           | Some (r, plain, remote, ctx) \<Rightarrow>
               Some (r, w\<lparr>lw_client := plain, lw_remote := Some remote, lw_ctx := ctx\<rparr>)))"

end
