(* ===== verification/Dns_Relay.thy ===== *)
theory Dns_Relay
  imports Local_Context Net_Text
begin

text \<open>
  The decisions of the DNS relay, \<open>crates/shadowsocks-service/src/local/dns/server.rs\<close>: which name server
  answers a query, by the query or else by the local answer, and what the answer teaches the reverse
  lookup cache. Names and messages are those of the crate \<open>hickory\<close>, of which the code uses the fields
  below; sending a query and waiting for its answer is a parameter.
\<close>

section \<open>Messages\<close>

text \<open>
  \<open>Name\<close>: the labels, whether it is fully qualified, its text, and the comparisons that ignore case.
\<close>

record 'n dns_lib =
  name_labels :: "'n \<Rightarrow> bytes list"
  name_is_fqdn :: "'n \<Rightarrow> bool"
  name_to_ascii :: "'n \<Rightarrow> string"
  name_cmp_equal :: "'n \<Rightarrow> 'n \<Rightarrow> bool"
  name_eq :: "'n \<Rightarrow> 'n \<Rightarrow> bool"
  name_from_str :: "string \<Rightarrow> 'n option"

datatype record_type = TypeA | TypeAAAA | TypeCNAME | TypeMX | TypeNS | TypePTR | TypeANY | TypeOther nat

datatype 'n rdata =
    DataA ipv4_addr | DataAAAA ipv6_addr | DataCNAME 'n | DataMX 'n | DataNS 'n | DataPTR 'n | DataOther

record 'n dns_record =
  rec_name :: 'n
  rec_type :: record_type
  rec_data :: "'n rdata option"

record 'n dns_query =
  q_name :: 'n
  q_in :: bool
  q_type :: record_type

record 'n dns_message =
  m_id :: u16
  m_is_query :: bool
  m_op_query :: bool
  m_rd :: bool
  m_ra :: bool
  m_rcode :: nat
  m_queries :: "'n dns_query list"
  m_answers :: "'n dns_record list"
  m_additionals :: "'n dns_record list"

definition ServFail :: nat where "ServFail = 2"
definition NotImp :: nat where "NotImp = 4"

section \<open>By the query\<close>

text \<open>
  The closure \<open>next\<close> over the labels from the right: text, or \<open>*\<close> where a label is not UTF-8, and \<open>0\<close>
  where no label is left.
\<close>

fun ptr_next :: "bytes list \<Rightarrow> string \<times> bytes list" where
  "ptr_next [] = (''0'', [])"
| "ptr_next (l # ls) = ((case from_utf8 l of Some s \<Rightarrow> s | None \<Rightarrow> ''*''), ls)"

text \<open>\<open>str::parse::<u8>\<close> and \<open>u16::from_str_radix(_, 16)\<close>.\<close>

definition strip_plus :: "string \<Rightarrow> string" where
  "strip_plus s = (case s of [] \<Rightarrow> [] | c # r \<Rightarrow> if c = CHR ''+'' then r else s)"

definition u8_from_str :: "string \<Rightarrow> u8 option" where
  "u8_from_str s = map_option of_nat (parse_with (read_number 10 256 None True) (strip_plus s))"

definition u16_from_hex :: "string \<Rightarrow> u16 option" where
  "u16_from_hex s = map_option of_nat (parse_with (read_number 16 65536 None True) (strip_plus s))"

fun ptr_octets :: "nat \<Rightarrow> bytes list \<Rightarrow> u8 list option" where
  "ptr_octets 0 ls = Some []"
| "ptr_octets (Suc n) ls =
     (let (s, ls) = ptr_next ls in
      case u8_from_str s of None \<Rightarrow> None | Some b \<Rightarrow> map_option ((#) b) (ptr_octets n ls))"

fun ptr_segments :: "nat \<Rightarrow> bytes list \<Rightarrow> u16 list option" where
  "ptr_segments 0 ls = Some []"
| "ptr_segments (Suc n) ls =
     (let (a, ls) = ptr_next ls; (b, ls) = ptr_next ls; (c, ls) = ptr_next ls; (d, ls) = ptr_next ls in
      case u16_from_hex (a @ b @ c @ d) of None \<Rightarrow> None | Some s \<Rightarrow> map_option ((#) s) (ptr_segments n ls))"

definition should_forward_by_ptr_name ::
    "('r4, 'r6, 'n4, 'n6, 're, 'z) acl_lib_scheme \<Rightarrow> ('n, 'y) dns_lib_scheme \<Rightarrow> ('r4, 'r6, 're) access_control \<Rightarrow> 'n \<Rightarrow> bool" where
  "should_forward_by_ptr_name lib dl acl name =
     (let (s, ls) = ptr_next (rev (name_labels dl name)) in
      if to_ascii_lowercase s \<noteq> ''arpa'' then is_default_in_proxy_list acl
      else
        let (s, ls) = ptr_next ls; s = to_ascii_lowercase s in
        if s = ''in-addr'' then
          (case ptr_octets 4 ls of
             Some octets \<Rightarrow> check_ip_in_proxy_list lib acl (IpV4 (ipv4_new (octets ! 0) (octets ! 1) (octets ! 2) (octets ! 3)))
           | None \<Rightarrow> is_default_in_proxy_list acl)
        else if s = ''ip6'' then
          (case ptr_segments 8 ls of
             Some segments \<Rightarrow> check_ip_in_proxy_list lib acl (IpV6 (ipv6_new segments))
           | None \<Rightarrow> is_default_in_proxy_list acl)
        else is_default_in_proxy_list acl)"

definition check_name_in_proxy_list ::
    "('r4, 'r6, 'n4, 'n6, 're, 'z) acl_lib_scheme \<Rightarrow> ('n, 'y) dns_lib_scheme \<Rightarrow> ('r4, 'r6, 're) access_control \<Rightarrow> 'n
     \<Rightarrow> bool option" where
  "check_name_in_proxy_list lib dl acl name =
     (if name_is_fqdn dl name then check_ascii_host_in_proxy_list lib acl (to_ascii_lowercase (name_to_ascii dl name))
      else Some (is_default_in_proxy_list acl))"

text \<open>The servers of the balancer are given by the domain names among their addresses; \<open>None\<close> is an IP address.\<close>

definition should_forward_by_query ::
    "('r4, 'r6, 'n4, 'n6, 're, 'z) acl_lib_scheme \<Rightarrow> ('n, 'y) dns_lib_scheme \<Rightarrow> ('r4, 'r6, 're) access_control option
     \<Rightarrow> string option list \<Rightarrow> 'n dns_query \<Rightarrow> bool option" where
  "should_forward_by_query lib dl acl servers query =
     (if servers = [] then Some False
      else if \<exists>dn \<in> set servers. case Option.bind dn (name_from_str dl) of
                Some name \<Rightarrow> name_cmp_equal dl (q_name query) name
              | None \<Rightarrow> False then Some False
      else
        (case acl of
           Some acl \<Rightarrow>
             if \<not> q_in query then Some (is_default_in_proxy_list acl)
             else if q_type query = TypePTR then Some (should_forward_by_ptr_name lib dl acl (q_name query))
             else
               let result = check_name_in_proxy_list lib dl acl (q_name query) in
               if result = None \<and> acl_is_ip_empty lib acl \<and> acl_is_host_empty lib acl
               then Some (is_default_in_proxy_list acl) else result
         | None \<Rightarrow> Some True))"

section \<open>By the local response\<close>

text \<open>
  \<open>examine_record!\<close>: a decision ends the search, \<open>None\<close> goes on to the next record; \<open>names\<close> are the names
  that records may be about.
\<close>

definition examine_name ::
    "('r4, 'r6, 'n4, 'n6, 're, 'z) acl_lib_scheme \<Rightarrow> ('n, 'y) dns_lib_scheme \<Rightarrow> ('r4, 'r6, 're) access_control \<Rightarrow> bool \<Rightarrow> 'n \<Rightarrow> bool" where
  "examine_name lib dl acl is_answer name =
     (if is_answer then
        (case check_name_in_proxy_list lib dl acl name of Some v \<Rightarrow> v | None \<Rightarrow> is_default_in_proxy_list acl)
      else is_default_in_proxy_list acl)"

definition examine_record ::
    "('r4, 'r6, 'n4, 'n6, 're, 'z) acl_lib_scheme \<Rightarrow> ('n, 'y) dns_lib_scheme \<Rightarrow> ('r4, 'r6, 're) access_control
     \<Rightarrow> 'n dns_query \<Rightarrow> bool \<Rightarrow> 'n dns_record \<Rightarrow> 'n list \<Rightarrow> (bool option \<times> 'n list, unit) outcome" where
  "examine_record lib dl acl query is_answer rec names =
     (let verdict = (\<lambda>forward names. Ok (if \<not> forward then Some False else None, names)) in
      case rec_data rec of
        Some (DataCNAME name) \<Rightarrow>
          (case (if is_answer then check_name_in_proxy_list lib dl acl name else None) of
             Some v \<Rightarrow> Ok (Some v, names)
           | None \<Rightarrow> Ok (None, name # names))
      | data \<Rightarrow>
          if is_answer \<and> q_type query \<noteq> TypeANY \<and> rec_type rec \<noteq> q_type query then Ok (Some True, names)
          else
            (case data of
               Some (DataA ip) \<Rightarrow> verdict (check_ip_in_proxy_list lib acl (IpV4 ip)) names
             | Some (DataAAAA ip) \<Rightarrow> verdict (check_ip_in_proxy_list lib acl (IpV6 ip)) names
             | Some (DataMX exchange) \<Rightarrow> verdict (examine_name lib dl acl is_answer exchange) (exchange # names)
             | Some (DataNS name) \<Rightarrow> verdict (examine_name lib dl acl is_answer name) (name # names)
             | Some (DataPTR _) \<Rightarrow> Panic
             | _ \<Rightarrow> verdict (is_default_in_proxy_list acl) names))"

fun examine_answers ::
    "('r4, 'r6, 'n4, 'n6, 're, 'z) acl_lib_scheme \<Rightarrow> ('n, 'y) dns_lib_scheme \<Rightarrow> ('r4, 'r6, 're) access_control
     \<Rightarrow> 'n dns_query \<Rightarrow> 'n dns_record list \<Rightarrow> 'n list \<Rightarrow> (bool option \<times> 'n list, unit) outcome" where
  "examine_answers lib dl acl query [] names = Ok (None, names)"
| "examine_answers lib dl acl query (rec # recs) names =
     (if \<not> list_ex (\<lambda>n. name_eq dl n (rec_name rec)) names then Ok (Some True, names)
      else and_then (examine_record lib dl acl query True rec names) (\<lambda>(v, names).
             case v of Some b \<Rightarrow> Ok (Some b, names) | None \<Rightarrow> examine_answers lib dl acl query recs names))"

fun examine_additionals ::
    "('r4, 'r6, 'n4, 'n6, 're, 'z) acl_lib_scheme \<Rightarrow> ('n, 'y) dns_lib_scheme \<Rightarrow> ('r4, 'r6, 're) access_control
     \<Rightarrow> 'n dns_query \<Rightarrow> 'n dns_record list \<Rightarrow> 'n list \<Rightarrow> (bool option \<times> 'n list, unit) outcome" where
  "examine_additionals lib dl acl query [] names = Ok (None, names)"
| "examine_additionals lib dl acl query (rec # recs) names =
     (if list_ex (\<lambda>n. name_eq dl n (rec_name rec)) names
      then and_then (examine_record lib dl acl query False rec names) (\<lambda>(v, names).
             case v of Some b \<Rightarrow> Ok (Some b, names) | None \<Rightarrow> examine_additionals lib dl acl query recs names)
      else examine_additionals lib dl acl query recs names)"

definition should_forward_by_response ::
    "('r4, 'r6, 'n4, 'n6, 're, 'z) acl_lib_scheme \<Rightarrow> ('n, 'y) dns_lib_scheme \<Rightarrow> ('r4, 'r6, 're) access_control option
     \<Rightarrow> ('n dns_message, io_kind) outcome \<Rightarrow> 'n dns_query \<Rightarrow> (bool, unit) outcome" where
  "should_forward_by_response lib dl acl local_response query =
     (case acl of
        None \<Rightarrow> Panic
      | Some acl \<Rightarrow>
          (case local_response of
             Ok response \<Rightarrow>
               and_then (examine_answers lib dl acl query (m_answers response) [q_name query]) (\<lambda>(v, names).
                 case v of
                   Some b \<Rightarrow> Ok b
                 | None \<Rightarrow> and_then (examine_additionals lib dl acl query (m_additionals response) names) (\<lambda>(v, names).
                     case v of Some b \<Rightarrow> Ok b | None \<Rightarrow> Ok True))
           | _ \<Rightarrow> Ok True))"

section \<open>Looking a query up\<close>

text \<open>\<open>lookup_remote\<close>, \<open>lookup_local\<close>: the results of the attempts, of which there are \<open>attempts\<close>; the last error.\<close>

fun lookup_attempts :: "nat \<Rightarrow> (nat \<Rightarrow> ('m, io_kind) outcome) \<Rightarrow> nat \<Rightarrow> io_kind \<Rightarrow> ('m, io_kind) outcome" where
  "lookup_attempts 0 inner i last_err = Err last_err"
| "lookup_attempts (Suc n) inner i last_err =
     (case inner i of Ok m \<Rightarrow> Ok m | Err e \<Rightarrow> lookup_attempts n inner (Suc i) e | Panic \<Rightarrow> Panic)"

definition lookup_upstream :: "(nat \<Rightarrow> ('m, io_kind) outcome) \<Rightarrow> ('m, io_kind) outcome" where
  "lookup_upstream inner = lookup_attempts 2 inner 0 InvalidData"

text \<open>
  The loop around \<open>select!\<close>: in the order in which the two futures get ready, the branch of the one whose
  guard holds is taken; \<open>decision\<close> is what the decider makes of the local response. \<open>None\<close> goes on waiting.
\<close>

datatype branch = RemoteReady | DeciderReady

type_synonym 'n lookup_result = "(('n dns_message, io_kind) outcome \<times> bool, unit) outcome"

fun acl_select ::
    "('n dns_message, io_kind) outcome \<Rightarrow> (('n dns_message, io_kind) outcome option, unit) outcome
     \<Rightarrow> bool \<Rightarrow> ('n dns_message, io_kind) outcome option \<Rightarrow> branch list \<Rightarrow> 'n lookup_result option" where
  "acl_select remote decision use_remote remote_response [] = None"
| "acl_select remote decision use_remote remote_response (RemoteReady # order) =
     (if remote_response = None then
        if use_remote then Some (Ok (remote, True))
        else acl_select remote decision use_remote (Some remote) order
      else acl_select remote decision use_remote remote_response order)"
| "acl_select remote decision use_remote remote_response (DeciderReady # order) =
     (if \<not> use_remote then
        (case decision of
           Ok (Some local_response) \<Rightarrow> Some (Ok (local_response, False))
         | Ok None \<Rightarrow>
             (case remote_response of
                Some r \<Rightarrow> Some (Ok (r, True))
              | None \<Rightarrow> acl_select remote decision True remote_response order)
         | Err e \<Rightarrow> Some (Err e)
         | Panic \<Rightarrow> Some Panic)
      else acl_select remote decision use_remote remote_response order)"

definition acl_lookup ::
    "('r4, 'r6, 'n4, 'n6, 're, 'z) acl_lib_scheme \<Rightarrow> ('n, 'y) dns_lib_scheme \<Rightarrow> ('r4, 'r6, 're) access_control option
     \<Rightarrow> string option list \<Rightarrow> (nat \<Rightarrow> ('n dns_message, io_kind) outcome) \<Rightarrow> (nat \<Rightarrow> ('n dns_message, io_kind) outcome)
     \<Rightarrow> branch list \<Rightarrow> 'n dns_query \<Rightarrow> 'n lookup_result option" where
  "acl_lookup lib dl acl servers remote_inner local_inner order query =
     (case should_forward_by_query lib dl acl servers query of
        Some True \<Rightarrow> Some (Ok (lookup_upstream remote_inner, True))
      | Some False \<Rightarrow> Some (Ok (lookup_upstream local_inner, False))
      | None \<Rightarrow>
          let local_response = lookup_upstream local_inner in
          acl_select (lookup_upstream remote_inner)
            (and_then (should_forward_by_response lib dl acl local_response query) (\<lambda>forward.
               Ok (if forward then None else Some local_response)))
            False None order)"

section \<open>Answering a request\<close>

fun record_ip :: "'n dns_record \<Rightarrow> ip_addr option" where
  "record_ip rec = (case rec_data rec of
     Some (DataA ip) \<Rightarrow> Some (IpV4 ip) | Some (DataAAAA ip) \<Rightarrow> Some (IpV6 ip) | _ \<Rightarrow> None)"

fun remember_answers ::
    "('r4, 'r6, 'n4, 'n6, 're, 'z) acl_lib_scheme \<Rightarrow> ('q, 'y) rev_lib_scheme \<Rightarrow> bool \<Rightarrow> 'n dns_record list
     \<Rightarrow> ('r4, 'r6, 're, 'q) service_context \<Rightarrow> ('r4, 'r6, 're, 'q) service_context" where
  "remember_answers lib rl forward [] sc = sc"
| "remember_answers lib rl forward (rec # recs) sc =
     remember_answers lib rl forward recs
       (case record_ip rec of Some ip \<Rightarrow> add_to_reverse_lookup_cache lib rl ip forward sc | None \<Rightarrow> sc)"

definition dns_resolve_request ::
    "('r4, 'r6, 'n4, 'n6, 're, 'z) acl_lib_scheme \<Rightarrow> ('q, 'x) rev_lib_scheme \<Rightarrow> ('n, 'y) dns_lib_scheme \<Rightarrow> string option list
     \<Rightarrow> (nat \<Rightarrow> ('n dns_message, io_kind) outcome) \<Rightarrow> (nat \<Rightarrow> ('n dns_message, io_kind) outcome) \<Rightarrow> branch list
     \<Rightarrow> 'n dns_message \<Rightarrow> ('r4, 'r6, 're, 'q) service_context
     \<Rightarrow> (('n dns_message, unit) outcome \<times> ('r4, 'r6, 're, 'q) service_context) option" where
  "dns_resolve_request lib rl dl servers remote_inner local_inner order request sc =
     (let message = \<lparr>m_id = m_id request, m_is_query = False, m_op_query = True, m_rd = True, m_ra = True, m_rcode = 0,
                     m_queries = [], m_answers = [], m_additionals = []\<rparr> in
      if \<not> m_rd request then Some (Ok (message\<lparr>m_rd := False, m_rcode := NotImp\<rparr>), sc)
      else if \<not> m_op_query request \<or> \<not> m_is_query request then Some (Ok (message\<lparr>m_rcode := NotImp\<rparr>), sc)
      else
        (case m_queries request of
           [] \<Rightarrow> Some (Ok message, sc)
         | query # _ \<Rightarrow>
             (case acl_lookup lib dl (sc_acl sc) servers remote_inner local_inner order query of
                None \<Rightarrow> None
              | Some (Ok (Ok result, forward)) \<Rightarrow>
                  Some (Ok (result\<lparr>m_id := m_id request\<rparr>), remember_answers lib rl forward (m_answers result) sc)
              | Some (Ok (Err _, _)) \<Rightarrow> Some (Ok (message\<lparr>m_rcode := ServFail\<rparr>), sc)
              | Some (Ok (Panic, _)) \<Rightarrow> Some (Panic, sc)
              | Some (Err e) \<Rightarrow> Some (Err e, sc)
              | Some Panic \<Rightarrow> Some (Panic, sc))))"

section \<open>Names of addresses\<close>

text \<open>The labels under which the reverse name of an address is looked up.\<close>

definition hex_label :: "nat \<Rightarrow> bytes" where
  "hex_label d = as_bytes [digit_char d]"

definition segment_labels :: "u16 \<Rightarrow> bytes list" where
  "segment_labels s = map (\<lambda>i. hex_label (unat s div 16 ^ i mod 16)) [3, 2, 1, 0]"

fun ptr_labels :: "ip_addr \<Rightarrow> bytes list" where
  "ptr_labels (IpV4 a) = map (\<lambda>b. as_bytes (show_dec (unat b))) (rev (ipv4_octets a)) @ [as_bytes ''in-addr'', as_bytes ''arpa'']"
| "ptr_labels (IpV6 a) = rev (concat (map segment_labels (ipv6_segments a))) @ [as_bytes ''ip6'', as_bytes ''arpa'']"

lemma digit_char_ascii: "d < 16 \<Longrightarrow> (of_char (digit_char d) :: u8) < 0x80 \<and> digit_char d \<noteq> CHR ''+''"
proof -
  assume "d < 16"
  then have "d \<in> set [0..<16]" by simp
  moreover have "\<forall>d \<in> set [0..<16]. (of_char (digit_char d) :: u8) < 0x80 \<and> digit_char d \<noteq> CHR ''+''" by code_simp
  ultimately show ?thesis by blast
qed

lemma digits_valid: "\<forall>d \<in> set ds. d < 16 \<Longrightarrow> from_utf8 (as_bytes (map digit_char ds)) = Some (map digit_char ds)"
  by (intro from_utf8_as_bytes) (auto simp: valid_str_def as_bytes_def digit_char_ascii intro!: utf8_valid_ascii)

lemma strip_plus_digits: "\<forall>d \<in> set ds. d < 16 \<Longrightarrow> strip_plus (map digit_char ds) = map digit_char ds"
  using digit_char_ascii by (cases ds) (simp_all add: strip_plus_def)

lemma octet_label:
  "ptr_next (as_bytes (show_dec (unat b)) # ls) = (show_dec (unat (b :: u8)), ls)" "u8_from_str (show_dec (unat b)) = Some b"
proof -
  obtain ds where ds: "show_dec (unat b) = map digit_char ds" "\<forall>d \<in> set ds. d < 10"
    by (rule show_base_digits [of 10 "unat b"]) simp_all
  then have d16: "\<forall>d \<in> set ds. d < 16" by auto
  show "ptr_next (as_bytes (show_dec (unat b)) # ls) = (show_dec (unat b), ls)"
    using digits_valid [OF d16] by (simp add: ds(1))
  have "unat b < 256" using unsigned_less [of b] by simp
  then have "read_number 10 256 None True (show_dec (unat b) @ []) = Some (unat b, [])" by (intro read_number_show) simp_all
  then show "u8_from_str (show_dec (unat b)) = Some b"
    using strip_plus_digits [OF d16] by (simp add: u8_from_str_def parse_with_def ds(1))
qed

lemma ptr_octets_labels: "ptr_octets (length os) (map (\<lambda>b. as_bytes (show_dec (unat b))) os) = Some os"
  by (induction os) (simp_all add: octet_label del: ptr_next.simps)

lemma segment_digits:
  assumes "d0 < 16" "d1 < 16" "d2 < 16" "d3 < 16"
  shows "u16_from_hex (map digit_char [d0, d1, d2, d3]) = Some (of_nat (((d0 * 16 + d1) * 16 + d2) * 16 + d3))"
proof -
  have "strip_plus (map digit_char [d0, d1, d2, d3]) = map digit_char [d0, d1, d2, d3]"
    by (rule strip_plus_digits) (use assms in simp)
  moreover have "read_number 16 65536 None True (map digit_char [d0, d1, d2, d3]) = Some (((d0 * 16 + d1) * 16 + d2) * 16 + d3, [])"
    using assms by (simp add: read_number_def)
  ultimately show ?thesis unfolding u16_from_hex_def parse_with_def by simp
qed

lemma hex_label_next: "d < 16 \<Longrightarrow> ptr_next (hex_label d # ls) = ([digit_char d], ls)"
  using digits_valid [of "[d]"] by (simp add: hex_label_def)

lemma unat_u16_digits: "unat (s :: u16) = ((unat s div 16 ^ 3 mod 16 * 16 + unat s div 16 ^ 2 mod 16) * 16 + unat s div 16 ^ 1 mod 16) * 16 + unat s div 16 ^ 0 mod 16"
proof -
  have "unat s < 65536" using unsigned_less [of s] by simp
  then have "unat s div 4096 mod 16 = unat s div 4096" by (simp add: div_less_iff_less_mult)
  moreover have "unat s div 16 = unat s div 256 * 16 + unat s div 16 mod 16"
    using div_mult_mod_eq [of "unat s div 16" 16] by (simp add: div_mult2_eq [symmetric])
  moreover have "unat s div 256 = unat s div 4096 * 16 + unat s div 256 mod 16"
    using div_mult_mod_eq [of "unat s div 256" 16] by (simp add: div_mult2_eq [symmetric])
  moreover have "unat s = unat s div 16 * 16 + unat s mod 16" by simp
  ultimately show ?thesis by simp
qed

lemma ptr_segments_labels: "ptr_segments (length ss) (concat (map segment_labels ss)) = Some ss"
proof (induction ss)
  case (Cons s ss)
  have "u16_from_hex ([digit_char (unat s div 16 ^ 3 mod 16)] @ [digit_char (unat s div 16 ^ 2 mod 16)] @
      [digit_char (unat s div 16 ^ 1 mod 16)] @ [digit_char (unat s div 16 ^ 0 mod 16)]) = Some s"
  proof -
    note segment_digits [of "unat s div 16 ^ 3 mod 16" "unat s div 16 ^ 2 mod 16" "unat s div 16 ^ 1 mod 16" "unat s div 16 ^ 0 mod 16"]
    also note unat_u16_digits [of s, symmetric]
    finally show ?thesis by simp
  qed
  then show ?case using Cons by (simp add: segment_labels_def hex_label_next del: ptr_next.simps)
qed simp

lemma should_forward_ptr:
  assumes "name_labels dl name = ptr_labels ip"
  shows "should_forward_by_ptr_name lib dl acl name = check_ip_in_proxy_list lib acl ip"
proof -
  have lit: "ptr_next (as_bytes ''arpa'' # ls) = (''arpa'', ls)" "ptr_next (as_bytes ''in-addr'' # ls) = (''in-addr'', ls)"
    "ptr_next (as_bytes ''ip6'' # ls) = (''ip6'', ls)" for ls by (simp_all, code_simp+)
  have low: "to_ascii_lowercase ''arpa'' = ''arpa''" "to_ascii_lowercase ''in-addr'' = ''in-addr''" "to_ascii_lowercase ''ip6'' = ''ip6''"
    by code_simp+
  show ?thesis
  proof (cases ip)
    case (IpV4 a)
    obtain o0 o1 o2 o3 where o: "ipv4_octets a = [o0, o1, o2, o3]" by (rule length_4E [OF length_ipv4_octets])
    have "ipv4_new o0 o1 o2 o3 = a" using from_be_octets [of a] by (simp add: o ipv4_new_def)
    moreover have "ptr_octets 4 (map (\<lambda>b. as_bytes (show_dec (unat b))) [o0, o1, o2, o3]) = Some [o0, o1, o2, o3]"
      using ptr_octets_labels [of "[o0, o1, o2, o3]"] by (simp add: eval_nat_numeral)
    moreover have "rev (name_labels dl name) = as_bytes ''arpa'' # as_bytes ''in-addr'' # map (\<lambda>b. as_bytes (show_dec (unat b))) [o0, o1, o2, o3]"
      using assms by (simp add: IpV4 o)
    ultimately show ?thesis
      by (simp add: should_forward_by_ptr_name_def lit low IpV4 del: ptr_next.simps ptr_octets.simps as_bytes_simps list.map)
  next
    case (IpV6 a)
    have "ptr_segments 8 (concat (map segment_labels (ipv6_segments a))) = Some (ipv6_segments a)"
      using ptr_segments_labels [of "ipv6_segments a"] by simp
    moreover have "rev (name_labels dl name) = as_bytes ''arpa'' # as_bytes ''ip6'' # concat (map segment_labels (ipv6_segments a))"
      using assms by (simp add: IpV6)
    ultimately show ?thesis
      by (simp add: should_forward_by_ptr_name_def lit low IpV6 del: ptr_next.simps as_bytes_simps)
  qed
qed


section \<open>The race of the lookups\<close>

lemma acl_select_remote:
  assumes "DeciderReady \<in> set order"
  shows "acl_select remote decision False (Some remote) order =
    Some (and_then decision (\<lambda>d. Ok (case d of Some l \<Rightarrow> (l, False) | None \<Rightarrow> (remote, True))))"
  using assms
proof (induction order)
  case (Cons b order)
  then show ?case by (cases b) (auto split: outcome.splits option.splits)
qed simp

lemma acl_select_forward:
  assumes "RemoteReady \<in> set order"
  shows "acl_select remote decision True None order = Some (Ok (remote, True))"
  using assms
proof (induction order)
  case (Cons b order)
  then show ?case by (cases b) auto
qed simp

lemma acl_select_any_order:
  assumes "RemoteReady \<in> set order" "DeciderReady \<in> set order"
  shows "acl_select remote decision False None order =
    Some (and_then decision (\<lambda>d. Ok (case d of Some l \<Rightarrow> (l, False) | None \<Rightarrow> (remote, True))))"
proof (cases order)
  case (Cons b order')
  then show ?thesis using assms
    by (cases b) (auto simp: acl_select_remote acl_select_forward split: outcome.splits option.splits)
qed (use assms in simp)

section \<open>What the cache is taught\<close>

lemma remember_keeps_acl [simp]: "sc_acl (remember_answers lib rl f recs sc) = sc_acl sc"
  by (induction recs arbitrary: sc) (auto split: option.splits)

text \<open>The addresses of the answers are held as exceptions or not at all; other addresses as before.\<close>

lemma remember_held:
  assumes "rev_laws rl held cap" "card (dom (held (sc_cache sc))) + length recs \<le> cap"
  shows "held (sc_cache (remember_answers lib rl f recs sc)) a =
    (if Some a \<in> record_ip ` set recs then
       (if f \<noteq> (case sc_acl sc of None \<Rightarrow> True | Some acl \<Rightarrow> check_ip_in_proxy_list lib acl a) then Some f else None)
     else held (sc_cache sc) a)"
  using assms(2)
proof (induction recs arbitrary: sc)
  case (Cons rec recs)
  show ?case
  proof (cases "record_ip rec")
    case None
    then show ?thesis using Cons.IH [of sc] Cons.prems by (auto simp del: record_ip.simps)
  next
    case (Some b)
    let ?sc = "add_to_reverse_lookup_cache lib rl b f sc"
    have lt: "card (dom (held (sc_cache sc))) < cap" using Cons.prems by simp
    have "card (dom (held (sc_cache ?sc))) + length recs \<le> cap" using add_card [OF assms(1) lt, where lib = lib and a = b and f = f] Cons.prems by simp
    from Cons.IH [OF this] show ?thesis using Some by (auto simp: add_update [OF assms(1) lt] simp del: record_ip.simps)
  qed
qed simp

lemma exceptions_only_remember:
  assumes "rev_laws rl held cap" "exceptions_only lib held sc"
  shows "exceptions_only lib held (remember_answers lib rl f recs sc)"
  using assms(2)
proof (induction recs arbitrary: sc)
  case (Cons rec recs)
  then show ?case using exceptions_only_add [OF assms(1), where lib = lib] by (auto simp del: record_ip.simps split: option.splits)
qed simp


text \<open>Only a PTR record makes the decision by the response panic.\<close>

fun is_ptr :: "'n dns_record \<Rightarrow> bool" where
  "is_ptr rec = (case rec_data rec of Some (DataPTR _) \<Rightarrow> True | _ \<Rightarrow> False)"

lemma examine_record_Panic: "examine_record lib dl acl query b rec names = Panic \<Longrightarrow> is_ptr rec"
  by (auto simp: examine_record_def Let_def split: option.splits rdata.splits if_splits)

lemma examine_answers_Panic: "examine_answers lib dl acl query recs names = Panic \<Longrightarrow> list_ex is_ptr recs"
proof (induction recs arbitrary: names)
  case (Cons rec recs)
  then show ?case using examine_record_Panic [of lib dl acl query True rec names]
    by (auto simp: and_then_Panic_iff simp del: is_ptr.simps split: if_splits option.splits)
qed simp

lemma examine_additionals_Panic: "examine_additionals lib dl acl query recs names = Panic \<Longrightarrow> list_ex is_ptr recs"
proof (induction recs arbitrary: names)
  case (Cons rec recs)
  then show ?case using examine_record_Panic [of lib dl acl query False rec names]
    by (auto simp: and_then_Panic_iff simp del: is_ptr.simps split: if_splits option.splits)
qed simp

section \<open>A concrete relay\<close>

definition assoc_rev_lib :: "(ip_addr \<times> bool) list rev_lib" where
  "assoc_rev_lib = \<lparr>rev_get = \<lambda>a q. (map_of q a, q), rev_set = AList.update, rev_insert = AList.update, rev_remove = AList.delete\<rparr>"

lemma assoc_rev_laws: "rev_laws assoc_rev_lib map_of cap"
  by (simp add: rev_laws_def assoc_rev_lib_def finite_dom_map_of update_conv' delete_conv')

definition sample_dns_lib :: "bytes list dns_lib" where
  "sample_dns_lib = \<lparr>name_labels = \<lambda>n. n, name_is_fqdn = \<lambda>n. True, name_to_ascii = \<lambda>n. concat (map (\<lambda>l. of_bytes l @ ''.'') n),
     name_cmp_equal = (=), name_eq = (=), name_from_str = \<lambda>s. Some (map as_bytes (split_on CHR ''.'' s))\<rparr>"

definition sample_acl :: "((ipv4_addr \<times> nat) list, (ipv6_addr \<times> nat) list, string list) access_control" where
  "sample_acl = \<lparr>outbound_block = \<lparr>ipv4 = [], ipv6 = [], rule_regex = [], rule_set = {}, rule_tree = sub_domains_new\<rparr>,
     black_list = \<lparr>ipv4 = [(0x0A000000, 8)], ipv6 = [], rule_regex = [], rule_set = {}, rule_tree = sub_domains_new\<rparr>,
     white_list = \<lparr>ipv4 = [], ipv6 = [], rule_regex = [], rule_set = {}, rule_tree = sub_domains_new\<rparr>,
     acl_mode = BlackList, file_path = []\<rparr>"

definition sample_dns_request :: "bytes list dns_message" where
  "sample_dns_request = \<lparr>m_id = 7, m_is_query = True, m_op_query = True, m_rd = True, m_ra = False, m_rcode = 0,
     m_queries = [\<lparr>q_name = [[97]], q_in = True, q_type = TypeA\<rparr>], m_answers = [], m_additionals = []\<rparr>"

definition sample_dns_answer :: "bytes list dns_message" where
  "sample_dns_answer = \<lparr>m_id = 1, m_is_query = False, m_op_query = True, m_rd = True, m_ra = True, m_rcode = 0,
     m_queries = [], m_answers = [\<lparr>rec_name = [[97]], rec_type = TypeA, rec_data = Some (DataA 0x0B000001)\<rparr>], m_additionals = []\<rparr>"

section \<open>Properties\<close>

text \<open>C12: What the relay answers is what the proxy then does: an address in the answer to a request, if there
  is an access list, is afterwards proxied when the answer came from the remote name server and bypassed
  when it came from the local one, whatever the list says of the address itself, as long as the cache has
  room for the answers; and the cache still holds nothing but such exceptions.\<close>

theorem dns_answer_decides:
  assumes "rev_laws rl held cap" "sc_acl sc = Some acl"
    and "m_rd request" "m_op_query request" "m_is_query request" "m_queries request = query # qs"
    and "acl_lookup lib dl (Some acl) servers remote_inner local_inner order query = Some (Ok (Ok result, forward))"
    and "rec \<in> set (m_answers result)" "record_ip rec = Some (sock_ip saddr)"
    and "card (dom (held (sc_cache sc))) + length (m_answers result) \<le> cap"
    and "exceptions_only lib held sc"
  shows "\<exists>sc'. dns_resolve_request lib rl dl servers remote_inner local_inner order request sc =
      Some (Ok (result\<lparr>m_id := m_id request\<rparr>), sc') \<and>
    fst (context_check_bypassed lib rl dns_resolve (SocketAddress saddr) sc') = (\<not> forward) \<and>
    exceptions_only lib held sc'"
proof -
  let ?sc = "remember_answers lib rl forward (m_answers result) sc"
  have "Some (sock_ip saddr) \<in> record_ip ` set (m_answers result)" using assms(8,9) by (metis imageI)
  then have "held (sc_cache ?sc) (sock_ip saddr) =
      (if forward \<noteq> check_ip_in_proxy_list lib acl (sock_ip saddr) then Some forward else None)"
    using remember_held [OF assms(1,10), where lib = lib and f = forward] assms(2) by simp
  then have "fst (context_check_bypassed lib rl dns_resolve (SocketAddress saddr) ?sc) = (\<not> forward)"
    by (simp add: bypassed_held [OF assms(1) _ refl] assms(2))
  moreover have "dns_resolve_request lib rl dl servers remote_inner local_inner order request sc =
      Some (Ok (result\<lparr>m_id := m_id request\<rparr>), ?sc)" using assms(2-7) by (simp add: dns_resolve_request_def)
  ultimately show ?thesis using exceptions_only_remember [OF assms(1,11)] by blast
qed

theorem dns_answer_decides_witness:
  "\<exists>sc'. dns_resolve_request sample_acl_lib assoc_rev_lib sample_dns_lib [None] (\<lambda>_. Err TimedOut) (\<lambda>_. Ok sample_dns_answer)
      [DeciderReady] sample_dns_request \<lparr>sc_acl = Some (sample_acl\<lparr>black_list := (black_list sample_acl)\<lparr>rule_set := {''a''}\<rparr>\<rparr>), sc_cache = []\<rparr> =
      Some (Ok (sample_dns_answer\<lparr>m_id := 7\<rparr>), sc') \<and>
    fst (context_check_bypassed sample_acl_lib assoc_rev_lib (\<lambda>_ _. Err TimedOut) (SocketAddress (SockV4 0x0B000001 443)) sc') = (\<not> False) \<and>
    exceptions_only sample_acl_lib map_of sc'"
proof -
  let ?acl = "sample_acl\<lparr>black_list := (black_list sample_acl)\<lparr>rule_set := {''a''}\<rparr>\<rparr>"
  let ?sc = "\<lparr>sc_acl = Some ?acl, sc_cache = []\<rparr>"
  have l: "acl_lookup sample_acl_lib sample_dns_lib (Some ?acl) [None] (\<lambda>_. Err TimedOut) (\<lambda>_. Ok sample_dns_answer) [DeciderReady]
      (hd (m_queries sample_dns_request)) = Some (Ok (Ok sample_dns_answer, False))" by code_simp
  have q: "m_queries sample_dns_request = hd (m_queries sample_dns_request) # []" "m_rd sample_dns_request"
    "m_op_query sample_dns_request" "m_is_query sample_dns_request" "m_id sample_dns_request = 7" by (simp_all add: sample_dns_request_def)
  have a: "hd (m_answers sample_dns_answer) \<in> set (m_answers sample_dns_answer)"
    "record_ip (hd (m_answers sample_dns_answer)) = Some (sock_ip (SockV4 0x0B000001 443))"
    "card (dom (map_of (sc_cache ?sc))) + length (m_answers sample_dns_answer) \<le> 1"
    by (simp_all add: sample_dns_answer_def)
  have e: "exceptions_only sample_acl_lib map_of ?sc" by (simp add: exceptions_only_def)
  show ?thesis
    using dns_answer_decides [OF assoc_rev_laws _ q(2,3,4,1) l a e, of "\<lambda>_ _. Err TimedOut"] unfolding q(5) by simp
qed

text \<open>C17: The race of the two lookups does not decide: in whatever order the answers arrive, the lookup returns
  the answer that the query, or else the local response, asks for.\<close>

theorem dns_race_irrelevant:
  assumes "RemoteReady \<in> set order" "DeciderReady \<in> set order"
  shows "acl_lookup lib dl acl servers remote_inner local_inner order query =
    Some (case should_forward_by_query lib dl acl servers query of
        Some True \<Rightarrow> Ok (lookup_upstream remote_inner, True)
      | Some False \<Rightarrow> Ok (lookup_upstream local_inner, False)
      | None \<Rightarrow> and_then (should_forward_by_response lib dl acl (lookup_upstream local_inner) query) (\<lambda>forward.
          Ok (if forward then (lookup_upstream remote_inner, True) else (lookup_upstream local_inner, False))))"
proof -
  show ?thesis
    by (cases "should_forward_by_response lib dl acl (lookup_upstream local_inner) query")
       (simp_all add: acl_lookup_def Let_def acl_select_any_order [OF assms] split: option.split bool.split)
qed

theorem dns_race_irrelevant_witness:
  "acl_lookup sample_acl_lib sample_dns_lib (Some sample_acl) [None] (\<lambda>_. Err TimedOut) (\<lambda>_. Ok sample_dns_answer)
     [RemoteReady, DeciderReady] (hd (m_queries sample_dns_request)) =
   Some (case should_forward_by_query sample_acl_lib sample_dns_lib (Some sample_acl) [None] (hd (m_queries sample_dns_request)) of
        Some True \<Rightarrow> Ok (lookup_upstream (\<lambda>_. Err TimedOut), True)
      | Some False \<Rightarrow> Ok (lookup_upstream (\<lambda>_. Ok sample_dns_answer), False)
      | None \<Rightarrow> and_then (should_forward_by_response sample_acl_lib sample_dns_lib (Some sample_acl)
            (lookup_upstream (\<lambda>_. Ok sample_dns_answer)) (hd (m_queries sample_dns_request))) (\<lambda>forward.
          Ok (if forward then (lookup_upstream (\<lambda>_. Err TimedOut), True) else (lookup_upstream (\<lambda>_. Ok sample_dns_answer), False))))"
  by (rule dns_race_irrelevant) simp_all

text \<open>C35: A reverse query is decided like the address that its name stands for: for the name of an IPv4 address
  under \<open>in-addr.arpa\<close>, or of an IPv6 address under \<open>ip6.arpa\<close>, the query goes to the remote name server
  exactly when the access list proxies the address. No server is configured by its domain name.\<close>

theorem dns_ptr_name_decides:
  assumes "name_labels dl (q_name query) = ptr_labels ip" "q_in query" "q_type query = TypePTR"
    and "servers \<noteq> []" "\<forall>dn \<in> set servers. dn = None"
  shows "should_forward_by_query lib dl (Some acl) servers query = Some (check_ip_in_proxy_list lib acl ip)"
proof -
  have "\<not> (\<exists>dn \<in> set servers. case Option.bind dn (name_from_str dl) of
      Some name \<Rightarrow> name_cmp_equal dl (q_name query) name | None \<Rightarrow> False)" using assms(5) by auto
  then show ?thesis using assms(2-4) should_forward_ptr [OF assms(1)] by (simp add: should_forward_by_query_def)
qed

theorem dns_ptr_name_decides_witness:
  "should_forward_by_query sample_acl_lib sample_dns_lib (Some sample_acl) [None]
     \<lparr>q_name = ptr_labels (IpV4 0x0A000001), q_in = True, q_type = TypePTR\<rparr> =
   Some (check_ip_in_proxy_list sample_acl_lib sample_acl (IpV4 0x0A000001))"
  by (rule dns_ptr_name_decides) (simp_all add: sample_dns_lib_def)

text \<open>C14: A name server can make the relay panic: deciding by a local response panics only on a PTR record, and
  does so on one about the name of the query that is the first of the answers to a query for any type, or, whatever
  the type, the first of the additional section when there are no answers.\<close>

theorem dns_ptr_record_panics:
  "(should_forward_by_response lib dl (Some acl) (Ok response) query = Panic \<longrightarrow>
      list_ex is_ptr (m_answers response @ m_additionals response)) \<and>
   (name_eq dl (q_name query) (rec_name rec) \<and> is_ptr rec \<and>
      (m_answers response = rec # recs \<and> q_type query = TypeANY \<or> m_answers response = [] \<and> m_additionals response = rec # recs) \<longrightarrow>
      should_forward_by_response lib dl (Some acl) (Ok response) query = Panic)"
proof (intro conjI impI)
  assume "should_forward_by_response lib dl (Some acl) (Ok response) query = Panic"
  then show "list_ex is_ptr (m_answers response @ m_additionals response)"
    using examine_answers_Panic [of lib dl acl query "m_answers response" "[q_name query]"]
      examine_additionals_Panic [of lib dl acl query "m_additionals response"]
    by (auto simp: should_forward_by_response_def and_then_Panic_iff simp del: is_ptr.simps split: option.splits)
next
  assume "name_eq dl (q_name query) (rec_name rec) \<and> is_ptr rec \<and>
    (m_answers response = rec # recs \<and> q_type query = TypeANY \<or> m_answers response = [] \<and> m_additionals response = rec # recs)"
  then have h: "name_eq dl (q_name query) (rec_name rec)" "is_ptr rec"
    "m_answers response = rec # recs \<and> q_type query = TypeANY \<or> m_answers response = [] \<and> m_additionals response = rec # recs"
    by auto
  from h(2) obtain n where "rec_data rec = Some (DataPTR n)" by (auto split: option.splits rdata.splits)
  then have "examine_record lib dl acl query b rec names = Panic" if "b \<longrightarrow> q_type query = TypeANY" for b names
    using that by (auto simp: examine_record_def Let_def)
  then show "should_forward_by_response lib dl (Some acl) (Ok response) query = Panic"
    using h(1,3) by (auto simp: should_forward_by_response_def)
qed

theorem dns_ptr_record_panics_witness:
  "should_forward_by_response sample_acl_lib sample_dns_lib (Some sample_acl)
     (Ok (sample_dns_answer\<lparr>m_answers := [], m_additionals := [\<lparr>rec_name = [[97]], rec_type = TypePTR, rec_data = Some (DataPTR [[98]])\<rparr>]\<rparr>))
     (hd (m_queries sample_dns_request)) = Panic"
  by (rule dns_ptr_record_panics
      [where rec = "\<lparr>rec_name = [[97]], rec_type = TypePTR, rec_data = Some (DataPTR [[98]])\<rparr>" and recs = "[]", THEN conjunct2, THEN mp])
     (simp add: sample_dns_lib_def sample_dns_request_def sample_dns_answer_def)

end
