(* ===== verification/Local_Socks.thy ===== *)
theory Local_Socks
  imports Local_Tunnel Socks4 Dns_Relay
begin

text \<open>
  The SOCKS front end, one connection at a time: the user table of \<open>local/socks/config.rs\<close>, the SOCKS5
  and the SOCKS4 handler of \<open>local/socks/server/\<close>, and the choice between them by the first byte.
\<close>

section \<open>Users\<close>

type_synonym passwd_config = "(string \<times> string) list"

definition passwd_new :: passwd_config where "passwd_new = []"

definition passwd_add_user :: "string \<Rightarrow> string \<Rightarrow> passwd_config \<Rightarrow> passwd_config" where
  "passwd_add_user user password c = AList.update user password c"

definition check_user :: "passwd_config \<Rightarrow> string \<Rightarrow> string \<Rightarrow> bool" where
  "check_user c user password = (case map_of c user of Some pwd \<Rightarrow> pwd = password | None \<Rightarrow> False)"

definition total_users :: "passwd_config \<Rightarrow> nat" where
  "total_users c = length c"

definition auth_required :: "passwd_config \<Rightarrow> bool" where
  "auth_required c \<longleftrightarrow> total_users c > 0"

text \<open>The file is read, and parsed by \<open>json5\<close>.\<close>

definition load_auth_file ::
    "(string, io_kind) outcome \<Rightarrow> (string \<Rightarrow> (string \<times> string) list option option) \<Rightarrow> (passwd_config, io_kind) outcome" where
  "load_auth_file content parse =
     and_then content (\<lambda>content.
       case parse content of
         None \<Rightarrow> Err OtherError
       | Some None \<Rightarrow> Ok passwd_new
       | Some (Some users) \<Rightarrow> Ok (fold (\<lambda>(u, p). passwd_add_user u p) users passwd_new))"

section \<open>The SOCKS5 handler\<close>

definition SOCKS5_AUTH_METHOD_NONE :: u8 where "SOCKS5_AUTH_METHOD_NONE = 0x00"
definition SOCKS5_AUTH_METHOD_PASSWORD :: u8 where "SOCKS5_AUTH_METHOD_PASSWORD = 0x02"
definition SOCKS5_AUTH_METHOD_NOT_ACCEPTABLE :: u8 where "SOCKS5_AUTH_METHOD_NOT_ACCEPTABLE = 0xff"

text \<open>The balancer is given by the server it considers best; it may be empty.\<close>

record 'w socks_handler =
  sh_server :: "'w server_config option"
  sh_mode :: mode
  sh_auth :: passwd_config
  sh_udp_bind_addr :: server_addr

definition send_choice :: "u8 \<Rightarrow> (unit, io_kind, tcp_socket) await" where
  "send_choice m = await_send socket_ops (handshake_response_write_to_buf \<lparr>chosen_method = m\<rparr>)"

definition send_status :: "u8 \<Rightarrow> (unit, io_kind, tcp_socket) await" where
  "send_status st = await_send socket_ops (passwd_auth_response_write_to_buf \<lparr>status = st\<rparr>)"

definition send_reply :: "reply \<Rightarrow> address \<Rightarrow> (unit, io_kind, tcp_socket) await" where
  "send_reply r a = await_send socket_ops (tcp_response_write_to_buf \<lparr>resp_reply = r, resp_address = a\<rparr>)"

definition refuse_status :: "u8 \<Rightarrow> (unit, io_kind, tcp_socket) await" where
  "refuse_status st = await_bind (await_ignore (send_status st)) (\<lambda>_. await_err OtherError)"

definition PASSWORD_AUTH_STATUS_FAILURE :: u8 where "PASSWORD_AUTH_STATUS_FAILURE = 255"

definition check_auth_password :: "'w socks_handler \<Rightarrow> (unit, io_kind, tcp_socket) await" where
  "check_auth_password h =
     await_match (await_passwd_auth_request socket_ops)
       (\<lambda>req.
          case from_utf8 (uname req) of
            None \<Rightarrow> refuse_status PASSWORD_AUTH_STATUS_FAILURE
          | Some user \<Rightarrow>
              (case from_utf8 (passwd req) of
                 None \<Rightarrow> refuse_status PASSWORD_AUTH_STATUS_FAILURE
               | Some password \<Rightarrow>
                   if check_user (sh_auth h) user password then send_status 0
                   else await_bind (send_status PASSWORD_AUTH_STATUS_FAILURE) (\<lambda>_. await_err OtherError)))
       (\<lambda>err. refuse_status (reply_as_u8 (as_reply err)))"

fun check_methods :: "'w socks_handler \<Rightarrow> bool \<Rightarrow> u8 list \<Rightarrow> (unit, io_kind, tcp_socket) await" where
  "check_methods h allow_none [] =
     await_bind (send_choice SOCKS5_AUTH_METHOD_NOT_ACCEPTABLE) (\<lambda>_. await_err OtherError)"
| "check_methods h allow_none (m # ms) =
     (if m = SOCKS5_AUTH_METHOD_PASSWORD then
        await_bind (send_choice SOCKS5_AUTH_METHOD_PASSWORD) (\<lambda>_. check_auth_password h)
      else if m = SOCKS5_AUTH_METHOD_NONE then
        if \<not> allow_none then check_methods h allow_none ms
        else send_choice SOCKS5_AUTH_METHOD_NONE
      else check_methods h allow_none ms)"

definition check_auth :: "'w socks_handler \<Rightarrow> handshake_request \<Rightarrow> (unit, io_kind, tcp_socket) await" where
  "check_auth h handshake_req = check_methods h (\<not> auth_required (sh_auth h)) (methods handshake_req)"

text \<open>What is done on the connection of the client.\<close>

definition on_client ::
    "('a, 'e, tcp_socket) await \<Rightarrow> ('a, 'e, ('c, 'b, 's, 'r4, 'r6, 're, 'q) local_world) await" where
  "on_client f w = (case f (lw_client w) of None \<Rightarrow> None | Some (r, so) \<Rightarrow> Some (r, w\<lparr>lw_client := so\<rparr>))"

definition connection_aborted :: io_kind where "connection_aborted = IoKind 3"

definition connect_error_reply :: "io_kind \<Rightarrow> reply" where
  "connect_error_reply e =
     (if e = ConnectionRefused then ReplyConnectionRefused
      else if e = connection_aborted then HostUnreachable
      else NetworkUnreachable)"

definition connect_target ::
    "('c, 'd, 'b, 's, 'r4, 'r6, 'n4, 'n6, 're, 'q) local_env \<Rightarrow> 'w socks_handler \<Rightarrow> address
     \<Rightarrow> (unit, io_kind, ('c, 'b, 's, 'r4, 'r6, 're, 'q) local_world) await" where
  "connect_target env h addr =
     (case sh_server h of None \<Rightarrow> connect_bypassed env addr | Some server \<Rightarrow> auto_connect env server addr)"

definition handle_tcp_connect ::
    "('c, 'd, 'b, 's, 'r4, 'r6, 'n4, 'n6, 're, 'q) local_env \<Rightarrow> 'w socks_handler \<Rightarrow> address
     \<Rightarrow> (unit, io_kind, ('c, 'b, 's, 'r4, 'r6, 're, 'q) local_world) await" where
  "handle_tcp_connect env h target_addr =
     (if \<not> enable_tcp (sh_mode h) then on_client (send_reply CommandNotSupported target_addr)
      else
        await_match (connect_target env h target_addr)
          (\<lambda>_. case le_local_addr env of
                 Ok a \<Rightarrow> await_bind (on_client (send_reply Succeeded (SocketAddress a))) (\<lambda>_. local_tunnel env (sh_server h))
               | Err e \<Rightarrow> await_err e
               | Panic \<Rightarrow> await_panic)
          (\<lambda>err. await_bind (on_client (send_reply (connect_error_reply err) (SocketAddress (SockV4 0 0))))
             (\<lambda>_. await_err err)))"

partial_function (option) ignore_until_end :: "tcp_socket \<Rightarrow> ((unit, io_kind) outcome \<times> tcp_socket) option" where
  "ignore_until_end s =
     (case await_read socket_ops 2048 s of
        None \<Rightarrow> None
      | Some (Ok d, s) \<Rightarrow> if d = [] then Some (Ok (), s) else ignore_until_end s
      | Some (Err e, s) \<Rightarrow> Some (Err e, s)
      | Some (Panic, s) \<Rightarrow> Some (Panic, s))"

definition handle_udp_associate :: "'w socks_handler \<Rightarrow> address \<Rightarrow> (unit, io_kind, tcp_socket) await" where
  "handle_udp_associate h client_addr =
     (if \<not> enable_udp (sh_mode h) then send_reply CommandNotSupported client_addr
      else await_bind (send_reply Succeeded (server_addr_into_address (sh_udp_bind_addr h))) (\<lambda>_.
             await_ignore ignore_until_end))"

definition handle_socks5_client ::
    "('c, 'd, 'b, 's, 'r4, 'r6, 'n4, 'n6, 're, 'q) local_env \<Rightarrow> 'w socks_handler \<Rightarrow> socket_addr
     \<Rightarrow> (unit, io_kind, ('c, 'b, 's, 'r4, 'r6, 're, 'q) local_world) await" where
  "handle_socks5_client env h peer_addr =
     await_match (on_client (await_handshake_request socket_ops))
       (\<lambda>handshake_req.
          await_bind (on_client (check_auth h handshake_req)) (\<lambda>_.
            await_match (on_client (await_tcp_request socket_ops))
              (\<lambda>header.
                 case req_command header of
                   TcpConnect \<Rightarrow> handle_tcp_connect env h (req_address header)
                 | UdpAssociate \<Rightarrow> on_client (handle_udp_associate h (req_address header))
                 | TcpBind \<Rightarrow> on_client (send_reply CommandNotSupported (req_address header)))
              (\<lambda>err. await_bind (on_client (send_reply (as_reply err) (SocketAddress peer_addr))) (\<lambda>_.
                 await_err (error_into_io err)))))
       (\<lambda>err. if err = IoError UnexpectedEof then await_ok () else await_err (error_into_io err))"

section \<open>The buffered connection of SOCKS4\<close>

text \<open>\<open>BufReader\<close>, with its 8 KiB: what it has read and not yet given.\<close>

definition poll_fill_buf :: "bytes \<times> tcp_socket \<Rightarrow> (bytes, io_kind) poll \<times> bytes \<times> tcp_socket" where
  "poll_fill_buf w =
     (let (b, so) = w in
      if b \<noteq> [] then (Ready (Ok b), b, so)
      else (case socket_poll_read 8192 so of
              (Ready (Ok d), so) \<Rightarrow> (Ready (Ok d), d, so)
            | (p, so) \<Rightarrow> (p, b, so)))"

definition buf_poll_read :: "nat \<Rightarrow> bytes \<times> tcp_socket \<Rightarrow> (bytes, io_kind) poll \<times> bytes \<times> tcp_socket" where
  "buf_poll_read remaining w =
     (let (b, so) = w in
      if b = [] \<and> remaining \<ge> 8192 then let (p, so) = socket_poll_read remaining so in (p, b, so)
      else poll_bind (poll_fill_buf w) (\<lambda>rem (b, so). (Ready (Ok (take remaining rem)), drop remaining b, so)))"

definition on_inner :: "(tcp_socket \<Rightarrow> 'p \<times> tcp_socket) \<Rightarrow> bytes \<times> tcp_socket \<Rightarrow> 'p \<times> bytes \<times> tcp_socket" where
  "on_inner f w = (let (b, so) = w; (p, so) = f so in (p, b, so))"

definition buf_ops :: "(bytes \<times> tcp_socket) async_stream" where
  "buf_ops = \<lparr>as_read = buf_poll_read, as_write = \<lambda>b. on_inner (as_write socket_ops b),
     as_flush = on_inner (as_flush socket_ops), as_shutdown = on_inner (as_shutdown socket_ops)\<rparr>"

partial_function (option) await_read_until ::
    "u8 \<Rightarrow> bytes \<Rightarrow> bytes \<times> tcp_socket \<Rightarrow> ((bytes, io_kind) outcome \<times> bytes \<times> tcp_socket) option" where
  "await_read_until d acc w =
     (case poll_fill_buf w of
        (Pending, w) \<Rightarrow> await_read_until d acc w
      | (Ready (Err e), w) \<Rightarrow> Some (Err e, w)
      | (Ready Panic, w) \<Rightarrow> Some (Panic, w)
      | (Ready (Ok available), w) \<Rightarrow>
          (case split_until d available of
             (p, Some q) \<Rightarrow> Some (Ok (acc @ p), q, snd w)
           | (p, None) \<Rightarrow> if p = [] then Some (Ok acc, [], snd w) else await_read_until d (acc @ p) ([], snd w)))"

definition await_nul_field :: "(bytes, s4_error, bytes \<times> tcp_socket) await" where
  "await_nul_field =
     await_bind (await_map_err S4IoError (await_read_until 0 [])) (\<lambda>field.
       if field = [] \<or> last field \<noteq> 0 then await_err (S4IoError UnexpectedEof)
       else await_ok (butlast field))"

definition await_s4_request :: "(s4_handshake_request, s4_error, bytes \<times> tcp_socket) await" where
  "await_s4_request =
     await_bind (await_map_err S4IoError (await_read_exact buf_ops 8 [])) (\<lambda>buf.
       let vn = buf ! 0 in
       if vn \<noteq> SOCKS4_VERSION then await_err (S4UnsupportedSocksVersion vn)
       else let cd = buf ! 1 in
         (case s4_command_from_u8 cd of
            None \<Rightarrow> await_err (S4UnsupportedSocksVersion cd)
          | Some command \<Rightarrow>
              let port = from_be (take 2 (drop 2 buf)) in
              await_bind await_nul_field (\<lambda>user_id.
                if buf ! 4 = 0x00 \<and> buf ! 5 = 0x00 \<and> buf ! 6 = 0x00 \<and> buf ! 7 \<noteq> 0x00 then
                  await_bind await_nul_field (\<lambda>host.
                    (case from_utf8 host of
                       Some host \<Rightarrow>
                         await_ok \<lparr>s4_cd = command, s4_dst = S4DomainNameAddress host port, s4_user_id = user_id\<rparr>
                     | None \<Rightarrow> await_err AddressHostInvalidEncoding))
                else
                  let ip = ipv4_new (buf ! 4) (buf ! 5) (buf ! 6) (buf ! 7) in
                  await_ok \<lparr>s4_cd = command, s4_dst = S4SocketAddress ip port, s4_user_id = user_id\<rparr>)))"

section \<open>The SOCKS4 handler\<close>

definition on_buffered ::
    "('a, 'e, bytes \<times> tcp_socket) await \<Rightarrow> ('a, 'e, ('c, 'b, 's, 'r4, 'r6, 're, 'q) local_world) await" where
  "on_buffered f w =
     (case f (lw_buf w, lw_client w) of
        None \<Rightarrow> None
      | Some (r, b, so) \<Rightarrow> Some (r, w\<lparr>lw_buf := b, lw_client := so\<rparr>))"

definition s4_send :: "s4_result \<Rightarrow> (unit, io_kind, ('c, 'b, 's, 'r4, 'r6, 're, 'q) local_world) await" where
  "s4_send r = on_buffered (await_send buf_ops (Ok (s4_response_write_to_buf \<lparr>s4_code = r\<rparr>)))"

definition connect_error_result :: "io_kind \<Rightarrow> s4_result" where
  "connect_error_result e =
     (if e = ConnectionRefused \<or> e = connection_aborted then RequestRejectedCannotConnect
      else RequestRejectedOrFailed)"

text \<open>What the buffer still holds is written to the stream before it is given up.\<close>

definition forward_buffered ::
    "('c, 'd, 'b, 's, 'r4, 'r6, 'n4, 'n6, 're, 'q) local_env
     \<Rightarrow> (unit, io_kind, ('c, 'b, 's, 'r4, 'r6, 're, 'q) local_world) await" where
  "forward_buffered env w =
     (case lw_remote w of
        None \<Rightarrow> Some (Panic, w)
      | Some remote \<Rightarrow>
          if lw_buf w = [] then Some (Ok (), w)
          else
            (case await_write_all (auto_ops (le_tcp env) (le_rnd env)) (lw_buf w) (remote, lw_ctx w) of
               None \<Rightarrow> None
             | Some (r, remote, ctx) \<Rightarrow> Some (r, w\<lparr>lw_remote := Some remote, lw_ctx := ctx\<rparr>)))"

definition handle_socks4_connect ::
    "('c, 'd, 'b, 's, 'r4, 'r6, 'n4, 'n6, 're, 'q) local_env \<Rightarrow> 'w socks_handler \<Rightarrow> s4_address
     \<Rightarrow> (unit, io_kind, ('c, 'b, 's, 'r4, 'r6, 're, 'q) local_world) await" where
  "handle_socks4_connect env h target_addr =
     (if \<not> enable_tcp (sh_mode h) then s4_send RequestRejectedOrFailed
      else
        await_match (connect_target env h (s4_into_socks5 target_addr))
          (\<lambda>_. await_bind (s4_send RequestGranted) (\<lambda>_.
               await_bind (forward_buffered env) (\<lambda>_. local_tunnel env (sh_server h))))
          (\<lambda>err. await_bind (s4_send (connect_error_result err)) (\<lambda>_. await_err err)))"

definition handle_socks4_client ::
    "('c, 'd, 'b, 's, 'r4, 'r6, 'n4, 'n6, 're, 'q) local_env \<Rightarrow> 'w socks_handler
     \<Rightarrow> (unit, io_kind, ('c, 'b, 's, 'r4, 'r6, 're, 'q) local_world) await" where
  "handle_socks4_client env h =
     await_match (on_buffered await_s4_request)
       (\<lambda>req. case s4_cd req of
                S4Connect \<Rightarrow> handle_socks4_connect env h (s4_dst req)
              | S4Bind \<Rightarrow> s4_send RequestRejectedOrFailed)
       (\<lambda>err. if err = S4IoError UnexpectedEof then await_ok () else await_err (s4_error_into_io err))"

section \<open>The choice of the protocol\<close>

text \<open>\<open>peek\<close> waits for a byte and leaves it to be read.\<close>

fun peek_script :: "rd_script \<Rightarrow> (bytes, io_kind) outcome \<times> rd_script" where
  "peek_script [] = (Ok [], [])"
| "peek_script (RdPending # es) = peek_script es"
| "peek_script (RdData bs # es) = (Ok (take 1 bs), RdData bs # es)"
| "peek_script (RdError e # es) = (Err e, es)"

definition await_peek :: "(bytes, io_kind, tcp_socket) await" where
  "await_peek so = (let (r, es) = peek_script (so_source so) in Some (r, so\<lparr>so_source := es\<rparr>))"

definition http_letters :: "u8 list" where
  "http_letters = map (\<lambda>c. of_nat (of_char c)) ''GgHhPpDdCcOoTt''"

text \<open>The HTTP handler is built on the hyper library and is a parameter here.\<close>

definition handle_tcp_client ::
    "('c, 'd, 'b, 's, 'r4, 'r6, 'n4, 'n6, 're, 'q) local_env
     \<Rightarrow> (unit, 'h, ('c, 'b, 's, 'r4, 'r6, 're, 'q) local_world) await \<Rightarrow> 'w socks_handler \<Rightarrow> socket_addr
     \<Rightarrow> (unit, io_kind, ('c, 'b, 's, 'r4, 'r6, 're, 'q) local_world) await" where
  "handle_tcp_client env http h peer_addr =
     await_bind (on_client await_peek) (\<lambda>version_buffer.
       if version_buffer = [] then await_err UnexpectedEof
       else if version_buffer ! 0 = 0x04 then handle_socks4_client env h
       else if version_buffer ! 0 = 0x05 then handle_socks5_client env h peer_addr
       else if version_buffer ! 0 \<in> set http_letters then await_map_err (\<lambda>_. OtherError) http
       else await_err OtherError)"

section \<open>Only users get through\<close>

text \<open>What is written to a connection is the start of what was to be written; reading writes nothing.\<close>

lemma await_write_all_sink:
  assumes "await_write_all socket_ops bs s = Some (r, s')"
  shows "\<exists>z. prefix z bs \<and> sink_bytes (so_sink s') = sink_bytes (so_sink s) @ z \<and> (r = Ok () \<longrightarrow> z = bs)"
proof -
  let ?P = "\<lambda>ops bs s r. ops = socket_ops \<longrightarrow> (\<exists>z. prefix z bs \<and>
    sink_bytes (so_sink (snd r)) = sink_bytes (so_sink (s :: tcp_socket)) @ z \<and> (fst r = (Ok () :: (unit, io_kind) outcome) \<longrightarrow> z = bs))"
  have "?P socket_ops bs s (r, s')"
  proof (rule await_write_all.raw_induct [OF _ assms(1), where P = ?P], intro impI, goal_cases)
    case (1 rec ops bs s r)
    note IH = 1(1) [THEN mp, OF _ refl]
    obtain p w where w: "poll_write bs (so_sink s) = (p, w)" by force
    then have p: "as_write socket_ops bs s = (p, s\<lparr>so_sink := w\<rparr>)" by (simp add: socket_ops_def socket_poll_write_def)
    have step: "(if bs = [] then Some (Ok (), s)
      else (case (p, s\<lparr>so_sink := w\<rparr>) of
         (Pending, s) \<Rightarrow> rec socket_ops bs s
       | (Ready (Err e), s) \<Rightarrow> Some (Err e, s)
       | (Ready Panic, s) \<Rightarrow> Some (Panic, s)
       | (Ready (Ok n), s) \<Rightarrow> if n = 0 then Some (Err WriteZero, s) else rec socket_ops (drop n bs) s)) = Some r"
      using 1(2) p by (simp only: 1(3) prod.case)
    have pw: "sink_bytes w = sink_bytes (so_sink s) @ (case p of Ready (Ok n) \<Rightarrow> take n bs | _ \<Rightarrow> [])"
      using w by (auto simp: poll_write_def Let_def min_def split: list.splits wr_event.splits)
    show ?case
    proof (cases "bs = []")
      case True
      then show ?thesis using step by auto
    next
      case False
      note step = step [unfolded if_not_P [OF False]]
      show ?thesis
      proof (cases p)
        case Pending
        then show ?thesis using IH [of bs "s\<lparr>so_sink := w\<rparr>" r] step pw by simp
      next
        case (Ready o1)
        show ?thesis
        proof (cases o1)
          case (Ok n)
          show ?thesis
          proof (cases "n = 0")
            case True
            then show ?thesis using step Ready Ok pw by auto
          next
            case False
            then obtain z where "prefix z (drop n bs)" "sink_bytes (so_sink (snd r)) = sink_bytes w @ z" "fst r = Ok () \<longrightarrow> z = drop n bs"
              using IH [of "drop n bs" "s\<lparr>so_sink := w\<rparr>" r] step Ready Ok by auto
            then show ?thesis using pw Ready Ok
              by (intro exI [of _ "take n bs @ z"]) (auto, metis append_take_drop_id same_prefix_prefix)
          qed
        qed (use step Ready pw in auto)
      qed
    qed
  qed
  then show ?thesis by simp
qed

definition quiet :: "('a, 'e, tcp_socket) await \<Rightarrow> bool" where
  "quiet f \<longleftrightarrow> (\<forall>s r s'. f s = Some (r, s') \<longrightarrow> so_sink s' = so_sink s)"

lemma quietD: "quiet f \<Longrightarrow> f s = Some (r, s') \<Longrightarrow> so_sink s' = so_sink s"
  by (simp add: quiet_def)

lemma quiet_bind: "quiet f \<Longrightarrow> (\<And>x. quiet (f' x)) \<Longrightarrow> quiet (await_bind f f')"
  by (auto simp: quiet_def await_bind_def split: option.splits outcome.splits)

lemma quiet_ok: "quiet (await_ok x)"
  by (simp add: quiet_def await_ok_def)

lemma quiet_err: "quiet (await_err x)"
  by (simp add: quiet_def await_err_def)

lemma quiet_if: "(b \<Longrightarrow> quiet f) \<Longrightarrow> (\<not> b \<Longrightarrow> quiet g) \<Longrightarrow> quiet (if b then f else g)"
  by simp

lemma quiet_option: "quiet f \<Longrightarrow> (\<And>x. quiet (g x)) \<Longrightarrow> quiet (case z of None \<Rightarrow> f | Some x \<Rightarrow> g x)"
  by (cases z) auto

lemma quiet_exact: "quiet (await_exact socket_ops n)"
proof -
  let ?P = "\<lambda>ops n acc s r. ops = socket_ops \<longrightarrow> so_sink (snd r) = so_sink (s :: tcp_socket)"
  have "so_sink s' = so_sink s" if "await_read_exact socket_ops n [] s = Some (r, s')" for s r s'
  proof -
    have "?P socket_ops n [] s (r, s')"
    proof (rule await_read_exact.raw_induct [OF _ that, where P = ?P], intro impI, goal_cases)
      case (1 rec ops n acc s r)
      note IH = 1(1) [THEN mp, OF _ refl]
      obtain p es where p: "as_read socket_ops (n - length acc) s = (p, s\<lparr>so_source := es\<rparr>)"
        by (force simp: socket_ops_def socket_poll_read_def split: prod.splits)
      show ?case
        using 1(2,3) p by (auto split: if_splits poll.splits outcome.splits dest!: IH)
    qed
    then show ?thesis by simp
  qed
  then show ?thesis by (auto simp: quiet_def await_exact_def await_map_err_def split: option.splits)
qed

lemma quiet_handshake: "quiet (await_handshake_request socket_ops)"
  unfolding await_handshake_request_def Let_def by (intro quiet_bind quiet_if quiet_ok quiet_err quiet_exact)

lemma quiet_passwd: "quiet (await_passwd_auth_request socket_ops)"
  unfolding await_passwd_auth_request_def Let_def by (intro quiet_bind quiet_if quiet_ok quiet_err quiet_exact)

lemma await_bind_Err: "await_bind f g s = Some (Err e, s') \<Longrightarrow>
    f s = Some (Err e, s') \<or> (\<exists>x t. f s = Some (Ok x, t) \<and> g x t = Some (Err e, s'))"
  by (auto simp: await_bind_def split: option.splits outcome.splits)

lemma await_exact_Err: "await_exact ops n s = Some (Err e, s') \<Longrightarrow> \<exists>k. e = IoError k"
proof -
  assume "await_exact ops n s = Some (Err e, s')"
  then obtain r where "map_err IoError r = (Err e :: (bytes, error) outcome)"
    by (auto simp: await_exact_def await_map_err_def split: option.splits prod.splits)
  then show ?thesis by (cases r) auto
qed

lemma passwd_refusal:
  assumes "await_passwd_auth_request socket_ops s = Some (Err e, s')"
  shows "reply_as_u8 (as_reply e) \<noteq> 0"
proof -
  have "(\<exists>k. e = IoError k) \<or> (\<exists>v. e = UnsupportedPasswdAuthVersion v) \<or> e = PasswdAuthInvalidRequest"
    using assms unfolding await_passwd_auth_request_def Let_def
    by (auto dest!: await_bind_Err await_exact_Err simp: await_err_def await_ok_def split: if_splits)
  then show ?thesis by (auto split: if_splits)
qed

text \<open>The start of a connection that presents the credentials of a user.\<close>

definition authenticated :: "passwd_config \<Rightarrow> reader \<Rightarrow> bool" where
  "authenticated c r \<longleftrightarrow>
     (\<exists>cred r' u p. passwd_auth_request_read_from r = Ok (cred, r') \<and>
        from_utf8 (uname cred) = Some u \<and> from_utf8 (passwd cred) = Some p \<and> check_user c u p)"

lemma send_sink:
  assumes "await_send socket_ops (Ok bs) s = Some (r, s')"
  obtains z where "prefix z bs" "sink_bytes (so_sink s') = sink_bytes (so_sink s) @ z" "r = Ok () \<longrightarrow> z = bs" "so_source s' = so_source s"
  using await_write_all_sink [of bs s r s'] await_write_all_source [of bs s r s'] assms by (auto simp: await_send_def)

lemma refuse_status_sink:
  assumes "refuse_status st s = Some (r, s')"
  shows "r \<noteq> Ok () \<and> (\<exists>z. prefix z [1, st] \<and> sink_bytes (so_sink s') = sink_bytes (so_sink s) @ z)"
proof -
  from assms obtain o1 where "await_send socket_ops (Ok [1, st]) s = Some (o1, s')" "r = Err OtherError \<or> r = Panic"
    by (auto simp: refuse_status_def await_bind_def await_ignore_def await_err_def send_status_def passwd_auth_response_write_to_buf_def
        split: option.splits prod.splits outcome.splits)
  then show ?thesis by (auto elim!: send_sink)
qed

lemma check_auth_password_sink:
  assumes "check_auth_password h s = Some (r, s')" "\<not> authenticated (sh_auth h) (script_bytes (so_source s), Eof)"
  shows "r \<noteq> Ok () \<and> (\<exists>z c. c \<noteq> 0 \<and> prefix z [1, c] \<and> sink_bytes (so_sink s') = sink_bytes (so_sink s) @ z)"
proof -
  obtain o1 s1 where p: "await_passwd_auth_request socket_ops s = Some (o1, s1)"
    using assms(1) by (auto simp: check_auth_password_def await_match_def split: option.splits)
  have q: "so_sink s1 = so_sink s" using quietD [OF quiet_passwd p] .
  have f: "PASSWORD_AUTH_STATUS_FAILURE \<noteq> 0" by (simp add: PASSWORD_AUTH_STATUS_FAILURE_def)
  show ?thesis
  proof (cases o1)
    case (Ok cred)
    then have rd: "passwd_auth_request_read_from (script_bytes (so_source s), Eof) = Ok (cred, (script_bytes (so_source s1), Eof))"
      using soundD [OF sound_passwd] p by blast
    then have no: "\<not> (\<exists>u p. from_utf8 (uname cred) = Some u \<and> from_utf8 (passwd cred) = Some p \<and> check_user (sh_auth h) u p)"
      using assms(2) unfolding authenticated_def by blast
    have cases: "refuse_status PASSWORD_AUTH_STATUS_FAILURE s1 = Some (r, s') \<or>
        await_bind (send_status PASSWORD_AUTH_STATUS_FAILURE) (\<lambda>_. await_err OtherError) s1 = Some (r, s')"
      using assms(1) p Ok no by (auto simp: check_auth_password_def await_match_def split: option.splits if_splits)
    then show ?thesis
    proof
      assume "refuse_status PASSWORD_AUTH_STATUS_FAILURE s1 = Some (r, s')"
      from refuse_status_sink [OF this] f q show ?thesis by auto
    next
      assume "await_bind (send_status PASSWORD_AUTH_STATUS_FAILURE) (\<lambda>_. await_err OtherError) s1 = Some (r, s')"
      then obtain o2 where "await_send socket_ops (Ok [1, PASSWORD_AUTH_STATUS_FAILURE]) s1 = Some (o2, s')" "r \<noteq> Ok ()"
        by (auto simp: await_bind_def await_err_def send_status_def passwd_auth_response_write_to_buf_def split: option.splits outcome.splits)
      then show ?thesis using f q by (auto elim!: send_sink)
    qed
  next
    case (Err e)
    then have "refuse_status (reply_as_u8 (as_reply e)) s1 = Some (r, s')"
      using assms(1) p by (simp add: check_auth_password_def await_match_def)
    from refuse_status_sink [OF this] passwd_refusal p Err q show ?thesis by fastforce
  next
    case Panic
    then show ?thesis using assms(1) p q by (auto simp: check_auth_password_def await_match_def intro!: exI [of _ "[]"] exI [of _ 1])
  qed
qed

text \<open>What a client without credentials is told: a refusal, at most.\<close>

definition refusal :: "bytes \<Rightarrow> bool" where
  "refusal z \<longleftrightarrow> prefix z [5, 0xff] \<or> (\<exists>c. c \<noteq> 0 \<and> prefix z [5, 2, 1, c])"

lemma check_methods_sink:
  assumes "check_methods h False ms s = Some (r, s')"
    and "\<not> (SOCKS5_AUTH_METHOD_PASSWORD \<in> set ms \<and> authenticated (sh_auth h) (script_bytes (so_source s), Eof))"
  shows "r \<noteq> Ok () \<and> (\<exists>z. refusal z \<and> sink_bytes (so_sink s') = sink_bytes (so_sink s) @ z)"
  using assms
proof (induction ms)
  case Nil
  then obtain o2 where "await_send socket_ops (Ok [5, 0xff]) s = Some (o2, s')" "r \<noteq> Ok ()"
    by (auto simp: await_bind_def await_err_def send_choice_def handshake_response_write_to_buf_def SOCKS5_VERSION_def
        SOCKS5_AUTH_METHOD_NOT_ACCEPTABLE_def split: option.splits outcome.splits)
  then show ?case by (auto simp: refusal_def elim!: send_sink)
next
  case (Cons m ms)
  show ?case
  proof (cases "m = SOCKS5_AUTH_METHOD_PASSWORD")
    case True
    then have no: "\<not> authenticated (sh_auth h) (script_bytes (so_source s), Eof)" using Cons.prems(2) by simp
    from True Cons.prems(1) have b: "await_bind (send_choice SOCKS5_AUTH_METHOD_PASSWORD) (\<lambda>_. check_auth_password h) s = Some (r, s')" by simp
    then obtain o2 s2 where "send_choice SOCKS5_AUTH_METHOD_PASSWORD s = Some (o2, s2)"
      by (auto simp: await_bind_def split: option.splits)
    moreover from this have "await_send socket_ops (Ok [5, 2]) s = Some (o2, s2)"
      by (simp add: send_choice_def handshake_response_write_to_buf_def SOCKS5_VERSION_def SOCKS5_AUTH_METHOD_PASSWORD_def)
    then obtain z where z: "prefix z [5, 2]" "sink_bytes (so_sink s2) = sink_bytes (so_sink s) @ z" "o2 = Ok () \<longrightarrow> z = [5, 2]"
      "so_source s2 = so_source s" by (rule send_sink)
    ultimately consider "o2 = Ok ()" "check_auth_password h s2 = Some (r, s')" | "r = o2" "o2 \<noteq> Ok ()" "s' = s2"
      using b by (cases o2) (auto simp: await_bind_def)
    then show ?thesis
    proof cases
      case 1
      from check_auth_password_sink [OF 1(2)] no z(4) obtain y c where "r \<noteq> Ok ()" "c \<noteq> 0" "prefix y [1, c]"
        "sink_bytes (so_sink s') = sink_bytes (so_sink s2) @ y" by auto
      then show ?thesis using z(2,3) 1(1) by (auto simp: refusal_def intro!: exI [of _ "[5, 2] @ y"])
    next
      case 2
      have "prefix z [5, 2, 1, 1]" using z(1) by (auto simp: prefix_Cons)
      then show ?thesis using 2 z(2) unfolding refusal_def by (metis zero_neq_one)
    qed
  next
    case False
    then show ?thesis using Cons by (auto split: if_splits)
  qed
qed

text \<open>C3: Where users are configured, SOCKS5 serves nobody else: whatever a client sends, in whatever
  fragments, with whatever errors, either its bytes start with a greeting that offers the password method
  and the name and password of a user, or nothing happens but on its own connection, where it reads
  nothing but a refusal, in full or cut by an error: no acceptable method, or a status other than 0.\<close>

theorem socks5_serves_users_only:
  assumes "auth_required (sh_auth h)"
    and "handle_socks5_client env h peer w = Some (r, w')"
    and "\<not> (\<exists>greeting rest. handshake_request_read_from (script_bytes (so_source (lw_client w)), Eof) = Ok (greeting, rest) \<and>
      SOCKS5_AUTH_METHOD_PASSWORD \<in> set (methods greeting) \<and> authenticated (sh_auth h) rest)"
  shows "\<exists>so z. w' = w\<lparr>lw_client := so\<rparr> \<and> refusal z \<and> sink_bytes (so_sink so) = sink_bytes (so_sink (lw_client w)) @ z"
proof -
  obtain o1 s1 where p: "await_handshake_request socket_ops (lw_client w) = Some (o1, s1)"
    using assms(2) by (auto simp: handle_socks5_client_def await_match_def on_client_def split: option.splits)
  have q: "so_sink s1 = so_sink (lw_client w)" using quietD [OF quiet_handshake p] .
  have nil: "refusal []" by (simp add: refusal_def)
  show ?thesis
  proof (cases o1)
    case (Ok greeting)
    then have rd: "handshake_request_read_from (script_bytes (so_source (lw_client w)), Eof) = Ok (greeting, (script_bytes (so_source s1), Eof))"
      using soundD [OF sound_handshake] p by blast
    with assms(3) have no: "\<not> (SOCKS5_AUTH_METHOD_PASSWORD \<in> set (methods greeting) \<and>
      authenticated (sh_auth h) (script_bytes (so_source s1), Eof))" by blast
    obtain o2 s2 where a: "check_methods h False (methods greeting) s1 = Some (o2, s2)"
      using assms(1,2) p Ok
      by (auto simp: handle_socks5_client_def await_match_def on_client_def await_bind_def check_auth_def split: option.splits)
    from check_methods_sink [OF a no] obtain z where z: "o2 \<noteq> Ok ()" "refusal z" "sink_bytes (so_sink s2) = sink_bytes (so_sink s1) @ z"
      by blast
    then have "w' = w\<lparr>lw_client := s2\<rparr>" using assms(1,2) p Ok a
      by (cases o2) (auto simp: handle_socks5_client_def await_match_def on_client_def await_bind_def check_auth_def)
    then show ?thesis using z q by auto
  next
    case (Err e)
    then have "w' = w\<lparr>lw_client := s1\<rparr>" using assms(2) p
      by (auto simp: handle_socks5_client_def await_match_def on_client_def await_ok_def await_err_def split: if_splits)
    then show ?thesis using q nil by (intro exI [of _ s1] exI [of _ "[]"]) simp
  next
    case Panic
    then have "w' = w\<lparr>lw_client := s1\<rparr>" using assms(2) p
      by (auto simp: handle_socks5_client_def await_match_def on_client_def)
    then show ?thesis using q nil by (intro exI [of _ s1] exI [of _ "[]"]) simp
  qed
qed

definition sample_local_env :: "(nat \<times> nat, unit, bytes list, exact_cache, (ipv4_addr \<times> nat) list, (ipv6_addr \<times> nat) list,
    ipv4_addr \<times> nat, ipv6_addr \<times> nat, string list, (ip_addr \<times> bool) list) local_env" where
  "sample_local_env = \<lparr>le_tcp = sample_proxy_env, le_acl = sample_acl_lib, le_rev = assoc_rev_lib, le_dns = \<lambda>_ _. Err TimedOut,
     le_direct = \<lambda>_. Ok (sample_plain [7]), le_attempt = \<lambda>_. (0, Ok (sample_plain [9, 9, 0, 1, 0, 5, 1])),
     le_local_addr = Ok (SockV4 0x7F000001 1080), le_rnd = 0, le_draws = [(0, [9, 9])],
     le_copy = \<lambda>w. Some (Ok (0, 0), w), le_patience = 3\<rparr>"

definition sample_handler :: "unit socks_handler" where
  "sample_handler = \<lparr>sh_server = Some sample_proxy_config, sh_mode = TcpOnly, sh_auth = [(''a'', ''b'')],
     sh_udp_bind_addr = ServerDomainName ''a'' 1080\<rparr>"

definition sample_socks_world :: "rd_script \<Rightarrow> (nat \<times> nat, bytes list, exact_cache, (ipv4_addr \<times> nat) list, (ipv6_addr \<times> nat) list,
    string list, (ip_addr \<times> bool) list) local_world" where
  "sample_socks_world src = \<lparr>lw_client = \<lparr>so_source = src, so_sink = \<lparr>sink_bytes = [], sink_script = [WrPending, WrAccept 1]\<rparr>, so_shut = False\<rparr>,
     lw_buf = [], lw_ctx = context_new exact_lib Local, lw_sc = \<lparr>sc_acl = None, sc_cache = []\<rparr>, lw_remote = None, lw_failures = 0\<rparr>"


lemma send_delivers:
  assumes "socket_dx m room s d t None" "length bs \<le> room" "bs \<noteq> []"
  shows "\<exists>s'. await_send socket_ops (Ok bs) s = Some (Ok (), s') \<and> socket_dx m room s' d (t @ bs) None \<and>
    socket_waits s' \<le> socket_waits s \<and> (so_shut s \<longrightarrow> so_shut s')"
  using sk.await_write_all_takes [OF assms(1) _ _ assms(2)] assms(3) by (simp add: await_send_def)

theorem socks5_serves_users_only_witness:
  "\<exists>r w' so z. handle_socks5_client sample_local_env sample_handler (SockV4 0 0) (sample_socks_world [RdData [5], RdPending, RdData [1, 0]]) = Some (r, w') \<and>
    w' = (sample_socks_world [RdData [5], RdPending, RdData [1, 0]])\<lparr>lw_client := so\<rparr> \<and> refusal z \<and>
    sink_bytes (so_sink so) = [] @ z"
proof -
  let ?w = "sample_socks_world [RdData [5], RdPending, RdData [1, 0]]"
  have dx: "socket_dx 300 300 (lw_client ?w) [5, 1, 0] [] None"
    by (simp add: sample_socks_world_def socket_dx_def socket_clean_def)
  have rd: "handshake_request_read_from ([5, 1, 0], Eof) = Ok (\<lparr>methods = [0]\<rparr>, ([], Eof))" by code_simp
  obtain s1 where s1: "await_handshake_request socket_ops (lw_client ?w) = Some (Ok \<lparr>methods = [0]\<rparr>, s1)" "socket_dx 300 300 s1 [] [] None"
    using sk.implements_Ok [OF sk.implements_handshake dx rd] by auto
  obtain s2 where s2: "await_send socket_ops (Ok [5, 255]) s1 = Some (Ok (), s2)" using send_delivers [OF s1(2), of "[5, 255]"] by auto
  have run: "\<exists>r w'. handle_socks5_client sample_local_env sample_handler (SockV4 0 0) ?w = Some (r, w')"
    using s1(1) s2
    by (simp add: handle_socks5_client_def await_match_def on_client_def await_bind_def await_err_def check_auth_def sample_handler_def auth_required_def total_users_def
        send_choice_def handshake_response_write_to_buf_def SOCKS5_VERSION_def SOCKS5_AUTH_METHOD_NONE_def SOCKS5_AUTH_METHOD_PASSWORD_def
        SOCKS5_AUTH_METHOD_NOT_ACCEPTABLE_def)
  then obtain r w' where run: "handle_socks5_client sample_local_env sample_handler (SockV4 0 0) ?w = Some (r, w')" by blast
  have src: "script_bytes (so_source (lw_client ?w)) = [5, 1, 0]" "sink_bytes (so_sink (lw_client ?w)) = []" by (simp_all add: sample_socks_world_def)
  have no: "\<not> (\<exists>greeting rest. handshake_request_read_from (script_bytes (so_source (lw_client ?w)), Eof) = Ok (greeting, rest) \<and>
      SOCKS5_AUTH_METHOD_PASSWORD \<in> set (methods greeting) \<and> authenticated (sh_auth sample_handler) rest)"
    using rd unfolding src by (simp add: SOCKS5_AUTH_METHOD_PASSWORD_def)
  have auth: "auth_required (sh_auth sample_handler)" by (simp add: sample_handler_def auth_required_def total_users_def)
  show ?thesis using run socks5_serves_users_only [OF auth run no] unfolding src by blast
qed

end
