(* ===== verification/Local_Delivery.thy ===== *)
theory Local_Delivery
  imports Local_Socks
begin

text \<open>
  What a SOCKS client gets: with an AEAD method the stream of \<open>Local_Tunnel\<close> keeps the laws of \<open>duplex\<close>, so
  the tunnel relays; and so does the buffered connection of SOCKS4. The handlers of \<open>Local_Socks\<close> are then
  followed from the first byte of a client to the end of its tunnel.
\<close>

section \<open>SOCKS4 on a buffered connection\<close>

text \<open>What the buffer holds is read first; the rest keeps the laws of the connection below.\<close>

definition buf_dx :: "bytes \<times> tcp_socket \<Rightarrow> bytes \<Rightarrow> bytes \<Rightarrow> bytes option \<Rightarrow> bool" where
  "buf_dx w d t q \<longleftrightarrow> length (fst w) \<le> 8192 \<and> (\<exists>d'. d = fst w @ d' \<and> socket_dx MAX_PACKET_SIZE MAX_PACKET_SIZE (snd w) d' t q)"

definition buf_waits :: "bytes \<times> tcp_socket \<Rightarrow> nat" where
  "buf_waits w = socket_waits (snd w)"

definition buf_shut :: "bytes \<times> tcp_socket \<Rightarrow> bool" where
  "buf_shut w = so_shut (snd w)"

lemma fill_buf_law:
  assumes "buf_dx w d t q"
  shows "duplex_law buf_waits buf_shut w (poll_fill_buf w) (\<lambda>w. buf_dx w d t q)
    (\<lambda>x w. fst w = x \<and> (x = [] \<longrightarrow> d = []) \<and> buf_dx w d t q)"
proof -
  obtain b so where w: "w = (b, so)" by force
  show ?thesis
  proof (cases "b = []")
    case False
    then show ?thesis using assms by (simp add: w poll_fill_buf_def duplex_law_def)
  next
    case True
    then have dx: "socket_dx MAX_PACKET_SIZE MAX_PACKET_SIZE so d t q" using assms by (simp add: w buf_dx_def)
    have "(8192 :: nat) \<le> MAX_PACKET_SIZE" by (simp add: MAX_PACKET_SIZE_def)
    from sk.reads [OF dx _ this] have law: "duplex_law socket_waits so_shut so (socket_poll_read 8192 so) (\<lambda>s. socket_dx MAX_PACKET_SIZE MAX_PACKET_SIZE s d t q)
        (\<lambda>x s. \<exists>d'. d = x @ d' \<and> length x \<le> 8192 \<and> length x \<le> MAX_PACKET_SIZE \<and> (x = [] \<longrightarrow> d = []) \<and> socket_dx MAX_PACKET_SIZE MAX_PACKET_SIZE s d' t q)"
      by (simp add: socket_ops_def)
    obtain p so' where r: "socket_poll_read 8192 so = (p, so')" by force
    from law [unfolded r] show ?thesis using True
      by (cases rule: duplex_lawE) (auto simp: w r poll_fill_buf_def duplex_law_def buf_dx_def buf_waits_def buf_shut_def)
  qed
qed

interpretation bf: duplex buf_ops buf_dx buf_waits buf_shut MAX_PACKET_SIZE n MAX_PACKET_SIZE for n
proof
  fix w :: "bytes \<times> tcp_socket" and d t q k
  assume a: "buf_dx w d t q" "(0::nat) < k" "k \<le> MAX_PACKET_SIZE"
  obtain b so where w: "w = (b, so)" by force
  show "duplex_law buf_waits buf_shut w (as_read buf_ops k w) (\<lambda>s. buf_dx s d t q)
      (\<lambda>x s. \<exists>d'. d = x @ d' \<and> length x \<le> k \<and> length x \<le> MAX_PACKET_SIZE \<and> (x = [] \<longrightarrow> d = []) \<and> buf_dx s d' t q)"
  proof (cases "b = [] \<and> k \<ge> 8192")
    case True
    then have dx: "socket_dx MAX_PACKET_SIZE MAX_PACKET_SIZE so d t q" using a(1) by (simp add: w buf_dx_def)
    obtain p so' where r: "socket_poll_read k so = (p, so')" by force
    from sk.reads [OF dx a(2,3)] r True show ?thesis
      by (simp add: socket_ops_def w buf_ops_def buf_poll_read_def duplex_law_def buf_dx_def buf_waits_def buf_shut_def split: poll.splits outcome.splits)
  next
    case False
    obtain p w1 where r: "poll_fill_buf w = (p, w1)" by (metis surj_pair)
    have e: "as_read buf_ops k w = poll_bind (p, w1) (\<lambda>rem (b, so). (Ready (Ok (take k rem)), drop k b, so))"
      using False r by (auto simp: buf_ops_def buf_poll_read_def w)
    from fill_buf_law [OF a(1), unfolded r] show ?thesis
    proof (cases rule: duplex_lawE)
      case again
      then show ?thesis by (simp add: e duplex_law_def)
    next
      case (finished x)
      then obtain d' where "d = x @ d'" "socket_dx MAX_PACKET_SIZE MAX_PACKET_SIZE (snd w1) d' t q" "fst w1 = x" by (auto simp: buf_dx_def)
      then show ?thesis using finished a(2,3)
        by (cases w1)
           (simp add: e duplex_law_def buf_dx_def buf_waits_def buf_shut_def, intro exI [of _ "drop k x @ d'"], auto)
    qed
  qed
next
  fix w :: "bytes \<times> tcp_socket" and d t q and b :: bytes
  obtain c so where w: "w = (c, so)" by force
  assume a: "buf_dx w d t q" "q = None \<or> q = Some b" "b \<noteq> []" "length b \<le> n"
  then obtain d' where d: "d = c @ d'" "socket_dx MAX_PACKET_SIZE MAX_PACKET_SIZE so d' t q" and c: "length c \<le> 8192" by (auto simp: buf_dx_def w)
  from sk.writes [OF d(2) a(2,3) order.refl] d(1) c
  show "duplex_law buf_waits buf_shut w (as_write buf_ops b w) (\<lambda>s. buf_dx s d t (Some b))
      (\<lambda>n s. 0 < n \<and> n \<le> length b \<and> buf_dx s d (t @ take n b) None)"
    by (auto simp: w buf_ops_def on_inner_def duplex_law_def buf_dx_def buf_waits_def buf_shut_def Let_def split: prod.splits poll.splits outcome.splits)
next
  fix w :: "bytes \<times> tcp_socket" and d t
  obtain c so where w: "w = (c, so)" by force
  assume a: "buf_dx w d t None"
  then obtain d' where d: "d = c @ d'" "socket_dx MAX_PACKET_SIZE MAX_PACKET_SIZE so d' t None" and c: "length c \<le> 8192" by (auto simp: buf_dx_def w)
  from sk.flushes [OF d(2)] d(1) c
  show "duplex_law buf_waits buf_shut w (as_flush buf_ops w) (\<lambda>s. buf_dx s d t None) (\<lambda>_ s. buf_dx s d t None)"
    by (auto simp: w buf_ops_def on_inner_def duplex_law_def buf_dx_def buf_waits_def buf_shut_def Let_def split: prod.splits poll.splits outcome.splits)
  from sk.shuts [OF d(2)] d(1) c
  show "duplex_law buf_waits buf_shut w (as_shutdown buf_ops w) (\<lambda>s. buf_dx s d t None) (\<lambda>_ s. buf_dx s d t None \<and> buf_shut s)"
    by (auto simp: w buf_ops_def on_inner_def duplex_law_def buf_dx_def buf_waits_def buf_shut_def Let_def split: prod.splits poll.splits outcome.splits)
qed

lemma await_read_until_delivers:
  assumes "buf_dx w d t q" "split_until c d = (p, rest)"
  shows "\<exists>w'. await_read_until c acc w = Some (Ok (acc @ p), w') \<and> buf_dx w' (case rest of Some r \<Rightarrow> r | None \<Rightarrow> []) t q \<and>
    buf_waits w' \<le> buf_waits w \<and> (buf_shut w \<longrightarrow> buf_shut w')"
  using assms
proof (induction "buf_waits w + length d" arbitrary: w d acc p rule: less_induct)
  case less
  note unfold = await_read_until.simps [of c acc w]
  obtain o1 w1 where r: "poll_fill_buf w = (o1, w1)" by (metis surj_pair)
  from fill_buf_law [OF less.prems(1), unfolded r] show ?case
  proof (cases rule: duplex_lawE)
    case again
    have "await_read_until c acc w = await_read_until c acc w1" using r again by (simp add: unfold)
    moreover have "buf_waits w1 + length d < buf_waits w + length d" using again by simp
    ultimately show ?thesis using less.hyps [OF _ again(2) less.prems(2)] again(3,4) by fastforce
  next
    case (finished x)
    then obtain d' where d: "d = x @ d'" "socket_dx MAX_PACKET_SIZE MAX_PACKET_SIZE (snd w1) d' t q" by (auto simp: buf_dx_def)
    obtain y z where s: "split_until c x = (y, z)" by force
    show ?thesis
    proof (cases z)
      case (Some z')
      then obtain f where f: "c \<notin> set f" "y = f @ [c]" "x = f @ c # z'" using s split_until_Some by metis
      then have "p = y" "rest = Some (z' @ d')" using less.prems(2) d(1) by (simp_all add: split_until_append)
      moreover have "length x \<le> 8192" using finished(2) by (auto simp: buf_dx_def)
      then have "length z' \<le> 8192" using f(3) by simp
      ultimately show ?thesis using r finished s Some d by (auto simp: unfold buf_dx_def buf_waits_def buf_shut_def)
    next
      case None
      then have f: "c \<notin> set x" "y = x" using s split_until_None by metis+
      show ?thesis
      proof (cases "x = []")
        case True
        then show ?thesis using r finished less.prems(2) d by (auto simp: unfold buf_dx_def buf_waits_def buf_shut_def)
      next
        case False
        have e: "await_read_until c acc w = await_read_until c (acc @ x) ([], snd w1)"
          using r finished s None f False by (simp add: unfold)
        obtain p' rest' where s': "split_until c d' = (p', rest')" by force
        have "split_until c (x @ d') = (x @ p', rest')" using f(1) s' by (induction x) auto
        then have p: "p = x @ p'" "rest = rest'" using less.prems(2) d(1) by simp_all
        have "buf_dx ([], snd w1) d' t q" using d by (simp add: buf_dx_def)
        moreover have "buf_waits ([], snd w1) + length d' < buf_waits w + length d" 
        proof -
          have "0 < length x" using False by simp
          then show ?thesis using finished(3) unfolding d(1) length_append buf_waits_def snd_conv by linarith
        qed
        ultimately show ?thesis using less.hyps [OF _ _ s' [folded p(2)], of "([], snd w1)" "acc @ x"] e p finished(3,4)
          by (fastforce simp: buf_waits_def buf_shut_def)
      qed
    qed
  qed
qed

lemma implements_nul_field: "bf.implements await_nul_field read_nul_field"
proof -
  have "bf.implements (await_read_until 0 []) (read_until 0)"
    unfolding bf.implements_def
  proof (intro allI impI)
    fix w d t q
    assume dx: "buf_dx w d t q"
    obtain p rest where s: "split_until 0 d = (p, rest)" by force
    from await_read_until_delivers [OF dx s, of "[]"] s
    show "case read_until 0 (d, Eof) of
        Ok (x, r) \<Rightarrow> \<exists>s'. await_read_until 0 [] w = Some (Ok x, s') \<and> buf_dx s' (fst r) t q \<and> snd r = Eof \<and> buf_waits s' \<le> buf_waits w \<and> (buf_shut w \<longrightarrow> buf_shut s')
      | Err e \<Rightarrow> \<exists>s'. await_read_until 0 [] w = Some (Err e, s')
      | Panic \<Rightarrow> \<exists>s'. await_read_until 0 [] w = Some (Panic, s')"
      by (auto simp: read_until_def split: option.splits)
  qed
  then show ?thesis unfolding await_nul_field_def read_nul_field_def [abs_def]
    by (intro bf.implements_bind bf.implements_if bf.implements_ok bf.implements_err bf.implements_map_err)
qed

lemma implements_s4_request: "bf.implements await_s4_request s4_request_read_from"
  unfolding await_s4_request_def s4_request_read_from_def [abs_def] Let_def
  by (intro bf.implements_bind bf.implements_if bf.implements_ok bf.implements_err bf.implements_map_err bf.implements_option
      implements_nul_field bf.implements_read_exact) (simp_all add: MAX_PACKET_SIZE_def)

section \<open>The stream to the target keeps the laws\<close>

definition auto_dx ::
    "('c client_stream \<times> 'x \<Rightarrow> bytes \<Rightarrow> bytes \<Rightarrow> bytes option \<Rightarrow> bool)
     \<Rightarrow> 'c auto_stream \<times> 'x \<Rightarrow> bytes \<Rightarrow> bytes \<Rightarrow> bytes option \<Rightarrow> bool" where
  "auto_dx D w d t q \<longleftrightarrow> (\<exists>ps x. w = (AutoProxied ps, x) \<and> D (ps, x) d t q)"

fun auto_waits :: "'c auto_stream \<times> ('b, 's) ss_context \<Rightarrow> nat" where
  "auto_waits (AutoProxied ps, x) = client_waits (ps, x)"
| "auto_waits (AutoBypassed so, x) = socket_waits so"

fun auto_shut :: "'c auto_stream \<times> ('b, 's) ss_context \<Rightarrow> bool" where
  "auto_shut (AutoProxied ps, x) = client_shut (ps, x)"
| "auto_shut (AutoBypassed so, x) = so_shut so"

lemma auto_call_law:
  assumes "duplex_law client_waits client_shut (ps, x) (f (ps, x)) A B"
    and "\<And>w. A w \<Longrightarrow> A' (AutoProxied (fst w), snd w)" "\<And>y w. B y w \<Longrightarrow> B' y (AutoProxied (fst w), snd w)"
  shows "duplex_law auto_waits auto_shut (AutoProxied ps, x) (auto_call f g (AutoProxied ps, x)) A' B'"
proof -
  obtain p ps' x' where r: "f (ps, x) = (p, ps', x')" by (metis prod.collapse)
  from assms(1) [unfolded r] show ?thesis
    by (cases rule: duplex_lawE) (use assms(2,3) in \<open>force simp: auto_call_def r duplex_law_def\<close>)+
qed

lemma auto_duplex:
  assumes "duplex (client_ops env rnd) D client_waits client_shut dl ac rm"
  shows "duplex (auto_ops env rnd) (auto_dx D) auto_waits auto_shut dl ac rm"
proof (unfold_locales, goal_cases)
  case (1 w d t q k)
  then obtain ps x where w: "w = (AutoProxied ps, x)" "D (ps, x) d t q" by (auto simp: auto_dx_def)
  show ?case unfolding w(1) auto_ops_def async_stream.select_convs
    by (rule auto_call_law [where f = "as_read (client_ops env rnd) k", OF duplex.reads [OF assms w(2) 1(2,3)]]) (auto simp: auto_dx_def)
next
  case (2 w d t q b)
  then obtain ps x where w: "w = (AutoProxied ps, x)" "D (ps, x) d t q" by (auto simp: auto_dx_def)
  show ?case unfolding w(1) auto_ops_def async_stream.select_convs
    by (rule auto_call_law [where f = "as_write (client_ops env rnd) b", OF duplex.writes [OF assms w(2) 2(2,3,4)]]) (auto simp: auto_dx_def)
next
  case (3 w d t)
  then obtain ps x where w: "w = (AutoProxied ps, x)" "D (ps, x) d t None" by (auto simp: auto_dx_def)
  show ?case unfolding w(1) auto_ops_def async_stream.select_convs
    by (rule auto_call_law [where f = "as_flush (client_ops env rnd)", OF duplex.flushes [OF assms w(2)]]) (auto simp: auto_dx_def)
next
  case (4 w d t)
  then obtain ps x where w: "w = (AutoProxied ps, x)" "D (ps, x) d t None" by (auto simp: auto_dx_def)
  show ?case unfolding w(1) auto_ops_def async_stream.select_convs
    by (rule auto_call_law [where f = "as_shutdown (client_ops env rnd)", OF duplex.shuts [OF assms w(2)]]) (auto simp: auto_dx_def)
qed

text \<open>A client that has sent its first packet takes buffers of any size up to that of a packet.\<close>

definition connected_dx ::
    "('c, 'd, 'b, 's) tcp_env \<Rightarrow> cipher_kind \<Rightarrow> ('c \<Rightarrow> 'c \<Rightarrow> bool) \<Rightarrow> (nat \<Rightarrow> u8) \<Rightarrow> 'c \<Rightarrow> bytes
     \<Rightarrow> 'c client_stream \<times> ('b, 's) ss_context \<Rightarrow> bytes \<Rightarrow> bytes \<Rightarrow> bytes option \<Rightarrow> bool" where
  "connected_dx env kind R pmem c pre w d t q \<longleftrightarrow>
     pc_reader_state (fst w) = ClientEstablished \<and> pc_writer_state (fst w) = Connected \<and>
     cipher_laws (te_cipher env) kind R \<and> aead_dx env kind R pmem c pre (pc_stream (fst w), snd w) d t q"

lemmas connected_simps = duplex_law_def client_ops_def client_poll_read_def client_poll_write_def client_poll_flush_def
  client_poll_shutdown_def beside_def connected_dx_def client_waits_def client_shut_def

interpretation co: duplex "client_ops env rnd" "connected_dx env kind R pmem c pre" client_waits client_shut
    MAX_PACKET_SIZE MAX_PACKET_SIZE MAX_PACKET_SIZE
  for env :: "('c, 'd, 'b, 's) tcp_env" and rnd kind R pmem c pre
proof
  fix s :: "'c client_stream \<times> ('b, 's) ss_context" and d t q k
  assume a: "connected_dx env kind R pmem c pre s d t q" "(0::nat) < k" "k \<le> MAX_PACKET_SIZE"
  obtain ps ctx where s: "s = (ps, ctx)" by force
  obtain p cs ctx' where r: "crypto_poll_read env k (pc_stream ps, ctx) = (p, cs, ctx')" by (metis prod.collapse)
  from a s have h: "cipher_laws (te_cipher env) kind R" "aead_dx env kind R pmem c pre (pc_stream ps, ctx) d t q"
    by (simp_all add: connected_dx_def)
  from aead_dx_read [OF h a(2) r] a s show "duplex_law client_waits client_shut s (as_read (client_ops env rnd) k s)
      (\<lambda>s. connected_dx env kind R pmem c pre s d t q)
      (\<lambda>x s. \<exists>d'. d = x @ d' \<and> length x \<le> k \<and> length x \<le> MAX_PACKET_SIZE \<and> (x = [] \<longrightarrow> d = []) \<and>
        connected_dx env kind R pmem c pre s d' t q)"
    by (auto simp: connected_simps r)
next
  fix s :: "'c client_stream \<times> ('b, 's) ss_context" and d t q and b :: bytes
  assume a: "connected_dx env kind R pmem c pre s d t q" "q = None \<or> q = Some b" "b \<noteq> []" "length b \<le> MAX_PACKET_SIZE"
  obtain ps ctx where s: "s = (ps, ctx)" by force
  obtain p cs where r: "crypto_poll_write env b (pc_stream ps) = (p, cs)" by force
  from a s have h: "aead_dx env kind R pmem c pre (pc_stream ps, ctx) d t q" by (simp add: connected_dx_def)
  from aead_dx_write [OF h a(2,4) r] a s show "duplex_law client_waits client_shut s (as_write (client_ops env rnd) b s)
      (\<lambda>s. connected_dx env kind R pmem c pre s d t (Some b))
      (\<lambda>n s. 0 < n \<and> n \<le> length b \<and> connected_dx env kind R pmem c pre s d (t @ take n b) None)"
    by (auto simp: connected_simps r)
next
  fix s :: "'c client_stream \<times> ('b, 's) ss_context" and d t
  assume a: "connected_dx env kind R pmem c pre s d t None"
  obtain ps ctx where s: "s = (ps, ctx)" by force
  obtain p cs where r: "crypto_poll_flush (pc_stream ps) = (p, cs)" by force
  obtain p2 cs2 where r2: "crypto_poll_shutdown (pc_stream ps) = (p2, cs2)" by force
  from a s have h: "aead_dx env kind R pmem c pre (pc_stream ps, ctx) d t None" by (simp add: connected_dx_def)
  from aead_dx_flush [OF h r] a s show "duplex_law client_waits client_shut s (as_flush (client_ops env rnd) s)
      (\<lambda>s. connected_dx env kind R pmem c pre s d t None) (\<lambda>_ s. connected_dx env kind R pmem c pre s d t None)"
    by (auto simp: connected_simps r)
  from aead_dx_shutdown [OF h r2] a s show "duplex_law client_waits client_shut s (as_shutdown (client_ops env rnd) s)
      (\<lambda>s. connected_dx env kind R pmem c pre s d t None) (\<lambda>_ s. connected_dx env kind R pmem c pre s d t None \<and> client_shut s)"
    by (auto simp: connected_simps r2)
qed

interpretation ac: duplex "auto_ops env rnd" "auto_dx (client_dx env kind R pmem c pre addr ab)" auto_waits auto_shut
    MAX_PACKET_SIZE "MAX_PACKET_SIZE - length ab" MAX_PACKET_SIZE
  for env :: "('c, 'd, 'b, 's) tcp_env" and rnd kind R pmem c pre addr ab
  by (rule auto_duplex [OF cl.duplex_axioms])

interpretation ao: duplex "auto_ops env rnd" "auto_dx (connected_dx env kind R pmem c pre)" auto_waits auto_shut
    MAX_PACKET_SIZE MAX_PACKET_SIZE MAX_PACKET_SIZE
  for env :: "('c, 'd, 'b, 's) tcp_env" and rnd kind R pmem c pre
  by (rule auto_duplex [OF co.duplex_axioms])

text \<open>Both ends of a local tunnel, when they have already taken \<open>u\<close> and \<open>v\<close>.\<close>

interpretation lt: bidirectional
    "auto_ops env rnd" "\<lambda>s d t q. auto_dx (connected_dx env kind R pmem c pre) s d (u @ t) q" auto_waits auto_shut
    MAX_PACKET_SIZE MAX_PACKET_SIZE MAX_PACKET_SIZE
    socket_ops "\<lambda>s d t q. socket_dx MAX_PACKET_SIZE MAX_PACKET_SIZE s d (v @ t) q" socket_waits so_shut
    MAX_PACKET_SIZE MAX_PACKET_SIZE
  for env :: "('c, 'd, 'b, 's) tcp_env" and rnd kind R pmem c pre u v
  by (intro bidirectional.intro relay.intro relay_axioms.intro ao.shifted sk.shifted) simp_all

section \<open>The first packet\<close>

text \<open>With data, or, when the client is silent, with the address alone.\<close>

lemma first_write_connects:
  "client_dx env kind R pmem c pre addr ab w d t None \<Longrightarrow> t \<noteq> [] \<Longrightarrow> connected_dx env kind R pmem c pre w d (ab @ t) None"
  by (auto simp: client_dx_def connected_dx_def split: client_write_state.splits)

lemma client_write_empty:
  assumes "client_dx env kind R pmem c pre addr ab w d [] q" "q = None \<or> q = Some []" "pc_writer_state (fst w) \<noteq> Connected"
    and "length ab \<le> MAX_PACKET_SIZE"
  shows "duplex_law client_waits client_shut w (as_write (client_ops env rnd) [] w)
    (\<lambda>w. client_dx env kind R pmem c pre addr ab w d [] (Some []) \<and> pc_writer_state (fst w) \<noteq> Connected)
    (\<lambda>n w. n = 0 \<and> connected_dx env kind R pmem c pre w d ab None)"
proof -
  obtain ps ctx where s: "w = (ps, ctx)" by force
  obtain p cs where r: "crypto_poll_write env ab (pc_stream ps) = (p, cs)" by force
  from assms(1) have h: "pc_reader_state ps = ClientEstablished" "cipher_laws (te_cipher env) kind R" "\<not> kind_is_aead_2022 kind"
    "address_write_to_buf addr = (Ok ab :: (bytes, io_kind) outcome)" by (simp_all add: client_dx_def s)
  show ?thesis
  proof (cases "pc_writer_state ps")
    case (Connect x)
    then have dx: "aead_dx env kind R pmem c pre (pc_stream ps, ctx) d [] None" "x = addr"
      using assms(1) s by (simp_all add: client_dx_def)
    have m: "make_first_packet_buffer rnd (te_mem env) (cs_method (pc_stream ps)) addr [] = (Ok ab :: (bytes, io_kind) outcome)"
      using make_first_aead [OF h(3,4), of rnd "te_mem env" "[]"] aead_dx_method [OF dx(1)] by simp
    from aead_dx_write [OF dx(1) _ assms(4) r] dx Connect h show ?thesis
      by (auto simp: s connected_simps client_write_first_def m r client_dx_def)
  next
    case (Connecting x)
    then have dx: "aead_dx env kind R pmem c pre (pc_stream ps, ctx) d [] (Some ab)" "x = ab"
      using assms(1,2) s by (auto simp: client_dx_def)
    from aead_dx_write [OF dx(1) _ assms(4) r] dx Connecting h show ?thesis
      by (auto simp: s connected_simps client_write_first_def r client_dx_def)
  next
    case Connected
    then show ?thesis using assms(3) s by simp
  qed
qed

lemma await_write_empty:
  assumes "auto_dx (client_dx env kind R pmem c pre addr ab) w d [] q" "q = None \<or> q = Some []"
    and "pc_writer_state ps \<noteq> Connected" "w = (AutoProxied ps, ctx)" "length ab \<le> MAX_PACKET_SIZE"
  shows "\<exists>w'. await_write (auto_ops env rnd) [] w = Some (Ok 0, w') \<and> auto_dx (connected_dx env kind R pmem c pre) w' d ab None \<and>
    auto_waits w' \<le> auto_waits w"
  using assms
proof (induction "auto_waits w" arbitrary: w q ps ctx rule: less_induct)
  case less
  let ?A = "\<lambda>w'. \<exists>ps ctx. w' = (AutoProxied ps, ctx) \<and> auto_dx (client_dx env kind R pmem c pre addr ab) w' d [] (Some []) \<and>
    pc_writer_state ps \<noteq> Connected"
  let ?B = "\<lambda>n w'. n = 0 \<and> auto_dx (connected_dx env kind R pmem c pre) w' d ab None"
  have "client_dx env kind R pmem c pre addr ab (ps, ctx) d [] q" using less.prems(1,4) by (auto simp: auto_dx_def)
  from client_write_empty [OF this less.prems(2) _ less.prems(5)] less.prems(3)
  have "duplex_law client_waits client_shut (ps, ctx) (as_write (client_ops env rnd) [] (ps, ctx))
    (\<lambda>w. client_dx env kind R pmem c pre addr ab w d [] (Some []) \<and> pc_writer_state (fst w) \<noteq> Connected)
    (\<lambda>n w. n = 0 \<and> connected_dx env kind R pmem c pre w d ab None)" by simp
  from auto_call_law [where f = "as_write (client_ops env rnd) []" and A' = ?A and B' = ?B and g = "as_write socket_ops []", OF this]
  have law: "duplex_law auto_waits auto_shut w (as_write (auto_ops env rnd) [] w) ?A ?B"
    by (auto simp: less.prems(4) auto_ops_def auto_dx_def)
  obtain p w1 where r: "as_write (auto_ops env rnd) [] w = (p, w1)" by (metis surj_pair)
  note unfold = await_write.simps [of "auto_ops env rnd" "[]" w]
  from law [unfolded r] show ?case
  proof (cases rule: duplex_lawE)
    case again
    then obtain ps1 ctx1 where a: "w1 = (AutoProxied ps1, ctx1)" "auto_dx (client_dx env kind R pmem c pre addr ab) w1 d [] (Some [])"
      "pc_writer_state ps1 \<noteq> Connected" by blast
    have "await_write (auto_ops env rnd) [] w = await_write (auto_ops env rnd) [] w1" using r again(1) by (simp add: unfold)
    then show ?thesis using less.hyps [OF again(3) a(2) _ a(3,1) less.prems(5)] again(3) by fastforce
  next
    case (finished n)
    then show ?thesis using r by (auto simp: unfold)
  qed
qed

section \<open>The tunnel\<close>

lemma tunnel_copy_relays:
  fixes env :: "('c, 'd, 'b, 's) tcp_env"
  assumes "auto_dx (connected_dx env kind R pmem c pre) shadow T2 u None" "socket_dx MAX_PACKET_SIZE MAX_PACKET_SIZE plain T1 v None"
    and "kind_category kind = CatAead"
  shows "\<exists>plain' shadow'. await_ignore (tunnel_copy socket_ops (auto_ops env rnd) kind) (plain, shadow) = Some (Ok (), plain', shadow') \<and>
    socket_dx MAX_PACKET_SIZE MAX_PACKET_SIZE plain' [] (v @ T2) None \<and> so_shut plain' \<and>
    auto_dx (connected_dx env kind R pmem c pre) shadow' [] (u @ T1) None \<and> auto_shut shadow'"
proof -
  let ?st = "copy_encrypted_bidirectional kind shadow plain"
  have size: "plain_read_buffer_size kind = MAX_PACKET_SIZE" using assms(3) by (simp add: plain_read_buffer_size_def)
  have rel: "lt.relaying TYPE('d) env kind R pmem c pre u v T2 T1 ?st"
    unfolding copy_encrypted_bidirectional_def size by (rule lt.relaying_new) (use assms in \<open>simp_all add: MAX_PACKET_SIZE_def\<close>)
  obtain st where st: "await_times (Suc (lt.relay_waits ?st)) (poll_impl (auto_ops env rnd) socket_ops) ?st =
      Some (Ready (Ok (of_nat (length T2), of_nat (length T1))), st)"
    "lt.relayed TYPE('d) env kind R pmem c pre u v T2 T1 st"
    using lt.relays [OF rel] by blast
  have "await_poll (poll_impl (auto_ops env rnd) socket_ops) ?st = Some (Ok (of_nat (length T2), of_nat (length T1)), st)"
    using await_poll_times [OF st(1)] .
  then show ?thesis using st(2)
    by (intro exI [of _ "bi_b st"] exI [of _ "bi_a st"]) (simp add: await_ignore_def tunnel_copy_def lt.relayed_def)
qed

lemma tunnel_delivers:
  fixes env :: "('c, 'd, 'b, 's) tcp_env"
  assumes dx: "client_dx env kind R pmem c pre addr ab (ps, ctx) T2 [] None" "pc_writer_state ps = Connect addr" "length ab \<le> 8000"
    and plain: "socket_dx MAX_PACKET_SIZE MAX_PACKET_SIZE plain T1 v None" "T1 \<noteq> []" and kind: "kind_category kind = CatAead"
  shows "\<exists>plain' shadow'. establish_tcp_tunnel socket_ops (auto_ops env rnd) (\<lambda>s. is_proxied (fst s)) copy patience kind
        (plain, AutoProxied ps, ctx) = Some (Ok (), plain', shadow') \<and>
    socket_dx MAX_PACKET_SIZE MAX_PACKET_SIZE plain' [] (v @ T2) None \<and> so_shut plain' \<and>
    auto_dx (connected_dx env kind R pmem c pre) shadow' [] (ab @ T1) None \<and> auto_shut shadow'"
proof -
  let ?s = "(AutoProxied ps, ctx)"
  have a: "auto_dx (client_dx env kind R pmem c pre addr ab) ?s T2 [] None" using dx(1) by (simp add: auto_dx_def)
  obtain r plain1 where rt: "read_timeout socket_ops patience 8192 plain = (r, plain1)" by force
  have "(\<exists>x d'. r = Some (Ok x) \<and> T1 = x @ d' \<and> length x \<le> 8192 \<and> (x = [] \<longrightarrow> T1 = []) \<and>
        socket_dx MAX_PACKET_SIZE MAX_PACKET_SIZE plain1 d' v None) \<or>
      r = None \<and> socket_dx MAX_PACKET_SIZE MAX_PACKET_SIZE plain1 T1 v None"
    using sk.read_timeout_delivers [OF plain(1) _ _ rt] by (auto simp: MAX_PACKET_SIZE_def)
  then show ?thesis
  proof (elim disjE exE conjE)
    fix x d'
    assume x: "r = Some (Ok x)" "T1 = x @ d'" "length x \<le> 8192" "x = [] \<longrightarrow> T1 = []" "socket_dx MAX_PACKET_SIZE MAX_PACKET_SIZE plain1 d' v None"
    have ne: "x \<noteq> []" using x(4) plain(2) by simp
    have "length x \<le> MAX_PACKET_SIZE - length ab" using x(3) dx(3) by (simp add: MAX_PACKET_SIZE_def)
    from ac.await_write_all_takes [OF a _ _ this, of rnd] ne obtain s1 where s1: "await_write_all (auto_ops env rnd) x ?s = Some (Ok (), s1)"
      "auto_dx (client_dx env kind R pmem c pre addr ab) s1 T2 x None" unfolding append_Nil by blast
    have "auto_dx (connected_dx env kind R pmem c pre) s1 T2 (ab @ x) None"
      using s1(2) first_write_connects [OF _ ne] by (fastforce simp: auto_dx_def)
    from tunnel_copy_relays [OF this x(5) kind, of rnd] show ?thesis using rt x(1,2) ne s1(1)
      by (auto simp: establish_tcp_tunnel_def await_bind_def on_shadow_def)
  next
    assume x: "r = None" "socket_dx MAX_PACKET_SIZE MAX_PACKET_SIZE plain1 T1 v None"
    have "length ab \<le> MAX_PACKET_SIZE" using dx(3) by (simp add: MAX_PACKET_SIZE_def)
    have "pc_writer_state ps \<noteq> Connected" using dx(2) by simp
    from await_write_empty [OF a _ this refl \<open>length ab \<le> MAX_PACKET_SIZE\<close>, of rnd] obtain s1 where s1: "await_write (auto_ops env rnd) [] ?s = Some (Ok 0, s1)"
      "auto_dx (connected_dx env kind R pmem c pre) s1 T2 ab None" by auto
    from tunnel_copy_relays [OF s1(2) x(2) kind, of rnd] show ?thesis using rt x(1) s1(1)
      by (auto simp: establish_tcp_tunnel_def await_bind_def on_shadow_def)
  qed
qed

section \<open>A new tunnel\<close>

lemma length_address_encoding: "address_write_to_buf addr = (Ok ab :: (bytes, 'e) outcome) \<Longrightarrow> length ab \<le> 259"
proof (cases addr)
  case (SocketAddress a)
  moreover assume "address_write_to_buf addr = (Ok ab :: (bytes, 'e) outcome)"
  ultimately show ?thesis by (cases a) (auto simp: write_ipv4_address_def write_ipv6_address_def length_concat comp_def sum_list_triv)
next
  case (DomainNameAddress d p)
  moreover assume "address_write_to_buf addr = (Ok ab :: (bytes, 'e) outcome)"
  ultimately show ?thesis by (auto simp: write_domain_name_address_def rust_assert_def outcome_simps split: if_splits)
qed

lemma aead_client_new:
  assumes m: "aead_method (te_cipher env) (svr_method cfg) R" and pol: "replay_policy ctx \<noteq> PolicyReject"
    and draws: "\<forall>(t, n) \<in> set draws. length n = kind_salt_len (svr_method cfg)"
    and addr: "address_write_to_buf addr = (Ok ab :: (bytes, io_kind) outcome)"
    and src: "clean_script (so_source so)" "aead_wire (te_cipher env) (svr_method cfg) (svr_enc_key cfg) pmem T2 (script_bytes (so_source so))"
    and snk: "sink_clean (sink_script (so_sink so))" "sink_bytes (so_sink so) = []"
    and new: "client_from_stream env ctx so cfg addr draws = Some (Ok (ps, ctx') :: (_, 'e) outcome)"
  obtains salt where "length salt = kind_salt_len (svr_method cfg)" "pc_writer_state ps = Connect addr"
    "client_dx env (svr_method cfg) R pmem (cipher_new (te_cipher env) (svr_method cfg) (svr_enc_key cfg) salt) salt addr ab
      (ps, ctx') T2 [] None"
proof -
  let ?kind = "svr_method cfg"
  from m have k: "cipher_laws (te_cipher env) ?kind R" "\<not> kind_is_aead_2022 ?kind" by (simp_all add: aead_method_def)
  from new obtain cs where f: "from_stream_with_identity env ctx so ClientStream ?kind (svr_enc_key cfg)
      (svr_identity_keys cfg) None draws = Some (Ok (cs, ctx') :: (_, 'e) outcome)"
    and cl: "ps = \<lparr>pc_stream = cs, pc_writer_state = Connect addr, pc_reader_state = ClientEstablished\<rparr>"
    using k(2) by (auto simp: client_from_stream_def and_then_Ok_iff split: option.splits)
  obtain salt where s: "length salt = kind_salt_len ?kind" "cs_stream cs = so"
    "aead_dx env ?kind R pmem (cipher_new (te_cipher env) ?kind (svr_enc_key cfg) salt) salt (cs, ctx') T2 [] None"
    by (rule aead_dx_new [OF m pol draws src snk f])
  show ?thesis by (rule that [OF s(1)]) (use s k addr in \<open>simp_all add: client_dx_def cl\<close>)
qed

section \<open>The negotiation\<close>

lemma check_methods_find:
  "find (\<lambda>m. m = SOCKS5_AUTH_METHOD_PASSWORD \<or> m = SOCKS5_AUTH_METHOD_NONE \<and> allow_none) ms = Some m \<Longrightarrow>
   check_methods h allow_none ms =
     (if m = SOCKS5_AUTH_METHOD_PASSWORD then await_bind (send_choice SOCKS5_AUTH_METHOD_PASSWORD) (\<lambda>_. check_auth_password h)
      else send_choice SOCKS5_AUTH_METHOD_NONE)"
  by (induction ms) (auto simp: SOCKS5_AUTH_METHOD_PASSWORD_def SOCKS5_AUTH_METHOD_NONE_def split: if_splits)

text \<open>The method that the server picks, and what the client then has to send.\<close>

definition presents :: "passwd_config \<Rightarrow> u8 list \<Rightarrow> u8 \<Rightarrow> bytes \<Rightarrow> bool" where
  "presents auth ms m cred \<longleftrightarrow> length ms \<le> 255 \<and>
     find (\<lambda>m. m = SOCKS5_AUTH_METHOD_PASSWORD \<or> m = SOCKS5_AUTH_METHOD_NONE \<and> \<not> auth_required auth) ms = Some m \<and>
     (if m = SOCKS5_AUTH_METHOD_PASSWORD
      then \<exists>u p us pw. from_utf8 u = Some us \<and> from_utf8 p = Some pw \<and> check_user auth us pw \<and>
             wf_passwd_auth_request \<lparr>uname = u, passwd = p\<rparr> \<and>
             cred = [1, of_nat (length u)] @ u @ [of_nat (length p)] @ p
      else cred = [])"

definition negotiation :: "u8 \<Rightarrow> bytes" where
  "negotiation m = (if m = SOCKS5_AUTH_METHOD_PASSWORD then [5, 2, 1, 0] else [5, 0])"

lemma presents_method: "presents auth ms m cred \<Longrightarrow> m = SOCKS5_AUTH_METHOD_PASSWORD \<or> m = SOCKS5_AUTH_METHOD_NONE"
  by (auto simp: presents_def find_Some_iff)

abbreviation "client_conn \<equiv> socket_dx MAX_PACKET_SIZE MAX_PACKET_SIZE"

lemma send_says:
  assumes "client_conn s d t None" "bs \<noteq> []" "length bs \<le> MAX_PACKET_SIZE"
  obtains s' where "await_send socket_ops (Ok bs) s = Some (Ok (), s')" "client_conn s' d (t @ bs) None"
  using send_delivers [OF assms(1,3,2)] by blast

lemma check_auth_passes:
  assumes dx: "client_conn s (cred @ d) t None" and p: "presents (sh_auth h) ms m cred"
  obtains s' where "check_auth h \<lparr>methods = ms\<rparr> s = Some (Ok (), s')" "client_conn s' d (t @ negotiation m) None"
proof -
  note find = check_methods_find [OF p [unfolded presents_def, THEN conjunct2, THEN conjunct1], of h]
  have big: "Suc (Suc 0) \<le> MAX_PACKET_SIZE" "257 \<le> MAX_PACKET_SIZE" by (simp_all add: MAX_PACKET_SIZE_def)
  show ?thesis
  proof (cases "m = SOCKS5_AUTH_METHOD_PASSWORD")
    case True
    from p True obtain u q us pw where c: "from_utf8 u = Some us" "from_utf8 q = Some pw" "check_user (sh_auth h) us pw"
      "wf_passwd_auth_request \<lparr>uname = u, passwd = q\<rparr>" "cred = [1, of_nat (length u)] @ u @ [of_nat (length q)] @ q"
      unfolding presents_def by auto
    obtain s1 where s1: "await_send socket_ops (Ok [5, 2]) s = Some (Ok (), s1)" "client_conn s1 (cred @ d) (t @ [5, 2]) None"
      by (rule send_says [OF dx, of "[5, 2]"]) (use big in auto)
    have rd: "passwd_auth_request_read_from (cred @ d, Eof) = Ok (\<lparr>uname = u, passwd = q\<rparr>, (d, Eof))"
      by (rule preq.rd_wr [OF c(4)]) (simp add: passwd_auth_request_write_to_buf_def c(5))
    obtain s2 where s2: "await_passwd_auth_request socket_ops s1 = Some (Ok \<lparr>uname = u, passwd = q\<rparr>, s2)"
      "client_conn s2 d (t @ [5, 2]) None"
      using sk.implements_Ok [OF sk.implements_passwd [OF big(2)] s1(2) rd] by auto
    obtain s3 where s3: "await_send socket_ops (Ok [1, 0]) s2 = Some (Ok (), s3)" "client_conn s3 d ((t @ [5, 2]) @ [1, 0]) None"
      by (rule send_says [OF s2(2), of "[1, 0]"]) (use big in auto)
    show ?thesis
      by (rule that [of s3])
         (use find True s1 s2 s3 c in \<open>simp_all add: check_auth_def await_bind_def check_auth_password_def await_match_def send_choice_def
            send_status_def handshake_response_write_to_buf_def passwd_auth_response_write_to_buf_def negotiation_def
            SOCKS5_VERSION_def SOCKS5_AUTH_METHOD_PASSWORD_def\<close>)
  next
    case False
    then have c: "cred = []" using p by (simp add: presents_def)
    obtain s1 where s1: "await_send socket_ops (Ok [5, 0]) s = Some (Ok (), s1)" "client_conn s1 d (t @ [5, 0]) None"
      by (rule send_says [OF dx [unfolded c append_Nil], of "[5, 0]"]) (use big in auto)
    show ?thesis
      by (rule that [of s1])
         (use find False s1 in \<open>simp_all add: check_auth_def send_choice_def handshake_response_write_to_buf_def negotiation_def
            SOCKS5_VERSION_def SOCKS5_AUTH_METHOD_NONE_def\<close>)
  qed
qed

section \<open>The way to the server\<close>

text \<open>
  The server can be reached, is not bypassed for the target, and will answer with the text \<open>T2\<close>, encrypted
  with the key of the configuration.
\<close>

definition reaches ::
    "('c, 'd, 'b, 's, 'r4, 'r6, 'n4, 'n6, 're, 'q) local_env \<Rightarrow> 'w server_config \<Rightarrow> ('c \<Rightarrow> 'c \<Rightarrow> bool) \<Rightarrow> (nat \<Rightarrow> u8) \<Rightarrow> address
     \<Rightarrow> bytes \<Rightarrow> ('c, 'b, 's, 'r4, 'r6, 're, 'q) local_world \<Rightarrow> bool" where
  "reaches env cfg R pmem addr T2 w \<longleftrightarrow>
     aead_method (te_cipher (le_tcp env)) (svr_method cfg) R \<and> replay_policy (lw_ctx w) \<noteq> PolicyReject \<and>
     (\<forall>(t, n) \<in> set (le_draws env). length n = kind_salt_len (svr_method cfg)) \<and>
     \<not> fst (context_check_bypassed (le_acl env) (le_rev env) (le_dns env) addr (lw_sc w)) \<and>
     (\<exists>elapsed so client. le_attempt env (tcp_external_addr cfg) = (elapsed, Ok so) \<and>
        (\<forall>d. svr_timeout cfg = Some d \<longrightarrow> elapsed \<le> d) \<and>
        clean_script (so_source so) \<and>
        aead_wire (te_cipher (le_tcp env)) (svr_method cfg) (svr_enc_key cfg) pmem T2 (script_bytes (so_source so)) \<and>
        sink_clean (sink_script (so_sink so)) \<and> sink_bytes (so_sink so) = [] \<and>
        client_from_stream (le_tcp env) (lw_ctx w) so cfg addr (le_draws env) = Some (Ok client :: (_, io_kind) outcome))"

lemma reaches_client [simp]: "reaches env cfg R pmem addr T2 (w\<lparr>lw_client := so\<rparr>) = reaches env cfg R pmem addr T2 w"
  "reaches env cfg R pmem addr T2 (w\<lparr>lw_buf := b\<rparr>) = reaches env cfg R pmem addr T2 w"
  by (simp_all add: reaches_def)

lemma connects:
  assumes "reaches env cfg R pmem addr T2 w" "address_write_to_buf addr = (Ok ab :: (bytes, io_kind) outcome)"
  obtains sc ps ctx salt where
    "auto_connect env cfg addr w = Some (Ok (), w\<lparr>lw_sc := sc, lw_ctx := ctx, lw_remote := Some (AutoProxied ps)\<rparr>)"
    "length salt = kind_salt_len (svr_method cfg)" "pc_writer_state ps = Connect addr"
    "client_dx (le_tcp env) (svr_method cfg) R pmem (cipher_new (te_cipher (le_tcp env)) (svr_method cfg) (svr_enc_key cfg) salt) salt addr ab
       (ps, ctx) T2 [] None"
proof -
  from assms(1) obtain elapsed so client where r: "aead_method (te_cipher (le_tcp env)) (svr_method cfg) R"
    "replay_policy (lw_ctx w) \<noteq> PolicyReject" "\<forall>(t, n) \<in> set (le_draws env). length n = kind_salt_len (svr_method cfg)"
    "\<not> fst (context_check_bypassed (le_acl env) (le_rev env) (le_dns env) addr (lw_sc w))"
    "le_attempt env (tcp_external_addr cfg) = (elapsed, Ok so)" "\<forall>d. svr_timeout cfg = Some d \<longrightarrow> elapsed \<le> d"
    "clean_script (so_source so)"
    "aead_wire (te_cipher (le_tcp env)) (svr_method cfg) (svr_enc_key cfg) pmem T2 (script_bytes (so_source so))"
    "sink_clean (sink_script (so_sink so))" "sink_bytes (so_sink so) = []"
    "client_from_stream (le_tcp env) (lw_ctx w) so cfg addr (le_draws env) = Some (Ok client :: (_, io_kind) outcome)"
    unfolding reaches_def by blast
  obtain ps ctx where cl: "client = (ps, ctx)" by force
  obtain bp sc where b: "context_check_bypassed (le_acl env) (le_rev env) (le_dns env) addr (lw_sc w) = (bp, sc)" by force
  have c: "client_connect (le_tcp env) (lw_ctx w) (le_attempt env) cfg addr (le_draws env) = Some (Ok (ps, ctx))"
    using r(5,6,11) cl by (auto simp: client_connect_def split: option.splits)
  obtain salt where "length salt = kind_salt_len (svr_method cfg)" "pc_writer_state ps = Connect addr"
    "client_dx (le_tcp env) (svr_method cfg) R pmem (cipher_new (te_cipher (le_tcp env)) (svr_method cfg) (svr_enc_key cfg) salt) salt addr ab
       (ps, ctx) T2 [] None"
    by (rule aead_client_new [OF r(1-3) assms(2) r(7-10) r(11) [unfolded cl]])
  moreover have "auto_connect env cfg addr w = Some (Ok (), w\<lparr>lw_sc := sc, lw_ctx := ctx, lw_remote := Some (AutoProxied ps)\<rparr>)"
    using b r(4) c by (simp add: auto_connect_def connect_proxied_def)
  ultimately show ?thesis using that by blast
qed

text \<open>How a connection ends: the client has read \<open>said\<close>, and the wire to the server carries \<open>sent\<close>.\<close>

definition tunnelled ::
    "('c, 'd, 'b, 's, 'r4, 'r6, 'n4, 'n6, 're, 'q) local_env \<Rightarrow> 'w server_config \<Rightarrow> bytes \<Rightarrow> bytes
     \<Rightarrow> ('c, 'b, 's, 'r4, 'r6, 're, 'q) local_world \<Rightarrow> bool" where
  "tunnelled env cfg said sent w \<longleftrightarrow>
     sink_bytes (so_sink (lw_client w)) = said \<and> so_shut (lw_client w) \<and>
     (\<exists>ps. lw_remote w = Some (AutoProxied ps) \<and> so_shut (cs_stream (pc_stream ps)) \<and>
        aead_wire (te_cipher (le_tcp env)) (svr_method cfg) (svr_enc_key cfg) (te_mem (le_tcp env)) sent
          (sink_bytes (so_sink (cs_stream (pc_stream ps)))))"

lemma connected_wire:
  assumes "auto_dx (connected_dx env kind R pmem (cipher_new (te_cipher env) kind key salt) salt) s d t None"
    and "length salt = kind_salt_len kind" "t \<noteq> []" "auto_shut s"
  obtains ps ctx where "s = (AutoProxied ps, ctx)" "so_shut (cs_stream (pc_stream ps))"
    "aead_wire (te_cipher env) kind key (te_mem env) t (sink_bytes (so_sink (cs_stream (pc_stream ps))))"
proof -
  from assms(1) obtain ps ctx where s: "s = (AutoProxied ps, ctx)"
    "aead_dx env kind R pmem (cipher_new (te_cipher env) kind key salt) salt (pc_stream ps, ctx) d t None"
    by (auto simp: auto_dx_def connected_dx_def)
  from aead_dx_wire [OF s(2) assms(2,3)] s(1) assms(4) that show ?thesis by (simp add: client_shut_def)
qed

lemma local_tunnel_delivers:
  assumes "client_dx (le_tcp env) (svr_method cfg) R pmem (cipher_new (te_cipher (le_tcp env)) (svr_method cfg) (svr_enc_key cfg) salt) salt addr ab
      (ps, lw_ctx w) T2 [] None" "pc_writer_state ps = Connect addr" "length ab \<le> 8000" "lw_remote w = Some (AutoProxied ps)"
    and "length salt = kind_salt_len (svr_method cfg)" "kind_category (svr_method cfg) = CatAead"
    and "client_conn (lw_client w) T1 v None" "T1 \<noteq> []"
  shows "\<exists>w'. local_tunnel env (Some cfg) w = Some (Ok (), w') \<and> tunnelled env cfg (v @ T2) (ab @ T1) w'"
proof -
  from tunnel_delivers [OF assms(1-3) assms(7,8,6), of "le_rnd env" "le_copy env" "le_patience env"]
  obtain plain' shadow' where t: "establish_tcp_tunnel socket_ops (auto_ops (le_tcp env) (le_rnd env)) (\<lambda>s. is_proxied (fst s)) (le_copy env)
      (le_patience env) (svr_method cfg) (lw_client w, AutoProxied ps, lw_ctx w) = Some (Ok (), plain', shadow')"
    "client_conn plain' [] (v @ T2) None" "so_shut plain'"
    "auto_dx (connected_dx (le_tcp env) (svr_method cfg) R pmem (cipher_new (te_cipher (le_tcp env)) (svr_method cfg) (svr_enc_key cfg) salt) salt)
      shadow' [] (ab @ T1) None" "auto_shut shadow'" by blast
  have ne: "ab @ T1 \<noteq> []" using assms(8) by simp
  obtain ps' ctx' where s: "shadow' = (AutoProxied ps', ctx')" "so_shut (cs_stream (pc_stream ps'))"
    "aead_wire (te_cipher (le_tcp env)) (svr_method cfg) (svr_enc_key cfg) (te_mem (le_tcp env)) (ab @ T1)
      (sink_bytes (so_sink (cs_stream (pc_stream ps'))))"
    by (rule connected_wire [OF t(4) assms(5) ne t(5)])
  show ?thesis using t(1-3) s assms(4) by (simp add: local_tunnel_def tunnelled_def socket_dx_def)
qed

section \<open>A SOCKS5 client is served\<close>

lemma implements_steps:
  assumes "sk.implements MAX_PACKET_SIZE MAX_PACKET_SIZE (f :: (_, _, tcp_socket) await) g" "client_conn s d t None" "g (d, Eof) = Ok (x, (d', Eof))"
  obtains s' where "f s = Some (Ok x, s')" "client_conn s' d' t None"
  using sk.implements_Ok [OF assms] by auto

text \<open>C2: A SOCKS5 client is served: whatever the fragments in which its connection delivers, a client that
  greets, presents what the negotiated method asks for, asks for a connection to \<open>addr\<close> and sends the
  text \<open>T1\<close> is told the method, the success with the local address, and the reply \<open>T2\<close>, in this order and
  nothing else; the connection to the server carries the packets of the address and \<open>T1\<close>; both are shut
  down and the handler returns without an error. (AEAD method, server reachable, target not bypassed.)\<close>

theorem socks5_connect_delivers:
  assumes client: "clean_script (so_source (lw_client w))" "sink_clean (sink_script (so_sink (lw_client w)))"
      "sink_bytes (so_sink (lw_client w)) = []"
    and sends: "script_bytes (so_source (lw_client w)) = [5, of_nat (length ms)] @ ms @ cred @ [5, 1, r] @ ab @ T1" "T1 \<noteq> []"
    and auth: "presents (sh_auth h) ms m cred"
    and addr: "wf_address addr" "address_write_to_buf addr = (Ok ab :: (bytes, io_kind) outcome)"
    and handler: "enable_tcp (sh_mode h)" "sh_server h = Some cfg"
    and server: "reaches env cfg R pmem addr T2 w"
    and laddr: "le_local_addr env = Ok laddr"
  shows "\<exists>w'. handle_socks5_client env h peer w = Some (Ok (), w') \<and>
    tunnelled env cfg (negotiation m @ [5, 0, 0] @ write_socket_address laddr @ T2) (ab @ T1) w'"
proof -
  have big: "257 \<le> MAX_PACKET_SIZE" by (simp add: MAX_PACKET_SIZE_def)
  have cat: "kind_category (svr_method cfg) = CatAead" using server by (simp add: reaches_def aead_method_def)
  have len: "length ms \<le> 255" using auth by (simp add: presents_def)
  have dx0: "client_conn (lw_client w) ([5, of_nat (length ms)] @ ms @ cred @ [5, 1, r] @ ab @ T1) [] None"
    using client sends(1) by (simp add: socket_dx_def socket_clean_def)
  have "handshake_request_read_from (([5, of_nat (length ms)] @ ms) @ cred @ [5, 1, r] @ ab @ T1, Eof) =
      Ok (\<lparr>methods = ms\<rparr>, (cred @ [5, 1, r] @ ab @ T1, Eof))"
    by (rule hreq.rd_wr) (use len in \<open>simp_all add: handshake_request_write_to_buf_def SOCKS5_VERSION_def\<close>)
  then have rd1: "handshake_request_read_from ([5, of_nat (length ms)] @ ms @ cred @ [5, 1, r] @ ab @ T1, Eof) =
      Ok (\<lparr>methods = ms\<rparr>, (cred @ [5, 1, r] @ ab @ T1, Eof))" by simp
  obtain s1 where s1: "await_handshake_request socket_ops (lw_client w) = Some (Ok \<lparr>methods = ms\<rparr>, s1)"
    "client_conn s1 (cred @ [5, 1, r] @ ab @ T1) [] None"
    by (rule implements_steps [OF sk.implements_handshake [OF big] dx0 rd1])
  obtain s2 where s2: "check_auth h \<lparr>methods = ms\<rparr> s1 = Some (Ok (), s2)" "client_conn s2 ([5, 1, r] @ ab @ T1) (negotiation m) None"
    by (rule check_auth_passes [OF s1(2) auth]) simp
  have rd2: "tcp_request_read_from ([5, 1, r] @ ab @ T1, Eof) = Ok (\<lparr>req_command = TcpConnect, req_address = addr\<rparr>, (T1, Eof))"
    using address_read_from_write [OF addr, of T1 Eof]
    by (simp add: tcp_request_read_from_def Let_def SOCKS5_VERSION_def command_from_u8_def)
  obtain s3 where s3: "await_tcp_request socket_ops s2 = Some (Ok \<lparr>req_command = TcpConnect, req_address = addr\<rparr>, s3)"
    "client_conn s3 T1 (negotiation m) None"
    by (rule implements_steps [OF sk.implements_tcp_request [OF big] s2(2) rd2])
  let ?w3 = "w\<lparr>lw_client := s3\<rparr>"
  have srv: "reaches env cfg R pmem addr T2 ?w3" using server by simp
  obtain sc ps ctx salt where
    c: "auto_connect env cfg addr ?w3 = Some (Ok (), ?w3\<lparr>lw_sc := sc, lw_ctx := ctx, lw_remote := Some (AutoProxied ps)\<rparr>)"
    "length salt = kind_salt_len (svr_method cfg)" "pc_writer_state ps = Connect addr"
    "client_dx (le_tcp env) (svr_method cfg) R pmem (cipher_new (te_cipher (le_tcp env)) (svr_method cfg) (svr_enc_key cfg) salt) salt addr ab
       (ps, ctx) T2 [] None" by (rule connects [OF srv addr(2)])
  let ?said = "[5, 0, 0] @ write_socket_address laddr"
  have "address_write_to_buf (SocketAddress laddr) = (Ok (write_socket_address laddr) :: (bytes, io_kind) outcome)" by simp
  from length_address_encoding [OF this] have fits: "length ?said \<le> MAX_PACKET_SIZE" by (simp add: MAX_PACKET_SIZE_def)
  have "?said \<noteq> []" by simp
  then obtain s4 where s4: "await_send socket_ops (Ok ?said) s3 = Some (Ok (), s4)" "client_conn s4 T1 (negotiation m @ ?said) None"
    by (rule send_says [OF s3(2) _ fits])
  let ?w4 = "?w3\<lparr>lw_sc := sc, lw_ctx := ctx, lw_remote := Some (AutoProxied ps), lw_client := s4\<rparr>"
  have "\<exists>w'. local_tunnel env (Some cfg) ?w4 = Some (Ok (), w') \<and> tunnelled env cfg ((negotiation m @ ?said) @ T2) (ab @ T1) w'"
  proof (rule local_tunnel_delivers [where addr = addr and ps = ps])
    show "client_dx (le_tcp env) (svr_method cfg) R pmem (cipher_new (te_cipher (le_tcp env)) (svr_method cfg) (svr_enc_key cfg) salt) salt addr ab
       (ps, lw_ctx ?w4) T2 [] None" using c(4) by simp
    show "length ab \<le> 8000" using length_address_encoding [OF addr(2)] by simp
    show "client_conn (lw_client ?w4) T1 (negotiation m @ ?said) None" using s4(2) by simp
  qed (use c(2,3) cat sends(2) in simp_all)
  then obtain w' where w': "local_tunnel env (Some cfg) ?w4 = Some (Ok (), w')"
    "tunnelled env cfg ((negotiation m @ ?said) @ T2) (ab @ T1) w'" by blast
  have run: "handle_tcp_connect env h addr ?w3 = Some (Ok (), w')"
    using handler laddr c(1) s4(1) w'(1)
    by (simp add: handle_tcp_connect_def await_match_def connect_target_def await_bind_def on_client_def send_reply_def
        tcp_response_write_to_buf_def SOCKS5_VERSION_def)
  have "handle_socks5_client env h peer w = Some (Ok (), w')"
    using s1(1) s2(1) s3(1) run by (simp add: handle_socks5_client_def await_match_def on_client_def await_bind_def)
  then show ?thesis using w'(2) by simp
qed

section \<open>A SOCKS4 client is served\<close>

text \<open>A connected client may be written nothing to; its tunnel goes on, or ends where the client's text does.\<close>

lemma await_write_nothing:
  assumes "auto_dx (connected_dx env kind R pmem c pre) w d u q" "q = None \<or> q = Some []"
  shows "\<exists>w'. await_write (auto_ops env rnd) [] w = Some (Ok 0, w') \<and> auto_dx (connected_dx env kind R pmem c pre) w' d u None"
  using assms
proof (induction "auto_waits w" arbitrary: w q rule: less_induct)
  case less
  from less.prems(1) obtain ps ctx where s: "w = (AutoProxied ps, ctx)" "connected_dx env kind R pmem c pre (ps, ctx) d u q"
    by (auto simp: auto_dx_def)
  then have dx: "aead_dx env kind R pmem c pre (pc_stream ps, ctx) d u q" by (simp add: connected_dx_def)
  obtain p cs where r: "crypto_poll_write env [] (pc_stream ps) = (p, cs)" by force
  from aead_dx_write [OF dx less.prems(2) _ r] s(2)
  have "duplex_law client_waits client_shut (ps, ctx) (as_write (client_ops env rnd) [] (ps, ctx))
      (\<lambda>w. connected_dx env kind R pmem c pre w d u (Some [])) (\<lambda>n w. n = 0 \<and> connected_dx env kind R pmem c pre w d u None)"
    by (auto simp: connected_simps r)
  from auto_call_law [where f = "as_write (client_ops env rnd) []" and g = "as_write socket_ops []" and
      A' = "\<lambda>w. auto_dx (connected_dx env kind R pmem c pre) w d u (Some [])" and
      B' = "\<lambda>n w. n = 0 \<and> auto_dx (connected_dx env kind R pmem c pre) w d u None", OF this]
  have law: "duplex_law auto_waits auto_shut w (as_write (auto_ops env rnd) [] w)
      (\<lambda>w. auto_dx (connected_dx env kind R pmem c pre) w d u (Some []))
      (\<lambda>n w. n = 0 \<and> auto_dx (connected_dx env kind R pmem c pre) w d u None)"
    by (auto simp: s(1) auto_ops_def auto_dx_def)
  obtain o1 w1 where w1: "as_write (auto_ops env rnd) [] w = (o1, w1)" by (metis surj_pair)
  note unfold = await_write.simps [of "auto_ops env rnd" "[]" w]
  from law [unfolded w1] show ?case
  proof (cases rule: duplex_lawE)
    case again
    then show ?thesis using less.hyps [OF again(3,2)] w1 by (simp add: unfold)
  next
    case (finished n)
    then show ?thesis using w1 by (auto simp: unfold)
  qed
qed

lemma tunnel_continues:
  fixes env :: "('c, 'd, 'b, 's) tcp_env"
  assumes dx: "auto_dx (connected_dx env kind R pmem c pre) shadow T2 u None"
    and plain: "client_conn plain T1 v None" and kind: "kind_category kind = CatAead"
  shows "\<exists>plain' shadow'. establish_tcp_tunnel socket_ops (auto_ops env rnd) (\<lambda>s. is_proxied (fst s)) copy patience kind
        (plain, shadow) = Some (Ok (), plain', shadow') \<and>
    (client_conn plain' [] (v @ T2) None \<and> so_shut plain' \<and>
     auto_dx (connected_dx env kind R pmem c pre) shadow' [] (u @ T1) None \<and> auto_shut shadow' \<or>
     T1 = [] \<and> client_conn plain' [] v None \<and> shadow' = shadow)"
proof -
  have pr: "is_proxied (fst shadow)" using dx by (auto simp: auto_dx_def)
  obtain r plain1 where rt: "read_timeout socket_ops patience 8192 plain = (r, plain1)" by force
  have "(\<exists>x d'. r = Some (Ok x) \<and> T1 = x @ d' \<and> length x \<le> 8192 \<and> (x = [] \<longrightarrow> T1 = []) \<and> client_conn plain1 d' v None) \<or>
      r = None \<and> client_conn plain1 T1 v None"
    using sk.read_timeout_delivers [OF plain _ _ rt] by (auto simp: MAX_PACKET_SIZE_def)
  then show ?thesis
  proof (elim disjE exE conjE)
    fix x d'
    assume x: "r = Some (Ok x)" "T1 = x @ d'" "length x \<le> 8192" "x = [] \<longrightarrow> T1 = []" "client_conn plain1 d' v None"
    show ?thesis
    proof (cases "x = []")
      case True
      then show ?thesis using rt x pr by (auto simp: establish_tcp_tunnel_def)
    next
      case ne: False
      have "length x \<le> MAX_PACKET_SIZE" using x(3) by (simp add: MAX_PACKET_SIZE_def)
      from ao.await_write_all_takes [OF dx _ _ this, of rnd] ne obtain s1 where
        s1: "await_write_all (auto_ops env rnd) x shadow = Some (Ok (), s1)"
        "auto_dx (connected_dx env kind R pmem c pre) s1 T2 (u @ x) None" by blast
      from tunnel_copy_relays [OF s1(2) x(5) kind, of rnd] show ?thesis using rt x(1,2) ne s1(1) pr
        by (auto simp: establish_tcp_tunnel_def await_bind_def on_shadow_def split: prod.splits)
    qed
  next
    assume x: "r = None" "client_conn plain1 T1 v None"
    from await_write_nothing [OF dx, of rnd] obtain s1 where s1: "await_write (auto_ops env rnd) [] shadow = Some (Ok 0, s1)"
      "auto_dx (connected_dx env kind R pmem c pre) s1 T2 u None" by blast
    from tunnel_copy_relays [OF s1(2) x(2) kind, of rnd] show ?thesis using rt x(1) s1(1) pr
      by (auto simp: establish_tcp_tunnel_def await_bind_def on_shadow_def split: prod.splits)
  qed
qed

text \<open>The client has read \<open>said\<close> and is told nothing more; the text that it sent is on the wire.\<close>

definition abandoned ::
    "('c, 'd, 'b, 's, 'r4, 'r6, 'n4, 'n6, 're, 'q) local_env \<Rightarrow> 'w server_config \<Rightarrow> bytes \<Rightarrow> bytes
     \<Rightarrow> ('c, 'b, 's, 'r4, 'r6, 're, 'q) local_world \<Rightarrow> bool" where
  "abandoned env cfg said sent w \<longleftrightarrow>
     sink_bytes (so_sink (lw_client w)) = said \<and>
     (\<exists>ps. lw_remote w = Some (AutoProxied ps) \<and>
        aead_wire (te_cipher (le_tcp env)) (svr_method cfg) (svr_enc_key cfg) (te_mem (le_tcp env)) sent
          (sink_bytes (so_sink (cs_stream (pc_stream ps)))))"

text \<open>A client that has paused as often as it will is read before a longer patience is over.\<close>

lemma read_timeout_in_time:
  assumes "client_conn s d t None" "socket_waits s < n" "0 < k" "k \<le> MAX_PACKET_SIZE"
  shows "\<exists>x s'. read_timeout socket_ops n k s = (Some (Ok x), s')"
  using assms(1,2)
proof (induction n arbitrary: s)
  case (Suc n)
  obtain p s1 where p: "as_read socket_ops k s = (p, s1)" by (metis surj_pair)
  from sk.reads [OF Suc.prems(1) assms(3,4), unfolded p] show ?case
  proof (cases rule: duplex_lawE)
    case again
    then show ?thesis using Suc.IH [OF again(2)] Suc.prems(2) p by simp
  next
    case (finished x)
    then show ?thesis using p by simp
  qed
qed simp

text \<open>Writing goes past the buffer.\<close>

lemma buf_write_all:
  assumes "await_write_all socket_ops bs so = Some (r, so')"
  shows "await_write_all buf_ops bs (b, so) = Some (r, b, so')"
proof -
  let ?P = "\<lambda>ops bs so r. ops = socket_ops \<longrightarrow> await_write_all buf_ops bs (b, so :: tcp_socket) =
    Some (fst r :: (unit, io_kind) outcome, b, snd r)"
  have "?P socket_ops bs so (r, so')"
  proof (rule await_write_all.raw_induct [OF _ assms, where P = ?P], intro impI, goal_cases)
    case (1 rec ops bs so r)
    note IH = 1(1) [THEN mp, OF _ refl]
    obtain p so1 where p: "as_write socket_ops bs so = (p, so1)" by (metis surj_pair)
    then have q: "as_write buf_ops bs (b, so) = (p, b, so1)" by (simp add: buf_ops_def on_inner_def)
    note unfold = await_write_all.simps [of buf_ops bs "(b, so)"]
    show ?case
      using 1(2,3) p by (subst unfold) (auto simp: q split: if_splits poll.splits outcome.splits dest!: IH)
  qed
  then show ?thesis by simp
qed

text \<open>The handler after the request, with \<open>b\<close> in its buffer and \<open>d'\<close> still to come.\<close>

lemma socks4_forwards:
  assumes server: "reaches env cfg R pmem addr T2 w" "sh_server h = Some cfg" "enable_tcp (sh_mode h)"
    and addr: "address_write_to_buf addr = (Ok ab :: (bytes, io_kind) outcome)" "s4_into_socks5 dst = addr"
    and client: "client_conn (lw_client w) d' [] None" "length (lw_buf w) \<le> 8192" "lw_buf w @ d' \<noteq> []"
  shows "\<exists>w'. handle_socks4_connect env h dst w = Some (Ok (), w') \<and>
    (tunnelled env cfg (s4_response_write_to_buf \<lparr>s4_code = RequestGranted\<rparr> @ T2) (ab @ lw_buf w @ d') w' \<or>
     d' = [] \<and> abandoned env cfg (s4_response_write_to_buf \<lparr>s4_code = RequestGranted\<rparr>) (ab @ lw_buf w) w') \<and>
    (d' = [] \<and> socket_waits (lw_client w) < le_patience env \<longrightarrow>
     abandoned env cfg (s4_response_write_to_buf \<lparr>s4_code = RequestGranted\<rparr>) (ab @ lw_buf w) w')"
proof -
  let ?granted = "s4_response_write_to_buf \<lparr>s4_code = RequestGranted\<rparr>"
  let ?b = "lw_buf w"
  have cat: "kind_category (svr_method cfg) = CatAead" using server(1) by (simp add: reaches_def aead_method_def)
  have ab: "length ab \<le> 259" by (rule length_address_encoding [OF addr(1)])
  obtain sc ps ctx salt where
    c: "auto_connect env cfg addr w = Some (Ok (), w\<lparr>lw_sc := sc, lw_ctx := ctx, lw_remote := Some (AutoProxied ps)\<rparr>)"
    "length salt = kind_salt_len (svr_method cfg)" "pc_writer_state ps = Connect addr"
    "client_dx (le_tcp env) (svr_method cfg) R pmem (cipher_new (te_cipher (le_tcp env)) (svr_method cfg) (svr_enc_key cfg) salt) salt addr ab
       (ps, ctx) T2 [] None" by (rule connects [OF server(1) addr(1)])
  let ?w1 = "w\<lparr>lw_sc := sc, lw_ctx := ctx, lw_remote := Some (AutoProxied ps)\<rparr>"
  let ?dx = "connected_dx (le_tcp env) (svr_method cfg) R pmem (cipher_new (te_cipher (le_tcp env)) (svr_method cfg) (svr_enc_key cfg) salt) salt"
  have g: "?granted \<noteq> []" "length ?granted \<le> MAX_PACKET_SIZE" by (simp_all add: s4_response_write_to_buf_def MAX_PACKET_SIZE_def)
  obtain so2 where so2: "await_write_all socket_ops ?granted (lw_client w) = Some (Ok (), so2)" "client_conn so2 d' ?granted None"
    "socket_waits so2 \<le> socket_waits (lw_client w)"
    using sk.await_write_all_takes [OF client(1) _ _ g(2)] g(1) by auto
  let ?w2 = "?w1\<lparr>lw_client := so2\<rparr>"
  have sent: "s4_send RequestGranted ?w1 = Some (Ok (), ?w2)"
    using buf_write_all [OF so2(1), of ?b] by (simp add: s4_send_def on_buffered_def await_send_def)
  have upto: "handle_socks4_connect env h dst w = await_bind (forward_buffered env) (\<lambda>_. local_tunnel env (Some cfg)) ?w2"
    using server(2,3) addr(2) c(1) sent by (simp add: handle_socks4_connect_def await_match_def connect_target_def await_bind_def)
  show ?thesis
  proof (cases "?b = []")
    case True
    have "\<exists>w'. local_tunnel env (Some cfg) ?w2 = Some (Ok (), w') \<and> tunnelled env cfg (?granted @ T2) (ab @ d') w'"
    proof (rule local_tunnel_delivers [where addr = addr and ps = ps])
      show "client_dx (le_tcp env) (svr_method cfg) R pmem (cipher_new (te_cipher (le_tcp env)) (svr_method cfg) (svr_enc_key cfg) salt) salt addr ab
         (ps, lw_ctx ?w2) T2 [] None" using c(4) by simp
      show "client_conn (lw_client ?w2) d' ?granted None" using so2(2) by simp
    qed (use c(2,3) cat ab client(3) True in simp_all)
    moreover have "forward_buffered env ?w2 = Some (Ok (), ?w2)" using True by (simp add: forward_buffered_def)
    ultimately show ?thesis using True client(3) upto by (auto simp: await_bind_def)
  next
    case ne: False
    have a: "auto_dx (client_dx (le_tcp env) (svr_method cfg) R pmem (cipher_new (te_cipher (le_tcp env)) (svr_method cfg) (svr_enc_key cfg) salt) salt addr ab)
       (AutoProxied ps, ctx) T2 [] None" using c(4) by (simp add: auto_dx_def)
    have "length ?b \<le> MAX_PACKET_SIZE - length ab" using client(2) ab by (simp add: MAX_PACKET_SIZE_def)
    from ac.await_write_all_takes [OF a _ _ this, of "le_rnd env"] ne obtain s1 where
      s1: "await_write_all (auto_ops (le_tcp env) (le_rnd env)) ?b (AutoProxied ps, ctx) = Some (Ok (), s1)"
      "auto_dx (client_dx (le_tcp env) (svr_method cfg) R pmem (cipher_new (te_cipher (le_tcp env)) (svr_method cfg) (svr_enc_key cfg) salt) salt addr ab) s1 T2 ?b None"
      unfolding append_Nil by blast
    have s1c: "auto_dx ?dx s1 T2 (ab @ ?b) None" using s1(2) first_write_connects [OF _ ne] by (fastforce simp: auto_dx_def)
    then obtain ps3 ctx3 where p3: "s1 = (AutoProxied ps3, ctx3)"
      "aead_dx (le_tcp env) (svr_method cfg) R pmem (cipher_new (te_cipher (le_tcp env)) (svr_method cfg) (svr_enc_key cfg) salt) salt (pc_stream ps3, ctx3) T2 (ab @ ?b) None"
      by (auto simp: auto_dx_def connected_dx_def)
    let ?w3 = "?w2\<lparr>lw_remote := Some (AutoProxied ps3), lw_ctx := ctx3\<rparr>"
    have f: "forward_buffered env ?w2 = Some (Ok (), ?w3)" using ne s1(1) p3(1) by (simp add: forward_buffered_def)
    have wire: "aead_wire (te_cipher (le_tcp env)) (svr_method cfg) (svr_enc_key cfg) (te_mem (le_tcp env)) (ab @ ?b)
        (sink_bytes (so_sink (cs_stream (pc_stream ps3))))" by (rule aead_dx_wire [OF p3(2) c(2)]) (use ne in simp)
    from tunnel_continues [OF s1c so2(2) cat, of "le_rnd env" "le_copy env" "le_patience env"]
    obtain plain' shadow' where t: "establish_tcp_tunnel socket_ops (auto_ops (le_tcp env) (le_rnd env)) (\<lambda>s. is_proxied (fst s)) (le_copy env)
        (le_patience env) (svr_method cfg) (so2, AutoProxied ps3, ctx3) = Some (Ok (), plain', shadow')"
      and cases: "client_conn plain' [] (?granted @ T2) None \<and> so_shut plain' \<and> auto_dx ?dx shadow' [] ((ab @ ?b) @ d') None \<and> auto_shut shadow' \<or>
       d' = [] \<and> client_conn plain' [] ?granted None \<and> shadow' = (AutoProxied ps3, ctx3)" unfolding p3(1) by blast
    have run: "handle_socks4_connect env h dst w =
        Some (Ok (), ?w3\<lparr>lw_client := plain', lw_remote := Some (fst shadow'), lw_ctx := snd shadow'\<rparr>)"
      using upto f t by (cases shadow') (simp add: await_bind_def local_tunnel_def)
    have one: "tunnelled env cfg (?granted @ T2) (ab @ ?b @ d') (?w3\<lparr>lw_client := plain', lw_remote := Some (fst shadow'), lw_ctx := snd shadow'\<rparr>) \<or>
       d' = [] \<and> abandoned env cfg ?granted (ab @ ?b) (?w3\<lparr>lw_client := plain', lw_remote := Some (fst shadow'), lw_ctx := snd shadow'\<rparr>)"
      using cases
    proof (elim disjE conjE)
      assume h: "client_conn plain' [] (?granted @ T2) None" "so_shut plain'" "auto_dx ?dx shadow' [] ((ab @ ?b) @ d') None" "auto_shut shadow'"
      have "(ab @ ?b) @ d' \<noteq> []" using ne by simp
      from connected_wire [OF h(3) c(2) this h(4)] obtain ps' ctx' where s: "shadow' = (AutoProxied ps', ctx')" "so_shut (cs_stream (pc_stream ps'))"
        "aead_wire (te_cipher (le_tcp env)) (svr_method cfg) (svr_enc_key cfg) (te_mem (le_tcp env)) ((ab @ ?b) @ d')
          (sink_bytes (so_sink (cs_stream (pc_stream ps'))))" by blast
      then show ?thesis using h(1,2) by (simp add: tunnelled_def socket_dx_def)
    next
      assume "d' = []" "client_conn plain' [] ?granted None" "shadow' = (AutoProxied ps3, ctx3)"
      then show ?thesis using wire by (simp add: abandoned_def socket_dx_def)
    qed
    have two: "abandoned env cfg ?granted (ab @ ?b) (?w3\<lparr>lw_client := plain', lw_remote := Some (fst shadow'), lw_ctx := snd shadow'\<rparr>)"
      if d: "d' = []" and wt: "socket_waits (lw_client w) < le_patience env"
    proof -
      have "socket_waits so2 < le_patience env" using so2(3) wt by simp
      from read_timeout_in_time [OF so2(2) this, of 8192] obtain x so3 where rt: "read_timeout socket_ops (le_patience env) 8192 so2 = (Some (Ok x), so3)"
        by (auto simp: MAX_PACKET_SIZE_def)
      have "x = [] \<and> client_conn so3 [] ?granted None" using sk.read_timeout_delivers [OF so2(2) _ _ rt] d by (auto simp: MAX_PACKET_SIZE_def)
      then have "plain' = so3" "shadow' = (AutoProxied ps3, ctx3)" "client_conn plain' [] ?granted None"
        using t rt by (auto simp: establish_tcp_tunnel_def)
      then show ?thesis using wire by (simp add: abandoned_def socket_dx_def)
    qed
    show ?thesis using run one two by blast
  qed
qed

lemma socks4_serves:
  assumes server: "reaches env cfg R pmem (s4_into_socks5 (s4_dst req)) T2 w" "sh_server h = Some cfg" "enable_tcp (sh_mode h)"
    and addr: "address_write_to_buf (s4_into_socks5 (s4_dst req)) = (Ok ab :: (bytes, io_kind) outcome)"
    and req: "wf_s4_request req" "s4_cd req = S4Connect"
    and client: "buf_dx (lw_buf w, lw_client w) (s4_request_write_to_buf req @ T1) [] None" "T1 \<noteq> []"
  shows "\<exists>w'. handle_socks4_client env h w = Some (Ok (), w') \<and>
    (tunnelled env cfg (s4_response_write_to_buf \<lparr>s4_code = RequestGranted\<rparr> @ T2) (ab @ T1) w' \<or>
     abandoned env cfg (s4_response_write_to_buf \<lparr>s4_code = RequestGranted\<rparr>) (ab @ T1) w')"
proof -
  have rd: "s4_request_read_from (s4_request_write_to_buf req @ T1, Eof) = Ok (req, (T1, Eof))"
    by (rule s4_request_read_from_write [OF req(1)])
  obtain v where v: "await_s4_request (lw_buf w, lw_client w) = Some (Ok req, v)" "buf_dx v T1 [] None"
    by (rule bf.implements_Ok [OF implements_s4_request client(1) rd]) simp
  obtain b so where bs: "v = (b, so)" by force
  let ?w1 = "w\<lparr>lw_buf := b, lw_client := so\<rparr>"
  from v(2) bs obtain d' where d: "T1 = b @ d'" "client_conn so d' [] None" "length b \<le> 8192" by (auto simp: buf_dx_def)
  have r: "reaches env cfg R pmem (s4_into_socks5 (s4_dst req)) T2 ?w1" using server(1) by simp
  have d2: "client_conn (lw_client ?w1) d' [] None" "length (lw_buf ?w1) \<le> 8192" "lw_buf ?w1 @ d' \<noteq> []" using d client(2) by simp_all
  from socks4_forwards [OF r server(2,3) addr refl d2] obtain w' where
    w': "handle_socks4_connect env h (s4_dst req) ?w1 = Some (Ok (), w')"
    "tunnelled env cfg (s4_response_write_to_buf \<lparr>s4_code = RequestGranted\<rparr> @ T2) (ab @ lw_buf ?w1 @ d') w' \<or>
     d' = [] \<and> abandoned env cfg (s4_response_write_to_buf \<lparr>s4_code = RequestGranted\<rparr>) (ab @ lw_buf ?w1) w'" by blast
  have "handle_socks4_client env h w = Some (Ok (), w')"
    using v(1) bs w'(1) req(2) by (simp add: handle_socks4_client_def await_match_def on_buffered_def)
  then show ?thesis using w'(2) d(1) by auto
qed

lemma peek_clean:
  assumes "clean_script es" "script_bytes es = b # bs"
  shows "\<exists>es'. peek_script es = (Ok [b], es') \<and> clean_script es' \<and> script_bytes es' = b # bs"
  using assms
proof (induction es rule: peek_script.induct)
  case (3 ds es)
  then show ?case by (cases ds) auto
qed auto

text \<open>C15: The table of users does not protect the proxy: a client that speaks SOCKS4 on the same port is
  connected to the target of its choice, whatever users are configured and without any credentials; its
  text goes to the server, and the reply comes back unless the handler gives the tunnel up.\<close>

theorem socks4_needs_no_user:
  assumes server: "reaches env cfg R pmem (s4_into_socks5 (s4_dst req)) T2 w" "sh_server h = Some cfg" "enable_tcp (sh_mode h)"
    and addr: "address_write_to_buf (s4_into_socks5 (s4_dst req)) = (Ok ab :: (bytes, io_kind) outcome)"
    and req: "wf_s4_request req" "s4_cd req = S4Connect"
    and client: "clean_script (so_source (lw_client w))" "sink_clean (sink_script (so_sink (lw_client w)))"
      "sink_bytes (so_sink (lw_client w)) = []" "lw_buf w = []"
    and sends: "script_bytes (so_source (lw_client w)) = s4_request_write_to_buf req @ T1" "T1 \<noteq> []"
  shows "\<exists>w'. handle_tcp_client env http h peer w = Some (Ok (), w') \<and>
    (tunnelled env cfg (s4_response_write_to_buf \<lparr>s4_code = RequestGranted\<rparr> @ T2) (ab @ T1) w' \<or>
     abandoned env cfg (s4_response_write_to_buf \<lparr>s4_code = RequestGranted\<rparr>) (ab @ T1) w')"
proof -
  obtain bs where b: "s4_request_write_to_buf req = 4 # bs" by (simp add: s4_request_write_to_buf_def SOCKS4_VERSION_def)
  with sends(1) have "script_bytes (so_source (lw_client w)) = 4 # bs @ T1" by simp
  from peek_clean [OF client(1) this] obtain es where
    es: "peek_script (so_source (lw_client w)) = (Ok [4], es)" "clean_script es" "script_bytes es = 4 # bs @ T1" by blast
  let ?w1 = "w\<lparr>lw_client := (lw_client w)\<lparr>so_source := es\<rparr>\<rparr>"
  have r: "reaches env cfg R pmem (s4_into_socks5 (s4_dst req)) T2 ?w1" using server(1) by simp
  have dx: "buf_dx (lw_buf ?w1, lw_client ?w1) (s4_request_write_to_buf req @ T1) [] None"
    using client es b by (simp add: buf_dx_def socket_dx_def socket_clean_def)
  from socks4_serves [OF r server(2,3) addr req dx sends(2)] show ?thesis using es(1)
    by (simp add: handle_tcp_client_def await_bind_def on_client_def await_peek_def)
qed

lemma sample_reaches:
  "reaches sample_local_env sample_proxy_config (\<lambda>c d. c = d \<and> fst c = kind_tag_len sample_aead_kind) (\<lambda>_. 0) sample_target [5]
     (sample_socks_world src)"
proof -
  obtain client where "client_from_stream sample_proxy_env (context_new exact_lib Local) (sample_plain [9, 9, 0, 1, 0, 5, 1]) sample_proxy_config
      sample_target [(0, [9, 9])] = Some (Ok client :: (_, io_kind) outcome)"
    using sample_proxy_client by blast
  moreover have "te_cipher sample_proxy_env = counter_lib" "svr_method sample_proxy_config = sample_aead_kind"
    "svr_enc_key sample_proxy_config = [1, 2, 3, 4]" "svr_timeout sample_proxy_config = None"
    "kind_salt_len sample_aead_kind = 2" by (simp_all add: sample_proxy_env_def sample_proxy_config_def sample_aead_kind_def)
  ultimately show ?thesis using sample_aead_method sample_response_wire
    by (auto simp: reaches_def sample_local_env_def sample_socks_world_def context_check_bypassed_def context_new_def sample_plain_def)
qed

definition sample_s4_request :: s4_handshake_request where
  "sample_s4_request = \<lparr>s4_cd = S4Connect, s4_dst = S4SocketAddress 0x7F000001 80, s4_user_id = [97]\<rparr>"

lemma sample_s4: "wf_s4_request sample_s4_request" "s4_cd sample_s4_request = S4Connect" "s4_into_socks5 (s4_dst sample_s4_request) = sample_target"
  "address_write_to_buf sample_target = (Ok [1, 127, 0, 0, 1, 0, 80] :: (bytes, io_kind) outcome)"
  "s4_request_write_to_buf sample_s4_request = [4, 1, 0, 80, 127, 0, 0, 1, 97, 0]"
proof -
  show "wf_s4_request sample_s4_request" by code_simp
  show "s4_request_write_to_buf sample_s4_request = [4, 1, 0, 80, 127, 0, 0, 1, 97, 0]" by code_simp
  show "address_write_to_buf sample_target = (Ok [1, 127, 0, 0, 1, 0, 80] :: (bytes, io_kind) outcome)"
    by (simp add: sample_target_def, code_simp)
qed (simp_all add: sample_s4_request_def sample_target_def)

lemma sample_handler_served: "sh_server sample_handler = Some sample_proxy_config" "enable_tcp (sh_mode sample_handler)"
  "sh_auth sample_handler = [(''a'', ''b'')]"
  by (simp_all add: sample_handler_def enable_tcp_def)

theorem socks4_needs_no_user_witness:
  "\<exists>w'. handle_tcp_client sample_local_env (await_err ()) sample_handler (SockV4 0 0)
      (sample_socks_world [RdPending, RdData [4, 1, 0], RdData [80, 127, 0, 0, 1, 97], RdData [0, 1, 2]]) = Some (Ok (), w') \<and>
    (tunnelled sample_local_env sample_proxy_config (s4_response_write_to_buf \<lparr>s4_code = RequestGranted\<rparr> @ [5]) ([1, 127, 0, 0, 1, 0, 80] @ [1, 2]) w' \<or>
     abandoned sample_local_env sample_proxy_config (s4_response_write_to_buf \<lparr>s4_code = RequestGranted\<rparr>) ([1, 127, 0, 0, 1, 0, 80] @ [1, 2]) w')"
  by (rule socks4_needs_no_user [where req = sample_s4_request and R = "\<lambda>c d. c = d \<and> fst c = kind_tag_len sample_aead_kind" and pmem = "\<lambda>_. 0",
        unfolded sample_s4(3), OF sample_reaches sample_handler_served(1,2) sample_s4(4,1,2)])
     (simp_all add: sample_socks_world_def sample_s4(5))

theorem socks5_connect_delivers_witness:
  "\<exists>w'. handle_socks5_client sample_local_env sample_handler (SockV4 0 0)
      (sample_socks_world [RdData [5, 2, 0], RdPending, RdData [2, 1, 1, 97, 1], RdData [98, 5, 1, 0, 1, 127, 0, 0], RdData [1, 0, 80, 1, 2]]) = Some (Ok (), w') \<and>
    tunnelled sample_local_env sample_proxy_config (negotiation 2 @ [5, 0, 0] @ write_socket_address (SockV4 0x7F000001 1080) @ [5])
      ([1, 127, 0, 0, 1, 0, 80] @ [1, 2]) w'"
proof (rule socks5_connect_delivers [where ms = "[0, 2]" and cred = "[1, 1, 97, 1, 98]" and r = 0 and addr = sample_target and
      R = "\<lambda>c d. c = d \<and> fst c = kind_tag_len sample_aead_kind" and pmem = "\<lambda>_. 0", OF _ _ _ _ _ _ _ sample_s4(4) sample_handler_served(2,1) sample_reaches])
  have u: "from_utf8 [97] = Some ''a''" "from_utf8 [98] = Some ''b''" by code_simp+
  show "presents (sh_auth sample_handler) [0, 2] 2 [1, 1, 97, 1, 98]"
    unfolding presents_def sample_handler_served(3) SOCKS5_AUTH_METHOD_PASSWORD_def SOCKS5_AUTH_METHOD_NONE_def
    by (simp add: auth_required_def total_users_def)
       (rule exI [of _ "[97]"], rule exI [of _ "[98]"], simp add: u check_user_def wf_passwd_auth_request_def)
  show "wf_address sample_target" by (simp add: sample_target_def)
  show "le_local_addr sample_local_env = Ok (SockV4 0x7F000001 1080)" by (simp add: sample_local_env_def)
qed (simp_all add: sample_socks_world_def)

section \<open>A request in one piece\<close>

text \<open>Once the connection has delivered everything, only the buffer is read.\<close>

definition calm :: "bytes \<times> tcp_socket \<Rightarrow> bytes \<times> tcp_socket \<Rightarrow> bool" where
  "calm w w' \<longleftrightarrow> (script_bytes (so_source (snd w)) = [] \<longrightarrow>
     script_bytes (so_source (snd w')) = [] \<and> socket_waits (snd w') \<le> socket_waits (snd w))"

lemma calm_trans: "calm u v \<Longrightarrow> calm v w \<Longrightarrow> calm u w"
  unfolding calm_def by (metis order.trans)

lemma calm_refl: "calm w w"
  by (simp add: calm_def)

definition spent :: "('a, 'e, bytes \<times> tcp_socket) await \<Rightarrow> bool" where
  "spent f \<longleftrightarrow> (\<forall>w r w'. f w = Some (r, w') \<longrightarrow> calm w w')"

lemma spentD: "spent f \<Longrightarrow> f w = Some (r, w') \<Longrightarrow> calm w w'"
  unfolding spent_def by blast

lemma spent_bind:
  assumes "spent f" "\<And>x. spent (g x)"
  shows "spent (await_bind f g)"
  unfolding spent_def
proof (intro allI impI)
  fix w r w'
  assume h: "await_bind f g w = Some (r, w')"
  then obtain o1 w1 where f: "f w = Some (o1, w1)" by (auto simp: await_bind_def split: option.splits)
  have c: "calm w w1" by (rule spentD [OF assms(1) f])
  show "calm w w'"
  proof (cases o1)
    case (Ok x)
    then have "g x w1 = Some (r, w')" using h f by (simp add: await_bind_def)
    from calm_trans [OF c spentD [OF assms(2) this]] show ?thesis .
  qed (use h f c in \<open>simp_all add: await_bind_def\<close>)
qed

lemma spent_ok: "spent (await_ok x)"
  by (simp add: spent_def await_ok_def calm_refl)

lemma spent_err: "spent (await_err x)"
  by (simp add: spent_def await_err_def calm_refl)

lemma spent_if: "(b \<Longrightarrow> spent f) \<Longrightarrow> (\<not> b \<Longrightarrow> spent g) \<Longrightarrow> spent (if b then f else g)"
  by simp

lemma spent_option: "spent f \<Longrightarrow> (\<And>x. spent (g x)) \<Longrightarrow> spent (case z of None \<Rightarrow> f | Some x \<Rightarrow> g x)"
  by (cases z) auto

lemma spent_map_err: "spent f \<Longrightarrow> spent (await_map_err h f)"
  by (auto simp: spent_def await_map_err_def split: option.splits)

lemma fill_calm:
  assumes "poll_fill_buf w = (p, w')"
  shows "calm w w'"
proof -
  obtain b so where w: "w = (b, so)" by force
  obtain q es where q: "poll_read 8192 (so_source so) = (q, es)" by force
  have "script_pendings es \<le> script_pendings (so_source so)"
    using q by (cases "(8192 :: nat, so_source so)" rule: poll_read.cases) (auto split: if_splits)
  moreover have "script_bytes (so_source so) = poll_data q @ script_bytes es" using poll_read_bytes [OF q] .
  ultimately show ?thesis using assms q w
    by (auto simp: calm_def poll_fill_buf_def socket_poll_read_def socket_waits_def split: if_splits poll.splits outcome.splits)
qed

lemma calm_socket: "calm w (b, snd w)"
  by (simp add: calm_def)

lemma spent_until: "spent (await_read_until c acc)"
proof -
  let ?P = "\<lambda>c acc w r. calm w (snd r)"
  have "?P c acc w (r, w')" if "await_read_until c acc w = Some (r, w')" for w r w'
  proof (rule await_read_until.raw_induct [OF _ that, where P = ?P], goal_cases)
    case (1 rec c acc w r)
    obtain p w1 where p: "poll_fill_buf w = (p, w1)" by (metis surj_pair)
    from fill_calm [OF p] have s: "calm w w1" .
    then have s2: "calm w (b, snd w1)" for b using calm_trans [OF _ calm_socket] by blast
    note step = 1(2) [unfolded p prod.case]
    show ?case
    proof (cases p)
      case Pending
      then show ?thesis using step calm_trans [OF s 1(1)] by simp
    next
      case (Ready o1)
      show ?thesis
      proof (cases o1)
        case (Ok available)
        obtain y z where yz: "split_until c available = (y, z)" by force
        show ?thesis
        proof (cases z)
          case None
          then show ?thesis using step Ready Ok yz s2 calm_trans [OF s2 1(1)] by (auto split: if_splits)
        next
          case (Some q)
          then show ?thesis using step Ready Ok yz s2 by auto
        qed
      qed (use step Ready s in auto)
    qed
  qed
  then show ?thesis by (auto simp: spent_def)
qed

lemma spent_nul_field: "spent await_nul_field"
  unfolding await_nul_field_def by (intro spent_bind spent_map_err spent_until spent_if spent_ok spent_err)

text \<open>The first read takes the whole piece into the buffer.\<close>

lemma read_eight:
  assumes "so_source so = [RdData bs]" "8 \<le> length bs" "length bs \<le> 8192"
  shows "await_read_exact buf_ops 8 [] ([], so) = Some (Ok (take 8 bs), drop 8 bs, so\<lparr>so_source := []\<rparr>)"
proof -
  have ne: "bs \<noteq> []" using assms(2) by auto
  have r: "as_read buf_ops 8 ([], so) = (Ready (Ok (take 8 bs)), drop 8 bs, so\<lparr>so_source := []\<rparr>)"
    using assms ne by (simp add: buf_ops_def buf_poll_read_def poll_fill_buf_def socket_poll_read_def)
  have "await_read_exact buf_ops 8 [] ([], so) = await_read_exact buf_ops 8 (take 8 bs) (drop 8 bs, so\<lparr>so_source := []\<rparr>)"
    using ne by (subst await_read_exact.simps) (simp add: r)
  also have "\<dots> = Some (Ok (take 8 bs), drop 8 bs, so\<lparr>so_source := []\<rparr>)"
    using assms(2) by (subst await_read_exact.simps) simp
  finally show ?thesis .
qed

lemma request_spends:
  assumes "await_s4_request ([], so) = Some (Ok req, w')" "so_source so = [RdData bs]" "8 \<le> length bs" "length bs \<le> 8192"
  shows "script_bytes (so_source (snd w')) = [] \<and> socket_waits (snd w') \<le> socket_waits so"
proof -
  define rest where "rest = (\<lambda>buf. let vn = buf ! 0 in
       if vn \<noteq> SOCKS4_VERSION then await_err (S4UnsupportedSocksVersion vn)
       else let cd = buf ! 1 in
         (case s4_command_from_u8 cd of
            None \<Rightarrow> await_err (S4UnsupportedSocksVersion cd)
          | Some command \<Rightarrow>
              let port = from_be (take 2 (drop 2 buf)) in
              await_bind await_nul_field (\<lambda>user_id.
                if buf ! 4 = 0x00 \<and> buf ! 5 = 0x00 \<and> buf ! 6 = 0x00 \<and> buf ! 7 \<noteq> 0x00 then
                  await_bind await_nul_field (\<lambda>host.
                    (case from_utf8 host of
                       Some host \<Rightarrow>
                         await_ok \<lparr>s4_cd = command, s4_dst = S4DomainNameAddress host port, s4_user_id = user_id\<rparr>
                     | None \<Rightarrow> await_err AddressHostInvalidEncoding))
                else
                  let ip = ipv4_new (buf ! 4) (buf ! 5) (buf ! 6) (buf ! 7) in
                  await_ok \<lparr>s4_cd = command, s4_dst = S4SocketAddress ip port, s4_user_id = user_id\<rparr>)))"
  have "spent (rest buf)" for buf
    unfolding rest_def Let_def by (intro spent_if spent_err spent_option spent_bind spent_nul_field spent_ok)
  moreover have eq: "await_s4_request = await_bind (await_map_err S4IoError (await_read_exact buf_ops 8 [])) rest"
    by (simp add: await_s4_request_def rest_def)
  have "await_bind (await_map_err S4IoError (await_read_exact buf_ops 8 [])) rest ([], so) = Some (Ok req, w')"
    using assms(1) unfolding eq .
  then have "rest (take 8 bs) (drop 8 bs, so\<lparr>so_source := []\<rparr>) = Some (Ok req, w')"
    by (simp add: await_bind_def await_map_err_def read_eight [OF assms(2-4)])
  ultimately have "calm (drop 8 bs, so\<lparr>so_source := []\<rparr>) w'" by (rule spentD)
  then show ?thesis using assms(2) by (simp add: calm_def socket_waits_def)
qed

text \<open>C16: A SOCKS4 client can lose its reply: when request and text come in one piece, small enough for the
  buffer, and the client then closes its writing side in time, as it may, the handler forwards the text,
  finds the end of the connection where it looks for more, and returns without an error: the reply is
  never relayed, and the client has read the grant and nothing else.\<close>

theorem socks4_reply_lost:
  assumes server: "reaches env cfg R pmem (s4_into_socks5 (s4_dst req)) T2 w" "sh_server h = Some cfg" "enable_tcp (sh_mode h)"
    and addr: "address_write_to_buf (s4_into_socks5 (s4_dst req)) = (Ok ab :: (bytes, io_kind) outcome)"
    and req: "wf_s4_request req" "s4_cd req = S4Connect"
    and client: "so_source (lw_client w) = [RdData (s4_request_write_to_buf req @ T1)]" "sink_clean (sink_script (so_sink (lw_client w)))"
      "sink_bytes (so_sink (lw_client w)) = []" "lw_buf w = []"
    and size: "length (s4_request_write_to_buf req @ T1) \<le> 8192" "T1 \<noteq> []"
    and time: "socket_waits (lw_client w) < le_patience env"
  shows "\<exists>w'. handle_socks4_client env h w = Some (Ok (), w') \<and>
    abandoned env cfg (s4_response_write_to_buf \<lparr>s4_code = RequestGranted\<rparr>) (ab @ T1) w'"
proof -
  have rd: "s4_request_read_from (s4_request_write_to_buf req @ T1, Eof) = Ok (req, (T1, Eof))"
    by (rule s4_request_read_from_write [OF req(1)])
  have dx: "buf_dx ([], lw_client w) (s4_request_write_to_buf req @ T1) [] None"
    using client size(2) by (simp add: buf_dx_def socket_dx_def socket_clean_def)
  obtain v where v: "await_s4_request ([], lw_client w) = Some (Ok req, v)" "buf_dx v T1 [] None"
    by (rule bf.implements_Ok [OF implements_s4_request dx rd]) simp
  obtain b so where bs: "v = (b, so)" by force
  let ?w1 = "w\<lparr>lw_buf := b, lw_client := so\<rparr>"
  from v(2) bs obtain d' where d: "T1 = b @ d'" "client_conn so d' [] None" "length b \<le> 8192" by (auto simp: buf_dx_def)
  have len: "8 \<le> length (s4_request_write_to_buf req @ T1)" by (auto simp: s4_request_write_to_buf_def split: s4_address.split)
  from request_spends [OF v(1) client(1) len size(1)] bs have s: "script_bytes (so_source so) = []" "socket_waits so \<le> socket_waits (lw_client w)"
    by simp_all
  then have nil: "d' = []" using d(2) by (simp add: socket_dx_def)
  have r: "reaches env cfg R pmem (s4_into_socks5 (s4_dst req)) T2 ?w1" using server(1) by simp
  have d2: "client_conn (lw_client ?w1) d' [] None" "length (lw_buf ?w1) \<le> 8192" "lw_buf ?w1 @ d' \<noteq> []" using d size(2) by simp_all
  from socks4_forwards [OF r server(2,3) addr refl d2] nil s(2) time obtain w' where
    w': "handle_socks4_connect env h (s4_dst req) ?w1 = Some (Ok (), w')"
    "abandoned env cfg (s4_response_write_to_buf \<lparr>s4_code = RequestGranted\<rparr>) (ab @ lw_buf ?w1) w'" by auto
  have "handle_socks4_client env h w = Some (Ok (), w')"
    using v(1) bs w'(1) req(2) client(4) by (simp add: handle_socks4_client_def await_match_def on_buffered_def)
  then show ?thesis using w'(2) d(1) nil by auto
qed

theorem socks4_reply_lost_witness:
  "\<exists>w'. handle_socks4_client sample_local_env sample_handler (sample_socks_world [RdData [4, 1, 0, 80, 127, 0, 0, 1, 97, 0, 1, 2]]) = Some (Ok (), w') \<and>
    abandoned sample_local_env sample_proxy_config (s4_response_write_to_buf \<lparr>s4_code = RequestGranted\<rparr>) ([1, 127, 0, 0, 1, 0, 80] @ [1, 2]) w'"
  by (rule socks4_reply_lost [where req = sample_s4_request and R = "\<lambda>c d. c = d \<and> fst c = kind_tag_len sample_aead_kind" and pmem = "\<lambda>_. 0",
        unfolded sample_s4(3), OF sample_reaches sample_handler_served(1,2) sample_s4(4,1,2)])
     (simp_all add: sample_socks_world_def sample_s4(5) sample_local_env_def socket_waits_def)

end
