(* ===== verification/Spec2Isabelle.thy ===== *)
theory Spec2Isabelle
  imports Socks5 Socks4 Packet_Window Replay Tcp_Protocol Tcp_Aead Tcp_Stream Udp_Crypto Tcp_Aead_2022 Acl Proxy_Aead Local_Delivery
begin

text \<open>
  Verification of the Rust core of the obfuscation proxy of the Android client,
  \<open>src/obfuscator/src/main/rust/shadowsocks-rust\<close>: the wire formats, the encrypted tunnels, the
  replay defences and the configuration of a shadowsocks proxy. Paths below are relative to its
  \<open>crates/\<close>; \<open>core\<close> stands for \<open>shadowsocks/src\<close>, \<open>service\<close> for \<open>shadowsocks-service/src\<close>.

  \<^bold>\<open>How the program is put together.\<close> A local client speaks SOCKS to the proxy (\<open>core/relay/socks5.rs\<close>,
  \<open>service/local/socks/socks4.rs\<close>). A TCP request is forwarded through an encrypted tunnel: a salt or
  initialisation vector, then the request header with the target address (\<open>relay/tcprelay/proxy_stream\<close>),
  then the data, each as the chunks of \<open>relay/tcprelay/aead.rs\<close> or as the key stream of
  \<open>relay/tcprelay/stream.rs\<close>. A UDP datagram is encrypted on its own (\<open>relay/udprelay\<close>). Salts and packet
  ids that were seen are refused (\<open>security/replay\<close>, \<open>context.rs\<close>, \<open>service/net/packet_window.rs\<close>).
  Servers are described by \<open>config.rs\<close>; access lists (\<open>service/acl\<close>) decide what is proxied.

  \<^bold>\<open>Theories.\<close>
  \<^item> \<open>Prelude\<close>: machine integers and byte strings, outcomes (\<open>Ok\<close>, \<open>Err\<close>, \<open>Panic\<close>: the release profile aborts
    on panic), big-endian numbers, UTF-8, blocking readers and writers, cursors, the locale of a codec.
  \<^item> \<open>Net_Addr\<close>, \<open>Net_Text\<close>: the address types of \<open>std::net\<close> and their text forms.
  \<^item> \<open>Socks5\<close>, \<open>Socks4\<close>: one record per message, one reader and one writer each. Readers are shown to
    accept exactly the encodings of representable messages; the stream and the datagram reader of
    addresses agree, and the latter panics on one class of cut-off inputs.
  \<^item> \<open>Packet_Window\<close>: the ring of bit blocks, refining the set of accepted ids.
  \<^item> \<open>Replay\<close>: the ping-pong bloom filters, the salt cache with its time to live, and the context.
    In every context that its calls reach from a new one (\<open>context_reached\<close>) the cache has the expiry that
    \<open>replay_protector_new\<close> gave it, which the lemmas on refused salts rest on.
  \<^item> \<open>Tcp_Protocol\<close>: the request headers of both generations and the first packet.
  \<^item> \<open>Async_Io\<close>: sources and sinks as scripts of events, so that every fragmentation, \<open>Pending\<close> and error
    is a run; reading exactly and writing all against them.
  \<^item> \<open>Cipher\<close>, \<open>Tcp_Aead\<close>, \<open>Tcp_Stream\<close>: the tunnels as state machines whose steps are the poll functions;
    what arrives is what was sent, in order, and with an authentic cipher nothing else.
  \<^item> \<open>Udp_Packet\<close>, \<open>Udp_Aead_2022\<close>, \<open>Udp_Crypto\<close>: datagrams of every category, in place as in the code.
  \<^item> \<open>Server_Config\<close>: modes, users, keys from passwords, server configurations and their URLs: a
    printed URL is the text of its parts, which the URL parser takes apart (\<open>url_print_laws\<close>) and \<open>from_url\<close> reads.
  \<^item> \<open>Sub_Domains\<close>, \<open>Acl_Regex\<close>, \<open>Acl\<close>: the trie of domain labels, the regular expression that recognises
    plain domain rules as a small expression language, and access lists from the lines of a file to the
    decisions on hosts, addresses, clients and targets.
  \<^item> \<open>Tcp_Aead_2022\<close>: the tunnel of the AEAD-2022 methods with its checked header and identity headers.
  \<^item> \<open>Tcp_Crypto\<close>: the encrypted stream that picks the tunnel by the category of the method.
  \<^item> \<open>Tcp_Copy\<close>: the relay loops, over any streams that keep the laws of the locale \<open>duplex\<close>.
  \<^item> \<open>Async_Header\<close>: the request header read from a stream that may be pending, shown to implement the
    blocking readers.
  \<^item> \<open>Proxy_Stream\<close>: the two ends of a tunnel, \<open>proxy_stream/client.rs\<close> and \<open>server.rs\<close>.
  \<^item> \<open>Proxy_Aead\<close>: with an AEAD method both ends keep the laws of \<open>duplex\<close>; so the relay loops work over
    them, and a request of a plain client reaches the target it names, and the reply comes back.
  \<^item> \<open>Local_Context\<close>: whether a target goes past the proxy (\<open>service/local/context.rs\<close>), with the cache of the
    answers that the DNS relay gave; the cache is shown to hold nothing but exceptions from the access list.
  \<^item> \<open>Dns_Relay\<close>: every decision of \<open>service/local/dns/server.rs\<close>, on queries, on reverse names and on local
    responses, the race of the two lookups, and the answer to a request.
  \<^item> \<open>Async_Socks\<close>: awaiting on the connection of a client; the awaited readers implement the blocking ones on
    streams that keep the laws of \<open>duplex\<close>, and are \<open>sound\<close> on any connection at all.
  \<^item> \<open>Local_Tunnel\<close>, \<open>Local_Socks\<close>: the stream to a target, proxied or not, and the tunnel to it
    (\<open>service/local/net/tcp/auto_proxy_stream.rs\<close>, \<open>service/local/utils.rs\<close>); the SOCKS5 and SOCKS4 handlers of
    \<open>service/local/socks/server\<close> with the table of users, up to what a client without credentials can cause.
  \<^item> \<open>Local_Delivery\<close>: both handlers from the first byte to the end of the tunnel, with an AEAD method: what the
    client reads, what is on the wire to the server, and when a SOCKS4 client loses its reply.

  \<^bold>\<open>Interfaces.\<close> A locale states what one component promises another: \<open>codec\<close> (a reader inverts a writer
  and leaves the rest), the window's set of ids, \<open>name_set\<close> (what an inserted name covers is matched),
  \<open>duplex\<close> (what a stream still delivers, has taken and is taking), \<open>relay\<close> and \<open>bidirectional\<close> (copying between two).
  Each is interpreted on the definitions of the model where they are declared.

  \<^bold>\<open>Parameters.\<close> Third-party code is a record of functions given to the definitions that use it: ciphers
  (\<open>cipher_lib\<close>), bloom filter and LRU cache (\<open>replay_lib\<close>), the AEAD-2022 primitives (\<open>udp_2022_lib\<close>), base64,
  URL and key derivation (\<open>config_lib\<close>), domain names (\<open>dns_lib\<close>), the reverse lookup cache (\<open>rev_lib\<close>), the
  results of connecting (\<open>local_env\<close>). Theorems name the laws they need (\<open>cipher_laws\<close>, \<open>bloom_laws\<close>, ...),
  and the witnesses instantiate the records with concrete functions for which the laws hold. The readers and
  writers of tokio (\<open>read_exact\<close>, \<open>read_until\<close>, \<open>write_all\<close>, \<open>BufReader\<close>, \<open>peek\<close>, \<open>timeout\<close>) are modelled as documented,
  like the standard library; its \<open>copy_bidirectional\<close> is a parameter.

  \<^bold>\<open>Bounds and termination.\<close> Integers are words of the source's width, so wrap-around is the code's own.
  Every definition is total: loops over input are structural or carry a measure (the groups of an IPv6
  address, the polls of a script), except the loops over arbitrary streams (\<open>poll_copy\<close>, the awaits), where
  \<open>None\<close> is a loop that does not return, and the theorems say when there is a result; no fuel is used. The poll functions of a tunnel return after at most
  the events of the script, and the delivery theorems give the number of polls that suffices.

  \<^bold>\<open>Not modelled.\<close> Sockets, timers, threads and the system (\<open>core/net\<close>, \<open>service/server\<close>, the accept loops and
  builders of \<open>service/local\<close>, \<open>service/manager\<close>, \<open>src/service\<close>): input and output without a function of their
  own. The name lookups themselves, and the message codec, of the DNS relay; tun, redirection, HTTP and
  tunnel front ends and the UDP associations: built on third-party state machines. The load balancer:
  floating-point scores of measured latencies. The JSON configuration (\<open>service/config.rs\<close>): a mapping of a
  serde structure. The Kotlin and JNI glue. Plain getters, \<open>Debug\<close> text and logging.
\<close>

end
